(* ===== verification/Prelude.thy ===== *)
theory Prelude
  imports Main "HOL-Library.Word" "HOL-Library.Product_Lexorder" "HOL-Library.Sublist"
    "HOL-Library.Multiset"
begin

text \<open>
  Shared vocabulary of the development: Python text as code point lists, identifiers, instants of
  time, truth values of optional columns, and database tables as row lists with the few query
  forms that the services use (\<open>select ... where\<close>, \<open>scalar\<close>, \<open>update\<close>, \<open>delete\<close>,
  \<open>count\<close>, \<open>order_by ... limit\<close>).  A table keeps its rows in insertion order.  The generic
  lemmas about these forms carry the proofs of every component.
\<close>

named_theorems table_simps \<open>rewriting of queries over updated tables\<close>
named_theorems frame_simps \<open>what an operation leaves unchanged\<close>

section \<open>Text, identifiers, time\<close>

text \<open>
  A Python \<open>str\<close> is a sequence of code points.  \<open>u\<close> embeds an ASCII literal of the source.
  A UUID is a 128 bit number; \<open>uuid_str\<close> is \<open>str(uuid)\<close>, the lower case hyphenated form.
  A \<open>datetime\<close> is an instant, counted in microseconds (the resolution of the database
  column); the time zone normalisation helpers \<open>_utc\<close> and \<open>_as_utc\<close> of the source do not
  change the instant.
\<close>

type_synonym ustr = "nat list"
type_synonym uuid = "128 word"
type_synonym datetime = int

definition u :: "string \<Rightarrow> ustr" where
  "u s = map of_char s"

definition seconds :: "int \<Rightarrow> int" where
  "seconds n = n * 1000000"

definition days :: "int \<Rightarrow> int" where
  "days n = n * 86400000000"

definition hex_digit :: "nat \<Rightarrow> nat" where
  "hex_digit d = (if d < 10 then 48 + d else 87 + d)"

fun hex_digits :: "nat \<Rightarrow> nat \<Rightarrow> ustr" where
  "hex_digits 0 n = []"
| "hex_digits (Suc k) n = hex_digits k (n div 16) @ [hex_digit (n mod 16)]"

definition uuid_str :: "uuid \<Rightarrow> ustr" where
  "uuid_str i = (let h = hex_digits 32 (unat i); dash = [45] in
     take 8 h @ dash @ take 4 (drop 8 h) @ dash @ take 4 (drop 12 h) @ dash
       @ take 4 (drop 16 h) @ dash @ drop 20 h)"

text \<open>Truth value of a nullable text column: both \<open>None\<close> and the empty string are false.\<close>

definition truthy :: "'a list option \<Rightarrow> bool" where
  "truthy x = (case x of None \<Rightarrow> False | Some s \<Rightarrow> s \<noteq> [])"

definition or_empty :: "'a list option \<Rightarrow> 'a list" where
  "or_empty x = (case x of None \<Rightarrow> [] | Some s \<Rightarrow> s)"

section \<open>Tables\<close>

definition update_where :: "('r \<Rightarrow> bool) \<Rightarrow> ('r \<Rightarrow> 'r) \<Rightarrow> 'r list \<Rightarrow> 'r list" where
  "update_where P f rows = map (\<lambda>r. if P r then f r else r) rows"

definition delete_where :: "('r \<Rightarrow> bool) \<Rightarrow> 'r list \<Rightarrow> 'r list" where
  "delete_where P rows = filter (\<lambda>r. \<not> P r) rows"

definition count_where :: "('r \<Rightarrow> bool) \<Rightarrow> 'r list \<Rightarrow> nat" where
  "count_where P rows = length (filter P rows)"

definition exists_where :: "('r \<Rightarrow> bool) \<Rightarrow> 'r list \<Rightarrow> bool" where
  "exists_where P rows = list_ex P rows"

text \<open>\<open>db.scalar(select(...).where(...))\<close>: the first matching row.\<close>

definition scalar :: "('r \<Rightarrow> bool) \<Rightarrow> 'r list \<Rightarrow> 'r option" where
  "scalar P rows = find P rows"

text \<open>\<open>select ... where ... order_by ... limit\<close>; ties keep the table's order.\<close>

definition select_ordered ::
  "('r \<Rightarrow> bool) \<Rightarrow> ('r \<Rightarrow> 'k::linorder) \<Rightarrow> nat \<Rightarrow> 'r list \<Rightarrow> 'r list" where
  "select_ordered P key n rows = take n (sort_key key (filter P rows))"

section \<open>Lemmas on text and identifiers\<close>

lemma u_inject [simp]: "u a = u b \<longleftrightarrow> a = b"
  unfolding u_def by (rule inj_map_eq_map) (rule inj_of_char)

lemma length_u [simp]: "length (u s) = length s"
  by (simp add: u_def)

lemma u_append: "u (a @ b) = u a @ u b"
  by (simp add: u_def)

lemma u_Nil_iff [simp]: "u s = [] \<longleftrightarrow> s = []"
  by (simp add: u_def)

lemma truthy_simps [simp]:
  "truthy None = False" "truthy (Some s) = (s \<noteq> [])"
  by (simp_all add: truthy_def)

lemma truthyD: "truthy x \<Longrightarrow> \<exists>s. x = Some s \<and> s \<noteq> []"
  by (cases x) auto

lemma or_empty_simps [simp]: "or_empty None = []" "or_empty (Some s) = s"
  by (simp_all add: or_empty_def)

lemma hex_digit_inj: "a < 16 \<Longrightarrow> b < 16 \<Longrightarrow> hex_digit a = hex_digit b \<Longrightarrow> a = b"
  by (auto simp: hex_digit_def split: if_splits)

lemma length_hex_digits [simp]: "length (hex_digits k n) = k"
  by (induction k arbitrary: n) auto

lemma div_16_less: "a < 16 ^ Suc k \<Longrightarrow> (a::nat) div 16 < 16 ^ k"
  by (rule less_mult_imp_div_less) (simp only: power_Suc mult.commute)

lemma hex_digits_inj:
  "a < 16 ^ k \<Longrightarrow> b < 16 ^ k \<Longrightarrow> hex_digits k a = hex_digits k b \<Longrightarrow> a = b"
proof (induction k arbitrary: a b)
  case (Suc k)
  have "hex_digit (a mod 16) = hex_digit (b mod 16)"
    and high: "hex_digits k (a div 16) = hex_digits k (b div 16)"
    using Suc.prems(3) by simp_all
  then have low: "a mod 16 = b mod 16"
    using hex_digit_inj [of "a mod 16" "b mod 16"] by simp
  have "a div 16 < 16 ^ k" "b div 16 < 16 ^ k"
    using Suc.prems(1,2) by (simp_all only: div_16_less)
  then have div: "a div 16 = b div 16"
    using Suc.IH high by blast
  have "a = a div 16 * 16 + a mod 16" by (rule div_mult_mod_eq [symmetric])
  also have "\<dots> = b div 16 * 16 + b mod 16" by (simp only: div low)
  also have "\<dots> = b" by (rule div_mult_mod_eq)
  finally show ?case .
qed simp

lemma join_5:
  "take 8 h @ take 4 (drop 8 h) @ take 4 (drop 12 h) @ take 4 (drop 16 h) @ drop 20 h = h"
proof -
  have "take 4 (drop 8 h) @ drop 12 h = drop 8 h"
    using append_take_drop_id [of 4 "drop 8 h"] by simp
  moreover have "take 4 (drop 12 h) @ drop 16 h = drop 12 h"
    using append_take_drop_id [of 4 "drop 12 h"] by simp
  moreover have "take 4 (drop 16 h) @ drop 20 h = drop 16 h"
    using append_take_drop_id [of 4 "drop 16 h"] by simp
  ultimately show ?thesis by simp
qed

lemma hyphenated_hex:
  assumes "length h = 32"
    and "s = take 8 h @ [45] @ take 4 (drop 8 h) @ [45] @ take 4 (drop 12 h) @ [45]
             @ take 4 (drop 16 h) @ [45] @ drop 20 h"
  shows "take 8 s @ take 4 (drop 9 s) @ take 4 (drop 14 s) @ take 4 (drop 19 s) @ drop 24 s = h"
  using assms by (simp add: join_5)

lemma uuid_str_hex:
  "\<exists>f. \<forall>i. f (uuid_str i) = hex_digits 32 (unat i)"
  using hyphenated_hex [OF length_hex_digits uuid_str_def [unfolded Let_def]]
  by (intro exI [of _ "\<lambda>s. take 8 s @ take 4 (drop 9 s) @ take 4 (drop 14 s)
      @ take 4 (drop 19 s) @ drop 24 s"]) blast

lemma uuid_str_inject [simp]: "uuid_str a = uuid_str b \<longleftrightarrow> a = b"
proof
  assume "uuid_str a = uuid_str b"
  then have same: "hex_digits 32 (unat a) = hex_digits 32 (unat b)"
    using uuid_str_hex by metis
  have "(2::nat) ^ LENGTH(128) = 16 ^ 32" by simp
  then have "unat a < 16 ^ 32" "unat b < 16 ^ 32"
    using unsigned_less [of a] unsigned_less [of b] by metis+
  then have "unat a = unat b"
    using same hex_digits_inj by blast
  then show "a = b" by (simp only: word_unat_eq_iff)
qed simp

lemma length_uuid_str [simp]: "length (uuid_str i) = 36"
  by (simp add: uuid_str_def Let_def)

section \<open>Lemmas on tables\<close>

lemma update_where_simps [simp]:
  "update_where P f [] = []"
  "update_where P f (r # rs) = (if P r then f r else r) # update_where P f rs"
  by (simp_all add: update_where_def)

lemma length_update_where [simp]: "length (update_where P f rows) = length rows"
  by (simp add: update_where_def)

lemma update_where_append [simp]:
  "update_where P f (xs @ ys) = update_where P f xs @ update_where P f ys"
  by (simp add: update_where_def)

lemma map_update_where [table_simps]:
  "(\<And>r. P r \<Longrightarrow> g (f r) = g r) \<Longrightarrow> map g (update_where P f rows) = map g rows"
  by (simp add: update_where_def comp_def)

lemma update_where_idle [table_simps]:
  "(\<And>r. r \<in> set rows \<Longrightarrow> P r \<Longrightarrow> f r = r) \<Longrightarrow> update_where P f rows = rows"
  by (simp add: update_where_def map_idI)

lemma in_set_update_where:
  "r \<in> set (update_where P f rows) \<longleftrightarrow>
     (\<exists>r0 \<in> set rows. r = (if P r0 then f r0 else r0))"
  by (auto simp: update_where_def)

lemma update_where_image:
  "r \<in> set rows \<Longrightarrow> (if P r then f r else r) \<in> set (update_where P f rows)"
  by (auto simp: update_where_def)

lemma set_delete_where [simp]: "set (delete_where P rows) = {r \<in> set rows. \<not> P r}"
  by (auto simp: delete_where_def)

lemma delete_where_simps [simp]:
  "delete_where P [] = []"
  "delete_where P (r # rs) = (if P r then delete_where P rs else r # delete_where P rs)"
  by (simp_all add: delete_where_def)

lemma count_where_simps [simp]:
  "count_where P [] = 0"
  "count_where P (r # rs) = (if P r then Suc (count_where P rs) else count_where P rs)"
  "count_where P (rs @ ss) = count_where P rs + count_where P ss"
  by (simp_all add: count_where_def)

lemma exists_where_iff [simp]: "exists_where P rows \<longleftrightarrow> (\<exists>r \<in> set rows. P r)"
  by (simp add: exists_where_def list_ex_iff)

lemma count_where_zero_iff: "count_where P rows = 0 \<longleftrightarrow> (\<forall>r \<in> set rows. \<not> P r)"
  by (simp add: count_where_def filter_empty_conv)

lemma count_where_mono:
  "(\<And>r. r \<in> set rows \<Longrightarrow> P r \<Longrightarrow> Q r) \<Longrightarrow> count_where P rows \<le> count_where Q rows"
  by (induction rows) auto

lemma count_where_update_le:
  "(\<And>r. r \<in> set rows \<Longrightarrow> P r \<Longrightarrow> Q (f r) \<Longrightarrow> Q r) \<Longrightarrow>
     count_where Q (update_where P f rows) \<le> count_where Q rows"
  by (induction rows) auto

lemma count_where_delete_le: "count_where Q (delete_where P rows) \<le> count_where Q rows"
  by (induction rows) auto

lemma scalar_Some:
  "scalar P rows = Some r \<Longrightarrow> r \<in> set rows \<and> P r"
  by (auto simp: scalar_def find_Some_iff)

lemma scalar_SomeD:
  assumes "scalar P rows = Some r"
  shows "r \<in> set rows" "P r"
  using scalar_Some [OF assms] by auto

lemma scalar_None_iff: "scalar P rows = None \<longleftrightarrow> (\<forall>r \<in> set rows. \<not> P r)"
  by (auto simp: scalar_def find_None_iff)

lemma scalar_simps [simp]:
  "scalar P [] = None"
  "scalar P (r # rs) = (if P r then Some r else scalar P rs)"
  by (simp_all add: scalar_def)

lemma scalar_unique:
  assumes "distinct (map key rows)" "r \<in> set rows" "P r" "\<And>s. P s \<Longrightarrow> key s = key r"
  shows "scalar P rows = Some r"
  using assms
proof (induction rows)
  case (Cons a rows)
  show ?case
  proof (cases "P a")
    case True
    then have "key a = key r" using Cons.prems(4) by blast
    then have "a = r"
      using Cons.prems(1,2) by (auto simp: image_iff)
    then show ?thesis using True by simp
  next
    case False
    then have "r \<in> set rows" using Cons.prems(2,3) by auto
    moreover have "distinct (map key rows)" using Cons.prems(1) by simp
    ultimately have "scalar P rows = Some r"
      using Cons.IH Cons.prems(3,4) by blast
    then show ?thesis using False by simp
  qed
qed simp

lemma set_select_ordered:
  "set (select_ordered P key n rows) \<subseteq> {r \<in> set rows. P r}"
  using set_take_subset by (fastforce simp: select_ordered_def)

lemma length_select_ordered: "length (select_ordered P key n rows) \<le> n"
  by (simp add: select_ordered_def)

lemma set_select_ordered_all:
  "count_where P rows \<le> n \<Longrightarrow> set (select_ordered P key n rows) = {r \<in> set rows. P r}"
  by (simp add: select_ordered_def count_where_def)

lemma distinct_update_where_key:
  assumes "distinct (map key rows)" "\<And>r. P r \<Longrightarrow> key (f r) = key r"
  shows "distinct (map key (update_where P f rows))"
  using assms by (simp add: map_update_where)

lemma distinct_delete_where_key:
  "distinct (map key rows) \<Longrightarrow> distinct (map key (delete_where P rows))"
  by (simp add: delete_where_def distinct_map_filter)

lemma map_key_sort_key: "map key (sort_key key xs) = sort (map key xs)"
  by (rule properties_for_sort [symmetric]) simp_all

lemma sort_interval:
  assumes "distinct xs" "set xs = {a..<b}"
  shows "sort xs = [a..<b]"
  using assms by (metis sorted_list_of_set_sort_remdups distinct_remdups_id
      sorted_list_of_set_range)

end
