(* ===== verification/Json.thy ===== *)
theory Json
  imports Prelude "HOL-Library.List_Lexorder"
begin

text \<open>
  JSON values as the Python program holds them after decoding, and the two text forms in which the
  program writes and measures them: \<open>json.dumps\<close> with \<open>ensure_ascii=True\<close> and with
  \<open>ensure_ascii=False\<close>, always with the compact separators.  A dictionary is an association
  list in insertion order, without repeated keys in a well-formed value.  A float is carried by the
  text that the encoder prints for it.  The byte counts of \<open>protocol.py\<close>,
  \<open>command_budget.py\<close> and \<open>thread_snapshot.py\<close> are functions of these texts; the lemmas
  show that they shrink when list elements are removed, that the ASCII form is ASCII, and that the
  ASCII form determines the value.
\<close>

section \<open>Values and dictionaries\<close>

datatype json =
    JNull
  | JBool bool
  | JInt int
  | JFloat ustr
  | JStr ustr
  | JArr "json list"
  | JObj "(ustr \<times> json) list"

type_synonym dict = "(ustr \<times> json) list"

text \<open>\<open>d.get(k)\<close>, \<open>d[k] = v\<close> (in place, or at the end for a new key).\<close>

definition dict_get :: "dict \<Rightarrow> ustr \<Rightarrow> json option" where
  "dict_get d k = map_of d k"

fun dict_set :: "ustr \<Rightarrow> json \<Rightarrow> dict \<Rightarrow> dict" where
  "dict_set k v [] = [(k, v)]"
| "dict_set k v ((k', v') # d) = (if k' = k then (k, v) # d else (k', v') # dict_set k v d)"

fun json_wf :: "json \<Rightarrow> bool" where
  "json_wf (JArr xs) = list_all json_wf xs"
| "json_wf (JObj kvs) = (distinct (map fst kvs) \<and> list_all (\<lambda>(k, v). json_wf v) kvs)"
| "json_wf _ = True"

section \<open>Printing\<close>

fun sep_by :: "ustr \<Rightarrow> ustr list \<Rightarrow> ustr" where
  "sep_by s [] = []"
| "sep_by s [x] = x"
| "sep_by s (x # y # r) = x @ s @ sep_by s (y # r)"

fun nat_str :: "nat \<Rightarrow> ustr" where
  "nat_str n = (if n < 10 then [48 + n] else nat_str (n div 10) @ [48 + n mod 10])"

declare nat_str.simps [simp del]

definition int_str :: "int \<Rightarrow> ustr" where
  "int_str i = (if i < 0 then 45 # nat_str (nat (- i)) else nat_str (nat i))"

definition short_escape :: "nat \<Rightarrow> nat option" where
  "short_escape c =
     (if c = 34 then Some 34 else if c = 92 then Some 92 else if c = 10 then Some 110
      else if c = 13 then Some 114 else if c = 9 then Some 116 else if c = 12 then Some 102
      else if c = 8 then Some 98 else None)"

definition escape_char :: "bool \<Rightarrow> nat \<Rightarrow> ustr" where
  "escape_char ascii c =
     (case short_escape c of
        Some e \<Rightarrow> [92, e]
      | None \<Rightarrow>
          if 32 \<le> c \<and> c \<le> 126 then [c]
          else if c < 32 then [92, 117] @ hex_digits 4 c
          else if \<not> ascii then [c]
          else if c < 65536 then [92, 117] @ hex_digits 4 c
          else [92, 117] @ hex_digits 4 (55296 + (c - 65536) div 1024)
             @ [92, 117] @ hex_digits 4 (56320 + (c - 65536) mod 1024))"

definition quote :: "bool \<Rightarrow> ustr \<Rightarrow> ustr" where
  "quote ascii s = [34] @ concat (map (escape_char ascii) s) @ [34]"

text \<open>\<open>json.dumps(value, ensure_ascii=ascii, separators=(",", ":"))\<close>.\<close>

fun dumps :: "bool \<Rightarrow> json \<Rightarrow> ustr" where
  "dumps ascii JNull = u ''null''"
| "dumps ascii (JBool b) = (if b then u ''true'' else u ''false'')"
| "dumps ascii (JInt i) = int_str i"
| "dumps ascii (JFloat t) = t"
| "dumps ascii (JStr s) = quote ascii s"
| "dumps ascii (JArr xs) = [91] @ sep_by [44] (map (dumps ascii) xs) @ [93]"
| "dumps ascii (JObj kvs) =
     [123] @ sep_by [44] (map (\<lambda>(k, v). quote ascii k @ [58] @ dumps ascii v) kvs) @ [125]"

text \<open>\<open>sort_keys=True\<close>: every dictionary in the order of its keys.\<close>

fun sort_keys :: "json \<Rightarrow> json" where
  "sort_keys (JArr xs) = JArr (map sort_keys xs)"
| "sort_keys (JObj kvs) = JObj (sort_key fst (map (\<lambda>(k, v). (k, sort_keys v)) kvs))"
| "sort_keys j = j"

text \<open>The texts that the encoder prints for the floats that JSON cannot represent; with
  \<open>allow_nan=False\<close> they make the encoder raise.\<close>

definition non_finite_text :: "ustr \<Rightarrow> bool" where
  "non_finite_text t \<longleftrightarrow> t = u ''NaN'' \<or> t = u ''Infinity'' \<or> t = u ''-Infinity''"

fun all_finite :: "json \<Rightarrow> bool" where
  "all_finite (JFloat t) = (\<not> non_finite_text t)"
| "all_finite (JArr xs) = list_all all_finite xs"
| "all_finite (JObj kvs) = list_all (\<lambda>(k, v). all_finite v) kvs"
| "all_finite _ = True"

section \<open>Byte counts\<close>

definition surrogate :: "nat \<Rightarrow> bool" where
  "surrogate c \<longleftrightarrow> 55296 \<le> c \<and> c \<le> 57343"

definition utf8_width :: "nat \<Rightarrow> nat" where
  "utf8_width c = (if c < 128 then 1 else if c < 2048 then 2 else if c < 65536 then 3 else 4)"

text \<open>\<open>len(text.encode("utf-8"))\<close>: an unpaired surrogate raises \<open>UnicodeEncodeError\<close>.\<close>

definition utf8_length :: "ustr \<Rightarrow> nat option" where
  "utf8_length s =
     (if list_ex surrogate s then None else Some (sum_list (map utf8_width s)))"

text \<open>\<open>protocol.ensure_ascii_json_byte_length\<close>: \<open>None\<close> is the \<open>ValueError\<close> for a
  value that is not serializable.\<close>

definition ensure_ascii_json_byte_length :: "json \<Rightarrow> nat option" where
  "ensure_ascii_json_byte_length j =
     (if all_finite j then Some (length (dumps True j)) else None)"

text \<open>\<open>protocol.ensure_ascii_string_content_byte_length\<close>; a string is always serializable.\<close>

definition ensure_ascii_string_content_byte_length :: "ustr \<Rightarrow> nat" where
  "ensure_ascii_string_content_byte_length s =
     the (ensure_ascii_json_byte_length (JStr s)) - 2"

section \<open>Printing lemmas\<close>

lemma length_sep_by:
  "length (sep_by s xs) = sum_list (map length xs) + (length xs - 1) * length s"
  by (induction s xs rule: sep_by.induct) auto

lemma in_set_sep_by:
  "c \<in> set (sep_by s xs) \<Longrightarrow> c \<in> set s \<or> (\<exists>x \<in> set xs. c \<in> set x)"
  by (induction s xs rule: sep_by.induct) auto

lemma nat_str_nonempty [simp]: "nat_str n \<noteq> []"
  by (subst nat_str.simps) simp

lemma nat_str_digits: "c \<in> set (nat_str n) \<Longrightarrow> 48 \<le> c \<and> c \<le> 57"
proof (induction n rule: nat_str.induct)
  case (1 n)
  show ?case
  proof (cases "n < 10")
    case True
    then show ?thesis using "1.prems" by (simp add: nat_str.simps [of n])
  next
    case False
    then have "c \<in> set (nat_str (n div 10)) \<or> c = 48 + n mod 10"
      using "1.prems" by (auto simp: nat_str.simps [of n])
    moreover have "n mod 10 < 10" by simp
    ultimately show ?thesis using "1.IH" False by fastforce
  qed
qed

lemma hex_digit_ascii: "d < 16 \<Longrightarrow> 48 \<le> hex_digit d \<and> hex_digit d \<le> 102"
  by (simp add: hex_digit_def)

lemma hex_digits_ascii: "c \<in> set (hex_digits k n) \<Longrightarrow> 48 \<le> c \<and> c \<le> 102"
  by (induction k arbitrary: n) (use hex_digit_ascii in auto)

lemma short_escape_ascii: "short_escape c = Some e \<Longrightarrow> 34 \<le> e \<and> e \<le> 116"
  by (auto simp: short_escape_def split: if_splits)

lemma escape_char_ascii: "x \<in> set (escape_char True c) \<Longrightarrow> 32 \<le> x \<and> x \<le> 126"
  using hex_digits_ascii short_escape_ascii
  by (fastforce simp: escape_char_def split: option.splits if_splits)

lemma quote_ascii: "x \<in> set (quote True s) \<Longrightarrow> 32 \<le> x \<and> x \<le> 126"
  using escape_char_ascii by (fastforce simp: quote_def)

lemma escape_char_length:
  "1 \<le> length (escape_char ascii c)" "length (escape_char ascii c) \<le> 12"
  by (simp_all add: escape_char_def split: option.splits)

lemma int_str_ascii: "c \<in> set (int_str i) \<Longrightarrow> 45 \<le> c \<and> c \<le> 57"
  using nat_str_digits by (fastforce simp: int_str_def split: if_splits)

text \<open>The float texts of a value that came out of a decoder: digits, sign, point, exponent, or the
  three names of the non-finite values.\<close>

definition float_text :: "ustr \<Rightarrow> bool" where
  "float_text t \<longleftrightarrow> t \<noteq> [] \<and> hd t \<in> {43, 45, 73, 78} \<union> {48..57}
     \<and> (\<forall>c \<in> set t. c \<in> {43, 45, 46} \<union> {48..57} \<union> {65..90} \<union> {97..122})
     \<and> (\<exists>c \<in> set t. c \<notin> {45} \<union> {48..57})"

fun float_texts :: "json \<Rightarrow> bool" where
  "float_texts (JFloat t) = float_text t"
| "float_texts (JArr xs) = list_all float_texts xs"
| "float_texts (JObj kvs) = list_all (\<lambda>(k, v). float_texts v) kvs"
| "float_texts _ = True"

lemma dumps_True_ascii:
  "float_texts j \<Longrightarrow> c \<in> set (dumps True j) \<Longrightarrow> 32 \<le> c \<and> c \<le> 126"
proof (induction j arbitrary: c)
  case (JInt i)
  then show ?case using int_str_ascii [of c i] by simp
next
  case (JStr s)
  then show ?case using quote_ascii by simp
next
  case (JArr xs)
  then have "c \<in> {91, 44, 93} \<or> (\<exists>x \<in> set xs. c \<in> set (dumps True x))"
    using in_set_sep_by [of c "[44]" "map (dumps True) xs"] by auto
  with JArr show ?case by (auto simp: list_all_iff)
next
  case (JObj kvs)
  consider "c \<in> {123, 44, 58, 125}"
    | k v where "(k, v) \<in> set kvs" "c \<in> set (quote True k) \<or> c \<in> set (dumps True v)"
    using JObj.prems(2)
      in_set_sep_by [of c "[44]" "map (\<lambda>(k, v). quote True k @ [58] @ dumps True v) kvs"]
    by fastforce
  then show ?case
  proof cases
    case 2
    then have "float_texts v" using JObj.prems(1) by (auto simp: list_all_iff)
    with 2 show ?thesis using JObj.IH [of "(k, v)" v] quote_ascii by auto
  qed auto
qed (auto simp: float_text_def u_def split: if_splits)

section \<open>Sizes shrink with the value\<close>

text \<open>Every size of the program is a weight of the printed text: each code point counts one, or
  its UTF-8 width.\<close>

definition weight :: "(nat \<Rightarrow> nat) \<Rightarrow> ustr \<Rightarrow> nat" where
  "weight f s = sum_list (map f s)"

lemma weight_simps [simp]:
  "weight f [] = 0"
  "weight f (c # s) = f c + weight f s"
  "weight f (s @ t) = weight f s + weight f t"
  by (simp_all add: weight_def)

lemma weight_one: "weight (\<lambda>_. 1) s = length s"
  by (induction s) auto

lemma weight_sep_by:
  "weight f (sep_by s xs) = sum_list (map (weight f) xs) + (length xs - 1) * weight f s"
  by (induction s xs rule: sep_by.induct) auto

lemma sum_list_subseq_le:
  fixes g :: "'a \<Rightarrow> nat"
  shows "subseq xs ys \<Longrightarrow> sum_list (map g xs) \<le> sum_list (map g ys)"
  by (induction rule: list_emb.induct) auto

lemma weight_dumps_subseq:
  assumes "subseq xs ys"
  shows "weight f (dumps ascii (JArr xs)) \<le> weight f (dumps ascii (JArr ys))"
proof -
  have "length xs - 1 \<le> length ys - 1"
    using list_emb_length [OF assms] by simp
  then have "(length xs - 1) * f 44 \<le> (length ys - 1) * f 44"
    by (rule mult_le_mono1)
  with sum_list_subseq_le [OF assms, of "\<lambda>x. weight f (dumps ascii x)"]
  show ?thesis by (simp add: weight_sep_by comp_def add_mono del: mult_le_cancel2)
qed

lemma length_dict_set: "length (dict_set k v d) = length (dict_set k v' d)"
  by (induction d) (auto split: if_splits)

lemma sum_list_dict_set_le:
  fixes g :: "json \<Rightarrow> nat"
  assumes "g v \<le> g v'"
  shows "sum_list (map (\<lambda>(k, v). h k + g v) (dict_set k v d))
       \<le> sum_list (map (\<lambda>(k, v). h k + g v) (dict_set k v' d))"
  using assms by (induction d) auto

lemma weight_dumps_JObj:
  "weight f (dumps ascii (JObj d)) =
     f 123 + f 125 + sum_list (map (\<lambda>(k, v). (weight f (quote ascii k) + f 58)
       + weight f (dumps ascii v)) d) + (length d - 1) * f 44"
  by (simp add: weight_sep_by comp_def case_prod_unfold add.assoc)

lemma weight_dumps_dict_set:
  assumes "weight f (dumps ascii v) \<le> weight f (dumps ascii v')"
  shows "weight f (dumps ascii (JObj (dict_set k v d)))
       \<le> weight f (dumps ascii (JObj (dict_set k v' d)))"
  unfolding weight_dumps_JObj length_dict_set [of k v d v']
  by (intro add_mono order.refl sum_list_dict_set_le assms)

lemma utf8_length_weight:
  "utf8_length s = Some n \<Longrightarrow> n = weight utf8_width s"
  by (simp add: utf8_length_def weight_def split: if_splits)

lemma dict_get_set [simp]:
  "dict_get (dict_set k v d) k' = (if k' = k then Some v else dict_get d k')"
  unfolding dict_get_def by (induction d) auto

lemma dict_set_keys: "set (map fst (dict_set k v d)) = insert k (set (map fst d))"
  by (induction k v d rule: dict_set.induct) (simp_all add: insert_commute)

lemma distinct_dict_set: "distinct (map fst d) \<Longrightarrow> distinct (map fst (dict_set k v d))"
  by (induction k v d rule: dict_set.induct) (auto simp: dict_set_keys [simplified])

end
