(* ===== verification/Json_Parse.thy ===== *)
theory Json_Parse
  imports Json
begin

text \<open>
  \<open>json.loads\<close> on text: the scanner of the Python standard library as recursive functions over
  the remaining input, with a fuel argument bounding the nesting and the number of elements.  The
  fuel that \<open>loads\<close> supplies is always enough: more fuel gives the same result.  The
  value of a float literal is printed again by \<open>float_repr\<close>, the composition of Python's
  \<open>float(...)\<close> and \<open>float.__repr__\<close>, which is an argument.  The main result is the round
  trip: reading what \<open>json.dumps\<close> wrote gives the value back.
\<close>

section \<open>Scanner\<close>

definition is_ws :: "nat \<Rightarrow> bool" where
  "is_ws c \<longleftrightarrow> c = 32 \<or> c = 9 \<or> c = 10 \<or> c = 13"

definition skip_ws :: "ustr \<Rightarrow> ustr" where
  "skip_ws s = dropWhile is_ws s"

definition is_digit :: "nat \<Rightarrow> bool" where
  "is_digit c \<longleftrightarrow> 48 \<le> c \<and> c \<le> 57"

definition hex_value :: "nat \<Rightarrow> nat option" where
  "hex_value c =
     (if 48 \<le> c \<and> c \<le> 57 then Some (c - 48)
      else if 97 \<le> c \<and> c \<le> 102 then Some (c - 87)
      else if 65 \<le> c \<and> c \<le> 70 then Some (c - 55)
      else None)"

fun scan_hex4 :: "ustr \<Rightarrow> (nat \<times> ustr) option" where
  "scan_hex4 (a # b # c # d # r) =
     (case (hex_value a, hex_value b, hex_value c, hex_value d) of
        (Some a', Some b', Some c', Some d') \<Rightarrow>
          Some (((a' * 16 + b') * 16 + c') * 16 + d', r)
      | _ \<Rightarrow> None)"
| "scan_hex4 _ = None"

definition unescape_short :: "nat \<Rightarrow> nat option" where
  "unescape_short e =
     (if e = 34 then Some 34 else if e = 92 then Some 92 else if e = 47 then Some 47
      else if e = 98 then Some 8 else if e = 102 then Some 12 else if e = 110 then Some 10
      else if e = 114 then Some 13 else if e = 116 then Some 9 else None)"

definition scan_unicode :: "ustr \<Rightarrow> (nat \<times> ustr) option" where
  "scan_unicode s =
     (case scan_hex4 s of
        None \<Rightarrow> None
      | Some (h, r) \<Rightarrow>
          if 55296 \<le> h \<and> h \<le> 56319 then
            (case r of
               x # y # r' \<Rightarrow>
                 if x = 92 \<and> y = 117 then
                   (case scan_hex4 r' of
                      None \<Rightarrow> None
                    | Some (l, r'') \<Rightarrow>
                        if 56320 \<le> l \<and> l \<le> 57343
                        then Some (65536 + ((h - 55296) * 1024 + (l - 56320)), r'')
                        else Some (h, r))
                 else Some (h, r)
             | _ \<Rightarrow> Some (h, r))
          else Some (h, r))"

text \<open>One step inside a string: the closing quote (\<open>Inl\<close>) or one code point (\<open>Inr\<close>).\<close>

fun scan_char :: "ustr \<Rightarrow> (unit + nat) option \<times> ustr" where
  "scan_char [] = (None, [])"
| "scan_char (c # r) =
     (if c = 34 then (Some (Inl ()), r)
      else if c < 32 then (None, [])
      else if c \<noteq> 92 then (Some (Inr c), r)
      else (case r of
              [] \<Rightarrow> (None, [])
            | e # r' \<Rightarrow>
                if e = 117 then
                  (case scan_unicode r' of None \<Rightarrow> (None, []) | Some (h, r'') \<Rightarrow> (Some (Inr h), r''))
                else
                  (case unescape_short e of
                     None \<Rightarrow> (None, []) | Some x \<Rightarrow> (Some (Inr x), r'))))"

lemma scan_hex4_length: "scan_hex4 s = Some (h, r) \<Longrightarrow> length r + 4 = length s"
  by (cases s rule: scan_hex4.cases) (auto split: option.splits)

lemma scan_unicode_length:
  assumes "scan_unicode s = Some (h, r)"
  shows "length r < length s"
proof -
  obtain h0 r0 where h0: "scan_hex4 s = Some (h0, r0)"
    using assms by (auto simp: scan_unicode_def split: option.splits)
  have "r = r0 \<or> (\<exists>x y r' l. r0 = x # y # r' \<and> scan_hex4 r' = Some (l, r))"
    using assms h0
    by (auto simp: scan_unicode_def split: option.splits if_splits list.splits)
  then show ?thesis
    using scan_hex4_length [OF h0] by (auto dest!: scan_hex4_length)
qed

lemma scan_char_length:
  assumes "scan_char s = (Some x, r)"
  shows "length r < length s"
proof (cases s)
  case (Cons c t)
  then consider "r = t" | e where "t = e # r"
    | e r' h where "t = e # r'" "scan_unicode r' = Some (h, r)"
    using assms by (auto split: option.splits if_splits list.splits)
  then show ?thesis
    using Cons by cases (auto dest: scan_unicode_length)
qed (use assms in simp)

function scan_string :: "ustr \<Rightarrow> (ustr \<times> ustr) option" where
  "scan_string s =
     (case scan_char s of
        (None, _) \<Rightarrow> None
      | (Some (Inl _), r) \<Rightarrow> Some ([], r)
      | (Some (Inr c), r) \<Rightarrow> map_option (\<lambda>(t, r'). (c # t, r')) (scan_string r))"
  by pat_completeness auto
termination
  by (relation "measure length") (auto dest: scan_char_length [OF sym])

declare scan_string.simps [simp del]

fun digits_value :: "nat \<Rightarrow> ustr \<Rightarrow> nat" where
  "digits_value n [] = n"
| "digits_value n (c # s) = digits_value (10 * n + (c - 48)) s"

text \<open>The number expression \<open>(-?(?:0|[1-9]\d*))(\.\d+)?([eE][-+]?\d+)?\<close>: integer part,
  fraction and exponent as text, and the rest.\<close>

definition scan_int_body :: "ustr \<Rightarrow> ustr \<Rightarrow> (ustr \<times> ustr) option" where
  "scan_int_body sign s =
     (case s of
        [] \<Rightarrow> None
      | d # r \<Rightarrow>
          if d = 48 then Some (sign @ [48], r)
          else if is_digit d then Some (sign @ takeWhile is_digit s, dropWhile is_digit s)
          else None)"

definition scan_int_part :: "ustr \<Rightarrow> (ustr \<times> ustr) option" where
  "scan_int_part s =
     (case s of
        c # r \<Rightarrow> if c = 45 then scan_int_body [45] r else scan_int_body [] s
      | [] \<Rightarrow> None)"

definition scan_frac :: "ustr \<Rightarrow> ustr \<times> ustr" where
  "scan_frac s =
     (case s of
        c # d # r \<Rightarrow>
          if c = 46 \<and> is_digit d
          then (46 # takeWhile is_digit (d # r), dropWhile is_digit (d # r)) else ([], s)
      | _ \<Rightarrow> ([], s))"

definition scan_exp :: "ustr \<Rightarrow> ustr \<times> ustr" where
  "scan_exp s =
     (case s of
        e # r \<Rightarrow>
          if e = 101 \<or> e = 69 then
            (let (sign, r') = (case r of c # r' \<Rightarrow> if c = 43 \<or> c = 45 then ([c], r') else ([], r)
                                       | [] \<Rightarrow> ([], r)) in
             if r' \<noteq> [] \<and> is_digit (hd r')
             then (e # sign @ takeWhile is_digit r', dropWhile is_digit r') else ([], s))
          else ([], s)
      | [] \<Rightarrow> ([], s))"

definition int_of_text :: "ustr \<Rightarrow> int" where
  "int_of_text t = (case t of
     c # r \<Rightarrow> if c = 45 then - int (digits_value 0 r) else int (digits_value 0 t)
   | [] \<Rightarrow> 0)"

definition scan_number :: "(ustr \<Rightarrow> ustr) \<Rightarrow> ustr \<Rightarrow> (json \<times> ustr) option" where
  "scan_number float_repr s =
     (case scan_int_part s of
        None \<Rightarrow> None
      | Some (ip, r) \<Rightarrow>
          (let (fp, r') = scan_frac r; (ep, r'') = scan_exp r' in
           if fp = [] \<and> ep = [] then Some (JInt (int_of_text ip), r'')
           else Some (JFloat (float_repr (ip @ fp @ ep)), r'')))"

definition strip_prefix :: "ustr \<Rightarrow> ustr \<Rightarrow> ustr option" where
  "strip_prefix p s = (if take (length p) s = p then Some (drop (length p) s) else None)"

definition scan_literal :: "(ustr \<Rightarrow> ustr) \<Rightarrow> ustr \<Rightarrow> (json \<times> ustr) option" where
  "scan_literal float_repr s =
     (case strip_prefix (u ''null'') s of Some r \<Rightarrow> Some (JNull, r) | None \<Rightarrow>
      case strip_prefix (u ''true'') s of Some r \<Rightarrow> Some (JBool True, r) | None \<Rightarrow>
      case strip_prefix (u ''false'') s of Some r \<Rightarrow> Some (JBool False, r) | None \<Rightarrow>
      case strip_prefix (u ''NaN'') s of Some r \<Rightarrow> Some (JFloat (u ''NaN''), r) | None \<Rightarrow>
      case strip_prefix (u ''Infinity'') s of Some r \<Rightarrow> Some (JFloat (u ''Infinity''), r) | None \<Rightarrow>
      case strip_prefix (u ''-Infinity'') s of Some r \<Rightarrow> Some (JFloat (u ''-Infinity''), r) | None \<Rightarrow>
      scan_number float_repr s)"

fun scan_once :: "(ustr \<Rightarrow> ustr) \<Rightarrow> nat \<Rightarrow> ustr \<Rightarrow> (json \<times> ustr) option"
  and scan_items :: "(ustr \<Rightarrow> ustr) \<Rightarrow> nat \<Rightarrow> ustr \<Rightarrow> (json list \<times> ustr) option"
  and scan_members :: "(ustr \<Rightarrow> ustr) \<Rightarrow> nat \<Rightarrow> ustr \<Rightarrow> (dict \<times> ustr) option" where
  "scan_once fr 0 s = None"
| "scan_once fr (Suc n) s =
     (case s of
        [] \<Rightarrow> None
      | c # r \<Rightarrow>
          if c = 34 then map_option (\<lambda>(t, r'). (JStr t, r')) (scan_string r)
          else if c = 91 then
            (case skip_ws r of
               [] \<Rightarrow> None
             | d # r' \<Rightarrow> if d = 93 then Some (JArr [], r')
                 else map_option (\<lambda>(xs, q). (JArr xs, q)) (scan_items fr n (d # r')))
          else if c = 123 then
            (case skip_ws r of
               [] \<Rightarrow> None
             | d # r' \<Rightarrow> if d = 125 then Some (JObj [], r')
                 else map_option (\<lambda>(m, q). (JObj (fold (\<lambda>(k, v). dict_set k v) m []), q))
                        (scan_members fr n (d # r')))
          else scan_literal fr s)"
| "scan_items fr 0 s = None"
| "scan_items fr (Suc n) s =
     (case scan_once fr n s of
        None \<Rightarrow> None
      | Some (x, r) \<Rightarrow>
          (case skip_ws r of
             [] \<Rightarrow> None
           | d # r' \<Rightarrow>
               if d = 93 then Some ([x], r')
               else if d = 44 then map_option (\<lambda>(xs, q). (x # xs, q)) (scan_items fr n (skip_ws r'))
               else None))"
| "scan_members fr 0 s = None"
| "scan_members fr (Suc n) s =
     (case s of
        [] \<Rightarrow> None
      | c # r \<Rightarrow>
          if c \<noteq> 34 then None
          else (case scan_string r of
             None \<Rightarrow> None
           | Some (k, r1) \<Rightarrow>
               (case skip_ws r1 of
                  [] \<Rightarrow> None
                | e # r2 \<Rightarrow>
                    if e \<noteq> 58 then None
                    else (case scan_once fr n (skip_ws r2) of
                       None \<Rightarrow> None
                     | Some (v, r3) \<Rightarrow>
                         (case skip_ws r3 of
                            [] \<Rightarrow> None
                          | d # r4 \<Rightarrow>
                              if d = 125 then Some ([(k, v)], r4)
                              else if d = 44 then
                                map_option (\<lambda>(m, q). ((k, v) # m, q)) (scan_members fr n (skip_ws r4))
                              else None)))))"

text \<open>\<open>json.loads(text)\<close>: \<open>None\<close> is \<open>JSONDecodeError\<close>.\<close>

definition loads :: "(ustr \<Rightarrow> ustr) \<Rightarrow> ustr \<Rightarrow> json option" where
  "loads fr s =
     (if s \<noteq> [] \<and> hd s = 65279 then None
      else case scan_once fr (2 * length s + 2) (skip_ws s) of
             None \<Rightarrow> None
           | Some (j, r) \<Rightarrow> if skip_ws r = [] then Some j else None)"

section \<open>Strings round trip\<close>

lemma hex_value_digit: "d < 16 \<Longrightarrow> hex_value (hex_digit d) = Some d"
  by (simp add: hex_value_def hex_digit_def)

lemma scan_hex4_digits:
  assumes "n < 65536"
  shows "scan_hex4 (hex_digits 4 n @ r) = Some (n, r)"
proof -
  have m: "k mod 16 < 16" for k :: nat by simp
  have top: "n div 16 div 16 div 16 < 16"
    using assms by (simp add: div_mult2_eq [symmetric] less_mult_imp_div_less)
  have "((n div 16 div 16 div 16 * 16 + n div 16 div 16 mod 16) * 16 + n div 16 mod 16) * 16
      + n mod 16 = n"
    by (simp only: div_mult_mod_eq)
  moreover have four: "(4::nat) = Suc (Suc (Suc (Suc 0)))" by simp
  ultimately show ?thesis
    by (simp only: four hex_digits.simps append_Cons append_Nil scan_hex4.simps
        append_assoc hex_value_digit [OF m] hex_value_digit [OF top] mod_less [OF top]
        prod.case option.case)
qed

definition valid_char :: "nat \<Rightarrow> bool" where
  "valid_char c \<longleftrightarrow> c < 1114112 \<and> \<not> surrogate c"

lemma scan_unicode_bmp:
  "c < 65536 \<Longrightarrow> \<not> surrogate c \<Longrightarrow> scan_unicode (hex_digits 4 c @ r) = Some (c, r)"
  by (auto simp: scan_unicode_def scan_hex4_digits surrogate_def)

lemma scan_unicode_astral:
  assumes "65536 \<le> c" "c < 1114112"
  shows "scan_unicode (hex_digits 4 (55296 + (c - 65536) div 1024)
           @ 92 # 117 # hex_digits 4 (56320 + (c - 65536) mod 1024) @ r) = Some (c, r)"
proof -
  have hi: "(c - 65536) div 1024 < 1024"
    using assms by (intro less_mult_imp_div_less) simp
  have lo: "(c - 65536) mod 1024 < 1024" by simp
  have "(c - 65536) div 1024 * 1024 + (c - 65536) mod 1024 = c - 65536"
    by (rule div_mult_mod_eq)
  moreover have "55296 + (c - 65536) div 1024 < 65536" "56320 + (c - 65536) mod 1024 < 65536"
    using hi lo by simp_all
  ultimately show ?thesis
    using assms hi lo by (simp add: scan_unicode_def scan_hex4_digits)
qed

lemma short_escape_unescape:
  "short_escape c = Some e \<Longrightarrow> e \<noteq> 117 \<and> unescape_short e = Some c"
  by (auto simp: short_escape_def unescape_short_def split: if_splits)

lemma short_escape_None: "short_escape c = None \<Longrightarrow> c \<noteq> 34 \<and> c \<noteq> 92"
  by (auto simp: short_escape_def split: if_splits)

lemma scan_char_escape:
  assumes "valid_char c"
  shows "scan_char (escape_char ascii c @ r) = (Some (Inr c), r)"
proof (cases "short_escape c")
  case None
  have ns: "c < 32 \<Longrightarrow> \<not> surrogate c" by (simp add: surrogate_def)
  show ?thesis
    using None short_escape_None [OF None] assms ns
    by (auto simp: escape_char_def valid_char_def scan_unicode_bmp scan_unicode_astral)
next
  case (Some e)
  then show ?thesis
    using short_escape_unescape [OF Some] by (simp add: escape_char_def)
qed

lemma scan_string_quoted:
  "list_all valid_char s \<Longrightarrow>
     scan_string (concat (map (escape_char ascii) s) @ 34 # r) = Some (s, r)"
proof (induction s)
  case Nil
  then show ?case by (simp add: scan_string.simps)
next
  case (Cons c s)
  then show ?case
    by (subst scan_string.simps) (simp add: scan_char_escape)
qed

section \<open>Numbers round trip\<close>

lemma digits_value_append: "digits_value n (s @ [c]) = 10 * digits_value n s + (c - 48)"
  by (induction n s rule: digits_value.induct) auto

lemma digits_value_nat_str: "digits_value 0 (nat_str n) = n"
proof (induction n rule: nat_str.induct)
  case (1 n)
  show ?case
  proof (cases "n < 10")
    case True
    then show ?thesis by (simp add: nat_str.simps [of n])
  next
    case False
    have "10 * (n div 10) + n mod 10 = n" by (rule mult_div_mod_eq)
    then show ?thesis
      using False "1.IH" by (simp add: nat_str.simps [of n] digits_value_append)
  qed
qed

lemma nat_str_all_digits: "\<forall>c \<in> set (nat_str n). is_digit c"
  using nat_str_digits by (auto simp: is_digit_def)

lemma hd_nat_str: "0 < n \<Longrightarrow> hd (nat_str n) \<noteq> 48"
proof (induction n rule: nat_str.induct)
  case (1 n)
  show ?case
  proof (cases "n < 10")
    case True
    then show ?thesis using "1.prems" by (simp add: nat_str.simps [of n])
  next
    case False
    then have "0 < n div 10" by (simp add: div_greater_zero_iff)
    then show ?thesis
      using False "1.IH" by (simp add: nat_str.simps [of n])
  qed
qed

text \<open>What may follow a value inside a printed document.\<close>

definition value_end :: "ustr \<Rightarrow> bool" where
  "value_end r \<longleftrightarrow> r = [] \<or> hd r \<in> {44, 93, 125}"

lemma digits_while_append:
  assumes "value_end r"
  shows "takeWhile is_digit (xs @ r) = takeWhile is_digit xs"
    and "dropWhile is_digit (xs @ r) = dropWhile is_digit xs @ r"
proof -
  have "takeWhile is_digit r = []" "dropWhile is_digit r = r"
    using assms by (cases r; auto simp: value_end_def is_digit_def)+
  then show "takeWhile is_digit (xs @ r) = takeWhile is_digit xs"
    "dropWhile is_digit (xs @ r) = dropWhile is_digit xs @ r"
    by (induction xs) auto
qed

lemma value_end_head:
  "value_end (c # r) \<Longrightarrow> \<not> is_digit c \<and> c \<noteq> 45 \<and> c \<noteq> 46 \<and> c \<noteq> 101 \<and> c \<noteq> 69 \<and> c \<noteq> 43 \<and> c \<noteq> 48"
  by (auto simp: value_end_def is_digit_def)

lemma scan_int_body_append:
  assumes "scan_int_body sg xs = Some (ip, q)" "value_end r"
  shows "scan_int_body sg (xs @ r) = Some (ip, q @ r)"
  using assms(1) digits_while_append [OF assms(2), of xs]
  by (cases xs) (auto simp: scan_int_body_def split: if_splits)

lemma scan_int_part_append:
  assumes "scan_int_part t = Some (ip, q)" "value_end r"
  shows "scan_int_part (t @ r) = Some (ip, q @ r)"
  using assms(1)
  by (cases t)
    (auto simp: scan_int_part_def dest: scan_int_body_append [OF _ assms(2)] split: if_splits)

lemma scan_frac_append:
  assumes "scan_frac q = (fp, q')" "value_end r"
  shows "scan_frac (q @ r) = (fp, q' @ r)"
proof (cases q)
  case Nil
  then show ?thesis
    using assms value_end_head by (cases r) (auto simp: scan_frac_def split: list.splits)
next
  case (Cons c q1)
  show ?thesis
  proof (cases q1)
    case Nil
    then show ?thesis
      using assms Cons value_end_head by (cases r) (auto simp: scan_frac_def)
  next
    case (Cons d q2)
    then show ?thesis
      using assms \<open>q = c # q1\<close> digits_while_append [OF assms(2), of "d # q2"]
      by (auto simp: scan_frac_def split: if_splits)
  qed
qed

lemma scan_exp_append:
  assumes "scan_exp q = (ep, q')" "value_end r"
  shows "scan_exp (q @ r) = (ep, q' @ r)"
proof (cases q)
  case Nil
  then show ?thesis
    using assms value_end_head by (cases r) (auto simp: scan_exp_def)
next
  case (Cons c q1)
  show ?thesis
  proof (cases q1)
    case Nil
    then show ?thesis
      using assms Cons value_end_head by (cases r) (auto simp: scan_exp_def Let_def)
  next
    case (Cons d q2)
    have "q2 = [] \<Longrightarrow> r \<noteq> [] \<Longrightarrow> \<not> is_digit (hd r)"
      using assms(2) value_end_head by (cases r) auto
    then show ?thesis
      using assms \<open>q = c # q1\<close> Cons digits_while_append [OF assms(2), of q2]
        digits_while_append [OF assms(2), of "d # q2"]
      by (cases q2) (auto simp: scan_exp_def Let_def split: if_splits)
  qed
qed

lemma scan_number_append:
  assumes "scan_number fr t = Some (j, [])" "value_end r"
  shows "scan_number fr (t @ r) = Some (j, r)"
proof -
  obtain ip q where ip: "scan_int_part t = Some (ip, q)"
    using assms(1) by (auto simp: scan_number_def split: option.splits)
  obtain fp q' where fp: "scan_frac q = (fp, q')" by fastforce
  obtain ep q'' where ep: "scan_exp q' = (ep, q'')" by fastforce
  have "q'' = []"
    using assms(1) ip fp ep by (auto simp: scan_number_def split: if_splits)
  then show ?thesis
    using assms(1) ip fp ep scan_int_part_append [OF ip assms(2)] scan_frac_append [OF fp assms(2)]
      scan_exp_append [OF ep assms(2)]
    by (auto simp: scan_number_def split: if_splits)
qed

lemma scan_int_body_nat_str: "scan_int_body sg (nat_str n) = Some (sg @ nat_str n, [])"
proof (cases "n = 0")
  case True
  then show ?thesis by (simp add: nat_str.simps scan_int_body_def)
next
  case False
  have "takeWhile is_digit (nat_str n) = nat_str n" "dropWhile is_digit (nat_str n) = []"
    using nat_str_all_digits [of n] by simp_all
  then show ?thesis
    using False hd_nat_str [of n] nat_str_all_digits [of n]
    by (cases "nat_str n") (auto simp: scan_int_body_def)
qed

lemma hd_nat_str_digit: "is_digit (hd (nat_str n))"
  using nat_str_all_digits [of n] by (cases "nat_str n") auto

lemma nat_str_Cons: "\<exists>c s. nat_str n = c # s \<and> is_digit c \<and> c \<noteq> 45"
  using hd_nat_str_digit [of n] by (cases "nat_str n") (auto simp: is_digit_def)

lemma scan_number_int_str: "scan_number fr (int_str i) = Some (JInt i, [])"
proof -
  obtain c s where cs: "nat_str (nat i) = c # s" "c \<noteq> 45"
    using nat_str_Cons by blast
  have "scan_int_part (int_str i) = Some (int_str i, [])"
    using scan_int_body_nat_str [of "[45]" "nat (- i)"] scan_int_body_nat_str [of "[]" "nat i"] cs
    by (simp add: scan_int_part_def int_str_def)
  moreover have "int_of_text (int_str i) = i"
    using digits_value_nat_str [of "nat (- i)"] digits_value_nat_str [of "nat i"] cs
    by (simp add: int_of_text_def int_str_def)
  ultimately show ?thesis
    by (simp add: scan_number_def scan_frac_def scan_exp_def)
qed

section \<open>Literals\<close>

lemma strip_prefix_append: "strip_prefix p (p @ r) = Some r"
  by (simp add: strip_prefix_def)

lemma strip_prefix_head: "p \<noteq> [] \<Longrightarrow> s \<noteq> [] \<Longrightarrow> hd p \<noteq> hd s \<Longrightarrow> strip_prefix p s = None"
  by (cases p; cases s) (auto simp: strip_prefix_def)

lemma strip_prefix_second:
  "strip_prefix (a # b # p) (c # d # s) = None" if "b \<noteq> d"
  using that by (simp add: strip_prefix_def)

lemma literal_heads [simp]:
  "hd (u ''null'') = 110" "hd (u ''true'') = 116" "hd (u ''false'') = 102"
  "hd (u ''NaN'') = 78" "hd (u ''Infinity'') = 73"
  by (simp_all add: u_def)

lemma minus_infinity_text: "u ''-Infinity'' = 45 # 73 # u ''nfinity''"
  by (simp add: u_def)

lemma scan_number_start:
  assumes "scan_number fr s = Some (j, r)"
  shows "\<exists>c t. s = c # t \<and> (is_digit c \<or> c = 45 \<and> (\<exists>d t'. t = d # t' \<and> is_digit d))"
proof -
  have body: "scan_int_body sg x = Some q \<Longrightarrow> \<exists>d t. x = d # t \<and> is_digit d" for sg x q
    by (auto simp: scan_int_body_def is_digit_def split: list.splits if_splits)
  have "\<exists>q. scan_int_part s = Some q"
    using assms by (auto simp: scan_number_def split: option.splits)
  then show ?thesis
    using body by (auto simp: scan_int_part_def split: list.splits if_splits)
qed

lemma scan_literal_number:
  assumes "scan_number fr s = Some (j, r)"
  shows "scan_literal fr s = Some (j, r)"
proof -
  obtain c t where s: "s = c # t"
    and ct: "is_digit c \<or> c = 45 \<and> (\<exists>d t'. t = d # t' \<and> is_digit d)"
    using scan_number_start [OF assms] by blast
  have head: "strip_prefix p s = None" if "p \<noteq> []" "hd p \<in> {110, 116, 102, 78, 73}" for p
    using that ct s by (intro strip_prefix_head) (auto simp: is_digit_def)
  moreover have "strip_prefix (u ''-Infinity'') s = None"
    using ct s strip_prefix_head [of "u ''-Infinity''" s]
    by (auto simp: minus_infinity_text is_digit_def intro!: strip_prefix_second)
  ultimately show ?thesis
    using assms by (simp add: scan_literal_def)
qed

section \<open>The round trip\<close>

text \<open>The values that the program can hold: no unpaired surrogates, no repeated keys, float texts
  that Python prints for the float that they denote.\<close>

definition float_lit :: "(ustr \<Rightarrow> ustr) \<Rightarrow> ustr \<Rightarrow> bool" where
  "float_lit fr t \<longleftrightarrow> non_finite_text t \<or> scan_number fr t = Some (JFloat t, [])"

fun storable :: "(ustr \<Rightarrow> ustr) \<Rightarrow> json \<Rightarrow> bool" where
  "storable fr (JFloat t) = float_lit fr t"
| "storable fr (JStr s) = list_all valid_char s"
| "storable fr (JArr xs) = list_all (storable fr) xs"
| "storable fr (JObj kvs) =
     (distinct (map fst kvs) \<and> list_all (\<lambda>(k, v). list_all valid_char k \<and> storable fr v) kvs)"
| "storable fr _ = True"

definition reads_back :: "(ustr \<Rightarrow> ustr) \<Rightarrow> bool \<Rightarrow> json \<Rightarrow> bool" where
  "reads_back fr ascii j \<longleftrightarrow>
     (\<forall>n r. value_end r \<longrightarrow> length (dumps ascii j) \<le> n \<longrightarrow>
        scan_once fr n (dumps ascii j @ r) = Some (j, r))"

lemma reads_backD:
  "reads_back fr ascii j \<Longrightarrow> value_end r \<Longrightarrow> length (dumps ascii j) \<le> n \<Longrightarrow>
     scan_once fr n (dumps ascii j @ r) = Some (j, r)"
  by (simp add: reads_back_def)

lemma reads_backI:
  assumes "dumps ascii j \<noteq> []"
    "\<And>m r. value_end r \<Longrightarrow> length (dumps ascii j) \<le> Suc m \<Longrightarrow>
       scan_once fr (Suc m) (dumps ascii j @ r) = Some (j, r)"
  shows "reads_back fr ascii j"
  unfolding reads_back_def
proof (intro allI impI)
  fix n r assume "value_end r" "length (dumps ascii j) \<le> n"
  then show "scan_once fr n (dumps ascii j @ r) = Some (j, r)"
    using assms by (cases n) auto
qed

lemma skip_ws_Cons: "\<not> is_ws c \<Longrightarrow> skip_ws (c # s) = c # s"
  by (simp add: skip_ws_def)

lemma not_ws_delims [simp]:
  "\<not> is_ws 34" "\<not> is_ws 44" "\<not> is_ws 58" "\<not> is_ws 91" "\<not> is_ws 93" "\<not> is_ws 123" "\<not> is_ws 125"
  by (simp_all add: is_ws_def)

lemma digit_head: "is_digit c \<Longrightarrow> \<not> is_ws c \<and> c \<noteq> 34 \<and> c \<noteq> 91 \<and> c \<noteq> 93 \<and> c \<noteq> 123 \<and> c \<noteq> 125 \<and> c < 128"
  by (auto simp: is_digit_def is_ws_def)

lemma number_head:
  "scan_number fr s = Some (j, r) \<Longrightarrow>
     \<exists>c t. s = c # t \<and> \<not> is_ws c \<and> c \<noteq> 34 \<and> c \<noteq> 91 \<and> c \<noteq> 93 \<and> c \<noteq> 123 \<and> c \<noteq> 125
       \<and> c < 128"
  using scan_number_start [of fr s j r] digit_head by (fastforce simp: is_ws_def)

lemma dumps_head:
  assumes "storable fr j"
  shows "\<exists>c t. dumps ascii j = c # t \<and> \<not> is_ws c \<and> c \<noteq> 93 \<and> c \<noteq> 125 \<and> c < 128"
proof (cases j)
  case (JInt i)
  then show ?thesis using number_head [OF scan_number_int_str] by fastforce
next
  case (JFloat t)
  then show ?thesis
    using assms number_head [of fr t]
    by (fastforce simp: float_lit_def non_finite_text_def u_def is_ws_def)
qed (auto simp: u_def is_ws_def quote_def)

lemma scan_once_number:
  assumes "scan_number fr t = Some (j, [])" "value_end r"
  shows "scan_once fr (Suc n) (t @ r) = Some (j, r)"
  using scan_literal_number [OF scan_number_append [OF assms]] number_head [OF assms(1)] by auto

lemma scan_once_word:
  assumes "p \<in> {u ''null'', u ''true'', u ''false'', u ''NaN'', u ''Infinity'', u ''-Infinity''}"
  shows "scan_once fr (Suc n) (p @ r) = scan_literal fr (p @ r)"
  using assms by (auto simp: u_def)

lemma reads_back_JFloat:
  assumes "float_lit fr t"
  shows "reads_back fr ascii (JFloat t)"
proof -
  have pos: "t \<noteq> []"
    using assms number_head [of fr t] by (auto simp: float_lit_def non_finite_text_def u_def)
  show ?thesis
  proof (rule reads_backI)
    fix m r assume r: "value_end r"
    show "scan_once fr (Suc m) (dumps ascii (JFloat t) @ r) = Some (JFloat t, r)"
    proof (cases "non_finite_text t")
      case True
      then have "t \<in> {u ''null'', u ''true'', u ''false'', u ''NaN'', u ''Infinity'', u ''-Infinity''}"
        by (auto simp: non_finite_text_def)
      moreover have "scan_literal fr (t @ r) = Some (JFloat t, r)"
        using True
        by (auto simp: non_finite_text_def scan_literal_def strip_prefix_def u_def)
      ultimately show ?thesis
        using scan_once_word by (simp del: scan_once.simps)
    next
      case False
      then show ?thesis
        using assms r by (simp add: float_lit_def scan_once_number del: scan_once.simps)
    qed
  qed (use pos in simp)
qed

lemma reads_back_items:
  assumes "\<And>x. x \<in> set xs \<Longrightarrow> reads_back fr ascii x \<and> storable fr x" "xs \<noteq> []"
    "length (sep_by [44] (map (dumps ascii) xs)) < n"
  shows "scan_items fr n (sep_by [44] (map (dumps ascii) xs) @ 93 # r) = Some (xs, r)"
  using assms
proof (induction xs arbitrary: n)
  case (Cons x xs)
  obtain m where n: "n = Suc m" using Cons.prems(3) by (cases n) auto
  have head: "scan_once fr m (dumps ascii x @ d # q) = Some (x, d # q)" if "d = 44 \<or> d = 93" for d q
    using Cons.prems(1,3) that n
    by (cases xs) (auto simp: reads_back_def value_end_def)
  show ?case
  proof (cases xs)
    case Nil
    then show ?thesis using n head [of 93 r] by (simp add: skip_ws_Cons)
  next
    case (Cons y ys)
    have "storable fr y" using Cons.prems(1) Cons by simp
    then obtain c t where y: "dumps ascii y = c # t" "\<not> is_ws c"
      using dumps_head by blast
    then have start: "\<exists>t'. sep_by [44] (map (dumps ascii) xs) @ 93 # r = c # t'"
      using Cons by (cases ys) auto
    have "scan_items fr m (sep_by [44] (map (dumps ascii) xs) @ 93 # r) = Some (xs, r)"
      using Cons.IH Cons.prems Cons n by simp
    then show ?thesis
      using n head [of 44] Cons start y(2) by (auto simp: skip_ws_Cons)
  qed
qed simp

abbreviation member_text :: "bool \<Rightarrow> ustr \<times> json \<Rightarrow> ustr" where
  "member_text ascii \<equiv> \<lambda>(k, v). quote ascii k @ [58] @ dumps ascii v"

lemma reads_back_members:
  assumes "\<And>k v. (k, v) \<in> set kvs \<Longrightarrow>
      reads_back fr ascii v \<and> storable fr v \<and> list_all valid_char k"
    "kvs \<noteq> []" "length (sep_by [44] (map (member_text ascii) kvs)) < n"
  shows "scan_members fr n (sep_by [44] (map (member_text ascii) kvs) @ 125 # r) = Some (kvs, r)"
  using assms
proof (induction kvs arbitrary: n)
  case (Cons kv kvs)
  obtain k v where kv: "kv = (k, v)" by fastforce
  obtain m where n: "n = Suc m" using Cons.prems(3) by (cases n) auto
  have props: "reads_back fr ascii v" "storable fr v" "list_all valid_char k"
    using Cons.prems(1) kv by auto
  obtain c t where v: "dumps ascii v = c # t" "\<not> is_ws c"
    using dumps_head [OF props(2)] by blast
  have len: "length (dumps ascii v) \<le> m"
    using Cons.prems(3) kv n by (cases kvs) auto
  have val: "scan_once fr m (skip_ws (dumps ascii v @ d # q)) = Some (v, d # q)"
    if "d = 44 \<or> d = 125" for d q
    using props(1) len that v by (auto simp: reads_back_def value_end_def skip_ws_Cons)
  have key: "scan_string (concat (map (escape_char ascii) k) @ 34 # 58 # q) = Some (k, 58 # q)" for q
    by (rule scan_string_quoted [OF props(3)])
  show ?case
  proof (cases kvs)
    case Nil
    then show ?thesis
      using n kv key val [of 125 r] by (simp add: quote_def skip_ws_Cons)
  next
    case (Cons kv' kvs')
    have start: "\<exists>t'. sep_by [44] (map (member_text ascii) kvs) @ 125 # r = 34 # t'"
      using Cons by (cases kvs') (auto simp: quote_def split: prod.splits)
    have "scan_members fr m (sep_by [44] (map (member_text ascii) kvs) @ 125 # r) = Some (kvs, r)"
    proof (rule Cons.IH)
      show "length (sep_by [44] (map (member_text ascii) kvs)) < m"
        using Cons.prems(3) Cons n by simp
    qed (use Cons.prems(1) Cons in auto)
    then show ?thesis
      using n kv key val [of 44] Cons start by (auto simp: quote_def skip_ws_Cons)
  qed
qed simp

lemma dict_set_new: "k \<notin> set (map fst d) \<Longrightarrow> dict_set k v d = d @ [(k, v)]"
  by (induction k v d rule: dict_set.induct) auto

lemma fold_dict_set:
  "distinct (map fst (acc @ m)) \<Longrightarrow> fold (\<lambda>(k, v). dict_set k v) m acc = acc @ m"
proof (induction m arbitrary: acc)
  case (Cons kv m)
  obtain k v where kv: "kv = (k, v)" by fastforce
  then have "dict_set k v acc = acc @ [(k, v)]"
    using Cons.prems by (intro dict_set_new) auto
  then show ?case
    using Cons.IH [of "acc @ [(k, v)]"] Cons.prems kv by simp
qed simp

lemma reads_back_storable: "storable fr j \<Longrightarrow> reads_back fr ascii j"
proof (induction j)
  case JNull
  show ?case by (rule reads_backI) (simp_all add: u_def scan_literal_def strip_prefix_def)
next
  case (JBool b)
  show ?case by (rule reads_backI) (auto simp: u_def scan_literal_def strip_prefix_def)
next
  case (JInt i)
  show ?case
    using number_head [OF scan_number_int_str [of fr i]] scan_once_number [OF scan_number_int_str]
    by (intro reads_backI) (auto simp del: scan_once.simps)
next
  case (JFloat t)
  then show ?case by (simp add: reads_back_JFloat)
next
  case (JStr s)
  then show ?case
    by (intro reads_backI) (simp_all add: quote_def scan_string_quoted)
next
  case (JArr xs)
  then have all: "\<And>x. x \<in> set xs \<Longrightarrow> reads_back fr ascii x \<and> storable fr x"
    by (auto simp: list_all_iff)
  show ?case
  proof (cases xs)
    case Nil
    then show ?thesis by (intro reads_backI) (simp_all add: skip_ws_Cons)
  next
    case (Cons x ys)
    then obtain c t where x: "dumps ascii x = c # t" "\<not> is_ws c" "c \<noteq> 93"
      using dumps_head all by (metis list.set_intros(1))
    have start: "\<exists>t'. sep_by [44] (map (dumps ascii) xs) @ q = c # t'" for q
      using Cons x by (cases ys) auto
    show ?thesis
    proof (rule reads_backI)
      fix m r assume n: "length (dumps ascii (JArr xs)) \<le> Suc m"
      have "scan_items fr m (sep_by [44] (map (dumps ascii) xs) @ 93 # r) = Some (xs, r)"
        using all Cons n by (intro reads_back_items) auto
      then show "scan_once fr (Suc m) (dumps ascii (JArr xs) @ r) = Some (JArr xs, r)"
        using start [of "93 # r"] x by (auto simp: skip_ws_Cons)
    qed simp
  qed
next
  case (JObj kvs)
  then have all: "\<And>k v. (k, v) \<in> set kvs \<Longrightarrow>
      reads_back fr ascii v \<and> storable fr v \<and> list_all valid_char k"
    by (fastforce simp: list_all_iff)
  have distinct: "distinct (map fst kvs)" using JObj.prems by simp
  show ?case
  proof (cases kvs)
    case Nil
    then show ?thesis by (intro reads_backI) (simp_all add: skip_ws_Cons)
  next
    case (Cons kv ys)
    have start: "\<exists>t'. sep_by [44] (map (member_text ascii) kvs) @ q = 34 # t'" for q
      using Cons by (cases ys) (auto simp: quote_def split: prod.splits)
    show ?thesis
    proof (rule reads_backI)
      fix m r assume n: "length (dumps ascii (JObj kvs)) \<le> Suc m"
      have "scan_members fr m (sep_by [44] (map (member_text ascii) kvs) @ 125 # r) = Some (kvs, r)"
        using all Cons n by (intro reads_back_members) auto
      then show "scan_once fr (Suc m) (dumps ascii (JObj kvs) @ r) = Some (JObj kvs, r)"
        using start [of "125 # r"] fold_dict_set [of "[]" kvs] distinct
        by (auto simp: skip_ws_Cons)
    qed simp
  qed
qed

lemma loads_dumps: "storable fr j \<Longrightarrow> loads fr (dumps ascii j) = Some j"
proof -
  assume j: "storable fr j"
  obtain c t where c: "dumps ascii j = c # t" "\<not> is_ws c" "c < 128"
    using dumps_head [OF j] by blast
  have "scan_once fr (2 * length (dumps ascii j) + 2) (dumps ascii j @ []) = Some (j, [])"
    by (rule reads_backD [OF reads_back_storable [OF j]]) (simp_all add: value_end_def)
  then have scan: "scan_once fr (2 * length (dumps ascii j) + 2) (dumps ascii j) = Some (j, [])"
    by (simp only: append_Nil2)
  have "skip_ws (dumps ascii j) = dumps ascii j" "hd (dumps ascii j) \<noteq> 65279" "skip_ws [] = []"
    using c by (simp_all add: skip_ws_def)
  then show ?thesis
    unfolding loads_def by (simp only: scan if_False prod.case option.case if_True simp_thms)
qed

lemma dumps_inject:
  assumes "storable fr a" "storable fr b" "dumps ascii a = dumps ascii b"
  shows "a = b"
  by (metis assms loads_dumps option.inject)

section \<open>The fuel is enough\<close>

lemma scan_string_shorter: "scan_string s = Some (t, r) \<Longrightarrow> length r < length s"
proof (induction s arbitrary: t r rule: scan_string.induct)
  case (1 s)
  obtain x q where x: "scan_char s = (x, q)" by fastforce
  then show ?case
    using "1.prems" "1.IH" scan_char_length [of s _ q]
    by (subst (asm) scan_string.simps) (fastforce split: option.splits sum.splits)
qed

lemma skip_ws_length: "length (skip_ws s) \<le> length s"
  by (simp add: skip_ws_def length_dropWhile_le)

lemma skip_ws_ConsD: "skip_ws s = c # r \<Longrightarrow> length r < length s"
  using skip_ws_length [of s] by simp

lemma scan_number_shorter: "scan_number fr s = Some (j, r) \<Longrightarrow> length r < length s"
proof -
  assume n: "scan_number fr s = Some (j, r)"
  have dw: "length (dropWhile is_digit xs) \<le> length xs" for xs by (rule length_dropWhile_le)
  have body: "scan_int_body sg x = Some (ip, q) \<Longrightarrow> length q < length x" for sg x ip q
    using dw by (auto simp: scan_int_body_def le_imp_less_Suc split: list.splits if_splits)
  have int: "scan_int_part x = Some (ip, q) \<Longrightarrow> length q < length x" for x ip q
    using body by (fastforce simp: scan_int_part_def split: list.splits if_splits)
  have frac: "scan_frac x = (fp, q) \<Longrightarrow> length q \<le> length x" for x fp q
    using dw by (auto simp: scan_frac_def le_SucI split: list.splits if_splits)
  have exp: "scan_exp x = (ep, q) \<Longrightarrow> length q \<le> length x" for x ep q
    using dw by (auto simp: scan_exp_def Let_def le_SucI split: list.splits if_splits prod.splits)
  obtain ip q where ip: "scan_int_part s = Some (ip, q)"
    using n by (auto simp: scan_number_def split: option.splits)
  obtain fp q' where fp: "scan_frac q = (fp, q')" by fastforce
  obtain ep q'' where ep: "scan_exp q' = (ep, q'')" by fastforce
  have "r = q''" using n ip fp ep by (auto simp: scan_number_def split: if_splits)
  then show ?thesis using int [OF ip] frac [OF fp] exp [OF ep] by simp
qed

lemma strip_prefix_shorter: "strip_prefix p s = Some r \<Longrightarrow> p \<noteq> [] \<Longrightarrow> length r < length s"
  by (cases s) (auto simp: strip_prefix_def split: if_splits)

lemma scan_literal_shorter: "scan_literal fr s = Some (j, r) \<Longrightarrow> length r < length s"
  by (auto simp: scan_literal_def dest: strip_prefix_shorter scan_number_shorter
      split: option.splits)

lemma scan_shorter:
  "scan_once fr n s = Some (j, r) \<Longrightarrow> length r < length s"
  "scan_items fr n s = Some (xs, r) \<Longrightarrow> length r < length s"
  "scan_members fr n s = Some (m, r) \<Longrightarrow> length r < length s"
proof (induction fr n s and fr n s and fr n s arbitrary: j r and xs r and m r
    rule: scan_once_scan_items_scan_members.induct)
  case (2 fr n s)
  then show ?case
    by (auto split: list.splits if_splits option.splits
        dest!: scan_string_shorter scan_literal_shorter skip_ws_ConsD)
       (use skip_ws_ConsD less_trans in fastforce)+
next
  case (4 fr n s)
  then show ?case
    by (auto split: list.splits if_splits option.splits)
       (meson skip_ws_ConsD skip_ws_length less_trans less_le_trans)+
next
  case (6 fr n s)
  then show ?case
    by (auto split: list.splits if_splits option.splits dest!: scan_string_shorter)
       (meson skip_ws_ConsD skip_ws_length less_trans less_le_trans less_SucI)+
qed auto

lemma scan_fuel:
  "2 * length s < n \<Longrightarrow> n \<le> n' \<Longrightarrow> scan_once fr n' s = scan_once fr n s"
  "2 * length s + 1 < n \<Longrightarrow> n \<le> n' \<Longrightarrow> scan_items fr n' s = scan_items fr n s"
  "2 * length s + 1 < n \<Longrightarrow> n \<le> n' \<Longrightarrow> scan_members fr n' s = scan_members fr n s"
proof (induction fr n s and fr n s and fr n s arbitrary: n' and n' and n'
    rule: scan_once_scan_items_scan_members.induct)
  case (2 fr n s)
  obtain m where m: "n' = Suc m" "n \<le> m" using "2.prems"(2) by (cases n') auto
  show ?case
  proof (cases s)
    case (Cons c r)
    show ?thesis
    proof (cases "skip_ws r")
      case Nil
      then show ?thesis using m(1) Cons by simp
    next
      case (Cons d q)
      have len: "2 * length (d # q) + 1 < n"
        using \<open>s = c # r\<close> Cons "2.prems"(1) skip_ws_length [of r] by simp
      have "c = 91 \<Longrightarrow> d \<noteq> 93 \<Longrightarrow> scan_items fr m (d # q) = scan_items fr n (d # q)"
        using "2.IH"(1) [OF \<open>s = c # r\<close> _ _ Cons _ len m(2)] by simp
      moreover have "c = 123 \<Longrightarrow> d \<noteq> 125 \<Longrightarrow> scan_members fr m (d # q) = scan_members fr n (d # q)"
        using "2.IH"(2) [OF \<open>s = c # r\<close> _ _ _ Cons _ len m(2)] by simp
      ultimately show ?thesis
        using m(1) \<open>s = c # r\<close> Cons by simp
    qed
  qed (use m in simp)
next
  case (4 fr n s)
  obtain m where m: "n' = Suc m" "n \<le> m" using "4.prems"(2) by (cases n') auto
  have first: "scan_once fr m s = scan_once fr n s"
    using "4.IH"(1) [of m] "4.prems"(1) m by simp
  show ?case
  proof (cases "scan_once fr n s")
    case (Some xr)
    obtain x r where xr: "xr = (x, r)" by fastforce
    show ?thesis
    proof (cases "skip_ws r")
      case (Cons d q)
      have "2 * length (skip_ws q) + 1 < n"
        using scan_shorter(1) [of fr n s x r] Some xr skip_ws_ConsD [OF Cons] skip_ws_length [of q]
          "4.prems"(1) by simp
      then have "d = 44 \<Longrightarrow> scan_items fr m (skip_ws q) = scan_items fr n (skip_ws q)"
        using "4.IH"(2) [OF Some xr [symmetric] Cons _ _ _ m(2)] by simp
      then show ?thesis
        using m(1) first Some xr Cons by simp
    qed (use m(1) first Some xr in simp)
  qed (use m(1) first in simp)
next
  case (6 fr n s)
  obtain m where m: "n' = Suc m" "n \<le> m" using "6.prems"(2) by (cases n') auto
  show ?case
  proof (cases "s \<noteq> [] \<and> hd s = 34 \<and> (\<exists>k r1 r2. scan_string (tl s) = Some (k, r1) \<and> skip_ws r1 = 58 # r2)")
    case True
    then obtain r k r1 r2 where s: "s = 34 # r" and k: "scan_string r = Some (k, r1)"
      and r2: "skip_ws r1 = 58 # r2"
      by (cases s) auto
    note short = scan_string_shorter [OF k] skip_ws_ConsD [OF r2] skip_ws_length [of r2]
    have first: "scan_once fr m (skip_ws r2) = scan_once fr n (skip_ws r2)"
      using "6.IH"(1) [OF s _ k refl r2 _ _ m(2)] short s "6.prems"(1) by simp
    show ?thesis
    proof (cases "scan_once fr n (skip_ws r2)")
      case (Some vr)
      obtain v r3 where vr: "vr = (v, r3)" by fastforce
      show ?thesis
      proof (cases "skip_ws r3")
        case (Cons d r4)
        have "2 * length (skip_ws r4) + 1 < n"
          using scan_shorter(1) [of fr n "skip_ws r2" v r3] Some vr short s
            skip_ws_ConsD [OF Cons] skip_ws_length [of r4] "6.prems"(1) by simp
        then have "d = 44 \<Longrightarrow> scan_members fr m (skip_ws r4) = scan_members fr n (skip_ws r4)"
          using "6.IH"(2) [OF s _ k refl r2 _ Some vr [symmetric] Cons _ _ _ m(2)] by simp
        then show ?thesis
          using m(1) s k r2 first Some vr Cons by simp
      qed (use m(1) s k r2 first Some vr in simp)
    qed (use m(1) s k r2 first in simp)
  next
    case False
    then show ?thesis
      using m(1) by (cases s) (auto split: option.splits list.splits)
  qed
qed auto

lemma loads_fuel:
  assumes "2 * length s + 2 \<le> n"
  shows "loads fr s =
     (if s \<noteq> [] \<and> hd s = 65279 then None
      else case scan_once fr n (skip_ws s) of
             None \<Rightarrow> None
           | Some (j, r) \<Rightarrow> if skip_ws r = [] then Some j else None)"
proof -
  have "scan_once fr n (skip_ws s) = scan_once fr (2 * length s + 2) (skip_ws s)"
    using skip_ws_length [of s] assms by (intro scan_fuel(1)) simp_all
  then show ?thesis by (simp only: loads_def)
qed

end
