(* ===== verification/Storage.thy ===== *)
theory Storage
  imports Json_Parse
begin

text \<open>
  The key-value store of \<open>storage.py\<close>.  The in-memory backend is modelled operation by operation
  (\<open>memory_*\<close>), with the monotonic clock reading as an argument in microseconds.  The protocol
  that both backends implement is the locale \<open>kv_contract\<close>, stated through \<open>live\<close>, the
  value that a key shows at an instant; the in-memory backend interprets it.  The clients of the
  store (fixed-window rate limiting, browser connection lease slots) take the operations as
  arguments, as the services take the store, and their lemmas are proved once from the contract.
\<close>

section \<open>In-memory backend\<close>

record mem_value =
  mv_value :: ustr
  mv_expires_at :: int

record memory_store =
  mem_prefix :: ustr
  mem_values :: "ustr \<Rightarrow> mem_value option"
  mem_subscribers :: "(ustr \<times> ustr list) list"

definition memory_key :: "memory_store \<Rightarrow> ustr \<Rightarrow> ustr" where
  "memory_key s k = mem_prefix s @ k"

definition memory_put :: "ustr \<Rightarrow> mem_value option \<Rightarrow> memory_store \<Rightarrow> memory_store" where
  "memory_put k v s = s\<lparr>mem_values := (mem_values s)(k := v)\<rparr>"

definition purge_expired :: "ustr \<Rightarrow> int \<Rightarrow> memory_store \<Rightarrow> memory_store" where
  "purge_expired k now s =
     (case mem_values s k of
        None \<Rightarrow> s
      | Some v \<Rightarrow> if mv_expires_at v \<le> now then memory_put k None s else s)"

definition memory_get :: "ustr \<Rightarrow> int \<Rightarrow> memory_store \<Rightarrow> ustr option \<times> memory_store" where
  "memory_get key now s =
     (let k = memory_key s key; s' = purge_expired k now s in
      (map_option mv_value (mem_values s' k), s'))"

definition memory_set :: "ustr \<Rightarrow> ustr \<Rightarrow> nat \<Rightarrow> int \<Rightarrow> memory_store \<Rightarrow> memory_store" where
  "memory_set key v ttl now s =
     memory_put (memory_key s key)
       (Some \<lparr>mv_value = v, mv_expires_at = now + seconds (int ttl)\<rparr>) s"

definition memory_set_if_absent ::
  "ustr \<Rightarrow> ustr \<Rightarrow> nat \<Rightarrow> int \<Rightarrow> memory_store \<Rightarrow> bool \<times> memory_store" where
  "memory_set_if_absent key v ttl now s =
     (let k = memory_key s key; s' = purge_expired k now s in
      if mem_values s' k \<noteq> None then (False, s')
      else (True, memory_put k (Some \<lparr>mv_value = v, mv_expires_at = now + seconds (int ttl)\<rparr>) s'))"

definition memory_compare_refresh ::
  "ustr \<Rightarrow> ustr \<Rightarrow> nat \<Rightarrow> int \<Rightarrow> memory_store \<Rightarrow> bool \<times> memory_store" where
  "memory_compare_refresh key expected ttl now s =
     (let k = memory_key s key; s' = purge_expired k now s in
      case mem_values s' k of
        None \<Rightarrow> (False, s')
      | Some cur \<Rightarrow>
          if mv_value cur \<noteq> expected then (False, s')
          else (True, memory_put k
                  (Some \<lparr>mv_value = mv_value cur, mv_expires_at = now + seconds (int ttl)\<rparr>) s'))"

definition memory_compare_delete ::
  "ustr \<Rightarrow> ustr \<Rightarrow> int \<Rightarrow> memory_store \<Rightarrow> bool \<times> memory_store" where
  "memory_compare_delete key expected now s =
     (let k = memory_key s key; s' = purge_expired k now s in
      case mem_values s' k of
        None \<Rightarrow> (False, s')
      | Some cur \<Rightarrow>
          if mv_value cur \<noteq> expected then (False, s') else (True, memory_put k None s'))"

definition memory_delete :: "ustr \<Rightarrow> memory_store \<Rightarrow> memory_store" where
  "memory_delete key s = memory_put (memory_key s key) None s"

text \<open>\<open>int(text)\<close> on the decimal texts that \<open>increment\<close> itself writes; \<open>None\<close> is
  \<open>ValueError\<close>.\<close>

definition decimal :: "ustr \<Rightarrow> int option" where
  "decimal t =
     (case t of
        [] \<Rightarrow> None
      | c # r \<Rightarrow>
          if list_all is_digit t \<or> c = 45 \<and> r \<noteq> [] \<and> list_all is_digit r
          then Some (int_of_text t) else None)"

definition memory_increment ::
  "ustr \<Rightarrow> nat \<Rightarrow> int \<Rightarrow> memory_store \<Rightarrow> int option \<times> memory_store" where
  "memory_increment key ttl now s =
     (let k = memory_key s key; s' = purge_expired k now s in
      case mem_values s' k of
        None \<Rightarrow>
          (Some 1, memory_put k
             (Some \<lparr>mv_value = int_str 1, mv_expires_at = now + seconds (int ttl)\<rparr>) s')
      | Some cur \<Rightarrow>
          (case decimal (mv_value cur) of
             None \<Rightarrow> (None, s')
           | Some c \<Rightarrow>
               (Some (c + 1), memory_put k
                  (Some \<lparr>mv_value = int_str (c + 1), mv_expires_at = mv_expires_at cur\<rparr>) s')))"

text \<open>\<open>publish\<close> puts the value into every queue of the channel, in some order, and stops with
  \<open>QueueFull\<close> (\<open>None\<close>) at the first full one; a queue holds at most 1000 values.\<close>

fun deliver :: "ustr \<Rightarrow> ustr \<Rightarrow> (ustr \<times> ustr list) list \<Rightarrow> nat option \<times> (ustr \<times> ustr list) list" where
  "deliver ch v [] = (Some 0, [])"
| "deliver ch v ((c, q) # subs) =
     (if c = ch then
        if length q \<ge> 1000 then (None, (c, q) # subs)
        else (case deliver ch v subs of
                (n, subs') \<Rightarrow> (map_option Suc n, (c, q @ [v]) # subs'))
      else (case deliver ch v subs of (n, subs') \<Rightarrow> (n, (c, q) # subs')))"

definition memory_publish :: "ustr \<Rightarrow> ustr \<Rightarrow> memory_store \<Rightarrow> nat option \<times> memory_store" where
  "memory_publish channel v s =
     (case deliver (memory_key s channel) v (mem_subscribers s) of
        (n, subs) \<Rightarrow> (n, s\<lparr>mem_subscribers := subs\<rparr>))"

definition memory_close :: "memory_store \<Rightarrow> memory_store" where
  "memory_close s = s\<lparr>mem_values := \<lambda>_. None\<rparr>"

text \<open>What a key shows at an instant.\<close>

definition memory_live :: "memory_store \<Rightarrow> int \<Rightarrow> ustr \<Rightarrow> ustr option" where
  "memory_live s now key =
     (case mem_values s (memory_key s key) of
        None \<Rightarrow> None
      | Some v \<Rightarrow> if mv_expires_at v \<le> now then None else Some (mv_value v))"

section \<open>The contract of the store\<close>

locale kv_contract =
  fixes live :: "'s \<Rightarrow> int \<Rightarrow> ustr \<Rightarrow> ustr option"
    and get :: "ustr \<Rightarrow> int \<Rightarrow> 's \<Rightarrow> ustr option \<times> 's"
    and set_if_absent :: "ustr \<Rightarrow> ustr \<Rightarrow> nat \<Rightarrow> int \<Rightarrow> 's \<Rightarrow> bool \<times> 's"
    and compare_refresh :: "ustr \<Rightarrow> ustr \<Rightarrow> nat \<Rightarrow> int \<Rightarrow> 's \<Rightarrow> bool \<times> 's"
    and compare_delete :: "ustr \<Rightarrow> ustr \<Rightarrow> int \<Rightarrow> 's \<Rightarrow> bool \<times> 's"
    and increment :: "ustr \<Rightarrow> nat \<Rightarrow> int \<Rightarrow> 's \<Rightarrow> int option \<times> 's"
  assumes live_expires: "now \<le> now' \<Longrightarrow> live s now k = None \<Longrightarrow> live s now' k = None"
    and live_stable:
      "now \<le> now' \<Longrightarrow> live s now' k = Some v \<Longrightarrow> live s now k = Some v"
    and get_value: "fst (get k now s) = live s now k"
    and get_frame: "now \<le> now' \<Longrightarrow> live (snd (get k now s)) now' k' = live s now' k'"
    and absent_result: "fst (set_if_absent k v ttl now s) \<longleftrightarrow> live s now k = None"
    and absent_live:
      "now \<le> now' \<Longrightarrow> live (snd (set_if_absent k v ttl now s)) now' k' =
         (if k' = k \<and> live s now k = None
          then (if now' < now + seconds (int ttl) then Some v else None) else live s now' k')"
    and refresh_result: "fst (compare_refresh k v ttl now s) \<longleftrightarrow> live s now k = Some v"
    and refresh_live:
      "now \<le> now' \<Longrightarrow> live (snd (compare_refresh k v ttl now s)) now' k' =
         (if k' = k \<and> live s now k = Some v
          then (if now' < now + seconds (int ttl) then Some v else None) else live s now' k')"
    and delete_result: "fst (compare_delete k v now s) \<longleftrightarrow> live s now k = Some v"
    and delete_live:
      "now \<le> now' \<Longrightarrow> live (snd (compare_delete k v now s)) now' k' =
         (if k' = k \<and> live s now k = Some v then None else live s now' k')"
    and increment_result:
      "fst (increment k ttl now s) =
         (case live s now k of None \<Rightarrow> Some 1 | Some t \<Rightarrow> map_option (\<lambda>c. c + 1) (decimal t))"
    and increment_live:
      "now \<le> now' \<Longrightarrow> live (snd (increment k ttl now s)) now' k' =
         (if k' \<noteq> k then live s now' k'
          else case live s now k of
                 None \<Rightarrow> if now' < now + seconds (int ttl) then Some (int_str 1) else None
               | Some t \<Rightarrow>
                   (case decimal t of
                      None \<Rightarrow> live s now' k
                    | Some c \<Rightarrow> map_option (\<lambda>_. int_str (c + 1)) (live s now' k)))"

lemma decimal_int_str [simp]: "decimal (int_str i) = Some i"
proof -
  obtain c s where cs: "nat_str (nat i) = c # s" "c \<noteq> 45"
    using nat_str_Cons by blast
  have "int_of_text (int_str i) = i"
    using scan_number_int_str [of id i] digits_value_nat_str [of "nat (- i)"]
      digits_value_nat_str [of "nat i"] cs
    by (simp add: int_of_text_def int_str_def)
  moreover have digits: "list_all is_digit (nat_str n)" for n
    using nat_str_all_digits [of n] by (simp add: list_all_iff)
  moreover have "list_all is_digit (c # s)"
    using digits [of "nat i"] cs by simp
  ultimately show ?thesis
    using cs by (auto simp: decimal_def int_str_def)
qed

section \<open>The in-memory backend meets the contract\<close>

lemma memory_key_inject [simp]: "memory_key s k = memory_key s k' \<longleftrightarrow> k = k'"
  by (simp add: memory_key_def)

lemma memory_put_simps [simp]:
  "mem_prefix (memory_put k v s) = mem_prefix s"
  "memory_key (memory_put k v s) = memory_key s"
  "mem_values (memory_put k v s) k' = (if k' = k then v else mem_values s k')"
  by (simp_all add: memory_put_def memory_key_def fun_eq_iff)

lemma purge_simps [simp]:
  "mem_prefix (purge_expired k now s) = mem_prefix s"
  "memory_key (purge_expired k now s) = memory_key s"
  by (simp_all add: purge_expired_def split: option.splits)

lemma mem_values_purge:
  "mem_values (purge_expired k now s) k' =
     (if k' = k then
        (case mem_values s k of
           None \<Rightarrow> None | Some v \<Rightarrow> if mv_expires_at v \<le> now then None else Some v)
      else mem_values s k')"
  by (auto simp: purge_expired_def split: option.splits)

lemma memory_live_purge:
  "now \<le> now' \<Longrightarrow> memory_live (purge_expired k now s) now' k' = memory_live s now' k'"
  by (auto simp: memory_live_def mem_values_purge split: option.splits)

lemmas memory_ops =
  memory_get_def memory_set_if_absent_def memory_compare_refresh_def memory_compare_delete_def
  memory_increment_def Let_def

interpretation memory: kv_contract memory_live memory_get memory_set_if_absent
  memory_compare_refresh memory_compare_delete memory_increment
proof unfold_locales
  fix now now' s k assume "now \<le> now'" "memory_live s now k = None"
  then show "memory_live s now' k = None"
    by (auto simp: memory_live_def split: option.splits if_splits)
next
  fix now now' s k v assume "now \<le> now'" "memory_live s now' k = Some v"
  then show "memory_live s now k = Some v"
    by (auto simp: memory_live_def split: option.splits if_splits)
qed (auto simp: memory_ops memory_live_def mem_values_purge split: option.splits if_splits)

text \<open>Unconditional writes and deletions, for the clients that own their keys.\<close>

locale kv_store = kv_contract live get set_if_absent compare_refresh compare_delete increment
  for live :: "'s \<Rightarrow> int \<Rightarrow> ustr \<Rightarrow> ustr option"
    and get :: "ustr \<Rightarrow> int \<Rightarrow> 's \<Rightarrow> ustr option \<times> 's"
    and set_if_absent :: "ustr \<Rightarrow> ustr \<Rightarrow> nat \<Rightarrow> int \<Rightarrow> 's \<Rightarrow> bool \<times> 's"
    and compare_refresh :: "ustr \<Rightarrow> ustr \<Rightarrow> nat \<Rightarrow> int \<Rightarrow> 's \<Rightarrow> bool \<times> 's"
    and compare_delete :: "ustr \<Rightarrow> ustr \<Rightarrow> int \<Rightarrow> 's \<Rightarrow> bool \<times> 's"
    and increment :: "ustr \<Rightarrow> nat \<Rightarrow> int \<Rightarrow> 's \<Rightarrow> int option \<times> 's" +
  fixes put :: "ustr \<Rightarrow> ustr \<Rightarrow> nat \<Rightarrow> int \<Rightarrow> 's \<Rightarrow> 's"
    and remove :: "ustr \<Rightarrow> 's \<Rightarrow> 's"
  assumes put_live:
      "now \<le> now' \<Longrightarrow> live (put k v ttl now s) now' k' =
         (if k' = k then (if now' < now + seconds (int ttl) then Some v else None) else live s now' k')"
    and remove_live: "live (remove k s) now' k' = (if k' = k then None else live s now' k')"

interpretation memory: kv_store memory_live memory_get memory_set_if_absent
  memory_compare_refresh memory_compare_delete memory_increment memory_set memory_delete
  by unfold_locales (auto simp: memory_set_def memory_delete_def memory_live_def split: option.splits if_splits)

end
