(* ===== verification/Config.thy ===== *)
theory Config
  imports Prelude
begin

text \<open>
  The numeric limits of \<open>config.Settings\<close> that the modelled services read, the ranges that the
  field declarations impose on them, and the cross-field checks of
  \<open>enforce_production_defaults\<close> that hold in every environment.  Text settings (URLs,
  secrets, cookie names) are not part of the model.
\<close>

record settings =
  session_ttl_seconds :: nat
  session_upstream_recheck_seconds :: nat
  recent_auth_max_age_seconds :: nat
  session_exchange_limit :: nat
  owner_max_active_sessions :: nat
  owner_max_session_records :: nat
  pairing_ttl_seconds :: nat
  pairing_start_limit :: nat
  pairing_claim_limit :: nat
  pairing_poll_limit :: nat
  pairing_poll_ip_limit :: nat
  rate_limit_window_seconds :: nat
  device_access_token_ttl_seconds :: nat
  device_token_issue_limit :: nat
  device_proof_max_skew_seconds :: nat
  device_nonce_ttl_seconds :: nat
  device_heartbeat_timeout_seconds :: nat
  device_registry_ttl_seconds :: nat
  device_frame_rate_limit :: nat
  device_max_envelope_bytes :: nat
  device_max_json_depth :: nat
  device_max_json_nodes :: nat
  device_max_string_chars :: nat
  device_max_result_bytes :: nat
  device_max_event_bytes :: nat
  device_max_approval_bytes :: nat
  device_max_outbox_frames :: nat
  device_max_outbox_bytes :: nat
  device_outbox_retention_seconds :: nat
  device_max_outstanding_commands :: nat
  device_max_command_records :: nat
  owner_max_command_records :: nat
  device_max_connection_records :: nat
  device_max_pending_approvals :: nat
  device_max_approval_records :: nat
  browser_event_catchup_limit :: nat
  browser_event_catchup_max_bytes :: nat
  browser_event_retention_days :: nat
  browser_event_max_per_owner :: nat
  browser_max_connections_per_session :: nat
  browser_max_connections_per_user :: nat
  browser_connection_lease_ttl_seconds :: nat
  bootstrap_max_devices :: nat
  bootstrap_max_threads :: nat
  bootstrap_max_pending_approvals :: nat
  bootstrap_max_models_per_device :: nat
  owner_max_device_records :: nat
  owner_max_thread_records :: nat
  owner_max_approval_records :: nat
  bootstrap_max_response_bytes :: nat
  command_ttl_seconds :: nat
  approval_ttl_seconds :: nat
  session_record_retention_days :: nat
  device_pairing_retention_days :: nat
  device_connection_retention_days :: nat
  command_record_retention_days :: nat
  approval_record_retention_days :: nat
  thread_binding_retention_days :: nat
  revoked_device_retention_days :: nat
  audit_event_retention_days :: nat
  retention_sweep_batch_size :: nat

definition BOOTSTRAP_BASE_OVERHEAD_BYTES :: nat where
  "BOOTSTRAP_BASE_OVERHEAD_BYTES = 4096"
definition BOOTSTRAP_DEVICE_SUMMARY_MAX_BYTES :: nat where
  "BOOTSTRAP_DEVICE_SUMMARY_MAX_BYTES = 16 * 1024"
definition BOOTSTRAP_THREAD_SUMMARY_MAX_BYTES :: nat where
  "BOOTSTRAP_THREAD_SUMMARY_MAX_BYTES = 12 * 1024"
definition BOOTSTRAP_MODEL_CATALOG_MAX_BYTES :: nat where
  "BOOTSTRAP_MODEL_CATALOG_MAX_BYTES = 24 * 1024"
definition BOOTSTRAP_APPROVAL_ITEM_MAX_BYTES :: nat where
  "BOOTSTRAP_APPROVAL_ITEM_MAX_BYTES = 68 * 1024"
definition BOOTSTRAP_MODEL_MAP_ENTRY_OVERHEAD_BYTES :: nat where
  "BOOTSTRAP_MODEL_MAP_ENTRY_OVERHEAD_BYTES = 128"
definition BOOTSTRAP_CONNECTOR_RELEASE_MAX_BYTES :: nat where
  "BOOTSTRAP_CONNECTOR_RELEASE_MAX_BYTES = 16 * 1024"

definition bootstrap_worst_case_bytes :: "settings \<Rightarrow> nat" where
  "bootstrap_worst_case_bytes cfg =
     (let devices = bootstrap_max_devices cfg *
            (BOOTSTRAP_DEVICE_SUMMARY_MAX_BYTES + BOOTSTRAP_MODEL_CATALOG_MAX_BYTES
             + BOOTSTRAP_MODEL_MAP_ENTRY_OVERHEAD_BYTES);
          threads = bootstrap_max_threads cfg * (BOOTSTRAP_THREAD_SUMMARY_MAX_BYTES + 1);
          approvals = bootstrap_max_pending_approvals cfg * (BOOTSTRAP_APPROVAL_ITEM_MAX_BYTES + 1)
      in BOOTSTRAP_BASE_OVERHEAD_BYTES + BOOTSTRAP_CONNECTOR_RELEASE_MAX_BYTES
         + devices + threads + approvals)"

definition between :: "nat \<Rightarrow> nat \<Rightarrow> nat \<Rightarrow> bool" where
  "between lo x hi \<longleftrightarrow> lo \<le> x \<and> x \<le> hi"

text \<open>The \<open>Field(ge=..., le=...)\<close> declarations.\<close>

definition settings_in_range :: "settings \<Rightarrow> bool" where
  "settings_in_range c \<longleftrightarrow>
     between 300 (session_ttl_seconds c) 600
   \<and> between 1 (session_upstream_recheck_seconds c) 15
   \<and> between 30 (recent_auth_max_age_seconds c) 600
   \<and> between 1 (session_exchange_limit c) 1000
   \<and> between 1 (owner_max_active_sessions c) 256
   \<and> between 100 (owner_max_session_records c) 100000
   \<and> between 120 (pairing_ttl_seconds c) 900
   \<and> between 1 (pairing_start_limit c) 1000
   \<and> between 1 (pairing_claim_limit c) 1000
   \<and> between 1 (pairing_poll_limit c) 10000
   \<and> between 1 (pairing_poll_ip_limit c) 10000
   \<and> between 1 (rate_limit_window_seconds c) 3600
   \<and> between 60 (device_access_token_ttl_seconds c) 900
   \<and> between 1 (device_token_issue_limit c) 1000
   \<and> between 10 (device_proof_max_skew_seconds c) 300
   \<and> between 60 (device_nonce_ttl_seconds c) 900
   \<and> between 15 (device_heartbeat_timeout_seconds c) 300
   \<and> between 30 (device_registry_ttl_seconds c) 600
   \<and> between 10 (device_frame_rate_limit c) 10000
   \<and> between 4096 (device_max_envelope_bytes c) 262144
   \<and> between 4 (device_max_json_depth c) 64
   \<and> between 128 (device_max_json_nodes c) 100000
   \<and> between 1024 (device_max_string_chars c) 1000000
   \<and> between 4096 (device_max_result_bytes c) 2097152
   \<and> between 4096 (device_max_event_bytes c) 1048576
   \<and> between 2048 (device_max_approval_bytes c) 262144
   \<and> between 32 (device_max_outbox_frames c) 10000
   \<and> between 65536 (device_max_outbox_bytes c) 67108864
   \<and> between 3600 (device_outbox_retention_seconds c) 2592000
   \<and> between 1 (device_max_outstanding_commands c) 1000
   \<and> between 128 (device_max_command_records c) 100000
   \<and> between 1000 (owner_max_command_records c) 1000000
   \<and> between 32 (device_max_connection_records c) 100000
   \<and> between 1 (device_max_pending_approvals c) 256
   \<and> between 32 (device_max_approval_records c) 100000
   \<and> between 1 (browser_event_catchup_limit c) 5000
   \<and> between 4096 (browser_event_catchup_max_bytes c) (16 * 1024 * 1024)
   \<and> between 1 (browser_event_retention_days c) 365
   \<and> between 1000 (browser_event_max_per_owner c) 1000000
   \<and> between 1 (browser_max_connections_per_session c) 32
   \<and> between 1 (browser_max_connections_per_user c) 128
   \<and> between 15 (browser_connection_lease_ttl_seconds c) 300
   \<and> between 1 (bootstrap_max_devices c) 1000
   \<and> between 1 (bootstrap_max_threads c) 1000
   \<and> between 1 (bootstrap_max_pending_approvals c) 1000
   \<and> between 1 (bootstrap_max_models_per_device c) 100
   \<and> between 100 (owner_max_device_records c) 10000
   \<and> between 100 (owner_max_thread_records c) 100000
   \<and> between 100 (owner_max_approval_records c) 1000000
   \<and> between (64 * 1024) (bootstrap_max_response_bytes c) (64 * 1024 * 1024)
   \<and> between 5 (command_ttl_seconds c) 120
   \<and> between 5 (approval_ttl_seconds c) 120
   \<and> between 1 (session_record_retention_days c) 90
   \<and> between 1 (device_pairing_retention_days c) 90
   \<and> between 1 (device_connection_retention_days c) 365
   \<and> between 1 (command_record_retention_days c) 365
   \<and> between 1 (approval_record_retention_days c) 365
   \<and> between 1 (thread_binding_retention_days c) 730
   \<and> between 30 (revoked_device_retention_days c) 3650
   \<and> between 30 (audit_event_retention_days c) 3650
   \<and> between 1 (retention_sweep_batch_size c) 5000"

text \<open>The checks of \<open>enforce_production_defaults\<close> before the production-only ones: \<open>None\<close>
  accepts, \<open>Some\<close> names the rejected relation in the order of the code.\<close>

definition settings_conflict :: "settings \<Rightarrow> string option" where
  "settings_conflict c =
     (if owner_max_session_records c < owner_max_active_sessions c
        then Some ''OWNER_MAX_SESSION_RECORDS''
      else if owner_max_command_records c < device_max_command_records c
        then Some ''OWNER_MAX_COMMAND_RECORDS''
      else if owner_max_thread_records c < bootstrap_max_threads c
        then Some ''OWNER_MAX_THREAD_RECORDS''
      else if device_max_approval_records c < device_max_pending_approvals c
        then Some ''DEVICE_MAX_APPROVAL_RECORDS''
      else if owner_max_approval_records c < bootstrap_max_pending_approvals c
        then Some ''OWNER_MAX_APPROVAL_RECORDS''
      else if browser_max_connections_per_user c < browser_max_connections_per_session c
        then Some ''BROWSER_MAX_CONNECTIONS_PER_USER''
      else if bootstrap_worst_case_bytes c > bootstrap_max_response_bytes c
        then Some ''BOOTSTRAP_MAX_RESPONSE_BYTES''
      else None)"

definition settings_accepted :: "settings \<Rightarrow> bool" where
  "settings_accepted c \<longleftrightarrow> settings_in_range c \<and> settings_conflict c = None"

text \<open>The declared defaults.\<close>

definition default_settings :: settings where
  "default_settings = \<lparr>
     session_ttl_seconds = 600,
     session_upstream_recheck_seconds = 15, recent_auth_max_age_seconds = 300, session_exchange_limit = 10, owner_max_active_sessions = 32, owner_max_session_records = 10000,
     pairing_ttl_seconds = 600,
     pairing_start_limit = 10, pairing_claim_limit = 10, pairing_poll_limit = 120, pairing_poll_ip_limit = 240, rate_limit_window_seconds = 60,
     device_access_token_ttl_seconds = 300, device_token_issue_limit = 30, device_proof_max_skew_seconds = 60, device_nonce_ttl_seconds = 300,
     device_heartbeat_timeout_seconds = 60, device_registry_ttl_seconds = 90,
     device_frame_rate_limit = 600, device_max_envelope_bytes = 262144, device_max_json_depth = 16,
     device_max_json_nodes = 10000, device_max_string_chars = 200000,
     device_max_result_bytes = 524288, device_max_event_bytes = 262144,
     device_max_approval_bytes = 65536, device_max_outbox_frames = 2048,
     device_max_outbox_bytes = 8388608, device_outbox_retention_seconds = 604800,
     device_max_outstanding_commands = 128, device_max_command_records = 10000,
     owner_max_command_records = 100000, device_max_connection_records = 4096,
     device_max_pending_approvals = 32, device_max_approval_records = 4096,
     browser_event_catchup_limit = 500, browser_event_catchup_max_bytes = 1024 * 1024,
     browser_event_retention_days = 30, browser_event_max_per_owner = 100000,
     browser_max_connections_per_session = 4, browser_max_connections_per_user = 8,
     browser_connection_lease_ttl_seconds = 60, bootstrap_max_devices = 100,
     bootstrap_max_threads = 100, bootstrap_max_pending_approvals = 32,
     bootstrap_max_models_per_device = 100, owner_max_device_records = 1000,
     owner_max_thread_records = 1000, owner_max_approval_records = 10000,
     bootstrap_max_response_bytes = 8 * 1024 * 1024, command_ttl_seconds = 30,
     approval_ttl_seconds = 120, session_record_retention_days = 7,
     device_pairing_retention_days = 7, device_connection_retention_days = 30,
     command_record_retention_days = 30, approval_record_retention_days = 30,
     thread_binding_retention_days = 90, revoked_device_retention_days = 365,
     audit_event_retention_days = 365, retention_sweep_batch_size = 500 \<rparr>"

lemma default_settings_sel [simp]:
  "session_ttl_seconds default_settings = 600"
  "session_upstream_recheck_seconds default_settings = 15"
  "recent_auth_max_age_seconds default_settings = 300"
  "session_exchange_limit default_settings = 10"
  "owner_max_active_sessions default_settings = 32"
  "owner_max_session_records default_settings = 10000"
  "pairing_ttl_seconds default_settings = 600"
  "pairing_start_limit default_settings = 10"
  "pairing_claim_limit default_settings = 10"
  "pairing_poll_limit default_settings = 120"
  "pairing_poll_ip_limit default_settings = 240"
  "rate_limit_window_seconds default_settings = 60"
  "device_access_token_ttl_seconds default_settings = 300"
  "device_token_issue_limit default_settings = 30"
  "device_proof_max_skew_seconds default_settings = 60"
  "device_nonce_ttl_seconds default_settings = 300"
  "device_heartbeat_timeout_seconds default_settings = 60"
  "device_registry_ttl_seconds default_settings = 90"
  "device_frame_rate_limit default_settings = 600"
  "device_max_envelope_bytes default_settings = 262144"
  "device_max_json_depth default_settings = 16"
  "device_max_json_nodes default_settings = 10000"
  "device_max_string_chars default_settings = 200000"
  "device_max_result_bytes default_settings = 524288"
  "device_max_event_bytes default_settings = 262144"
  "device_max_approval_bytes default_settings = 65536"
  "device_max_outbox_frames default_settings = 2048"
  "device_max_outbox_bytes default_settings = 8388608"
  "device_outbox_retention_seconds default_settings = 604800"
  "device_max_outstanding_commands default_settings = 128"
  "device_max_command_records default_settings = 10000"
  "owner_max_command_records default_settings = 100000"
  "device_max_connection_records default_settings = 4096"
  "device_max_pending_approvals default_settings = 32"
  "device_max_approval_records default_settings = 4096"
  "browser_event_catchup_limit default_settings = 500"
  "browser_event_catchup_max_bytes default_settings = 1024 * 1024"
  "browser_event_retention_days default_settings = 30"
  "browser_event_max_per_owner default_settings = 100000"
  "browser_max_connections_per_session default_settings = 4"
  "browser_max_connections_per_user default_settings = 8"
  "browser_connection_lease_ttl_seconds default_settings = 60"
  "bootstrap_max_devices default_settings = 100"
  "bootstrap_max_threads default_settings = 100"
  "bootstrap_max_pending_approvals default_settings = 32"
  "bootstrap_max_models_per_device default_settings = 100"
  "owner_max_device_records default_settings = 1000"
  "owner_max_thread_records default_settings = 1000"
  "owner_max_approval_records default_settings = 10000"
  "bootstrap_max_response_bytes default_settings = 8 * 1024 * 1024"
  "command_ttl_seconds default_settings = 30"
  "approval_ttl_seconds default_settings = 120"
  "session_record_retention_days default_settings = 7"
  "device_pairing_retention_days default_settings = 7"
  "device_connection_retention_days default_settings = 30"
  "command_record_retention_days default_settings = 30"
  "approval_record_retention_days default_settings = 30"
  "thread_binding_retention_days default_settings = 90"
  "revoked_device_retention_days default_settings = 365"
  "audit_event_retention_days default_settings = 365"
  "retention_sweep_batch_size default_settings = 500"
  by (simp_all add: default_settings_def)

lemmas bootstrap_bounds =
  BOOTSTRAP_BASE_OVERHEAD_BYTES_def BOOTSTRAP_DEVICE_SUMMARY_MAX_BYTES_def
  BOOTSTRAP_THREAD_SUMMARY_MAX_BYTES_def BOOTSTRAP_MODEL_CATALOG_MAX_BYTES_def
  BOOTSTRAP_APPROVAL_ITEM_MAX_BYTES_def BOOTSTRAP_MODEL_MAP_ENTRY_OVERHEAD_BYTES_def
  BOOTSTRAP_CONNECTOR_RELEASE_MAX_BYTES_def

lemma default_settings_accepted: "settings_accepted default_settings"
  by (simp add: settings_accepted_def settings_in_range_def settings_conflict_def between_def
      default_settings_def bootstrap_worst_case_bytes_def bootstrap_bounds)

end
