(* ===== verification/Leases.thy ===== *)
theory Leases
  imports Storage Config
begin

text \<open>
  The clients of the key-value store that need only its contract: the fixed-window
  \<open>RateLimiter\<close> of \<open>services.py\<close> and the browser connection leases of
  \<open>realtime.py\<close>.  A lease is two slots, one under the session and one under the user, each held
  by writing a value that only its holder knows.  The store operations are arguments, like the
  \<open>KeyValueStore\<close> that the services receive; one clock reading covers one acquisition.
\<close>

section \<open>Rate limiter\<close>

datatype rate_result = Rate_Allowed | Rate_Exceeded nat | Rate_Value_Error

definition rate_key :: "ustr \<Rightarrow> ustr \<Rightarrow> ustr" where
  "rate_key scope identity = u ''rate:'' @ scope @ u '':'' @ identity"

definition rate_check ::
  "(ustr \<Rightarrow> nat \<Rightarrow> int \<Rightarrow> 's \<Rightarrow> int option \<times> 's) \<Rightarrow> nat \<Rightarrow> ustr \<Rightarrow> ustr \<Rightarrow> nat \<Rightarrow> int \<Rightarrow> 's
     \<Rightarrow> rate_result \<times> 's" where
  "rate_check increment window scope identity limit now s =
     (case increment (rate_key scope identity) window now s of
        (None, s') \<Rightarrow> (Rate_Value_Error, s')
      | (Some n, s') \<Rightarrow>
          ((if n > int limit then Rate_Exceeded window else Rate_Allowed), s'))"

text \<open>A sequence of requests of one identity at the given instants.\<close>

fun rate_checks ::
  "(ustr \<Rightarrow> nat \<Rightarrow> int \<Rightarrow> 's \<Rightarrow> int option \<times> 's) \<Rightarrow> nat \<Rightarrow> ustr \<Rightarrow> ustr \<Rightarrow> nat \<Rightarrow> int list \<Rightarrow> 's
     \<Rightarrow> rate_result list \<times> 's" where
  "rate_checks increment window scope identity limit [] s = ([], s)"
| "rate_checks increment window scope identity limit (t # ts) s =
     (case rate_check increment window scope identity limit t s of
        (r, s') \<Rightarrow>
          (case rate_checks increment window scope identity limit ts s' of
             (rs, s'') \<Rightarrow> (r # rs, s'')))"

section \<open>Browser connection leases\<close>

record lease_slot =
  slot_key :: ustr
  slot_value :: ustr

record connection_lease =
  session_slot :: lease_slot
  user_slot :: lease_slot

definition slot_name :: "ustr \<Rightarrow> nat \<Rightarrow> ustr" where
  "slot_name key_prefix slot = key_prefix @ u '':'' @ nat_str slot"

fun acquire_from ::
  "(ustr \<Rightarrow> ustr \<Rightarrow> nat \<Rightarrow> int \<Rightarrow> 's \<Rightarrow> bool \<times> 's) \<Rightarrow> ustr \<Rightarrow> ustr \<Rightarrow> nat \<Rightarrow> int \<Rightarrow> nat list \<Rightarrow> 's
     \<Rightarrow> lease_slot option \<times> 's" where
  "acquire_from set_if_absent key_prefix v ttl now [] s = (None, s)"
| "acquire_from set_if_absent key_prefix v ttl now (slot # slots) s =
     (case set_if_absent (slot_name key_prefix slot) v ttl now s of
        (True, s') \<Rightarrow> (Some \<lparr>slot_key = slot_name key_prefix slot, slot_value = v\<rparr>, s')
      | (False, s') \<Rightarrow> acquire_from set_if_absent key_prefix v ttl now slots s')"

definition acquire_browser_lease_slot ::
  "(ustr \<Rightarrow> ustr \<Rightarrow> nat \<Rightarrow> int \<Rightarrow> 's \<Rightarrow> bool \<times> 's) \<Rightarrow> settings \<Rightarrow> ustr \<Rightarrow> nat \<Rightarrow> ustr \<Rightarrow> int \<Rightarrow> 's
     \<Rightarrow> lease_slot option \<times> 's" where
  "acquire_browser_lease_slot set_if_absent cfg key_prefix limit v now s =
     acquire_from set_if_absent key_prefix v (browser_connection_lease_ttl_seconds cfg) now
       [0..<limit] s"

fun release_browser_lease_slots ::
  "(ustr \<Rightarrow> ustr \<Rightarrow> int \<Rightarrow> 's \<Rightarrow> bool \<times> 's) \<Rightarrow> int \<Rightarrow> lease_slot list \<Rightarrow> 's \<Rightarrow> 's" where
  "release_browser_lease_slots compare_delete now [] s = s"
| "release_browser_lease_slots compare_delete now (l # ls) s =
     release_browser_lease_slots compare_delete now ls
       (snd (compare_delete (slot_key l) (slot_value l) now s))"

definition session_lease_prefix :: "uuid \<Rightarrow> ustr" where
  "session_lease_prefix session_id = u ''browser-lease:session:'' @ uuid_str session_id"

definition user_lease_prefix :: "(ustr \<Rightarrow> ustr) \<Rightarrow> ustr \<Rightarrow> ustr" where
  "user_lease_prefix owner_digest owner_user_id =
     u ''browser-lease:user:'' @ owner_digest owner_user_id"

text \<open>\<open>owner_digest\<close> is the keyed hash of the owner (\<open>hmac\<close> with the session secret),
  \<open>v\<close> the fresh lease value.  \<open>None\<close> is \<open>BrowserConnectionLimitExceeded\<close>.\<close>

definition acquire_browser_connection_lease ::
  "(ustr \<Rightarrow> ustr \<Rightarrow> nat \<Rightarrow> int \<Rightarrow> 's \<Rightarrow> bool \<times> 's) \<Rightarrow> (ustr \<Rightarrow> ustr \<Rightarrow> int \<Rightarrow> 's \<Rightarrow> bool \<times> 's)
     \<Rightarrow> (ustr \<Rightarrow> ustr) \<Rightarrow> settings \<Rightarrow> uuid \<Rightarrow> ustr \<Rightarrow> ustr \<Rightarrow> int \<Rightarrow> 's
     \<Rightarrow> connection_lease option \<times> 's" where
  "acquire_browser_connection_lease set_if_absent compare_delete owner_digest cfg
       session_id owner_user_id v now s =
     (case acquire_browser_lease_slot set_if_absent cfg (session_lease_prefix session_id)
             (browser_max_connections_per_session cfg) v now s of
        (None, s1) \<Rightarrow> (None, s1)
      | (Some l1, s1) \<Rightarrow>
          (case acquire_browser_lease_slot set_if_absent cfg
                  (user_lease_prefix owner_digest owner_user_id)
                  (browser_max_connections_per_user cfg) v now s1 of
             (None, s2) \<Rightarrow> (None, release_browser_lease_slots compare_delete now [l1] s2)
           | (Some l2, s2) \<Rightarrow> (Some \<lparr>session_slot = l1, user_slot = l2\<rparr>, s2)))"

text \<open>One round of \<open>_renew_browser_connection_lease\<close>: \<open>False\<close> is the loss of ownership
  that closes the socket.\<close>

fun renew_slots ::
  "(ustr \<Rightarrow> ustr \<Rightarrow> nat \<Rightarrow> int \<Rightarrow> 's \<Rightarrow> bool \<times> 's) \<Rightarrow> nat \<Rightarrow> int \<Rightarrow> lease_slot list \<Rightarrow> 's
     \<Rightarrow> bool \<times> 's" where
  "renew_slots compare_refresh ttl now [] s = (True, s)"
| "renew_slots compare_refresh ttl now (l # ls) s =
     (case compare_refresh (slot_key l) (slot_value l) ttl now s of
        (False, s') \<Rightarrow> (False, s')
      | (True, s') \<Rightarrow> renew_slots compare_refresh ttl now ls s')"

definition release_browser_connection_lease ::
  "(ustr \<Rightarrow> ustr \<Rightarrow> int \<Rightarrow> 's \<Rightarrow> bool \<times> 's) \<Rightarrow> int \<Rightarrow> connection_lease \<Rightarrow> 's \<Rightarrow> 's" where
  "release_browser_connection_lease compare_delete now l s =
     release_browser_lease_slots compare_delete now (rev [session_slot l, user_slot l]) s"

section \<open>Client lemmas from the contract\<close>

lemma nat_str_inject [simp]: "nat_str a = nat_str b \<longleftrightarrow> a = b"
  using digits_value_nat_str by metis

lemma slot_name_inject [simp]: "slot_name p a = slot_name p b \<longleftrightarrow> a = b"
  by (simp add: slot_name_def)

lemma session_user_slots_differ:
  "slot_name (session_lease_prefix i) a \<noteq> slot_name (user_lease_prefix h o') b"
  by (simp add: slot_name_def session_lease_prefix_def user_lease_prefix_def u_def)

lemma rate_checks_step:
  assumes "increment (rate_key scope identity) window t s = (Some c, s')"
  shows "fst (rate_checks increment window scope identity limit (t # ts) s) =
     (if c > int limit then Rate_Exceeded window else Rate_Allowed)
       # fst (rate_checks increment window scope identity limit ts s')"
  using assms by (simp add: rate_check_def split: prod.splits)

context kv_contract
begin

lemma rate_checks_window:
  assumes "\<And>t. t0 \<le> t \<Longrightarrow> live s t (rate_key scope identity) =
      (if t < stop then Some (int_str (int n)) else None)"
    and "sorted ts" "\<forall>t \<in> set ts. t0 \<le> t \<and> t < stop"
  shows "fst (rate_checks increment window scope identity limit ts s) =
      map (\<lambda>i. if n + i < limit then Rate_Allowed else Rate_Exceeded window) [0..<length ts]"
  using assms
proof (induction ts arbitrary: s n t0)
  case (Cons t ts)
  let ?k = "rate_key scope identity"
  let ?s = "snd (increment ?k window t s)"
  have t: "t0 \<le> t" "t < stop" using Cons.prems(3) by auto
  have now: "live s t ?k = Some (int_str (int n))"
    using Cons.prems(1) t by simp
  have res: "increment ?k window t s = (Some (int (Suc n)), ?s)"
    using increment_result [of ?k window t s] now by (simp add: prod_eq_iff)
  have "live ?s t' ?k = (if t' < stop then Some (int_str (int (Suc n))) else None)" if "t \<le> t'" for t'
    using increment_live [OF that, of ?k window s ?k] now Cons.prems(1) [of t'] t that
    by (simp add: add.commute)
  then have "fst (rate_checks increment window scope identity limit ts ?s) =
      map (\<lambda>i. if Suc n + i < limit then Rate_Allowed else Rate_Exceeded window) [0..<length ts]"
    using Cons.IH [of t ?s "Suc n"] Cons.prems(2,3) by auto
  then show ?case
    using rate_checks_step [where increment = increment and limit = limit and ts = ts, OF res]
    by (simp add: map_upt_Suc del: upt_Suc rate_checks.simps)
qed simp

lemma rate_checks_fresh:
  assumes "live s t0 (rate_key scope identity) = None"
    and "sorted (t0 # ts)" "\<forall>t \<in> set ts. t < t0 + seconds (int window)" "0 < window"
  shows "fst (rate_checks increment window scope identity limit (t0 # ts) s) =
      map (\<lambda>i. if i < limit then Rate_Allowed else Rate_Exceeded window) [0..<Suc (length ts)]"
proof -
  let ?k = "rate_key scope identity"
  let ?s = "snd (increment ?k window t0 s)"
  have res: "increment ?k window t0 s = (Some 1, ?s)"
    using increment_result [of ?k window t0 s] assms(1) by (simp add: prod_eq_iff)
  have "live ?s t ?k = (if t < t0 + seconds (int window) then Some (int_str (int 1)) else None)"
    if "t0 \<le> t" for t
    using increment_live [OF that, of ?k window s ?k] assms(1) by simp
  then have "fst (rate_checks increment window scope identity limit ts ?s) =
      map (\<lambda>i. if 1 + i < limit then Rate_Allowed else Rate_Exceeded window) [0..<length ts]"
    using assms(2,3) by (intro rate_checks_window [of t0]) auto
  then show ?thesis
    using rate_checks_step [where increment = increment and limit = limit and ts = ts, OF res]
    by (simp add: map_upt_Suc del: upt_Suc rate_checks.simps)
qed

lemma acquire_from_live:
  assumes "acquire_from set_if_absent p v ttl now slots s = (r, s')" "now \<le> now'"
  shows "live s' now' k =
    (if r = Some \<lparr>slot_key = k, slot_value = v\<rparr>
     then (if now' < now + seconds (int ttl) then Some v else None) else live s now' k)"
  using assms(1)
proof (induction slots arbitrary: s)
  case (Cons slot slots)
  let ?k = "slot_name p slot"
  obtain b s1 where b: "set_if_absent ?k v ttl now s = (b, s1)" by fastforce
  have res: "b \<longleftrightarrow> live s now ?k = None"
    using absent_result [of ?k v ttl now s] b by simp
  have l1: "live s1 now' k' = (if k' = ?k \<and> b
      then (if now' < now + seconds (int ttl) then Some v else None) else live s now' k')" for k'
    using absent_live [OF assms(2), of ?k v ttl s k'] b res by simp
  show ?case
  proof (cases b)
    case True
    then show ?thesis using Cons.prems b l1 [of k] by auto
  next
    case False
    then show ?thesis using Cons.IH [of s1] Cons.prems b l1 [of k] by auto
  qed
qed simp

lemma acquire_from_free:
  assumes "acquire_from set_if_absent p v ttl now slots s = (Some l, s')" "distinct slots"
  shows "\<exists>i \<in> set slots. l = \<lparr>slot_key = slot_name p i, slot_value = v\<rparr>
      \<and> live s now (slot_name p i) = None"
  using assms
proof (induction slots arbitrary: s)
  case (Cons slot slots)
  let ?k = "slot_name p slot"
  obtain b s1 where b: "set_if_absent ?k v ttl now s = (b, s1)" by fastforce
  have res: "b \<longleftrightarrow> live s now ?k = None"
    using absent_result [of ?k v ttl now s] b by simp
  have same: "live s1 now (slot_name p i) = live s now (slot_name p i)" if "i \<in> set slots" for i
    using absent_live [of now now ?k v ttl s "slot_name p i"] that b Cons.prems(2) by auto
  show ?case
  proof (cases b)
    case True
    then show ?thesis using Cons.prems b res by auto
  next
    case False
    then show ?thesis using Cons.IH [of s1] Cons.prems b same by auto
  qed
qed simp

lemma acquire_from_full:
  assumes "acquire_from set_if_absent p v ttl now slots s = (None, s')"
  shows "\<forall>i \<in> set slots. live s now (slot_name p i) \<noteq> None"
  using assms
proof (induction slots arbitrary: s)
  case (Cons slot slots)
  let ?k = "slot_name p slot"
  obtain b s1 where b: "set_if_absent ?k v ttl now s = (b, s1)" by fastforce
  have nb: "\<not> b" using Cons.prems b by (cases b) auto
  then have taken: "live s now ?k \<noteq> None"
    using absent_result [of ?k v ttl now s] b by simp
  have "live s1 now (slot_name p i) = live s now (slot_name p i)" for i
    using absent_live [of now now ?k v ttl s "slot_name p i"] b taken by auto
  then show ?case using Cons.IH [of s1] Cons.prems b nb taken by auto
qed simp

lemma lease_failure_atomic:
  assumes "acquire_browser_connection_lease set_if_absent compare_delete h cfg i own v now s
      = (None, s')" "now \<le> now'"
  shows "live s' now' k = live s now' k"
proof -
  let ?ttl = "browser_connection_lease_ttl_seconds cfg"
  obtain r1 s1 where a1: "acquire_browser_lease_slot set_if_absent cfg (session_lease_prefix i)
      (browser_max_connections_per_session cfg) v now s = (r1, s1)" by fastforce
  note from1 = acquire_from_live [OF a1 [unfolded acquire_browser_lease_slot_def]]
  show ?thesis
  proof (cases r1)
    case None
    then show ?thesis
      using assms a1 from1 [OF assms(2), of k]
      by (simp add: acquire_browser_connection_lease_def)
  next
    case (Some l1)
    obtain r2 s2 where a2: "acquire_browser_lease_slot set_if_absent cfg (user_lease_prefix h own)
        (browser_max_connections_per_user cfg) v now s1 = (r2, s2)" by fastforce
    have r2: "r2 = None" and s': "s' = snd (compare_delete (slot_key l1) (slot_value l1) now s2)"
      using assms(1) a1 a2 Some
      by (auto simp: acquire_browser_connection_lease_def split: option.splits)
    have s2: "live s2 t k' = live s1 t k'" if "now \<le> t" for t k'
      using acquire_from_live [OF a2 [unfolded acquire_browser_lease_slot_def] that] r2 by simp
    obtain j where l1: "l1 = \<lparr>slot_key = slot_name (session_lease_prefix i) j, slot_value = v\<rparr>"
      and free: "live s now (slot_name (session_lease_prefix i) j) = None"
      using acquire_from_free a1 Some unfolding acquire_browser_lease_slot_def
      by (metis distinct_upt)
    have gone: "live s t (slot_key l1) = None" if "now \<le> t" for t
      using live_expires [OF that free] l1 by simp
    show ?thesis
      using delete_live [OF assms(2), of "slot_key l1" "slot_value l1" s2 k] s'
        s2 [OF assms(2)] s2 [of now] from1 [OF assms(2), of k] from1 [of now] gone [OF assms(2)]
        gone [of now] Some l1 assms(2)
      by (auto split: if_splits)
  qed
qed

lemma lease_success:
  assumes "acquire_browser_connection_lease set_if_absent compare_delete h cfg i own v now s
      = (Some l, s')"
  shows "\<exists>a b. a < browser_max_connections_per_session cfg \<and> b < browser_max_connections_per_user cfg
      \<and> l = \<lparr>session_slot = \<lparr>slot_key = slot_name (session_lease_prefix i) a, slot_value = v\<rparr>,
            user_slot = \<lparr>slot_key = slot_name (user_lease_prefix h own) b, slot_value = v\<rparr>\<rparr>
      \<and> live s now (slot_key (session_slot l)) = None
      \<and> live s now (slot_key (user_slot l)) = None
      \<and> (\<forall>now' \<ge> now. \<forall>k. live s' now' k =
           (if k = slot_key (session_slot l) \<or> k = slot_key (user_slot l)
            then (if now' < now + seconds (int (browser_connection_lease_ttl_seconds cfg))
                  then Some v else None)
            else live s now' k))"
proof -
  obtain r1 s1 where a1: "acquire_browser_lease_slot set_if_absent cfg (session_lease_prefix i)
      (browser_max_connections_per_session cfg) v now s = (r1, s1)" by fastforce
  obtain r2 s2 where a2: "acquire_browser_lease_slot set_if_absent cfg (user_lease_prefix h own)
      (browser_max_connections_per_user cfg) v now s1 = (r2, s2)" by fastforce
  obtain l1 l2 where r: "r1 = Some l1" "r2 = Some l2" "s' = s2"
      "l = \<lparr>session_slot = l1, user_slot = l2\<rparr>"
    using assms a1 a2
    by (auto simp: acquire_browser_connection_lease_def split: option.splits)
  note b1 = a1 [unfolded acquire_browser_lease_slot_def r(1)]
    and b2 = a2 [unfolded acquire_browser_lease_slot_def r(2)]
  obtain a where a: "a < browser_max_connections_per_session cfg"
      "l1 = \<lparr>slot_key = slot_name (session_lease_prefix i) a, slot_value = v\<rparr>"
      "live s now (slot_key l1) = None"
    using acquire_from_free [OF b1] by auto
  obtain b where b: "b < browser_max_connections_per_user cfg"
      "l2 = \<lparr>slot_key = slot_name (user_lease_prefix h own) b, slot_value = v\<rparr>"
      "live s1 now (slot_key l2) = None"
    using acquire_from_free [OF b2] by auto
  have "live s now (slot_key l2) = None"
    using acquire_from_live [OF b1, of now "slot_key l2"] a b session_user_slots_differ by simp
  then show ?thesis
    using a b r acquire_from_live [OF b1] acquire_from_live [OF b2]
    by (intro exI [of _ a] exI [of _ b]) auto
qed

lemma renew_all:
  assumes "renew_slots compare_refresh ttl now ls s = (True, s')" "distinct (map slot_key ls)"
    and "now \<le> now'"
  shows "live s' now' k =
    (if k \<in> slot_key ` set ls
     then (if now' < now + seconds (int ttl) then live s now k else None) else live s now' k)"
  using assms(1,2)
proof (induction ls arbitrary: s)
  case (Cons l ls)
  let ?s = "snd (compare_refresh (slot_key l) (slot_value l) ttl now s)"
  have held: "live s now (slot_key l) = Some (slot_value l)"
    and rest: "renew_slots compare_refresh ttl now ls ?s = (True, s')"
    using Cons.prems(1) refresh_result [of "slot_key l" "slot_value l" ttl now s]
    by (auto split: prod.splits bool.splits)
  have step: "live ?s t k = (if k = slot_key l
      then (if t < now + seconds (int ttl) then Some (slot_value l) else None) else live s t k)"
    if "now \<le> t" for t
    using refresh_live [OF that] held by simp
  have "live s' now' k = (if k \<in> slot_key ` set ls
      then (if now' < now + seconds (int ttl) then live ?s now k else None) else live ?s now' k)"
    using Cons.IH [OF rest] Cons.prems(2) by simp
  then show ?case
    using step [of now] step [OF assms(3)] held Cons.prems(2) by auto
qed simp

end

section \<open>Properties of the services on the store\<close>

text \<open>Rate limiting.  Of the requests of one identity within one window, exactly the first
  \<open>limit\<close> are allowed and every later one is rejected with the window as retry hint.\<close>

theorem rate_limit_window:
  assumes "memory_live s t0 (rate_key scope identity) = None"
    and "sorted (t0 # ts)" "\<forall>t \<in> set ts. t < t0 + seconds (int window)" "0 < window"
  shows "fst (rate_checks memory_increment window scope identity limit (t0 # ts) s) =
      map (\<lambda>i. if i < limit then Rate_Allowed else Rate_Exceeded window) [0..<Suc (length ts)]"
  using assms by (rule memory.rate_checks_fresh)

definition empty_store :: memory_store where
  "empty_store = \<lparr>mem_prefix = u ''codex-control:'', mem_values = (\<lambda>_. None), mem_subscribers = []\<rparr>"

theorem rate_limit_window_witness:
  "fst (rate_checks memory_increment 60 (u ''claim'') (u ''10.0.0.1'') 2 [5, 6, 7] empty_store) =
     [Rate_Allowed, Rate_Allowed, Rate_Exceeded 60]"
proof -
  have "memory_live empty_store 5 (rate_key (u ''claim'') (u ''10.0.0.1'')) = None"
    by (simp add: memory_live_def empty_store_def)
  from rate_limit_window [OF this, of "[6, 7]" 60 2] show ?thesis
    by (simp add: seconds_def upt_rec)
qed

text \<open>Lease acquisition fails without a trace.  When a browser connection is refused because
  the session or the user has no free slot, every key of the store shows the same value as before, at
  that instant and at every later one.\<close>

theorem lease_refusal_leaves_no_trace:
  assumes "acquire_browser_connection_lease memory_set_if_absent memory_compare_delete owner_digest
      cfg session_id owner_user_id v now s = (None, s')"
    and "now \<le> now'"
  shows "memory_live s' now' k = memory_live s now' k"
  using assms by (rule memory.lease_failure_atomic)

definition one_per_session :: settings where
  "one_per_session = default_settings\<lparr>browser_max_connections_per_session := 1\<rparr>"

definition demo_acquire :: "ustr \<Rightarrow> memory_store \<Rightarrow> connection_lease option \<times> memory_store" where
  "demo_acquire v = acquire_browser_connection_lease memory_set_if_absent memory_compare_delete rev
     one_per_session 7 (u ''user-1'') v 0"

lemmas demo_simps =
  demo_acquire_def acquire_browser_connection_lease_def acquire_browser_lease_slot_def
  one_per_session_def default_settings_def empty_store_def memory_set_if_absent_def
  purge_expired_def Let_def seconds_def upt_rec session_user_slots_differ
  session_user_slots_differ [symmetric]

lemma demo_first:
  "fst (demo_acquire (u ''lease-1'') empty_store) =
     Some \<lparr>session_slot = \<lparr>slot_key = slot_name (session_lease_prefix 7) 0,
                            slot_value = u ''lease-1''\<rparr>,
           user_slot = \<lparr>slot_key = slot_name (user_lease_prefix rev (u ''user-1'')) 0,
                         slot_value = u ''lease-1''\<rparr>\<rparr>"
  by (simp add: demo_simps)

lemma demo_second:
  "fst (demo_acquire (u ''lease-2'') (snd (demo_acquire (u ''lease-1'') empty_store))) = None"
  by (simp add: demo_simps)

lemma demo_first_pair:
  "demo_acquire (u ''lease-1'') empty_store =
     (Some \<lparr>session_slot = \<lparr>slot_key = slot_name (session_lease_prefix 7) 0,
                            slot_value = u ''lease-1''\<rparr>,
           user_slot = \<lparr>slot_key = slot_name (user_lease_prefix rev (u ''user-1'')) 0,
                         slot_value = u ''lease-1''\<rparr>\<rparr>,
      snd (demo_acquire (u ''lease-1'') empty_store))"
  using demo_first by (metis prod.collapse)

lemma demo_second_pair:
  "demo_acquire (u ''lease-2'') (snd (demo_acquire (u ''lease-1'') empty_store)) =
     (None, snd (demo_acquire (u ''lease-2'') (snd (demo_acquire (u ''lease-1'') empty_store))))"
  using demo_second by (metis prod.collapse)

theorem lease_refusal_leaves_no_trace_witness:
  "fst (demo_acquire (u ''lease-2'') (snd (demo_acquire (u ''lease-1'') empty_store))) = None
   \<and> memory_live
        (snd (demo_acquire (u ''lease-2'') (snd (demo_acquire (u ''lease-1'') empty_store)))) 5
        (slot_name (session_lease_prefix 7) 0)
      = memory_live (snd (demo_acquire (u ''lease-1'') empty_store)) 5
          (slot_name (session_lease_prefix 7) 0)"
  using lease_refusal_leaves_no_trace [OF demo_second_pair [unfolded demo_acquire_def], of 5]
    demo_second
  by (simp add: demo_acquire_def)

text \<open>C28: a granted lease is exclusive.  A granted lease holds one slot below the session limit
  and one below the user limit, both free before; until the lease time has passed every key of the
  store shows what it showed before except the two slots, which show the holder's value; and a later
  acquisition within that time never receives either of them.\<close>

theorem lease_grant_exclusive:
  assumes "acquire_browser_connection_lease memory_set_if_absent memory_compare_delete owner_digest
      cfg session_id owner_user_id v now s = (Some l, s')"
  shows "(\<exists>a < browser_max_connections_per_session cfg. \<exists>b < browser_max_connections_per_user cfg.
        l = \<lparr>session_slot = \<lparr>slot_key = slot_name (session_lease_prefix session_id) a,
                             slot_value = v\<rparr>,
             user_slot = \<lparr>slot_key = slot_name (user_lease_prefix owner_digest owner_user_id) b,
                          slot_value = v\<rparr>\<rparr>)
    \<and> memory_live s now (slot_key (session_slot l)) = None
    \<and> memory_live s now (slot_key (user_slot l)) = None
    \<and> (\<forall>now' k. now \<le> now'
        \<and> now' < now + seconds (int (browser_connection_lease_ttl_seconds cfg)) \<longrightarrow>
        memory_live s' now' k =
          (if k = slot_key (session_slot l) \<or> k = slot_key (user_slot l) then Some v
           else memory_live s now' k))
    \<and> (\<forall>now' session_id' owner_user_id' w l' s''. now \<le> now'
        \<and> now' < now + seconds (int (browser_connection_lease_ttl_seconds cfg))
        \<and> acquire_browser_connection_lease memory_set_if_absent memory_compare_delete owner_digest
            cfg session_id' owner_user_id' w now' s' = (Some l', s'') \<longrightarrow>
        {slot_key (session_slot l'), slot_key (user_slot l')}
          \<inter> {slot_key (session_slot l), slot_key (user_slot l)} = {})"
  (is "?slots \<and> ?free1 \<and> ?free2 \<and> ?held \<and> ?other")
proof (intro conjI)
  note granted = memory.lease_success [OF assms]
  show ?slots ?free1 ?free2 and held: ?held
    using granted by auto
  show ?other
  proof (intro allI impI, elim conjE)
    fix now' session_id' owner_user_id' w l' s''
    assume t: "now \<le> now'" "now' < now + seconds (int (browser_connection_lease_ttl_seconds cfg))"
      and a: "acquire_browser_connection_lease memory_set_if_absent memory_compare_delete
        owner_digest cfg session_id' owner_user_id' w now' s' = (Some l', s'')"
    have "memory_live s' now' (slot_key (session_slot l')) = None"
      "memory_live s' now' (slot_key (user_slot l')) = None"
      using memory.lease_success [OF a] by auto
    moreover have "memory_live s' now' (slot_key (session_slot l)) = Some v"
      "memory_live s' now' (slot_key (user_slot l)) = Some v"
      using held t by auto
    ultimately show "{slot_key (session_slot l'), slot_key (user_slot l')}
        \<inter> {slot_key (session_slot l), slot_key (user_slot l)} = {}"
      by auto
  qed
qed

theorem lease_grant_exclusive_witness:
  "memory_live (snd (demo_acquire (u ''lease-1'') empty_store)) 5
     (slot_name (session_lease_prefix 7) 0) = Some (u ''lease-1'')"
  using lease_grant_exclusive [OF demo_first_pair [unfolded demo_acquire_def]]
  by (simp add: demo_acquire_def one_per_session_def default_settings_def seconds_def)

text \<open>Renewal.  A successful renewal round extends exactly the slots of the lease, each of
  which then shows the value it showed, until one lease time after the round; every other key keeps
  its value.\<close>

theorem lease_renewal_extends_own_slots:
  assumes "renew_slots memory_compare_refresh ttl now ls s = (True, s')"
    and "distinct (map slot_key ls)" "now \<le> now'"
  shows "memory_live s' now' k =
      (if k \<in> slot_key ` set ls
       then (if now' < now + seconds (int ttl) then memory_live s now k else None)
       else memory_live s now' k)"
  using assms by (rule memory.renew_all)

theorem lease_renewal_extends_own_slots_witness:
  "memory_live (snd (renew_slots memory_compare_refresh 60 5
       [\<lparr>slot_key = u ''k'', slot_value = u ''v''\<rparr>] (memory_set (u ''k'') (u ''v'') 10 0 empty_store)))
     60000000 (u ''k'') = Some (u ''v'')"
proof -
  let ?s = "memory_set (u ''k'') (u ''v'') 10 0 empty_store"
  let ?ls = "[\<lparr>slot_key = u ''k'', slot_value = u ''v''\<rparr>]"
  have r: "renew_slots memory_compare_refresh 60 5 ?ls ?s
      = (True, snd (renew_slots memory_compare_refresh 60 5 ?ls ?s))"
    by (simp add: memory_compare_refresh_def memory_set_def purge_expired_def empty_store_def
        memory_put_def memory_key_def seconds_def Let_def)
  have "memory_live ?s 5 (u ''k'') = Some (u ''v'')"
    by (simp add: memory_live_def memory_set_def empty_store_def seconds_def)
  then show ?thesis
    using lease_renewal_extends_own_slots [OF r, of 60000000 "u ''k''"] by (simp add: seconds_def)
qed

end
