(* ===== verification/Snapshot.thy ===== *)
theory Snapshot
  imports Json
begin

text \<open>
  \<open>thread_snapshot.py\<close>: cutting the message history of a thread snapshot down to a byte and a
  message limit.  The search for the smallest number of dropped messages is a bisection over a probe
  that can raise; the locale \<open>monotone_probe\<close> states what the search relies on, and it is
  interpreted on the byte limits of the candidate snapshots.
\<close>

section \<open>Operations\<close>

definition MAX_THREAD_SNAPSHOT_BYTES :: int where
  "MAX_THREAD_SNAPSHOT_BYTES = 512 * 1024"

definition MAX_THREAD_SNAPSHOT_MESSAGES :: int where
  "MAX_THREAD_SNAPSHOT_MESSAGES = 1000"

text \<open>The messages of \<open>ThreadSnapshotTooLarge\<close>; the last one is the \<open>TypeError\<close> of iterating a
  \<open>messages\<close> entry that is not iterable.\<close>

datatype snapshot_error =
    Snapshot_Budget_Invalid
  | Snapshot_Required_Missing
  | Snapshot_History_Limit
  | Snapshot_Byte_Limit
  | Snapshot_Not_Serializable
  | Snapshot_Type_Error

definition serialized_json_byte_length :: "json \<Rightarrow> snapshot_error + nat" where
  "serialized_json_byte_length v =
     (case utf8_length (dumps False v) of
        None \<Rightarrow> Inl Snapshot_Not_Serializable
      | Some n \<Rightarrow> Inr n)"

text \<open>\<open>[dict(item) for item in snapshot.get("messages", []) if isinstance(item, dict)]\<close>:
  iterating a string or a mapping yields strings only.\<close>

definition json_items :: "json option \<Rightarrow> json list option" where
  "json_items v = (case v of
       None \<Rightarrow> Some []
     | Some (JArr xs) \<Rightarrow> Some xs
     | Some (JStr s) \<Rightarrow> Some (map (\<lambda>c. JStr [c]) s)
     | Some (JObj d) \<Rightarrow> Some (map (JStr \<circ> fst) d)
     | Some _ \<Rightarrow> None)"

fun as_dict :: "json \<Rightarrow> dict option" where
  "as_dict (JObj d) = Some d"
| "as_dict _ = None"

definition dict_items :: "json list \<Rightarrow> dict list" where
  "dict_items xs = List.map_filter as_dict xs"

definition last_index_where :: "('a \<Rightarrow> bool) \<Rightarrow> 'a list \<Rightarrow> nat option" where
  "last_index_where P xs = find (\<lambda>i. P (xs ! i)) (rev [0..<length xs])"

definition has_id :: "ustr \<Rightarrow> dict \<Rightarrow> bool" where
  "has_id i msg \<longleftrightarrow> dict_get msg (u ''id'') = Some (JStr i)"

definition required_index :: "ustr option \<Rightarrow> dict list \<Rightarrow> nat option" where
  "required_index required_message_id messages =
     (case required_message_id of
        None \<Rightarrow> None
      | Some i \<Rightarrow> last_index_where (has_id i) messages)"

definition removable_indexes :: "nat option \<Rightarrow> dict list \<Rightarrow> nat list" where
  "removable_indexes required messages =
     filter (\<lambda>i. Some i \<noteq> required) [0..<length messages]"

definition kept_messages :: "nat list \<Rightarrow> dict list \<Rightarrow> dict list" where
  "kept_messages dropped messages =
     map snd (filter (\<lambda>(i, msg). i \<notin> set dropped) (enumerate 0 messages))"

definition candidate :: "dict \<Rightarrow> dict list \<Rightarrow> nat list \<Rightarrow> nat \<Rightarrow> dict" where
  "candidate compacted messages removable drop_count =
     dict_set (u ''messages'') (JArr (map JObj (kept_messages (take drop_count removable) messages)))
       compacted"

definition fits :: "int \<Rightarrow> json \<Rightarrow> snapshot_error + bool" where
  "fits limit v =
     (case ensure_ascii_json_byte_length v of
        None \<Rightarrow> Inl Snapshot_Not_Serializable
      | Some n \<Rightarrow>
          if int n \<le> limit
          then map_sum id (\<lambda>k. int k \<le> limit) (serialized_json_byte_length v)
          else Inr False)"

function bisect :: "(nat \<Rightarrow> 'e + bool) \<Rightarrow> nat \<Rightarrow> nat \<Rightarrow> 'e + nat" where
  "bisect probe low high =
     (if low < high
      then let middle = (low + high) div 2 in
        (case probe middle of
           Inl e \<Rightarrow> Inl e
         | Inr True \<Rightarrow> bisect probe low middle
         | Inr False \<Rightarrow> bisect probe (middle + 1) high)
      else Inr low)"
  by pat_completeness auto
termination
  by (relation "measure (\<lambda>(probe, low, high). high - low)") auto

declare bisect.simps [simp del]

definition compact_thread_snapshot ::
  "dict \<Rightarrow> int \<Rightarrow> ustr option \<Rightarrow> int \<Rightarrow> snapshot_error + dict" where
  "compact_thread_snapshot snapshot max_bytes required_message_id max_messages =
     (let limit = min max_bytes MAX_THREAD_SNAPSHOT_BYTES in
      if limit \<le> 0 \<or> max_messages \<le> 0 then Inl Snapshot_Budget_Invalid
      else case json_items (dict_get snapshot (u ''messages'')) of
        None \<Rightarrow> Inl Snapshot_Type_Error
      | Some raw \<Rightarrow>
          let messages = dict_items raw;
              required = required_index required_message_id messages;
              removable = removable_indexes required messages;
              minimum_drop = length messages - nat max_messages;
              probe = (\<lambda>k. fits limit (JObj (candidate snapshot messages removable k)))
          in if required_message_id \<noteq> None \<and> required = None then Inl Snapshot_Required_Missing
             else if minimum_drop > length removable then Inl Snapshot_History_Limit
             else case probe (length removable) of
                 Inl e \<Rightarrow> Inl e
               | Inr False \<Rightarrow> Inl Snapshot_Byte_Limit
               | Inr True \<Rightarrow>
                   map_sum id (candidate snapshot messages removable)
                     (bisect probe minimum_drop (length removable)))"

section \<open>Bisection over a monotone probe\<close>

lemma bisect_unfold:
  "\<not> low < high \<Longrightarrow> bisect probe low high = Inr low"
  "low < high \<Longrightarrow> probe ((low + high) div 2) = Inl e \<Longrightarrow> bisect probe low high = Inl e"
  "low < high \<Longrightarrow> probe ((low + high) div 2) = Inr True \<Longrightarrow>
     bisect probe low high = bisect probe low ((low + high) div 2)"
  "low < high \<Longrightarrow> probe ((low + high) div 2) = Inr False \<Longrightarrow>
     bisect probe low high = bisect probe ((low + high) div 2 + 1) high"
  by (simp_all add: bisect.simps [of probe low high])

lemma find_upt:
  assumes "a \<le> k" "k < b" "P k" "\<And>j. a \<le> j \<Longrightarrow> j < k \<Longrightarrow> \<not> P j"
  shows "find P [a..<b] = Some k"
  unfolding find_Some_iff using assms
  by (intro exI [of _ "k - a"]) (auto simp del: upt_Suc)

text \<open>The contract of the probe: when dropping \<open>i\<close> items is not enough, dropping fewer is not
  enough either.\<close>

locale monotone_probe =
  fixes probe :: "nat \<Rightarrow> 'e + bool"
  assumes too_big: "probe i = Inr False \<Longrightarrow> j \<le> i \<Longrightarrow> probe j \<noteq> Inr True"
begin

lemma bisect_least:
  assumes "low \<le> high" "probe high = Inr True" "bisect probe low high = Inr k"
  shows "low \<le> k \<and> k \<le> high \<and> probe k = Inr True \<and> (low < k \<longrightarrow> probe (k - 1) = Inr False)"
  using assms
proof (induction "high - low" arbitrary: low high rule: less_induct)
  case less
  let ?m = "(low + high) div 2"
  consider "\<not> low < high" | e where "low < high" "probe ?m = Inl e"
    | "low < high" "probe ?m = Inr True" | "low < high" "probe ?m = Inr False"
    by (metis (full_types) sumE)
  then show ?case
  proof cases
    case 1
    then show ?thesis using less.prems by (auto simp: bisect_unfold)
  next
    case (2 e)
    then show ?thesis using less.prems by (simp add: bisect_unfold)
  next
    case 3
    then have "bisect probe low ?m = Inr k" using less.prems by (simp add: bisect_unfold)
    then have "low \<le> k \<and> k \<le> ?m \<and> probe k = Inr True \<and> (low < k \<longrightarrow> probe (k - 1) = Inr False)"
      using less.hyps [of ?m low] 3 by simp
    then show ?thesis using 3 by auto
  next
    case 4
    then have "bisect probe (?m + 1) high = Inr k" using less.prems by (simp add: bisect_unfold)
    then have "?m + 1 \<le> k \<and> k \<le> high \<and> probe k = Inr True
        \<and> (?m + 1 < k \<longrightarrow> probe (k - 1) = Inr False)"
      using less.hyps [of high "?m + 1"] 4 less.prems by simp
    moreover have "low \<le> ?m" using 4(1) by linarith
    ultimately show ?thesis using 4(2) by (cases "k = ?m + 1") auto
  qed
qed

lemma bisect_minimal:
  assumes "low \<le> high" "probe high = Inr True" "bisect probe low high = Inr k" "low \<le> j" "j < k"
  shows "probe j \<noteq> Inr True"
  using bisect_least [OF assms(1-3)] too_big [of "k - 1" j] assms(4,5) by simp

text \<open>A probe that does not raise on the searched range gives a result.\<close>

lemma bisect_total:
  assumes "\<And>i. low \<le> i \<Longrightarrow> i < high \<Longrightarrow> \<exists>b. probe i = Inr b"
  shows "\<exists>k. bisect probe low high = Inr k"
  using assms
proof (induction "high - low" arbitrary: low high rule: less_induct)
  case less
  let ?m = "(low + high) div 2"
  show ?case
  proof (cases "low < high")
    case True
    then have m: "low \<le> ?m" "?m < high" by linarith+
    then obtain b where b: "probe ?m = Inr b" using less.prems [of ?m] by blast
    have "\<exists>k. bisect probe low ?m = Inr k" using less.hyps [of ?m low] less.prems m by simp
    moreover have "\<exists>k. bisect probe (?m + 1) high = Inr k"
      using less.hyps [of high "?m + 1"] less.prems m by simp
    ultimately show ?thesis using b True by (cases b) (simp_all add: bisect_unfold)
  qed (simp add: bisect_unfold)
qed

text \<open>Without errors the bisection finds what a scan from below finds first.\<close>

lemma bisect_scan:
  assumes ok: "\<And>i. probe i = Inr (ok i)" and le: "low \<le> high"
  shows "find ok [low..<Suc high] =
    (case bisect probe low high of Inr k \<Rightarrow> if ok high then Some k else None | Inl e \<Rightarrow> None)"
proof -
  obtain k where k: "bisect probe low high = Inr k" using bisect_total ok by meson
  show ?thesis
  proof (cases "ok high")
    case True
    then have top: "probe high = Inr True" using ok by simp
    have "find ok [low..<Suc high] = Some k"
      using bisect_least [OF le top k] bisect_minimal [OF le top k] ok
      by (intro find_upt) auto
    then show ?thesis using k True by simp
  next
    case False
    then have "\<not> ok j" if "j \<le> high" for j
      using too_big [OF _ that] ok that by auto
    then have "find ok [low..<Suc high] = None" by (auto simp: find_None_iff simp del: upt_Suc)
    then show ?thesis using k False by simp
  qed
qed

end

section \<open>Candidates\<close>

lemma kept_messages_nths: "kept_messages dropped messages = nths messages {i. i \<notin> set dropped}"
proof -
  have "map snd (filter (\<lambda>(i, msg). i \<notin> D) (enumerate n xs)) = nths xs {i. i + n \<notin> D}"
    for D n and xs :: "dict list"
    by (induction xs arbitrary: n) (auto simp: nths_Cons)
  from this [of "set dropped" 0] show ?thesis by (simp add: kept_messages_def)
qed

lemma subseq_filter_mono: "(\<And>x. P x \<Longrightarrow> Q x) \<Longrightarrow> subseq (filter P xs) (filter Q xs)"
proof -
  assume "\<And>x. P x \<Longrightarrow> Q x"
  then have "filter P xs = filter P (filter Q xs)" by (induction xs) auto
  then show ?thesis by (metis subseq_filter_left)
qed

lemma kept_messages_subseq:
  "j \<le> i \<Longrightarrow> subseq (kept_messages (take i rs) ms) (kept_messages (take j rs) ms)"
  unfolding kept_messages_def using set_take_subset_set_take [of j i rs]
  by (intro subseq_map subseq_filter_mono) auto

lemma candidate_weight:
  "j \<le> i \<Longrightarrow> weight f (dumps ascii (JObj (candidate c ms rs i)))
     \<le> weight f (dumps ascii (JObj (candidate c ms rs j)))"
  unfolding candidate_def
  by (intro weight_dumps_dict_set weight_dumps_subseq subseq_map kept_messages_subseq)

text \<open>What \<open>fits\<close> accepts.\<close>

definition within_limit :: "int \<Rightarrow> json \<Rightarrow> bool" where
  "within_limit limit v \<longleftrightarrow> int (length (dumps True v)) \<le> limit
     \<and> int (weight utf8_width (dumps False v)) \<le> limit"

definition serializable :: "json \<Rightarrow> bool" where
  "serializable v \<longleftrightarrow> all_finite v \<and> \<not> list_ex surrogate (dumps False v)"

lemma fits_True: "fits limit v = Inr True \<longleftrightarrow> serializable v \<and> within_limit limit v"
  by (auto simp: fits_def serializable_def within_limit_def ensure_ascii_json_byte_length_def
      serialized_json_byte_length_def utf8_length_def weight_def split: option.splits)

lemma fits_False: "fits limit v = Inr False \<Longrightarrow> \<not> within_limit limit v"
  by (auto simp: fits_def within_limit_def ensure_ascii_json_byte_length_def
      serialized_json_byte_length_def utf8_length_def weight_def split: option.splits if_splits)

lemma fits_serializable: "serializable v \<Longrightarrow> fits limit v = Inr (within_limit limit v)"
  by (auto simp: fits_def serializable_def within_limit_def ensure_ascii_json_byte_length_def
      serialized_json_byte_length_def utf8_length_def weight_def)

lemma within_limit_candidate:
  assumes "j \<le> i" "within_limit limit (JObj (candidate c ms rs j))"
  shows "within_limit limit (JObj (candidate c ms rs i))"
  using candidate_weight [OF assms(1), of "\<lambda>_. 1" True c ms rs]
    candidate_weight [OF assms(1), of utf8_width False c ms rs] assms(2)
  unfolding within_limit_def weight_one by linarith

interpretation snapshot_probe: monotone_probe
  "\<lambda>k. fits limit (JObj (candidate c ms rs k))" for limit c ms rs
  by unfold_locales (use within_limit_candidate fits_False fits_True in blast)

section \<open>What is kept\<close>

text \<open>Keeping the newest: the oldest \<open>k\<close> messages go, except the required one.\<close>

definition keep_newest :: "nat option \<Rightarrow> nat \<Rightarrow> dict list \<Rightarrow> dict list" where
  "keep_newest required k ms =
     (case required of
        None \<Rightarrow> drop k ms
      | Some r \<Rightarrow> if k \<le> r then drop k ms else ms ! r # drop (Suc k) ms)"

lemma last_index_whereD:
  assumes "last_index_where P xs = Some i"
  shows "i < length xs" "P (xs ! i)"
  using assms unfolding last_index_where_def find_Some_iff
  by (auto simp: rev_nth)

lemma required_indexD:
  "required_index (Some i) ms = Some r \<Longrightarrow> r < length ms \<and> has_id i (ms ! r)"
  by (auto simp: required_index_def dest: last_index_whereD)

lemma removable_None: "removable_indexes None ms = [0..<length ms]"
  by (simp add: removable_indexes_def)

lemma removable_Some:
  assumes "r < length ms"
  shows "removable_indexes (Some r) ms = [0..<r] @ [Suc r..<length ms]"
proof -
  have "[0..<length ms] = [0..<r] @ r # [Suc r..<length ms]"
    using assms upt_add_eq_append [of 0 r "length ms - r"] by (simp add: upt_conv_Cons)
  moreover have "filter (\<lambda>i. i \<noteq> r) [0..<r] = [0..<r]"
    by (rule filter_True) simp
  moreover have "filter (\<lambda>i. i \<noteq> r) [Suc r..<length ms] = [Suc r..<length ms]"
    by (rule filter_True) simp
  ultimately show ?thesis by (simp add: removable_indexes_def)
qed

lemma nths_none: "(\<And>i. i < length xs \<Longrightarrow> i \<notin> I) \<Longrightarrow> nths xs I = []"
proof -
  assume "\<And>i. i < length xs \<Longrightarrow> i \<notin> I"
  then have "set (nths xs I) = {}" by (auto simp: set_nths)
  then show ?thesis by simp
qed

lemma nths_except:
  assumes "r < k" "k \<le> length ms"
  shows "nths ms {i. i = r \<or> k \<le> i} = ms ! r # drop k ms"
proof -
  have "nths ms {i. i = r \<or> k \<le> i} =
      nths (take k ms) {i. i = r \<or> k \<le> i} @ nths (drop k ms) {j. j + k = r \<or> k \<le> j + k}"
    using assms nths_append [of "take k ms" "drop k ms" "{i. i = r \<or> k \<le> i}"] by simp
  moreover have "nths (drop k ms) {j. j + k = r \<or> k \<le> j + k} = drop k ms"
    by (rule nths_all) simp
  moreover have "nths (take k ms) {i. i = r \<or> k \<le> i} = [ms ! r]"
  proof -
    have t: "take k ms = take r ms @ ms ! r # drop (Suc r) (take k ms)"
      using id_take_nth_drop [of r "take k ms"] assms by (simp add: min_def)
    have "nths (take r ms) {i. i = r \<or> k \<le> i} = []"
      using assms by (intro nths_none) auto
    moreover have "nths (drop (Suc r) (take k ms)) {j. Suc j + r = r \<or> k \<le> Suc j + r} = []"
      using assms by (intro nths_none) auto
    ultimately show ?thesis
      using assms by (subst t) (simp add: nths_append nths_Cons min_def)
  qed
  ultimately show ?thesis by simp
qed

lemma take_removable:
  assumes "r < length ms" "r < k" "k < length ms"
  shows "set (take k (removable_indexes (Some r) ms)) = {..<Suc k} - {r}"
proof -
  have "take k (removable_indexes (Some r) ms) = [0..<r] @ [Suc r..<Suc k]"
    using assms by (simp add: removable_Some take_upt)
  then show ?thesis using assms(2) by auto
qed

lemma kept_messages_newest:
  assumes "\<And>r. required = Some r \<Longrightarrow> r < length ms"
    and "k \<le> length (removable_indexes required ms)"
  shows "kept_messages (take k (removable_indexes required ms)) ms = keep_newest required k ms"
proof (cases required)
  case None
  then have "{i. i \<notin> set (take k (removable_indexes required ms))} = {i. k \<le> i}"
    using assms(2) by (auto simp: removable_None take_upt)
  then show ?thesis using None by (simp add: kept_messages_nths keep_newest_def drop_eq_nths)
next
  case (Some r)
  then have r: "r < length ms" using assms(1) by blast
  have len: "length (removable_indexes (Some r) ms) = length ms - 1"
    using r by (simp add: removable_Some)
  show ?thesis
  proof (cases "k \<le> r")
    case True
    then have "take k (removable_indexes required ms) = [0..<k]"
      using Some r by (simp add: removable_Some take_upt)
    then have "{i. i \<notin> set (take k (removable_indexes required ms))} = {i. k \<le> i}" by auto
    then show ?thesis using Some True by (simp add: kept_messages_nths keep_newest_def drop_eq_nths)
  next
    case False
    then have k: "r < k" "k < length ms" using assms(2) Some len r by auto
    then have "{i. i \<notin> set (take k (removable_indexes required ms))} = {i. i = r \<or> Suc k \<le> i}"
      unfolding Some take_removable [OF r k] by auto
    then show ?thesis using Some False k nths_except [of r "Suc k" ms]
      by (simp add: kept_messages_nths keep_newest_def)
  qed
qed

lemma length_removable:
  assumes "\<And>r. required = Some r \<Longrightarrow> r < length ms"
  shows "length (removable_indexes required ms) = length ms - (if required = None then 0 else 1)"
  using assms by (cases required) (auto simp: removable_None removable_Some)

lemma length_keep_newest:
  assumes "\<And>r. required = Some r \<Longrightarrow> r < length ms"
    and "k \<le> length (removable_indexes required ms)"
  shows "length (keep_newest required k ms) = length ms - k"
  using assms by (cases required) (auto simp: keep_newest_def removable_Some)

lemma keep_newest_required: "r < length ms \<Longrightarrow> ms ! r \<in> set (keep_newest (Some r) k ms)"
  using nth_mem [of "r - k" "drop k ms"] by (cases "k \<le> r") (simp_all add: keep_newest_def)

section \<open>Result of the compaction\<close>

definition snapshot_messages :: "dict \<Rightarrow> dict list" where
  "snapshot_messages snapshot =
     (case json_items (dict_get snapshot (u ''messages'')) of None \<Rightarrow> [] | Some raw \<Rightarrow> dict_items raw)"

definition kept_snapshot :: "dict \<Rightarrow> ustr option \<Rightarrow> nat \<Rightarrow> dict" where
  "kept_snapshot snapshot required_message_id k =
     (let ms = snapshot_messages snapshot in
      dict_set (u ''messages'')
        (JArr (map JObj (keep_newest (required_index required_message_id ms) k ms))) snapshot)"

lemma required_index_range:
  "required_index required_message_id ms = Some r \<Longrightarrow> r < length ms"
  by (cases required_message_id) (auto simp: required_index_def dest: last_index_whereD)

lemma candidate_kept:
  assumes "k \<le> length (removable_indexes (required_index req (snapshot_messages snapshot))
      (snapshot_messages snapshot))"
  shows "candidate snapshot (snapshot_messages snapshot)
      (removable_indexes (required_index req (snapshot_messages snapshot)) (snapshot_messages snapshot)) k
     = kept_snapshot snapshot req k"
  using kept_messages_newest [OF required_index_range assms]
  by (simp add: candidate_def kept_snapshot_def Let_def)

text \<open>A linear scan for the smallest number of messages to drop.\<close>

definition compact_reference ::
  "dict \<Rightarrow> int \<Rightarrow> ustr option \<Rightarrow> int \<Rightarrow> snapshot_error + dict" where
  "compact_reference snapshot max_bytes required_message_id max_messages =
     (let limit = min max_bytes MAX_THREAD_SNAPSHOT_BYTES;
          ms = snapshot_messages snapshot;
          required = required_index required_message_id ms;
          most = length ms - (if required = None then 0 else 1);
          least = length ms - nat max_messages
      in if limit \<le> 0 \<or> max_messages \<le> 0 then Inl Snapshot_Budget_Invalid
         else if json_items (dict_get snapshot (u ''messages'')) = None then Inl Snapshot_Type_Error
         else if required_message_id \<noteq> None \<and> required = None then Inl Snapshot_Required_Missing
         else if least > most then Inl Snapshot_History_Limit
         else case find (\<lambda>k. within_limit limit (JObj (kept_snapshot snapshot required_message_id k)))
             [least..<Suc most] of
           None \<Rightarrow> Inl Snapshot_Byte_Limit
         | Some k \<Rightarrow> Inr (kept_snapshot snapshot required_message_id k))"

lemma compact_unfold:
  "compact_thread_snapshot snapshot max_bytes req max_messages =
     (let limit = min max_bytes MAX_THREAD_SNAPSHOT_BYTES;
          ms = snapshot_messages snapshot;
          required = required_index req ms;
          removable = removable_indexes required ms;
          probe = (\<lambda>k. fits limit (JObj (candidate snapshot ms removable k)))
      in if limit \<le> 0 \<or> max_messages \<le> 0 then Inl Snapshot_Budget_Invalid
         else if json_items (dict_get snapshot (u ''messages'')) = None then Inl Snapshot_Type_Error
         else if req \<noteq> None \<and> required = None then Inl Snapshot_Required_Missing
         else if length ms - nat max_messages > length removable then Inl Snapshot_History_Limit
         else case probe (length removable) of
             Inl e \<Rightarrow> Inl e
           | Inr False \<Rightarrow> Inl Snapshot_Byte_Limit
           | Inr True \<Rightarrow>
               map_sum id (candidate snapshot ms removable)
                 (bisect probe (length ms - nat max_messages) (length removable)))"
  by (auto simp: compact_thread_snapshot_def snapshot_messages_def Let_def split: option.split)

lemma compact_Inr:
  fixes req max_messages snapshot max_bytes
  defines "ms \<equiv> snapshot_messages snapshot"
  defines "limit \<equiv> min max_bytes MAX_THREAD_SNAPSHOT_BYTES"
    and "required \<equiv> required_index req ms"
  defines "removable \<equiv> removable_indexes required ms"
  assumes "compact_thread_snapshot snapshot max_bytes req max_messages = Inr r"
  obtains k where "r = candidate snapshot ms removable k"
    "bisect (\<lambda>k. fits limit (JObj (candidate snapshot ms removable k)))
       (length ms - nat max_messages) (length removable) = Inr k"
    "fits limit (JObj (candidate snapshot ms removable (length removable))) = Inr True"
    "length ms - nat max_messages \<le> length removable" "0 < max_messages"
    "req \<noteq> None \<longrightarrow> required \<noteq> None"
  using assms(5) unfolding compact_unfold Let_def ms_def [symmetric] required_def [symmetric]
    removable_def [symmetric] limit_def [symmetric]
  by (auto split: if_splits sum.splits bool.splits
      simp: map_sum_def)

lemma serializable_candidate:
  assumes "serializable (JObj (candidate c ms rs 0))"
  shows "serializable (JObj (candidate c ms rs k))"
proof -
  have w: "list_ex surrogate s \<longleftrightarrow> 0 < weight (\<lambda>ch. if surrogate ch then 1 else 0) s" for s
    by (induction s) auto
  have "\<not> list_ex surrogate (dumps False (JObj (candidate c ms rs k)))"
    using assms candidate_weight [of 0 k "\<lambda>ch. if surrogate ch then 1 else 0" False c ms rs]
    unfolding serializable_def w by linarith
  moreover have af: "all_finite (JObj (dict_set key v d)) \<Longrightarrow> all_finite v \<and> (all_finite v' \<longrightarrow>
      all_finite (JObj (dict_set key v' d)))" for key v v' d
    by (induction d) (auto split: if_splits)
  have "all_finite (JObj (candidate c ms rs k))"
  proof -
    have "set (kept_messages (take k rs) ms) \<subseteq> set (kept_messages (take 0 rs) ms)"
      using kept_messages_subseq [of 0 k rs ms] by (auto dest: list_emb_set)
    then have "all_finite (JArr (map JObj (kept_messages (take 0 rs) ms))) \<longrightarrow>
        all_finite (JArr (map JObj (kept_messages (take k rs) ms)))"
      by (auto simp: list_all_iff)
    then show ?thesis
      using assms af unfolding serializable_def candidate_def by blast
  qed
  ultimately show ?thesis by (simp add: serializable_def)
qed

section \<open>Properties\<close>

lemmas sample_eval =
  MAX_THREAD_SNAPSHOT_BYTES_def dict_get_def json_items_def dict_items_def map_filter_simps
  required_index_def last_index_where_def has_id_def removable_indexes_def kept_messages_def
  candidate_def fits_def ensure_ascii_json_byte_length_def serialized_json_byte_length_def
  utf8_length_def utf8_width_def surrogate_def quote_def escape_char_def short_escape_def
  kept_snapshot_def snapshot_messages_def keep_newest_def u_def Let_def

definition sample_snapshot :: dict where
  "sample_snapshot = [(u ''messages'', JArr (map (\<lambda>i. JObj [(u ''id'', JStr i)]) [u ''a'', u ''b'', u ''c'']))]"

lemma sample_compact:
  "compact_thread_snapshot sample_snapshot 40 (Some (u ''a'')) 2 =
     Inr (kept_snapshot sample_snapshot (Some (u ''a'')) 1)"
  by (simp add: compact_thread_snapshot_def sample_snapshot_def sample_eval bisect.simps)

text \<open>C29: compaction keeps what it can.  A compacted snapshot is the given one with the oldest
  messages removed, except the required one, which stays; it is serializable, respects both byte
  limits and the message limit; and no smaller number of removed messages that respects the message
  limit would have respected the byte limits.\<close>

theorem compaction_result:
  assumes "compact_thread_snapshot snapshot max_bytes req max_messages = Inr r"
  shows "\<exists>k. r = kept_snapshot snapshot req k
    \<and> serializable (JObj r) \<and> within_limit (min max_bytes MAX_THREAD_SNAPSHOT_BYTES) (JObj r)
    \<and> length (snapshot_messages snapshot) - k \<le> nat max_messages
    \<and> length (snapshot_messages r) = length (snapshot_messages snapshot) - k
    \<and> (\<forall>i. req = Some i \<longrightarrow> (\<exists>msg \<in> set (snapshot_messages r). has_id i msg))
    \<and> (\<forall>j. length (snapshot_messages snapshot) - nat max_messages \<le> j \<and> j < k \<longrightarrow>
         \<not> within_limit (min max_bytes MAX_THREAD_SNAPSHOT_BYTES) (JObj (kept_snapshot snapshot req j)))"
proof -
  let ?ms = "snapshot_messages snapshot"
  let ?limit = "min max_bytes MAX_THREAD_SNAPSHOT_BYTES"
  let ?ri = "required_index req ?ms"
  let ?rs = "removable_indexes ?ri ?ms"
  obtain k where k: "r = candidate snapshot ?ms ?rs k"
      "bisect (\<lambda>k. fits ?limit (JObj (candidate snapshot ?ms ?rs k)))
         (length ?ms - nat max_messages) (length ?rs) = Inr k"
      "fits ?limit (JObj (candidate snapshot ?ms ?rs (length ?rs))) = Inr True"
      "length ?ms - nat max_messages \<le> length ?rs" "0 < max_messages" "req \<noteq> None \<longrightarrow> ?ri \<noteq> None"
    using assms by (rule compact_Inr)
  note least = snapshot_probe.bisect_least [OF k(4,3,2)]
  then have kr: "k \<le> length ?rs" by blast
  have r: "r = kept_snapshot snapshot req k" using k(1) candidate_kept [OF kr] by simp
  have "dict_items (map JObj xs) = xs" for xs
    by (induction xs) (simp_all add: dict_items_def map_filter_simps)
  then have msgs: "snapshot_messages r = keep_newest ?ri k ?ms"
    by (simp add: r kept_snapshot_def Let_def snapshot_messages_def json_items_def)
  have "serializable (JObj r)" "within_limit ?limit (JObj r)"
    using least k(1) by (simp_all add: fits_True)
  moreover have "length (snapshot_messages r) = length ?ms - k"
    using length_keep_newest [OF required_index_range kr] msgs by simp
  moreover have "\<exists>msg \<in> set (snapshot_messages r). has_id i msg" if "req = Some i" for i
  proof -
    obtain q where q: "?ri = Some q" using k(6) \<open>req = Some i\<close> by auto
    then have "q < length ?ms" "has_id i (?ms ! q)" using required_indexD \<open>req = Some i\<close> by auto
    then show ?thesis using keep_newest_required msgs q by metis
  qed
  moreover have "\<not> within_limit ?limit (JObj (kept_snapshot snapshot req j))"
    if j: "length ?ms - nat max_messages \<le> j" "j < k" for j
  proof -
    have "\<not> within_limit ?limit (JObj (candidate snapshot ?ms ?rs (k - 1)))"
      using least j fits_False by (metis le_less_trans)
    then have "\<not> within_limit ?limit (JObj (candidate snapshot ?ms ?rs j))"
      using within_limit_candidate [of j "k - 1"] j by fastforce
    then show ?thesis using candidate_kept [of j req snapshot] j kr by simp
  qed
  ultimately show ?thesis using r least k(5) by (intro exI [of _ k]) auto
qed

theorem compaction_result_witness:
  "\<exists>msg \<in> set (snapshot_messages (kept_snapshot sample_snapshot (Some (u ''a'')) 1)).
     has_id (u ''a'') msg"
  using compaction_result [OF sample_compact] by blast

text \<open>The bisection is the linear scan.  On a snapshot that is serializable as a whole, the
  compaction gives the result, or the error, of trying every number of dropped messages from the
  smallest on.\<close>

theorem compaction_is_linear_scan:
  assumes "serializable (JObj (kept_snapshot snapshot req 0))"
  shows "compact_thread_snapshot snapshot max_bytes req max_messages =
    compact_reference snapshot max_bytes req max_messages"
proof -
  let ?ms = "snapshot_messages snapshot"
  let ?limit = "min max_bytes MAX_THREAD_SNAPSHOT_BYTES"
  let ?ri = "required_index req ?ms"
  let ?rs = "removable_indexes ?ri ?ms"
  let ?least = "length ?ms - nat max_messages"
  let ?ok = "\<lambda>k. within_limit ?limit (JObj (kept_snapshot snapshot req k))"
  let ?probe = "\<lambda>k. fits ?limit (JObj (candidate snapshot ?ms ?rs k))"
  have len: "length ?rs = length ?ms - (if ?ri = None then 0 else 1)"
    using length_removable [OF required_index_range] .
  have ser: "serializable (JObj (candidate snapshot ?ms ?rs k))" for k
    using serializable_candidate assms candidate_kept [of 0 req snapshot] by simp
  then have probe: "?probe k = Inr (within_limit ?limit (JObj (candidate snapshot ?ms ?rs k)))" for k
    by (rule fits_serializable)
  have ok: "within_limit ?limit (JObj (candidate snapshot ?ms ?rs k)) = ?ok k" if "k \<le> length ?rs" for k
    using candidate_kept [of k req snapshot] that by simp
  have "find ?ok [?least..<Suc (length ?rs)] =
      find (\<lambda>k. within_limit ?limit (JObj (candidate snapshot ?ms ?rs k))) [?least..<Suc (length ?rs)]"
    by (rule find_cong [OF refl]) (simp add: ok del: upt_Suc)
  also have "\<dots> = (case bisect ?probe ?least (length ?rs) of
      Inr k \<Rightarrow> if within_limit ?limit (JObj (candidate snapshot ?ms ?rs (length ?rs))) then Some k else None
    | Inl e \<Rightarrow> None)" if "?least \<le> length ?rs"
    using snapshot_probe.bisect_scan [OF probe that] .
  finally have scan: "find ?ok [?least..<Suc (length ?rs)] = \<dots>" if "?least \<le> length ?rs" using that .
  obtain k where k: "bisect ?probe ?least (length ?rs) = Inr k"
    using snapshot_probe.bisect_total probe by meson
  have "k \<le> length ?rs" if "?least \<le> length ?rs" "?ok (length ?rs)"
    using snapshot_probe.bisect_least [OF that(1) _ k] probe [of "length ?rs"] ok that(2) by simp
  then have kept: "candidate snapshot ?ms ?rs k = kept_snapshot snapshot req k"
    if "?least \<le> length ?rs" "?ok (length ?rs)" using candidate_kept that by blast
  have main: "(case ?probe (length ?rs) of
      Inl e \<Rightarrow> Inl e
    | Inr False \<Rightarrow> Inl Snapshot_Byte_Limit
    | Inr True \<Rightarrow> map_sum id (candidate snapshot ?ms ?rs) (bisect ?probe ?least (length ?rs)))
    = (case find ?ok [?least..<Suc (length ?rs)] of
         None \<Rightarrow> Inl Snapshot_Byte_Limit
       | Some k \<Rightarrow> Inr (kept_snapshot snapshot req k))" if "?least \<le> length ?rs"
    unfolding k scan [OF that] probe [of "length ?rs"] ok [OF order.refl]
    using kept that by (cases "?ok (length ?rs)") simp_all
  show ?thesis
    unfolding compact_unfold compact_reference_def Let_def len [symmetric]
    by (intro if_cong refl main) (simp only: not_less)
qed

theorem compaction_is_linear_scan_witness:
  "compact_reference sample_snapshot 40 (Some (u ''a'')) 2 =
     Inr (kept_snapshot sample_snapshot (Some (u ''a'')) 1)"
proof -
  have "serializable (JObj (kept_snapshot sample_snapshot (Some (u ''a'')) 0))"
    by (simp add: serializable_def sample_snapshot_def sample_eval)
  from compaction_is_linear_scan [OF this] show ?thesis using sample_compact by simp
qed

end
