(* ===== verification/Paths.thy ===== *)
theory Paths
  imports Json
begin

text \<open>
  Workspace roots: \<open>security.canonicalize_workspace_roots\<close>, the normalisation
  \<open>posixpath.normpath\<close> that it compares with, and \<open>realtime._cwd_in_roots\<close>, which decides whether
  a working directory that a device reports lies inside the roots of the device.
\<close>

section \<open>Operations\<close>

text \<open>\<open>str.split\<close> with a one-character separator.\<close>

fun split_on :: "nat \<Rightarrow> ustr \<Rightarrow> ustr list" where
  "split_on c [] = [[]]"
| "split_on c (x # xs) =
     (if x = c then [] # split_on c xs
      else case split_on c xs of [] \<Rightarrow> [[x]] | y # ys \<Rightarrow> (x # y) # ys)"

definition norm_step :: "nat \<Rightarrow> ustr list \<Rightarrow> ustr \<Rightarrow> ustr list" where
  "norm_step initial_slashes new_comps part =
     (if part = [] \<or> part = u ''.'' then new_comps
      else if part \<noteq> u ''..'' \<or> (initial_slashes = 0 \<and> new_comps = [])
          \<or> (new_comps \<noteq> [] \<and> last new_comps = u ''..'')
      then new_comps @ [part]
      else butlast new_comps)"

definition initial_slashes :: "ustr \<Rightarrow> nat" where
  "initial_slashes path =
     (if prefix (u ''/'') path
      then if prefix (u ''//'') path \<and> \<not> prefix (u ''///'') path then 2 else 1
      else 0)"

definition normpath :: "ustr \<Rightarrow> ustr" where
  "normpath path =
     (if path = [] then u ''.''
      else let slashes = initial_slashes path;
               p = replicate slashes 47 @
                 sep_by (u ''/'') (foldl (norm_step slashes) [] (split_on 47 path))
           in if p = [] then u ''.'' else p)"

datatype root_error =
    Roots_Empty
  | Roots_Too_Many
  | Root_Invalid_Length nat
  | Root_Control_Character nat
  | Root_Not_Absolute nat
  | Root_Is_Filesystem_Root
  | Root_Not_Canonical nat
  | Root_Duplicated ustr
  | Root_Not_Encodable

fun canonicalize_from :: "nat \<Rightarrow> ustr list \<Rightarrow> ustr list \<Rightarrow> root_error + ustr list" where
  "canonicalize_from index seen [] = Inr seen"
| "canonicalize_from index seen (root # roots) =
     (if root = [] then Inl (Root_Invalid_Length index)
      else case utf8_length root of
        None \<Rightarrow> Inl Root_Not_Encodable
      | Some n \<Rightarrow>
          if n > 4096 then Inl (Root_Invalid_Length index)
          else if list_ex (\<lambda>c. c < 32) root then Inl (Root_Control_Character index)
          else if \<not> prefix (u ''/'') root \<or> prefix (u ''//'') root then Inl (Root_Not_Absolute index)
          else if root = u ''/'' then Inl Root_Is_Filesystem_Root
          else if normpath root \<noteq> root then Inl (Root_Not_Canonical index)
          else if root \<in> set seen then Inl (Root_Duplicated root)
          else canonicalize_from (index + 1) (seen @ [root]) roots)"

definition canonicalize_workspace_roots :: "ustr list \<Rightarrow> root_error + ustr list" where
  "canonicalize_workspace_roots roots =
     (if roots = [] then Inl Roots_Empty
      else if length roots > 32 then Inl Roots_Too_Many
      else canonicalize_from 0 [] roots)"

definition cwd_in_roots :: "ustr \<Rightarrow> ustr list \<Rightarrow> bool" where
  "cwd_in_roots cwd roots =
     (case canonicalize_workspace_roots [cwd] of
        Inr (canonical # _) \<Rightarrow>
          list_ex (\<lambda>root. canonical = root \<or> prefix (root @ u ''/'') canonical) roots
      | _ \<Rightarrow> False)"

section \<open>Components\<close>

text \<open>The specification: a canonical path is a non-empty list of proper component names.\<close>

definition proper :: "ustr \<Rightarrow> bool" where
  "proper part \<longleftrightarrow> part \<noteq> [] \<and> part \<noteq> u ''.'' \<and> part \<noteq> u ''..'' \<and> 47 \<notin> set part"

definition path_of :: "ustr list \<Rightarrow> ustr" where
  "path_of comps = concat (map (\<lambda>part. 47 # part) comps)"

definition components :: "ustr \<Rightarrow> ustr list" where
  "components path = tl (split_on 47 path)"

lemma split_on_nonempty [simp]: "split_on c s \<noteq> []"
  by (induction c s rule: split_on.induct) (auto split: list.splits)

lemma split_on_append: "split_on c (a @ c # b) = split_on c a @ split_on c b"
proof (induction a)
  case (Cons x a)
  then show ?case by (cases "split_on c a") (auto split: list.splits)
qed simp

lemma split_on_none: "c \<notin> set s \<Longrightarrow> split_on c s = [s]"
  by (induction s) auto

lemma split_on_separator: "x \<in> set (split_on c s) \<Longrightarrow> c \<notin> set x"
proof (induction c s arbitrary: x rule: split_on.induct)
  case (2 c y s)
  then show ?case by (cases "split_on c s") (auto split: if_splits)
qed simp

lemma split_on_path_of:
  assumes "\<forall>part \<in> set comps. 47 \<notin> set part"
  shows "split_on 47 (path_of comps) = [] # comps"
  using assms
proof (induction comps rule: rev_induct)
  case (snoc part comps)
  then have "split_on 47 (path_of comps @ 47 # part) = ([] # comps) @ [part]"
    by (simp add: split_on_append split_on_none)
  then show ?case by (simp add: path_of_def)
qed (simp add: path_of_def)

lemma components_path_of [simp]:
  "\<forall>part \<in> set comps. proper part \<Longrightarrow> components (path_of comps) = comps"
  by (simp add: components_def split_on_path_of proper_def)

lemma path_of_sep_by: "comps \<noteq> [] \<Longrightarrow> 47 # sep_by [47] comps = path_of comps"
  by (induction "[47 :: nat]" comps rule: sep_by.induct) (auto simp: path_of_def)

lemma norm_step_proper:
  assumes "\<forall>x \<in> set acc. proper x" "47 \<notin> set part"
  shows "\<forall>x \<in> set (norm_step 1 acc part). proper x"
  using assms in_set_butlastD [of _ acc] last_in_set [of acc]
  by (auto simp: norm_step_def proper_def)

lemma foldl_norm_proper:
  assumes "\<forall>x \<in> set acc. proper x" "\<forall>x \<in> set comps. 47 \<notin> set x"
  shows "\<forall>x \<in> set (foldl (norm_step 1) acc comps). proper x"
  using assms
proof (induction comps arbitrary: acc)
  case (Cons c comps)
  then show ?case using norm_step_proper [of acc c] by simp
qed simp

lemma canonical_path:
  assumes "prefix (u ''/'') p" "\<not> prefix (u ''//'') p" "p \<noteq> u ''/''" "normpath p = p"
  shows "\<exists>comps. comps \<noteq> [] \<and> (\<forall>x \<in> set comps. proper x) \<and> p = path_of comps"
proof -
  let ?c = "foldl (norm_step 1) [] (split_on 47 p)"
  have s: "initial_slashes p = 1" using assms(1,2) by (simp add: initial_slashes_def)
  have "p = 47 # sep_by [47] ?c"
    using assms(1,4) by (auto simp: normpath_def s Let_def u_def split: if_splits)
  moreover have "?c \<noteq> []"
    using calculation assms(3) by (auto simp: u_def)
  moreover have "\<forall>x \<in> set ?c. proper x"
    by (intro foldl_norm_proper) (auto dest: split_on_separator)
  ultimately show ?thesis using path_of_sep_by by metis
qed

section \<open>What is accepted\<close>

definition canonical_root :: "ustr \<Rightarrow> bool" where
  "canonical_root root \<longleftrightarrow> (\<exists>n. utf8_length root = Some n \<and> n \<le> 4096)
     \<and> (\<forall>c \<in> set root. 32 \<le> c)
     \<and> (\<exists>comps. comps \<noteq> [] \<and> (\<forall>x \<in> set comps. proper x) \<and> root = path_of comps)"

lemma canonicalize_from_Inr:
  assumes "canonicalize_from i seen roots = Inr r" "distinct seen"
  shows "r = seen @ roots \<and> distinct r \<and> (\<forall>root \<in> set roots. canonical_root root)"
  using assms
proof (induction i seen roots rule: canonicalize_from.induct)
  case (2 i seen root roots)
  from "2.prems" obtain n where n: "root \<noteq> []" "utf8_length root = Some n" "n \<le> 4096"
      "\<not> list_ex (\<lambda>c. c < 32) root" "prefix (u ''/'') root" "\<not> prefix (u ''//'') root"
      "root \<noteq> u ''/''" "normpath root = root" "root \<notin> set seen"
      "canonicalize_from (i + 1) (seen @ [root]) roots = Inr r"
    by (auto split: if_splits option.splits)
  then have "r = (seen @ [root]) @ roots \<and> distinct r \<and> (\<forall>root \<in> set roots. canonical_root root)"
    using "2.IH" [OF n(1,2)] "2.prems"(2) by auto
  moreover have "canonical_root root"
    using canonical_path [OF n(5-8)] n(2-4) by (auto simp: canonical_root_def list_ex_iff not_less)
  ultimately show ?case by auto
qed simp

lemma canonicalize_Inr:
  assumes "canonicalize_workspace_roots roots = Inr r"
  shows "r = roots" "distinct roots" "roots \<noteq> []" "length roots \<le> 32"
    "\<And>root. root \<in> set roots \<Longrightarrow> canonical_root root"
  using assms canonicalize_from_Inr [of 0 "[]" roots r]
  by (auto simp: canonicalize_workspace_roots_def split: if_splits)

lemma prefix_path_of:
  assumes "\<forall>x \<in> set a. proper x" "\<forall>x \<in> set b. proper x"
  shows "path_of b = path_of a \<or> prefix (path_of a @ u ''/'') (path_of b) \<longleftrightarrow> prefix a b"
proof
  assume "path_of b = path_of a \<or> prefix (path_of a @ u ''/'') (path_of b)"
  then consider "path_of b = path_of a" | rest where "path_of b = path_of a @ 47 # rest"
    by (auto simp: prefix_def u_def)
  then show "prefix a b"
  proof cases
    case 1
    then show ?thesis using assms components_path_of by (metis prefix_order.order_refl)
  next
    case (2 rest)
    have "[] # b = ([] # a) @ split_on 47 rest"
      using split_on_path_of [of b] split_on_path_of [of a] split_on_append [of 47 "path_of a" rest]
        assms 2 by (simp add: proper_def)
    then show ?thesis by (simp add: prefix_def)
  qed
next
  assume "prefix a b"
  then obtain d where "b = a @ d" by (auto simp: prefix_def)
  then show "path_of b = path_of a \<or> prefix (path_of a @ u ''/'') (path_of b)"
    by (cases d) (auto simp: path_of_def u_def)
qed

section \<open>Properties\<close>

text \<open>Registered roots are canonical.  Workspace roots that pass the check are returned
  unchanged; they are between one and 32 distinct paths, each at most 4096 bytes of UTF-8 without
  control characters, and each an absolute path of one or more components of which none is empty,
  \<open>.\<close> or \<open>..\<close>.\<close>

theorem canonical_roots:
  assumes "canonicalize_workspace_roots roots = Inr r"
  shows "r = roots \<and> distinct roots \<and> roots \<noteq> [] \<and> length roots \<le> 32
    \<and> list_all canonical_root roots"
  using canonicalize_Inr [OF assms] by (auto simp: list_all_iff)

lemma sample_roots:
  "canonicalize_workspace_roots [u ''/work'', u ''/srv/a''] = Inr [u ''/work'', u ''/srv/a'']"
  by (simp add: canonicalize_workspace_roots_def utf8_length_def utf8_width_def surrogate_def u_def
      normpath_def initial_slashes_def norm_step_def Let_def)

theorem canonical_roots_witness:
  "list_all canonical_root [u ''/work'', u ''/srv/a'']"
  using canonical_roots [OF sample_roots] by simp

text \<open>C31: containment is containment of components.  For registered roots, a reported working
  directory is accepted exactly if it is itself a canonical path whose components start with all
  components of one of the roots: a sibling with a longer name, or a path that climbs out with
  \<open>..\<close>, is not inside.\<close>

theorem cwd_containment:
  assumes "canonicalize_workspace_roots roots = Inr r"
  shows "cwd_in_roots cwd roots \<longleftrightarrow>
    (\<exists>c. canonicalize_workspace_roots [cwd] = Inr c)
    \<and> (\<exists>root \<in> set roots. prefix (components root) (components cwd))"
proof (cases "canonicalize_workspace_roots [cwd]")
  case (Inl e)
  then show ?thesis by (simp add: cwd_in_roots_def)
next
  case (Inr c)
  note cwd = canonicalize_Inr [OF Inr]
  have same: "cwd = root \<or> prefix (root @ u ''/'') cwd \<longleftrightarrow> prefix (components root) (components cwd)"
    if r: "root \<in> set roots" for root
  proof -
    obtain a where a: "\<forall>x \<in> set a. proper x" "root = path_of a"
      using canonicalize_Inr(5) [OF assms r] by (auto simp: canonical_root_def)
    obtain b where b: "\<forall>x \<in> set b. proper x" "cwd = path_of b"
      using cwd(5) [of cwd] by (auto simp: canonical_root_def)
    show ?thesis using prefix_path_of [OF a(1) b(1)] a b by simp
  qed
  then show ?thesis using Inr cwd(1) by (auto simp: cwd_in_roots_def list_ex_iff)
qed

theorem cwd_containment_witness:
  "cwd_in_roots (u ''/work/x'') [u ''/work'', u ''/srv/a'']
   \<and> \<not> cwd_in_roots (u ''/workers'') [u ''/work'', u ''/srv/a'']
   \<and> \<not> cwd_in_roots (u ''/work/../etc'') [u ''/work'', u ''/srv/a'']"
  unfolding cwd_containment [OF sample_roots]
  by (simp add: canonicalize_workspace_roots_def utf8_length_def utf8_width_def surrogate_def u_def
      normpath_def initial_slashes_def norm_step_def Let_def components_def)

end
