(* ===== verification/Models.thy ===== *)
theory Models
  imports Json Config
begin

text \<open>
  The tables of \<open>models.py\<close> as records, one per mapped class, with the column order of the
  source; the enumerations; and the database as a record of tables.  Columns that hold only
  constants of the program (event types, error codes, reasons, methods) are \<open>string\<close>, columns
  that can hold text from outside are \<open>ustr\<close>.  Columns with a check constraint
  \<open>\<ge> 0\<close> are naturals.
\<close>

section \<open>Enumerations\<close>

datatype pairing_status =
  PAIRING_PENDING | PAIRING_CLAIMED | PAIRING_COMPLETED | PAIRING_EXPIRED | PAIRING_CANCELLED

datatype device_status = ACTIVE | REVOKED

datatype connection_status = CONNECTED | DISCONNECTED

datatype command_status =
  QUEUED | DISPATCHED | ACKNOWLEDGED | SUCCEEDED | FAILED | DENIED | CANCELLED | EXPIRED

datatype thread_binding_status =
  IDLE | RUNNING | WAITING_FOR_APPROVAL | THREAD_FAILED | CLOSED | STALE

datatype approval_status =
  APPROVAL_PENDING | APPROVED | APPROVAL_DENIED | APPROVAL_EXPIRED | APPROVAL_CANCELLED

datatype audit_outcome = AUDIT_SUCCEEDED | AUDIT_DENIED | AUDIT_FAILED

section \<open>Rows\<close>

record control_session =
  ses_id :: uuid
  ses_token_hash :: ustr
  ses_csrf_token_hash :: ustr
  ses_sub2api_user_id :: ustr
  ses_username :: "ustr option"
  ses_email :: "ustr option"
  ses_display_name :: "ustr option"
  ses_token_version :: "ustr option"
  ses_issued_at :: datetime
  ses_expires_at :: datetime
  ses_last_seen_at :: datetime
  ses_revoked_at :: "datetime option"
  ses_request_ip :: "ustr option"
  ses_user_agent :: "ustr option"

record device_pairing =
  pair_id :: uuid
  pair_code_hash :: ustr
  pair_poll_token_hash :: ustr
  pair_refresh_credential_hash :: "ustr option"
  pair_protocol_version :: nat
  pair_proof_created_at :: "datetime option"
  pair_audience :: "ustr option"
  pair_public_key :: ustr
  pair_device_name :: ustr
  pair_device_metadata :: dict
  pair_workspace_roots :: "ustr list"
  pair_status :: pairing_status
  pair_claimed_by_user_id :: "ustr option"
  pair_claimed_by_session_id :: "uuid option"
  pair_device_id :: "uuid option"
  pair_created_at :: datetime
  pair_expires_at :: datetime
  pair_claimed_at :: "datetime option"
  pair_credential_delivered_at :: "datetime option"
  pair_completed_at :: "datetime option"
  pair_source_ip :: "ustr option"

record device =
  dev_id :: uuid
  dev_owner_user_id :: ustr
  dev_name :: ustr
  dev_public_key :: ustr
  dev_refresh_credential_hash :: "ustr option"
  dev_credential_version :: nat
  dev_credential_scheme :: nat
  dev_status :: device_status
  dev_device_metadata :: dict
  dev_workspace_roots :: "ustr list"
  dev_model_catalog :: "json list"
  dev_model_catalog_updated_at :: "datetime option"
  dev_active_epoch :: "ustr option"
  dev_active_connection_nonce :: "ustr option"
  dev_last_device_sequence :: nat
  dev_last_server_sequence :: nat
  dev_last_server_acked_sequence :: nat
  dev_last_event_sequence :: nat
  dev_created_at :: datetime
  dev_updated_at :: datetime
  dev_last_seen_at :: "datetime option"
  dev_revoked_at :: "datetime option"

record device_connection =
  con_id :: uuid
  con_device_id :: uuid
  con_connection_nonce :: ustr
  con_status :: connection_status
  con_appserver_epoch :: "ustr option"
  con_connected_at :: datetime
  con_last_heartbeat_at :: datetime
  con_disconnected_at :: "datetime option"
  con_remote_address :: "ustr option"
  con_connector_version :: "ustr option"
  con_codex_version :: "ustr option"
  con_connection_metadata :: dict
  con_last_device_sequence :: nat
  con_last_server_sequence :: nat
  con_last_server_acked_sequence :: nat
  con_closed_reason :: "string option"

record device_outbox =
  obx_device_id :: uuid
  obx_sequence :: nat
  obx_encoded_envelope :: ustr
  obx_ack_sequence :: nat
  obx_frame_type :: string
  obx_byte_size :: nat
  obx_created_at :: datetime
  obx_retained_until :: datetime
  obx_acked_at :: "datetime option"

record thread_binding =
  thr_id :: uuid
  thr_owner_user_id :: ustr
  thr_device_id :: uuid
  thr_remote_thread_id :: "ustr option"
  thr_status :: thread_binding_status
  thr_cwd :: "ustr option"
  thr_title :: ustr
  thr_model :: ustr
  thr_active_turn_id :: "ustr option"
  thr_snapshot :: dict
  thr_last_error :: "ustr option"
  thr_appserver_epoch :: ustr
  thr_last_event_sequence :: nat
  thr_created_at :: datetime
  thr_updated_at :: datetime

record command =
  cmd_id :: uuid
  cmd_owner_user_id :: ustr
  cmd_device_id :: uuid
  cmd_thread_binding_id :: "uuid option"
  cmd_idempotency_key :: ustr
  cmd_idempotency_scope :: ustr
  cmd_request_hash :: ustr
  cmd_method :: string
  cmd_payload :: dict
  cmd_status :: command_status
  cmd_appserver_epoch :: "ustr option"
  cmd_result :: "json option"
  cmd_error_code :: "string option"
  cmd_error_message :: "ustr option"
  cmd_created_at :: datetime
  cmd_dispatched_at :: "datetime option"
  cmd_acknowledged_at :: "datetime option"
  cmd_completed_at :: "datetime option"
  cmd_expires_at :: "datetime option"

record approval =
  apv_id :: uuid
  apv_owner_user_id :: ustr
  apv_device_id :: uuid
  apv_command_id :: "uuid option"
  apv_external_command_id :: "ustr option"
  apv_decided_by_session_id :: "uuid option"
  apv_approval_kind :: string
  apv_summary :: ustr
  apv_request :: dict
  apv_request_hash :: ustr
  apv_status :: approval_status
  apv_appserver_epoch :: ustr
  apv_requested_at :: datetime
  apv_expires_at :: datetime
  apv_decided_at :: "datetime option"
  apv_decision_dispatched_at :: "datetime option"
  apv_decision_reason :: "string option"

section \<open>Views sent to the browser\<close>

text \<open>
  The response models of \<open>schemas.py\<close> and \<open>views.py\<close>.  The data of a browser event is kept
  structured; its JSON text is produced by the serializer of the web framework, which is an argument
  wherever the text or its length matters.  \<open>EventDict\<close> is event data that the code builds as a
  plain dictionary.
\<close>

record command_view =
  cv_id :: uuid
  cv_state :: command_status
  cv_method :: string
  cv_deadline_at :: "datetime option"
  cv_result :: "json option"
  cv_error_code :: "string option"
  cv_error_message :: "ustr option"

record managed_thread_summary =
  ts_id :: uuid
  ts_device_id :: uuid
  ts_title :: ustr
  ts_cwd :: ustr
  ts_model :: ustr
  ts_updated_at :: datetime
  ts_status :: thread_binding_status

record approval_item =
  ai_approval_id :: uuid
  ai_command_id :: ustr
  ai_kind :: string
  ai_summary :: ustr
  ai_details :: dict
  ai_expires_at :: datetime
  ai_device_id :: uuid
  ai_device_name :: ustr
  ai_created_at :: datetime

record device_summary =
  ds_id :: uuid
  ds_name :: ustr
  ds_status :: string
  ds_connector_version :: ustr
  ds_codex_version :: ustr
  ds_last_seen_at :: "datetime option"
  ds_workspace_roots :: "ustr list"

datatype event_data =
    CommandData uuid command_view
  | ThreadData managed_thread_summary
  | ApprovalResolvedData uuid string "string option"
  | ApprovalItemData approval_item
  | DeviceData device_summary
  | EventDict dict

record browser_event =
  be_cursor :: ustr
  be_type :: string
  be_occurred_at :: datetime
  be_data :: event_data

section \<open>Event log and audit rows\<close>

record event_log =
  evl_id :: nat
  evl_owner_user_id :: ustr
  evl_owner_cursor :: nat
  evl_device_id :: uuid
  evl_thread_binding_id :: "uuid option"
  evl_sequence :: nat
  evl_event_type :: string
  evl_payload :: event_data
  evl_occurred_at :: datetime
  evl_ingested_at :: datetime

record event_owner_cursor =
  cur_owner_user_id :: ustr
  cur_last_cursor :: nat
  cur_minimum_resume_cursor :: nat

record audit_event =
  aud_actor_user_id :: "ustr option"
  aud_actor_session_id :: "uuid option"
  aud_actor_device_id :: "uuid option"
  aud_action :: string
  aud_outcome :: audit_outcome
  aud_resource_type :: "string option"
  aud_resource_id :: "ustr option"
  aud_request_id :: "ustr option"
  aud_source_ip :: "ustr option"
  aud_user_agent :: "ustr option"
  aud_details :: dict
  aud_created_at :: datetime

record request_metadata =
  rm_request_id :: "ustr option"
  rm_source_ip :: "ustr option"
  rm_user_agent :: "ustr option"

section \<open>The database\<close>

record database =
  control_sessions :: "control_session list"
  device_pairings :: "device_pairing list"
  devices :: "device list"
  device_connections :: "device_connection list"
  device_outboxes :: "device_outbox list"
  thread_bindings :: "thread_binding list"
  commands :: "command list"
  approvals :: "approval list"
  event_logs :: "event_log list"
  event_owner_cursors :: "event_owner_cursor list"
  audit_events :: "audit_event list"
  next_event_id :: nat

definition empty_database :: database where
  "empty_database = \<lparr>control_sessions = [], device_pairings = [], devices = [],
     device_connections = [], device_outboxes = [], thread_bindings = [], commands = [],
     approvals = [], event_logs = [], event_owner_cursors = [], audit_events = [],
     next_event_id = 1\<rparr>"

text \<open>\<open>db.add(AuditEvent(...))\<close>.\<close>

definition add_audit :: "audit_event \<Rightarrow> database \<Rightarrow> database" where
  "add_audit a db = db\<lparr>audit_events := audit_events db @ [a]\<rparr>"

section \<open>Projections\<close>

definition command_view_of :: "command \<Rightarrow> command_view" where
  "command_view_of c = \<lparr>cv_id = cmd_id c, cv_state = cmd_status c, cv_method = cmd_method c,
     cv_deadline_at = cmd_expires_at c, cv_result = cmd_result c,
     cv_error_code = cmd_error_code c, cv_error_message = cmd_error_message c\<rparr>"

definition thread_summary :: "thread_binding \<Rightarrow> managed_thread_summary" where
  "thread_summary b =
     (let visible = (if thr_status b \<in> {IDLE, RUNNING, WAITING_FOR_APPROVAL, THREAD_FAILED}
                     then thr_status b else THREAD_FAILED) in
      \<lparr>ts_id = thr_id b, ts_device_id = thr_device_id b, ts_title = thr_title b,
       ts_cwd = or_empty (thr_cwd b), ts_model = thr_model b, ts_updated_at = thr_updated_at b,
       ts_status = visible\<rparr>)"

lemma thread_summary_visible:
  "ts_status (thread_summary b) \<in> {IDLE, RUNNING, WAITING_FOR_APPROVAL, THREAD_FAILED}"
  by (simp add: thread_summary_def Let_def)

lemma add_audit_simps [simp]:
  "control_sessions (add_audit a db) = control_sessions db"
  "device_pairings (add_audit a db) = device_pairings db"
  "devices (add_audit a db) = devices db"
  "device_connections (add_audit a db) = device_connections db"
  "device_outboxes (add_audit a db) = device_outboxes db"
  "thread_bindings (add_audit a db) = thread_bindings db"
  "commands (add_audit a db) = commands db"
  "approvals (add_audit a db) = approvals db"
  "event_logs (add_audit a db) = event_logs db"
  "event_owner_cursors (add_audit a db) = event_owner_cursors db"
  "audit_events (add_audit a db) = audit_events db @ [a]"
  "next_event_id (add_audit a db) = next_event_id db"
  by (simp_all add: add_audit_def)

section \<open>Sample rows\<close>

text \<open>A device and a database with it, for the concrete instances of the properties.\<close>

definition sample_device :: device where
  "sample_device = \<lparr>dev_id = 1, dev_owner_user_id = u ''user-1'', dev_name = u ''laptop'',
     dev_public_key = u ''key'', dev_refresh_credential_hash = None, dev_credential_version = 1,
     dev_credential_scheme = 2, dev_status = ACTIVE, dev_device_metadata = [],
     dev_workspace_roots = [u ''/work''], dev_model_catalog = [],
     dev_model_catalog_updated_at = None, dev_active_epoch = Some (u ''epoch-0000000001''),
     dev_active_connection_nonce = Some (u ''nonce-1''), dev_last_device_sequence = 0,
     dev_last_server_sequence = 0, dev_last_server_acked_sequence = 0,
     dev_last_event_sequence = 0, dev_created_at = 0, dev_updated_at = 0,
     dev_last_seen_at = None, dev_revoked_at = None\<rparr>"

lemma sample_device_sel [simp]:
  "dev_id sample_device = 1"
  "dev_owner_user_id sample_device = u ''user-1''"
  "dev_name sample_device = u ''laptop''"
  "dev_public_key sample_device = u ''key''"
  "dev_refresh_credential_hash sample_device = None"
  "dev_credential_version sample_device = 1"
  "dev_credential_scheme sample_device = 2"
  "dev_status sample_device = ACTIVE"
  "dev_device_metadata sample_device = []"
  "dev_workspace_roots sample_device = [u ''/work'']"
  "dev_model_catalog sample_device = []"
  "dev_model_catalog_updated_at sample_device = None"
  "dev_active_epoch sample_device = Some (u ''epoch-0000000001'')"
  "dev_active_connection_nonce sample_device = Some (u ''nonce-1'')"
  "dev_last_device_sequence sample_device = 0"
  "dev_last_server_sequence sample_device = 0"
  "dev_last_server_acked_sequence sample_device = 0"
  "dev_last_event_sequence sample_device = 0"
  "dev_created_at sample_device = 0"
  "dev_updated_at sample_device = 0"
  "dev_last_seen_at sample_device = None"
  "dev_revoked_at sample_device = None"
  by (simp_all add: sample_device_def)

definition sample_database :: database where
  "sample_database = empty_database\<lparr>devices := [sample_device]\<rparr>"

end
