(* ===== verification/Events.thy ===== *)
theory Events
  imports Models Json_Parse
begin

text \<open>
  The durable event stream of \<open>events.py\<close>: per-owner cursors, appending, paged catch-up, pruning,
  and the catch-up loops of the browser socket (\<open>realtime.handle_browser\<close>,
  \<open>_forward_browser_queue\<close>).  \<open>event_bytes\<close> is the number of bytes of
  \<open>event.model_dump_json()\<close>, an argument.  The invariant \<open>events_wf\<close> says that the cursor row
  of an owner bounds its log and that the log has every cursor above the resume bound; each
  operation keeps it, and from it follow resumption without loss and delivery exactly once and in
  order under any interleaving with appends and pruning.
\<close>

section \<open>Operations\<close>

definition MAX_EVENT_CURSOR :: nat where
  "MAX_EVENT_CURSOR = 2 ^ 63 - 1"

datatype event_error =
    Event_Device_Ownership_Mismatch
  | Event_Cursor_Exhausted
  | Event_Bigint_Overflow
  | Event_Integrity_Error
  | Browser_Cursor_Ahead
  | Browser_Cursor_Too_Old
  | Browser_Event_Too_Large nat nat nat
  | Catchup_Row_Limit_Invalid
  | Catchup_Byte_Limit_Invalid

definition cursor_row :: "ustr \<Rightarrow> database \<Rightarrow> event_owner_cursor option" where
  "cursor_row owner db = scalar (\<lambda>r. cur_owner_user_id r = owner) (event_owner_cursors db)"

definition allocate_owner_cursor ::
  "ustr \<Rightarrow> database \<Rightarrow> event_error + nat \<times> database" where
  "allocate_owner_cursor owner db =
     (case cursor_row owner db of
        None \<Rightarrow>
          Inr (1, db\<lparr>event_owner_cursors := event_owner_cursors db @
            [\<lparr>cur_owner_user_id = owner, cur_last_cursor = 1, cur_minimum_resume_cursor = 0\<rparr>]\<rparr>)
      | Some r \<Rightarrow>
          if cur_last_cursor r < MAX_EVENT_CURSOR
          then Inr (cur_last_cursor r + 1, db\<lparr>event_owner_cursors :=
                 update_where (\<lambda>x. cur_owner_user_id x = owner)
                   (\<lambda>x. x\<lparr>cur_last_cursor := cur_last_cursor x + 1\<rparr>) (event_owner_cursors db)\<rparr>)
          else Inl Event_Cursor_Exhausted)"

definition row_event :: "event_log \<Rightarrow> browser_event" where
  "row_event r = \<lparr>be_cursor = nat_str (evl_owner_cursor r), be_type = evl_event_type r,
     be_occurred_at = evl_occurred_at r, be_data = evl_payload r\<rparr>"

text \<open>\<open>update(Device) ... last_event_sequence + 1\<close>.\<close>

definition bump_device :: "uuid \<Rightarrow> ustr \<Rightarrow> device list \<Rightarrow> device list" where
  "bump_device device_id owner ds =
     update_where (\<lambda>d. dev_id d = device_id \<and> dev_owner_user_id d = owner)
       (\<lambda>d. d\<lparr>dev_last_event_sequence := dev_last_event_sequence d + 1\<rparr>) ds"

text \<open>\<open>append\<close>.  An error leaves the transaction to be rolled back by the caller.\<close>

definition event_append ::
  "datetime \<Rightarrow> ustr \<Rightarrow> uuid \<Rightarrow> string \<Rightarrow> event_data \<Rightarrow> uuid option \<Rightarrow> datetime option \<Rightarrow> database
     \<Rightarrow> event_error + browser_event \<times> database" where
  "event_append now owner device_id event_type data thread_binding_id occurred_at db =
     (case scalar (\<lambda>d. dev_id d = device_id \<and> dev_owner_user_id d = owner) (devices db) of
        None \<Rightarrow> Inl Event_Device_Ownership_Mismatch
      | Some d \<Rightarrow>
          if dev_last_event_sequence d \<ge> MAX_EVENT_CURSOR then Inl Event_Bigint_Overflow
          else
            let db1 = db\<lparr>devices := bump_device device_id owner (devices db)\<rparr>;
                device_sequence = dev_last_event_sequence d + 1
            in case allocate_owner_cursor owner db1 of
                 Inl e \<Rightarrow> Inl e
               | Inr (owner_cursor, db2) \<Rightarrow>
                   let occurred = (case occurred_at of Some t \<Rightarrow> t | None \<Rightarrow> now);
                       record = \<lparr>evl_id = next_event_id db2, evl_owner_user_id = owner,
                         evl_owner_cursor = owner_cursor, evl_device_id = device_id,
                         evl_thread_binding_id = thread_binding_id,
                         evl_sequence = device_sequence, evl_event_type = event_type,
                         evl_payload = data, evl_occurred_at = occurred, evl_ingested_at = now\<rparr>
                   in if exists_where (\<lambda>r. evl_device_id r = device_id \<and> evl_sequence r = device_sequence
                            \<or> evl_owner_user_id r = owner \<and> evl_owner_cursor r = owner_cursor)
                          (event_logs db2)
                      then Inl Event_Integrity_Error
                      else Inr (row_event record,
                             db2\<lparr>event_logs := event_logs db2 @ [record],
                                 next_event_id := next_event_id db2 + 1\<rparr>))"

definition lock_owner_cursor :: "ustr \<Rightarrow> database \<Rightarrow> nat \<times> database" where
  "lock_owner_cursor owner db =
     (case cursor_row owner db of
        Some r \<Rightarrow> (cur_last_cursor r, db)
      | None \<Rightarrow>
          (0, db\<lparr>event_owner_cursors := event_owner_cursors db @
             [\<lparr>cur_owner_user_id = owner, cur_last_cursor = 0, cur_minimum_resume_cursor = 0\<rparr>]\<rparr>))"

record event_page =
  page_events :: "browser_event list"
  page_has_more :: bool
  page_serialized_bytes :: nat

fun page_loop ::
  "(browser_event \<Rightarrow> nat) \<Rightarrow> nat \<Rightarrow> nat \<Rightarrow> nat \<Rightarrow> event_log list \<Rightarrow> browser_event list \<Rightarrow> nat
     \<Rightarrow> event_error + event_page" where
  "page_loop event_bytes row_limit byte_limit row_index [] events bytes =
     Inr \<lparr>page_events = events, page_has_more = False, page_serialized_bytes = bytes\<rparr>"
| "page_loop event_bytes row_limit byte_limit row_index (row # rows) events bytes =
     (if row_index = row_limit
      then Inr \<lparr>page_events = events, page_has_more = True, page_serialized_bytes = bytes\<rparr>
      else
        let event = row_event row; n = event_bytes event in
        if bytes + n > byte_limit then
          if events = [] then Inl (Browser_Event_Too_Large (evl_owner_cursor row) n byte_limit)
          else Inr \<lparr>page_events = events, page_has_more = True, page_serialized_bytes = bytes\<rparr>
        else page_loop event_bytes row_limit byte_limit (row_index + 1) rows (events @ [event])
               (bytes + n))"

definition catch_up_rows :: "ustr \<Rightarrow> int \<Rightarrow> nat \<Rightarrow> database \<Rightarrow> event_log list" where
  "catch_up_rows owner cursor n db =
     select_ordered (\<lambda>r. evl_owner_user_id r = owner \<and> int (evl_owner_cursor r) > cursor)
       evl_owner_cursor n (event_logs db)"

definition catch_up_page ::
  "(browser_event \<Rightarrow> nat) \<Rightarrow> settings \<Rightarrow> ustr \<Rightarrow> int \<Rightarrow> database \<Rightarrow> event_error + event_page" where
  "catch_up_page event_bytes cfg owner cursor db =
     (case cursor_row owner db of
        None \<Rightarrow>
          if cursor \<noteq> 0 then Inl Browser_Cursor_Ahead
          else Inr \<lparr>page_events = [], page_has_more = False, page_serialized_bytes = 0\<rparr>
      | Some st \<Rightarrow>
          if cursor < int (cur_minimum_resume_cursor st) then Inl Browser_Cursor_Too_Old
          else if cursor > int (cur_last_cursor st) then Inl Browser_Cursor_Ahead
          else if browser_event_catchup_limit cfg \<le> 0 then Inl Catchup_Row_Limit_Invalid
          else if browser_event_catchup_max_bytes cfg \<le> 0 then Inl Catchup_Byte_Limit_Invalid
          else page_loop event_bytes (browser_event_catchup_limit cfg)
                 (browser_event_catchup_max_bytes cfg) 0
                 (catch_up_rows owner cursor (browser_event_catchup_limit cfg + 1) db) [] 0)"

definition catch_up ::
  "(browser_event \<Rightarrow> nat) \<Rightarrow> settings \<Rightarrow> ustr \<Rightarrow> int \<Rightarrow> database \<Rightarrow> event_error + browser_event list" where
  "catch_up event_bytes cfg owner cursor db =
     map_sum id page_events (catch_up_page event_bytes cfg owner cursor db)"

text \<open>\<open>func.max\<close> over no rows is \<open>NULL\<close>.\<close>

definition max_of :: "nat list \<Rightarrow> nat option" where
  "max_of xs = (if xs = [] then None else Some (Max (set xs)))"

definition raise_to :: "nat \<Rightarrow> nat option \<Rightarrow> nat" where
  "raise_to n m = (case m of None \<Rightarrow> n | Some k \<Rightarrow> max n k)"

text \<open>The three queries of \<open>prune\<close>: rows past the retention time, the cursor at offset
  \<open>browser_event_max_per_owner - 1\<close> from the newest, rows below it; and the resume bound raised
  over the rows that a \<open>delete\<close> removes.\<close>

definition expired_event :: "settings \<Rightarrow> datetime \<Rightarrow> ustr \<Rightarrow> event_log \<Rightarrow> bool" where
  "expired_event cfg now owner r \<longleftrightarrow> evl_owner_user_id r = owner \<and>
     evl_ingested_at r < now - days (int (browser_event_retention_days cfg))"

definition overflow_threshold :: "settings \<Rightarrow> ustr \<Rightarrow> event_log list \<Rightarrow> nat option" where
  "overflow_threshold cfg owner logs =
     (case drop (browser_event_max_per_owner cfg - 1)
         (rev (sort (map evl_owner_cursor (filter (\<lambda>r. evl_owner_user_id r = owner) logs)))) of
        [] \<Rightarrow> None | t # _ \<Rightarrow> Some t)"

definition overflow_event :: "settings \<Rightarrow> ustr \<Rightarrow> event_log list \<Rightarrow> event_log \<Rightarrow> bool" where
  "overflow_event cfg owner logs r \<longleftrightarrow> evl_owner_user_id r = owner \<and>
     (case overflow_threshold cfg owner logs of None \<Rightarrow> False | Some t \<Rightarrow> evl_owner_cursor r < t)"

definition raise_over :: "(event_log \<Rightarrow> bool) \<Rightarrow> event_log list \<Rightarrow> nat \<Rightarrow> nat" where
  "raise_over P logs n = raise_to n (max_of (map evl_owner_cursor (filter P logs)))"

definition prune_owner :: "settings \<Rightarrow> datetime \<Rightarrow> ustr \<Rightarrow> database \<Rightarrow> nat \<times> database" where
  "prune_owner cfg now owner db =
     (case cursor_row owner db of
        None \<Rightarrow> (0, db)
      | Some st \<Rightarrow>
          let logs = event_logs db;
              expired = expired_event cfg now owner;
              discarded1 = raise_over expired logs (cur_minimum_resume_cursor st);
              logs1 = delete_where expired logs;
              overflow = overflow_event cfg owner logs1;
              discarded2 = raise_over overflow logs1 discarded1
          in (count_where expired logs + count_where overflow logs1,
              db\<lparr>event_logs := delete_where overflow logs1,
                 event_owner_cursors :=
                   update_where (\<lambda>x. cur_owner_user_id x = owner)
                     (\<lambda>x. x\<lparr>cur_minimum_resume_cursor := discarded2\<rparr>) (event_owner_cursors db)\<rparr>))"

fun prune_owners :: "settings \<Rightarrow> datetime \<Rightarrow> ustr list \<Rightarrow> nat \<Rightarrow> database \<Rightarrow> nat \<times> database" where
  "prune_owners cfg now [] removed db = (removed, db)"
| "prune_owners cfg now (owner # owners) removed db =
     (case prune_owner cfg now owner db of
        (n, db') \<Rightarrow> prune_owners cfg now owners (removed + n) db')"

definition event_prune :: "settings \<Rightarrow> datetime \<Rightarrow> database \<Rightarrow> nat \<times> database" where
  "event_prune cfg now db =
     prune_owners cfg now (map cur_owner_user_id (event_owner_cursors db)) 0 db"

section \<open>Catch-up loop of a browser socket\<close>

text \<open>\<open>int(event.cursor)\<close>.\<close>

definition cursor_value :: "browser_event \<Rightarrow> int" where
  "cursor_value e = int_of_text (be_cursor e)"

definition advance_cursor :: "int \<Rightarrow> browser_event list \<Rightarrow> int" where
  "advance_cursor cursor events = fold (\<lambda>e _. cursor_value e) events cursor"

text \<open>The \<open>while True\<close> loop over pages on one database state, with fuel for the number of
  pages: the events sent and the cursor reached.  \<open>None\<close> is running out of fuel.\<close>

fun catch_up_loop ::
  "(browser_event \<Rightarrow> nat) \<Rightarrow> settings \<Rightarrow> ustr \<Rightarrow> nat \<Rightarrow> int \<Rightarrow> database
     \<Rightarrow> (event_error + browser_event list \<times> int) option" where
  "catch_up_loop event_bytes cfg owner 0 cursor db = None"
| "catch_up_loop event_bytes cfg owner (Suc fuel) cursor db =
     (case catch_up_page event_bytes cfg owner cursor db of
        Inl e \<Rightarrow> Some (Inl e)
      | Inr page \<Rightarrow>
          let cursor' = advance_cursor cursor (page_events page) in
          if \<not> page_has_more page then Some (Inr (page_events page, cursor'))
          else case catch_up_loop event_bytes cfg owner fuel cursor' db of
                 None \<Rightarrow> None
               | Some (Inl e) \<Rightarrow> Some (Inl e)
               | Some (Inr (rest, c)) \<Rightarrow> Some (Inr (page_events page @ rest, c)))"

section \<open>Invariant and abstract stream\<close>

text \<open>The stream that one owner sees: the resume bound, the head, and the event at a cursor.\<close>

definition stream_min :: "ustr \<Rightarrow> database \<Rightarrow> nat" where
  "stream_min owner db =
     (case cursor_row owner db of None \<Rightarrow> 0 | Some c \<Rightarrow> cur_minimum_resume_cursor c)"

definition stream_last :: "ustr \<Rightarrow> database \<Rightarrow> nat" where
  "stream_last owner db =
     (case cursor_row owner db of None \<Rightarrow> 0 | Some c \<Rightarrow> cur_last_cursor c)"

definition stream_at :: "ustr \<Rightarrow> database \<Rightarrow> nat \<Rightarrow> browser_event option" where
  "stream_at owner db n =
     map_option row_event
       (scalar (\<lambda>r. evl_owner_user_id r = owner \<and> evl_owner_cursor r = n) (event_logs db))"

definition events_wf :: "database \<Rightarrow> bool" where
  "events_wf db \<longleftrightarrow>
     distinct (map cur_owner_user_id (event_owner_cursors db))
   \<and> (\<forall>owner. stream_min owner db \<le> stream_last owner db
        \<and> stream_last owner db \<le> MAX_EVENT_CURSOR)
   \<and> distinct (map (\<lambda>r. (evl_owner_user_id r, evl_owner_cursor r)) (event_logs db))
   \<and> distinct (map (\<lambda>r. (evl_device_id r, evl_sequence r)) (event_logs db))
   \<and> (\<forall>r \<in> set (event_logs db).
        0 < evl_owner_cursor r \<and> evl_owner_cursor r \<le> stream_last (evl_owner_user_id r) db)
   \<and> (\<forall>owner n. stream_min owner db < n \<and> n \<le> stream_last owner db \<longrightarrow>
        (\<exists>r \<in> set (event_logs db). evl_owner_user_id r = owner \<and> evl_owner_cursor r = n))
   \<and> distinct (map dev_id (devices db))
   \<and> (\<forall>r \<in> set (event_logs db). \<exists>d \<in> set (devices db).
        dev_id d = evl_device_id r \<and> evl_sequence r \<le> dev_last_event_sequence d)"

lemma events_wf_D:
  assumes "events_wf db"
  shows wf_owners: "distinct (map cur_owner_user_id (event_owner_cursors db))"
    and stream_min_le_last: "stream_min owner db \<le> stream_last owner db"
    and stream_last_le_max: "stream_last owner db \<le> MAX_EVENT_CURSOR"
    and wf_cursors: "distinct (map (\<lambda>r. (evl_owner_user_id r, evl_owner_cursor r)) (event_logs db))"
    and wf_sequences: "distinct (map (\<lambda>r. (evl_device_id r, evl_sequence r)) (event_logs db))"
    and wf_positive: "r \<in> set (event_logs db) \<Longrightarrow> 0 < evl_owner_cursor r"
    and wf_bounded: "r \<in> set (event_logs db) \<Longrightarrow>
      evl_owner_cursor r \<le> stream_last (evl_owner_user_id r) db"
    and wf_complete: "stream_min owner db < n \<Longrightarrow> n \<le> stream_last owner db \<Longrightarrow>
      \<exists>r \<in> set (event_logs db). evl_owner_user_id r = owner \<and> evl_owner_cursor r = n"
    and wf_devices: "distinct (map dev_id (devices db))"
    and wf_device_sequence: "r \<in> set (event_logs db) \<Longrightarrow> \<exists>d \<in> set (devices db).
      dev_id d = evl_device_id r \<and> evl_sequence r \<le> dev_last_event_sequence d"
  using assms by (simp_all add: events_wf_def)

lemma cursor_rowD:
  assumes "cursor_row owner db = Some c"
  shows "c \<in> set (event_owner_cursors db)" "cur_owner_user_id c = owner"
  using scalar_Some [OF assms [unfolded cursor_row_def]] by auto

lemma cursor_row_Some:
  assumes "events_wf db"
  shows "cursor_row owner db = Some c \<longleftrightarrow>
     c \<in> set (event_owner_cursors db) \<and> cur_owner_user_id c = owner"
proof
  assume "cursor_row owner db = Some c"
  then show "c \<in> set (event_owner_cursors db) \<and> cur_owner_user_id c = owner"
    unfolding cursor_row_def by (rule scalar_Some)
next
  assume c: "c \<in> set (event_owner_cursors db) \<and> cur_owner_user_id c = owner"
  have "distinct (map cur_owner_user_id (event_owner_cursors db))"
    using assms by (simp add: events_wf_def)
  then show "cursor_row owner db = Some c"
    unfolding cursor_row_def by (rule scalar_unique) (use c in auto)
qed

lemma cursor_row_None:
  "cursor_row owner db = None \<longleftrightarrow> owner \<notin> cur_owner_user_id ` set (event_owner_cursors db)"
  by (auto simp: cursor_row_def scalar_None_iff)

lemma stream_at_Some:
  assumes "events_wf db"
  shows "stream_at owner db n = Some e \<longleftrightarrow>
    (\<exists>r \<in> set (event_logs db). evl_owner_user_id r = owner \<and> evl_owner_cursor r = n \<and> e = row_event r)"
proof
  assume "stream_at owner db n = Some e"
  then show "\<exists>r \<in> set (event_logs db).
      evl_owner_user_id r = owner \<and> evl_owner_cursor r = n \<and> e = row_event r"
    by (auto simp: stream_at_def dest: scalar_Some)
next
  assume "\<exists>r \<in> set (event_logs db).
      evl_owner_user_id r = owner \<and> evl_owner_cursor r = n \<and> e = row_event r"
  then obtain r where r: "r \<in> set (event_logs db)" "evl_owner_user_id r = owner"
      "evl_owner_cursor r = n" "e = row_event r" by blast
  have "distinct (map (\<lambda>r. (evl_owner_user_id r, evl_owner_cursor r)) (event_logs db))"
    using assms by (simp add: events_wf_def)
  then have "scalar (\<lambda>r. evl_owner_user_id r = owner \<and> evl_owner_cursor r = n) (event_logs db) = Some r"
    by (rule scalar_unique) (use r in auto)
  then show "stream_at owner db n = Some e"
    using r by (simp add: stream_at_def)
qed

lemma stream_at_None:
  "stream_at owner db n = None \<longleftrightarrow>
    (\<forall>r \<in> set (event_logs db). evl_owner_user_id r = owner \<longrightarrow> evl_owner_cursor r \<noteq> n)"
  by (auto simp: stream_at_def scalar_None_iff)

lemma stream_complete:
  assumes "events_wf db" "stream_min owner db < n" "n \<le> stream_last owner db"
  shows "\<exists>e. stream_at owner db n = Some e"
  using wf_complete [OF assms] stream_at_Some [OF assms(1)] by blast

lemma stream_at_range:
  assumes "events_wf db" "stream_at owner db n = Some e"
  shows "0 < n" "n \<le> stream_last owner db"
proof -
  obtain r where "r \<in> set (event_logs db)" "evl_owner_user_id r = owner" "evl_owner_cursor r = n"
    using assms stream_at_Some [OF assms(1)] by blast
  then show "0 < n" "n \<le> stream_last owner db"
    using wf_positive [OF assms(1)] wf_bounded [OF assms(1)] by auto
qed

lemma empty_events_wf: "events_wf empty_database"
  by (auto simp: events_wf_def empty_database_def stream_min_def stream_last_def cursor_row_def)

section \<open>Appending\<close>

definition bump_cursor :: "ustr \<Rightarrow> event_owner_cursor list \<Rightarrow> event_owner_cursor list" where
  "bump_cursor owner cs =
     (if owner \<in> cur_owner_user_id ` set cs
      then update_where (\<lambda>x. cur_owner_user_id x = owner)
             (\<lambda>x. x\<lparr>cur_last_cursor := cur_last_cursor x + 1\<rparr>) cs
      else cs @ [\<lparr>cur_owner_user_id = owner, cur_last_cursor = 1, cur_minimum_resume_cursor = 0\<rparr>])"

definition appended_row ::
  "datetime \<Rightarrow> ustr \<Rightarrow> uuid \<Rightarrow> string \<Rightarrow> event_data \<Rightarrow> uuid option \<Rightarrow> datetime option \<Rightarrow> nat
     \<Rightarrow> database \<Rightarrow> event_log" where
  "appended_row now owner device_id event_type data tb occurred_at sq db =
     \<lparr>evl_id = next_event_id db, evl_owner_user_id = owner,
      evl_owner_cursor = stream_last owner db + 1, evl_device_id = device_id,
      evl_thread_binding_id = tb, evl_sequence = sq, evl_event_type = event_type,
      evl_payload = data, evl_occurred_at = (case occurred_at of Some t \<Rightarrow> t | None \<Rightarrow> now),
      evl_ingested_at = now\<rparr>"

lemma allocate_owner_cursor_Inr:
  assumes "allocate_owner_cursor owner db = Inr (n, db')"
  shows "n = stream_last owner db + 1"
    and "db' = db\<lparr>event_owner_cursors := bump_cursor owner (event_owner_cursors db)\<rparr>"
    and "stream_last owner db < MAX_EVENT_CURSOR"
  using assms cursor_row_None [of owner db] cursor_rowD [of owner db]
  by (auto simp: allocate_owner_cursor_def stream_last_def bump_cursor_def MAX_EVENT_CURSOR_def
      split: option.splits if_splits)

lemma allocate_owner_cursor_Inl:
  "allocate_owner_cursor owner db = Inl e \<longleftrightarrow>
     e = Event_Cursor_Exhausted \<and> stream_last owner db \<ge> MAX_EVENT_CURSOR"
  by (auto simp: allocate_owner_cursor_def stream_last_def MAX_EVENT_CURSOR_def
      split: option.splits if_splits)

lemma event_append_Inr:
  assumes "event_append now owner device_id ty data tb oc db = Inr (e, db')"
  obtains d where
    "scalar (\<lambda>d. dev_id d = device_id \<and> dev_owner_user_id d = owner) (devices db) = Some d"
    "dev_last_event_sequence d < MAX_EVENT_CURSOR" "stream_last owner db < MAX_EVENT_CURSOR"
    "e = row_event (appended_row now owner device_id ty data tb oc (dev_last_event_sequence d + 1) db)"
    "db' = db\<lparr>devices := bump_device device_id owner (devices db),
       event_owner_cursors := bump_cursor owner (event_owner_cursors db),
       event_logs := event_logs db @
         [appended_row now owner device_id ty data tb oc (dev_last_event_sequence d + 1) db],
       next_event_id := next_event_id db + 1\<rparr>"
proof -
  obtain d where d: "scalar (\<lambda>d. dev_id d = device_id \<and> dev_owner_user_id d = owner) (devices db) = Some d"
    using assms by (auto simp: event_append_def split: option.splits)
  let ?db1 = "db\<lparr>devices := bump_device device_id owner (devices db)\<rparr>"
  have last: "stream_last owner ?db1 = stream_last owner db"
    by (simp add: stream_last_def cursor_row_def)
  obtain n db2 where a: "allocate_owner_cursor owner ?db1 = Inr (n, db2)"
    using assms d by (auto simp: event_append_def split: if_splits sum.splits)
  note n = allocate_owner_cursor_Inr [OF a]
  show thesis
    using that [OF d] assms d a n last
    by (auto simp: event_append_def appended_row_def Let_def split: if_splits)
qed

lemma event_append_frame:
  assumes "event_append now owner device_id ty data tb oc db = Inr (e, db')"
  shows "control_sessions db' = control_sessions db"
    "device_pairings db' = device_pairings db"
    "devices db' = bump_device device_id owner (devices db)"
    "device_connections db' = device_connections db"
    "device_outboxes db' = device_outboxes db"
    "thread_bindings db' = thread_bindings db"
    "commands db' = commands db"
    "approvals db' = approvals db"
    "audit_events db' = audit_events db"
    "event_owner_cursors db' = bump_cursor owner (event_owner_cursors db)"
  using assms by (auto elim!: event_append_Inr)

lemma map_bump_device:
  "(\<And>d. g (d\<lparr>dev_last_event_sequence := dev_last_event_sequence d + 1\<rparr>) = g d) \<Longrightarrow>
     map g (bump_device device_id owner ds) = map g ds"
  unfolding bump_device_def by (rule map_update_where)

lemma distinct_bump_cursor:
  "distinct (map cur_owner_user_id cs) \<Longrightarrow> distinct (map cur_owner_user_id (bump_cursor owner cs))"
  by (auto simp: bump_cursor_def table_simps)

lemma append_cursor_row:
  assumes "event_append now owner device_id ty data tb oc db = Inr (e, db')"
  shows "cursor_row owner' db' =
    (if owner' = owner
     then Some \<lparr>cur_owner_user_id = owner, cur_last_cursor = stream_last owner db + 1,
                cur_minimum_resume_cursor = stream_min owner db\<rparr>
     else cursor_row owner' db)"
proof -
  have update: "scalar (\<lambda>r. cur_owner_user_id r = o') (update_where (\<lambda>x. cur_owner_user_id x = owner)
      (\<lambda>x. x\<lparr>cur_last_cursor := cur_last_cursor x + 1\<rparr>) cs) =
      map_option (\<lambda>x. if o' = owner then x\<lparr>cur_last_cursor := cur_last_cursor x + 1\<rparr> else x)
        (scalar (\<lambda>r. cur_owner_user_id r = o') cs)" for o' and cs :: "event_owner_cursor list"
    by (induction cs) auto
  have app: "scalar (\<lambda>r. cur_owner_user_id r = o') (cs @ [c]) =
      (case scalar (\<lambda>r. cur_owner_user_id r = o') cs of
         Some x \<Rightarrow> Some x | None \<Rightarrow> if cur_owner_user_id c = o' then Some c else None)"
    for o' c and cs :: "event_owner_cursor list"
    by (induction cs) auto
  have cs: "event_owner_cursors db' = bump_cursor owner (event_owner_cursors db)"
    using assms by (rule event_append_frame)
  show ?thesis
  proof (cases "cursor_row owner db")
    case None
    then have "owner \<notin> cur_owner_user_id ` set (event_owner_cursors db)"
      by (simp add: cursor_row_None)
    then show ?thesis
      using None app
      by (auto simp: cursor_row_def cs bump_cursor_def stream_last_def stream_min_def
          split: option.splits)
  next
    case (Some c)
    then have "owner \<in> cur_owner_user_id ` set (event_owner_cursors db)" "cur_owner_user_id c = owner"
      using cursor_rowD [OF Some] by auto
    then show ?thesis
      using Some update
      by (auto simp: cursor_row_def cs bump_cursor_def stream_last_def stream_min_def
          option.map_ident)
  qed
qed

lemma append_stream_last:
  assumes "event_append now owner device_id ty data tb oc db = Inr (e, db')"
  shows "stream_last owner' db' = (if owner' = owner then stream_last owner db + 1
      else stream_last owner' db)"
    and "stream_min owner' db' = stream_min owner' db"
  using append_cursor_row [OF assms, of owner'] by (simp_all add: stream_last_def stream_min_def)

lemma append_stream_at:
  assumes "events_wf db" "event_append now owner device_id ty data tb oc db = Inr (e, db')"
  shows "stream_at owner' db' =
    (if owner' = owner then (stream_at owner db)(stream_last owner db + 1 \<mapsto> e)
     else stream_at owner' db)"
proof -
  obtain d where
      "scalar (\<lambda>d. dev_id d = device_id \<and> dev_owner_user_id d = owner) (devices db) = Some d"
      "dev_last_event_sequence d < MAX_EVENT_CURSOR" "stream_last owner db < MAX_EVENT_CURSOR"
    and e: "e = row_event (appended_row now owner device_id ty data tb oc
        (dev_last_event_sequence d + 1) db)"
    and db': "db' = db\<lparr>devices := bump_device device_id owner (devices db),
       event_owner_cursors := bump_cursor owner (event_owner_cursors db),
       event_logs := event_logs db @
         [appended_row now owner device_id ty data tb oc (dev_last_event_sequence d + 1) db],
       next_event_id := next_event_id db + 1\<rparr>"
    using assms(2) by (rule event_append_Inr)
  have app: "scalar P (rows @ [x]) =
      (case scalar P rows of Some y \<Rightarrow> Some y | None \<Rightarrow> if P x then Some x else None)"
    for P and x :: event_log and rows
    by (induction rows) auto
  have fresh: "scalar (\<lambda>r. evl_owner_user_id r = owner \<and> evl_owner_cursor r = stream_last owner db + 1)
      (event_logs db) = None"
    using wf_bounded [OF assms(1)] by (fastforce simp: scalar_None_iff)
  show ?thesis
    using fresh e db' by (auto simp: stream_at_def app appended_row_def fun_eq_iff split: option.splits)
qed

lemma append_events_wf:
  assumes wf: "events_wf db" and ap: "event_append now owner device_id ty data tb oc db = Inr (e, db')"
  shows "events_wf db'"
proof -
  obtain d where d: "scalar (\<lambda>d. dev_id d = device_id \<and> dev_owner_user_id d = owner) (devices db) = Some d"
    and "dev_last_event_sequence d < MAX_EVENT_CURSOR" and room: "stream_last owner db < MAX_EVENT_CURSOR"
    and "e = row_event (appended_row now owner device_id ty data tb oc
        (dev_last_event_sequence d + 1) db)"
    and db': "db' = db\<lparr>devices := bump_device device_id owner (devices db),
       event_owner_cursors := bump_cursor owner (event_owner_cursors db),
       event_logs := event_logs db @
         [appended_row now owner device_id ty data tb oc (dev_last_event_sequence d + 1) db],
       next_event_id := next_event_id db + 1\<rparr>"
    using ap by (rule event_append_Inr)
  let ?row = "appended_row now owner device_id ty data tb oc (dev_last_event_sequence d + 1) db"
  note last = append_stream_last [OF ap]
  have dm: "d \<in> set (devices db)" "dev_id d = device_id" "dev_owner_user_id d = owner"
    using scalar_Some [OF d] by auto
  have old_seq: "evl_sequence r \<le> dev_last_event_sequence d"
    if r: "r \<in> set (event_logs db)" "evl_device_id r = device_id" for r
  proof -
    obtain d' where "d' \<in> set (devices db)" "dev_id d' = device_id"
        "evl_sequence r \<le> dev_last_event_sequence d'"
      using wf_device_sequence [OF wf r(1)] r(2) by auto
    moreover have "d' = d"
      using wf_devices [OF wf] dm calculation by (auto simp: distinct_map inj_on_def)
    ultimately show ?thesis by simp
  qed
  have bumped: "\<exists>d' \<in> set (bump_device device_id owner (devices db)).
      dev_id d' = dev_id d0 \<and> dev_last_event_sequence d0 \<le> dev_last_event_sequence d'"
    if "d0 \<in> set (devices db)" for d0
    using that unfolding bump_device_def by (intro bexI [OF _ update_where_image [OF that]]) auto
  show ?thesis
    unfolding events_wf_def
  proof (intro conjI)
    show "distinct (map cur_owner_user_id (event_owner_cursors db'))"
      using wf_owners [OF wf] by (simp add: db' distinct_bump_cursor)
    show "\<forall>o'. stream_min o' db' \<le> stream_last o' db' \<and> stream_last o' db' \<le> MAX_EVENT_CURSOR"
      using last room stream_min_le_last [OF wf] stream_last_le_max [OF wf]
      by (auto simp: le_SucI)
    show "distinct (map (\<lambda>r. (evl_owner_user_id r, evl_owner_cursor r)) (event_logs db'))"
      using wf_cursors [OF wf] wf_bounded [OF wf] by (fastforce simp: db' appended_row_def)
    show "distinct (map (\<lambda>r. (evl_device_id r, evl_sequence r)) (event_logs db'))"
      using wf_sequences [OF wf] old_seq by (fastforce simp: db' appended_row_def)
    show "\<forall>r \<in> set (event_logs db'). 0 < evl_owner_cursor r
        \<and> evl_owner_cursor r \<le> stream_last (evl_owner_user_id r) db'"
      using wf_positive [OF wf] wf_bounded [OF wf] last
      by (auto simp: db' appended_row_def le_SucI)
    show "\<forall>o' n. stream_min o' db' < n \<and> n \<le> stream_last o' db' \<longrightarrow>
        (\<exists>r \<in> set (event_logs db'). evl_owner_user_id r = o' \<and> evl_owner_cursor r = n)"
    proof (intro allI impI, elim conjE)
      fix o' n assume n: "stream_min o' db' < n" "n \<le> stream_last o' db'"
      show "\<exists>r \<in> set (event_logs db'). evl_owner_user_id r = o' \<and> evl_owner_cursor r = n"
      proof (cases "o' = owner \<and> n = stream_last owner db + 1")
        case True
        then show ?thesis by (auto simp: db' appended_row_def)
      next
        case False
        then show ?thesis
          using n last wf_complete [OF wf, of o' n] by (auto simp: db' split: if_splits)
      qed
    qed
    show "distinct (map dev_id (devices db'))"
      using wf_devices [OF wf] by (simp add: db' map_bump_device)
    show "\<forall>r \<in> set (event_logs db'). \<exists>d \<in> set (devices db').
        dev_id d = evl_device_id r \<and> evl_sequence r \<le> dev_last_event_sequence d"
    proof
      fix r assume "r \<in> set (event_logs db')"
      then consider "r \<in> set (event_logs db)" | "r = ?row" by (auto simp: db')
      then show "\<exists>d \<in> set (devices db'). dev_id d = evl_device_id r
          \<and> evl_sequence r \<le> dev_last_event_sequence d"
      proof cases
        case 1
        then show ?thesis
          using wf_device_sequence [OF wf 1] bumped by (fastforce simp: db' intro: order.trans)
      next
        case 2
        then show ?thesis
          using dm update_where_image [of d "devices db"
              "\<lambda>d. dev_id d = device_id \<and> dev_owner_user_id d = owner"
              "\<lambda>d. d\<lparr>dev_last_event_sequence := dev_last_event_sequence d + 1\<rparr>"]
          by (auto simp: db' bump_device_def appended_row_def elim!: rev_bexI)
      qed
    qed
  qed
qed

lemma append_Inl:
  assumes wf: "events_wf db"
  shows "event_append now owner device_id ty data tb oc db = Inl err \<longleftrightarrow>
    (case scalar (\<lambda>d. dev_id d = device_id \<and> dev_owner_user_id d = owner) (devices db) of
       None \<Rightarrow> err = Event_Device_Ownership_Mismatch
     | Some d \<Rightarrow>
         if dev_last_event_sequence d \<ge> MAX_EVENT_CURSOR then err = Event_Bigint_Overflow
         else stream_last owner db = MAX_EVENT_CURSOR \<and> err = Event_Cursor_Exhausted)"
proof (cases "scalar (\<lambda>d. dev_id d = device_id \<and> dev_owner_user_id d = owner) (devices db)")
  case None
  then show ?thesis by (auto simp: event_append_def)
next
  case (Some d)
  let ?db1 = "db\<lparr>devices := bump_device device_id owner (devices db)\<rparr>"
  have last: "stream_last owner ?db1 = stream_last owner db"
    by (simp add: stream_last_def cursor_row_def)
  have dm: "d \<in> set (devices db)" "dev_id d = device_id" using scalar_Some [OF Some] by auto
  have no_seq: "\<not> (evl_device_id r = device_id \<and> evl_sequence r = dev_last_event_sequence d + 1)"
    if r: "r \<in> set (event_logs db)" for r
  proof
    assume a: "evl_device_id r = device_id \<and> evl_sequence r = dev_last_event_sequence d + 1"
    obtain d' where "d' \<in> set (devices db)" "dev_id d' = device_id"
        "evl_sequence r \<le> dev_last_event_sequence d'"
      using wf_device_sequence [OF wf r] a by auto
    moreover have "d' = d"
      using wf_devices [OF wf] dm calculation by (auto simp: distinct_map inj_on_def)
    ultimately show False using a by simp
  qed
  have no_cur: "\<not> (evl_owner_user_id r = owner \<and> evl_owner_cursor r = stream_last owner db + 1)"
    if "r \<in> set (event_logs db)" for r
    using wf_bounded [OF wf that] by auto
  show ?thesis
  proof (cases "allocate_owner_cursor owner ?db1")
    case (Inl e)
    then have "e = Event_Cursor_Exhausted" "stream_last owner db = MAX_EVENT_CURSOR"
      using last stream_last_le_max [OF wf, of owner] by (simp_all add: allocate_owner_cursor_Inl)
    then show ?thesis
      using Some Inl by (auto simp: event_append_def)
  next
    case (Inr r)
    obtain n db2 where r: "r = (n, db2)" by fastforce
    note alloc = allocate_owner_cursor_Inr [OF Inr [unfolded r]]
    have "\<not> exists_where (\<lambda>r. evl_device_id r = device_id \<and> evl_sequence r = dev_last_event_sequence d + 1
        \<or> evl_owner_user_id r = owner \<and> evl_owner_cursor r = n) (event_logs db2)"
      using no_seq no_cur alloc last by auto
    then show ?thesis
      using Some Inr r last alloc by (auto simp: event_append_def Let_def)
  qed
qed

section \<open>Catch-up pages\<close>

lemma int_of_text_nat_str [simp]: "int_of_text (nat_str n) = int n"
proof -
  obtain c s where "nat_str n = c # s" "c \<noteq> 45" using nat_str_Cons by blast
  then show ?thesis using digits_value_nat_str [of n] by (simp add: int_of_text_def)
qed

lemma cursor_value_row [simp]: "cursor_value (row_event r) = int (evl_owner_cursor r)"
  by (simp add: cursor_value_def row_event_def)

text \<open>The rows of a resumable cursor are exactly the following cursors, in order.\<close>

lemma catch_up_rows_cursors:
  assumes wf: "events_wf db" and c: "int (stream_min owner db) \<le> cursor"
    "cursor \<le> int (stream_last owner db)"
  shows "map evl_owner_cursor (catch_up_rows owner cursor n db) =
    take n [nat cursor + 1..<stream_last owner db + 1]"
proof -
  let ?P = "\<lambda>r. evl_owner_user_id r = owner \<and> int (evl_owner_cursor r) > cursor"
  have "distinct (map evl_owner_cursor (filter ?P (event_logs db)))"
    using wf_cursors [OF wf] by (auto simp: distinct_map inj_on_def)
  moreover have "set (map evl_owner_cursor (filter ?P (event_logs db))) =
      {nat cursor + 1..<stream_last owner db + 1}"
  proof (intro set_eqI iffI)
    fix n assume "n \<in> set (map evl_owner_cursor (filter ?P (event_logs db)))"
    then obtain r where "r \<in> set (event_logs db)" "?P r" "evl_owner_cursor r = n"
      by auto
    then show "n \<in> {nat cursor + 1..<stream_last owner db + 1}"
      using wf_bounded [OF wf, of r] c by auto
  next
    fix n assume n: "n \<in> {nat cursor + 1..<stream_last owner db + 1}"
    moreover have "stream_min owner db < n" using n nat_mono [OF c(1)] by simp
    ultimately obtain r where "r \<in> set (event_logs db)" "evl_owner_user_id r = owner"
        "evl_owner_cursor r = n"
      using wf_complete [OF wf, of owner n] by auto
    then show "n \<in> set (map evl_owner_cursor (filter ?P (event_logs db)))"
      using n by auto
  qed
  ultimately have "sort (map evl_owner_cursor (filter ?P (event_logs db))) =
      [nat cursor + 1..<stream_last owner db + 1]"
    by (rule sort_interval)
  then show ?thesis
    by (simp only: catch_up_rows_def select_ordered_def take_map [symmetric] map_key_sort_key)
qed

lemma catch_up_rows_events:
  assumes wf: "events_wf db" and c: "int (stream_min owner db) \<le> cursor"
    "cursor \<le> int (stream_last owner db)"
  shows "map row_event (catch_up_rows owner cursor n db) =
    map (\<lambda>k. the (stream_at owner db k)) (take n [nat cursor + 1..<stream_last owner db + 1])"
proof -
  let ?rows = "catch_up_rows owner cursor n db"
  have sub: "set ?rows \<subseteq> {r \<in> set (event_logs db). evl_owner_user_id r = owner}"
    using set_select_ordered unfolding catch_up_rows_def by fastforce
  have "stream_at owner db (evl_owner_cursor r) = Some (row_event r)" if "r \<in> set ?rows" for r
    using that sub stream_at_Some [OF wf] by blast
  then have "map row_event ?rows = map (\<lambda>k. the (stream_at owner db k)) (map evl_owner_cursor ?rows)"
    by simp
  then show ?thesis
    by (simp only: catch_up_rows_cursors [OF assms])
qed

lemma page_loop_Inr:
  assumes "page_loop f rl bl i rows es b = Inr p" "i \<le> rl" "es = [] \<Longrightarrow> i = 0"
  shows "\<exists>k \<le> length rows. page_events p = es @ map row_event (take k rows)
      \<and> i + k \<le> rl
      \<and> page_serialized_bytes p = b + sum_list (map f (map row_event (take k rows)))
      \<and> (page_has_more p \<longleftrightarrow> k < length rows)
      \<and> (page_serialized_bytes p \<le> bl \<or> k = 0)
      \<and> (page_has_more p \<longrightarrow> page_events p \<noteq> [] \<or> rl = 0)
      \<and> (page_has_more p \<longrightarrow> i + k = rl \<or>
           page_serialized_bytes p + f (row_event (rows ! k)) > bl)"
  using assms
proof (induction f rl bl i rows es b rule: page_loop.induct)
  case (1 f rl bl i es b)
  then show ?case by auto
next
  case (2 f rl bl i row rows es b)
  let ?n = "f (row_event row)"
  consider (limit) "i = rl" | (big) "i \<noteq> rl" "b + ?n > bl" | (fits) "i \<noteq> rl" "b + ?n \<le> bl"
    by linarith
  then show ?case
  proof cases
    case limit
    then show ?thesis using "2.prems" by (intro exI [of _ 0]) auto
  next
    case big
    then show ?thesis using "2.prems" by (intro exI [of _ 0]) (auto simp: Let_def split: if_splits)
  next
    case fits
    then have p: "page_loop f rl bl (i + 1) rows (es @ [row_event row]) (b + ?n) = Inr p"
      using "2.prems" by (simp add: Let_def)
    have le: "i + 1 \<le> rl" using fits "2.prems" by simp
    have nb: "\<not> bl < b + ?n" using fits by simp
    obtain k where k: "k \<le> length rows"
      "page_events p = (es @ [row_event row]) @ map row_event (take k rows)" "(i + 1) + k \<le> rl"
      "page_serialized_bytes p = (b + ?n) + sum_list (map f (map row_event (take k rows)))"
      "page_has_more p \<longleftrightarrow> k < length rows"
      "page_serialized_bytes p \<le> bl \<or> k = 0"
      "page_has_more p \<longrightarrow> (i + 1) + k = rl \<or> page_serialized_bytes p + f (row_event (rows ! k)) > bl"
      using "2.IH" [OF fits(1) refl refl nb p le] by blast
    then show ?thesis
      using fits by (intro exI [of _ "Suc k"]) auto
  qed
qed

lemma page_loop_Inl:
  assumes "page_loop f rl bl i rows es b = Inl e"
  shows "es = [] \<and> (\<exists>row rest. rows = row # rest \<and> b + f (row_event row) > bl
      \<and> e = Browser_Event_Too_Large (evl_owner_cursor row) (f (row_event row)) bl)"
proof (cases rows)
  case Nil
  then show ?thesis using assms by simp
next
  case (Cons row rest)
  have later: "es' \<noteq> [] \<Longrightarrow> page_loop f rl bl i' rows' es' b' \<noteq> Inl e" for i' rows' es' b'
    by (induction rows' arbitrary: i' es' b') (auto simp: Let_def)
  show ?thesis
    using assms Cons later by (auto simp: Let_def split: if_splits)
qed

lemma cursor_value_stream:
  assumes "events_wf db" "stream_min owner db < n" "n \<le> stream_last owner db"
  shows "cursor_value (the (stream_at owner db n)) = int n"
proof -
  obtain e where e: "stream_at owner db n = Some e" using stream_complete [OF assms] by blast
  then obtain r where "evl_owner_cursor r = n" "e = row_event r"
    using stream_at_Some [OF assms(1)] by blast
  then show ?thesis using e by simp
qed

lemma advance_cursor_interval:
  assumes "\<And>i. a < i \<Longrightarrow> i \<le> a + k \<Longrightarrow> cursor_value (g i) = int i"
  shows "advance_cursor (int a) (map g [a + 1..<a + 1 + k]) = int (a + k)"
  using assms by (induction k) (simp_all add: advance_cursor_def)

lemma stream_resumable:
  assumes "catch_up_page f cfg owner cursor db = Inr p"
  shows "int (stream_min owner db) \<le> cursor" "cursor \<le> int (stream_last owner db)"
  using assms
  by (auto simp: catch_up_page_def stream_min_def stream_last_def split: option.splits if_splits)

lemma catch_up_page_events:
  assumes wf: "events_wf db" and p: "catch_up_page f cfg owner cursor db = Inr p"
  shows "\<exists>k. nat cursor + k \<le> stream_last owner db
    \<and> page_events p = map (\<lambda>i. the (stream_at owner db i)) [nat cursor + 1..<nat cursor + 1 + k]
    \<and> k \<le> browser_event_catchup_limit cfg
    \<and> page_serialized_bytes p = sum_list (map f (page_events p))
    \<and> page_serialized_bytes p \<le> browser_event_catchup_max_bytes cfg
    \<and> (page_has_more p \<longleftrightarrow> nat cursor + k < stream_last owner db)
    \<and> (page_has_more p \<longrightarrow> 0 < k)
    \<and> advance_cursor cursor (page_events p) = cursor + int k"
proof -
  let ?rl = "browser_event_catchup_limit cfg" and ?bl = "browser_event_catchup_max_bytes cfg"
  let ?g = "\<lambda>i. the (stream_at owner db i)" and ?a = "nat cursor"
  let ?rows = "catch_up_rows owner cursor (?rl + 1) db"
  note c = stream_resumable [OF p]
  have c0: "cursor = int ?a" using c by simp
  have last: "?a \<le> stream_last owner db" using nat_mono [OF c(2)] by simp
  show ?thesis
  proof (cases "cursor_row owner db")
    case None
    then have "stream_last owner db = 0" by (simp add: stream_last_def)
    then show ?thesis
      using p None c0 last
      by (intro exI [of _ 0]) (auto simp: catch_up_page_def advance_cursor_def split: if_splits)
  next
    case (Some st)
    then have pl: "page_loop f ?rl ?bl 0 ?rows [] 0 = Inr p" and pos: "0 < ?rl"
      using p by (auto simp: catch_up_page_def split: if_splits)
    obtain k where k: "k \<le> length ?rows" "page_events p = map row_event (take k ?rows)" "k \<le> ?rl"
        "page_serialized_bytes p = sum_list (map f (map row_event (take k ?rows)))"
        "page_has_more p \<longleftrightarrow> k < length ?rows" "page_serialized_bytes p \<le> ?bl \<or> k = 0"
        "page_has_more p \<longrightarrow> page_events p \<noteq> [] \<or> ?rl = 0"
      using page_loop_Inr [OF pl le0 refl, unfolded append_Nil plus_nat.add_0] by blast
    have len: "length ?rows = min (?rl + 1) (stream_last owner db - ?a)"
      using arg_cong [OF catch_up_rows_cursors [OF wf c, of "?rl + 1"], of length]
      by (simp add: min.commute del: upt_Suc)
    have events: "page_events p = map ?g (take k [?a + 1..<stream_last owner db + 1])"
      using k(1,2) len catch_up_rows_events [OF wf c, of "?rl + 1"]
      by (simp add: take_map [symmetric] del: upt_Suc)
    have "k \<le> stream_last owner db - ?a" using k(1) len by simp
    then have bound: "?a + k \<le> stream_last owner db" using last by linarith
    then have "take k [?a + 1..<stream_last owner db + 1] = [?a + 1..<?a + 1 + k]"
      by (intro take_upt) simp
    with events have ev: "page_events p = map ?g [?a + 1..<?a + 1 + k]" by simp
    have "cursor_value (?g i) = int i" if "?a < i" "i \<le> ?a + k" for i
      using that bound nat_mono [OF c(1)] by (intro cursor_value_stream [OF wf]) auto
    then have adv: "advance_cursor cursor (page_events p) = cursor + int k"
      using advance_cursor_interval [of ?a k ?g] ev c0 by simp
    have more: "page_has_more p \<longleftrightarrow> ?a + k < stream_last owner db"
      using k(3,5) len by auto
    have "page_has_more p \<longrightarrow> 0 < k"
      using k(2,7) pos by (cases "k = 0") auto
    then show ?thesis
      using bound ev k(2,3,4,6) more adv by (intro exI [of _ k]) auto
  qed
qed

lemma catch_up_page_Inl:
  assumes wf: "events_wf db" and "0 \<le> cursor" "0 < browser_event_catchup_limit cfg"
    "0 < browser_event_catchup_max_bytes cfg"
  shows "catch_up_page f cfg owner cursor db = Inl e \<longleftrightarrow>
      cursor < int (stream_min owner db) \<and> e = Browser_Cursor_Too_Old
    \<or> int (stream_last owner db) < cursor \<and> e = Browser_Cursor_Ahead
    \<or> int (stream_min owner db) \<le> cursor \<and> cursor < int (stream_last owner db)
       \<and> browser_event_catchup_max_bytes cfg < f (the (stream_at owner db (nat cursor + 1)))
       \<and> e = Browser_Event_Too_Large (nat cursor + 1)
             (f (the (stream_at owner db (nat cursor + 1)))) (browser_event_catchup_max_bytes cfg)"
proof (cases "int (stream_min owner db) \<le> cursor \<and> cursor \<le> int (stream_last owner db)")
  case False
  then show ?thesis
    using assms stream_min_le_last [OF wf, of owner]
    by (auto simp: catch_up_page_def stream_min_def stream_last_def split: option.splits)
next
  case True
  let ?rl = "browser_event_catchup_limit cfg" and ?bl = "browser_event_catchup_max_bytes cfg"
  let ?rows = "catch_up_rows owner cursor (?rl + 1) db"
  show ?thesis
  proof (cases "cursor_row owner db")
    case None
    then show ?thesis
      using True assms by (auto simp: catch_up_page_def stream_min_def stream_last_def)
  next
    case (Some st)
    have cu: "catch_up_page f cfg owner cursor db = page_loop f ?rl ?bl 0 ?rows [] 0"
      using True assms Some by (auto simp: catch_up_page_def stream_min_def stream_last_def)
    have rows: "map evl_owner_cursor ?rows = take (?rl + 1) [nat cursor + 1..<stream_last owner db + 1]"
      "map row_event ?rows = map (\<lambda>k. the (stream_at owner db k))
         (take (?rl + 1) [nat cursor + 1..<stream_last owner db + 1])"
      using True by (simp_all only: catch_up_rows_cursors [OF wf] catch_up_rows_events [OF wf])
    show ?thesis
    proof (cases "cursor < int (stream_last owner db)")
      case False
      then have "?rows = []" using rows(1) True by simp
      then show ?thesis using cu False True by simp
    next
      case less: True
      then have "nat cursor + 1 < stream_last owner db + 1" using assms(2) by linarith
      then have up: "[nat cursor + 1..<stream_last owner db + 1] =
          (nat cursor + 1) # [nat cursor + 2..<stream_last owner db + 1]"
        by (simp add: upt_conv_Cons del: upt_Suc)
      obtain row rest where r: "?rows = row # rest" "evl_owner_cursor row = nat cursor + 1"
          "row_event row = the (stream_at owner db (nat cursor + 1))"
        using rows unfolding up by (cases ?rows) auto
      have "page_loop f ?rl ?bl 0 ?rows [] 0 = Inl e \<longleftrightarrow>
          ?bl < f (row_event row) \<and> e = Browser_Event_Too_Large (evl_owner_cursor row) (f (row_event row)) ?bl"
        using page_loop_Inl [of f ?rl ?bl 0 ?rows "[]" 0 e] r(1) assms(3)
        by (auto simp: Let_def)
      then show ?thesis
        using cu r less True by auto
    qed
  qed
qed

lemma page_events_upt_append:
  "map g [a + 1..<a + 1 + k] @ map g [a + k + 1..<b + 1] = map g [a + 1..<b + 1]"
  if "a + k \<le> b" for a k b :: nat
proof -
  have "[a + 1..<b + 1] = [a + 1..<a + 1 + k] @ [a + 1 + k..<b + 1]"
    using that upt_add_eq_append [of "a + 1" "a + 1 + k" "b - a - k"] by simp
  then show ?thesis by (simp del: upt_Suc add: ac_simps)
qed

lemma catch_up_loop_complete:
  assumes wf: "events_wf db" and lim: "0 < browser_event_catchup_limit cfg"
    "0 < browser_event_catchup_max_bytes cfg"
    and small: "\<And>n. stream_min owner db < n \<Longrightarrow> n \<le> stream_last owner db \<Longrightarrow>
      f (the (stream_at owner db n)) \<le> browser_event_catchup_max_bytes cfg"
    and c: "int (stream_min owner db) \<le> cursor" "cursor \<le> int (stream_last owner db)"
    and fuel: "stream_last owner db - nat cursor < fuel"
  shows "catch_up_loop f cfg owner fuel cursor db =
    Some (Inr (map (\<lambda>i. the (stream_at owner db i)) [nat cursor + 1..<stream_last owner db + 1],
      int (stream_last owner db)))"
  using c fuel
proof (induction fuel arbitrary: cursor)
  case (Suc fuel)
  let ?g = "\<lambda>i. the (stream_at owner db i)"
  have c0: "0 \<le> cursor" using Suc.prems(1) by simp
  have "cursor < int (stream_last owner db) \<Longrightarrow> nat cursor + 1 \<le> stream_last owner db"
    using c0 by linarith
  then have no_err: "catch_up_page f cfg owner cursor db \<noteq> Inl e" for e
    using Suc.prems small [of "nat cursor + 1"] nat_mono [OF Suc.prems(1)] c0
    by (subst catch_up_page_Inl [OF wf c0 lim]) auto
  then obtain p where p: "catch_up_page f cfg owner cursor db = Inr p"
    by (cases "catch_up_page f cfg owner cursor db") auto
  obtain k where k: "nat cursor + k \<le> stream_last owner db"
      "page_events p = map ?g [nat cursor + 1..<nat cursor + 1 + k]"
      "page_has_more p \<longleftrightarrow> nat cursor + k < stream_last owner db" "page_has_more p \<longrightarrow> 0 < k"
      "advance_cursor cursor (page_events p) = cursor + int k"
    using catch_up_page_events [OF wf p] by blast
  have nk: "nat (cursor + int k) = nat cursor + k" using c0 by simp
  show ?case
  proof (cases "page_has_more p")
    case False
    then have "nat cursor + k = stream_last owner db" using k(1,3) by simp
    then show ?thesis
      using p k False c0 by (simp add: Let_def del: upt_Suc)
  next
    case True
    have less: "stream_last owner db - nat (cursor + int k) < fuel"
      using Suc.prems(3) k(3,4) True nk by simp
    have "catch_up_loop f cfg owner fuel (cursor + int k) db =
        Some (Inr (map ?g [nat (cursor + int k) + 1..<stream_last owner db + 1],
          int (stream_last owner db)))"
      using Suc.prems(1) k(1) c0 less by (intro Suc.IH) auto
    then show ?thesis
      using p k True nk page_events_upt_append [OF k(1), of ?g]
      by (simp add: Let_def del: upt_Suc)
  qed
qed simp

section \<open>Pruning\<close>

lemma max_of_ge: "x \<in> set xs \<Longrightarrow> max_of xs = Some m \<Longrightarrow> x \<le> m"
  by (auto simp: max_of_def split: if_splits)

lemma max_of_in: "max_of xs = Some m \<Longrightarrow> m \<in> set xs"
  by (auto simp: max_of_def split: if_splits)

lemma raise_to_ge: "n \<le> raise_to n m"
  by (simp add: raise_to_def split: option.splits)

lemma raise_to_covers: "x \<in> set xs \<Longrightarrow> x \<le> raise_to n (max_of xs)"
proof -
  assume x: "x \<in> set xs"
  then have m: "max_of xs = Some (Max (set xs))" by (auto simp: max_of_def)
  show ?thesis using max_of_ge [OF x m] m by (simp add: raise_to_def)
qed

lemma raise_to_le: "n \<le> k \<Longrightarrow> (\<And>x. x \<in> set xs \<Longrightarrow> x \<le> k) \<Longrightarrow> raise_to n (max_of xs) \<le> k"
  using max_of_in [of xs] by (auto simp: raise_to_def split: option.splits)

text \<open>Dropping log rows of one owner and raising its resume bound over them.\<close>

lemma drop_rows:
  assumes wf: "events_wf db" and row: "cursor_row owner db = Some st"
    and drop: "\<And>r. r \<in> set (event_logs db) \<Longrightarrow> D r \<Longrightarrow>
      evl_owner_user_id r = owner \<and> evl_owner_cursor r \<le> m"
    and m: "stream_min owner db \<le> m" "m \<le> stream_last owner db"
    and db': "db' = db\<lparr>event_logs := delete_where D (event_logs db),
      event_owner_cursors := update_where (\<lambda>x. cur_owner_user_id x = owner)
        (\<lambda>x. x\<lparr>cur_minimum_resume_cursor := m\<rparr>) (event_owner_cursors db)\<rparr>"
  shows "events_wf db'"
    and "stream_last o' db' = stream_last o' db"
    and "stream_min o' db' = (if o' = owner then m else stream_min o' db)"
    and "stream_min o' db' < n \<Longrightarrow> stream_at o' db' n = stream_at o' db n"
    and "stream_at o' db' n \<noteq> None \<Longrightarrow> stream_at o' db' n = stream_at o' db n"
proof -
  have upd: "scalar (\<lambda>r. cur_owner_user_id r = x) (update_where (\<lambda>y. cur_owner_user_id y = owner)
      (\<lambda>y. y\<lparr>cur_minimum_resume_cursor := m\<rparr>) cs) =
      map_option (\<lambda>y. if x = owner then y\<lparr>cur_minimum_resume_cursor := m\<rparr> else y)
        (scalar (\<lambda>r. cur_owner_user_id r = x) cs)" for x and cs :: "event_owner_cursor list"
    by (induction cs) auto
  have last: "stream_last x db' = stream_last x db" for x
    by (auto simp: stream_last_def cursor_row_def db' upd split: option.splits)
  have smin: "stream_min x db' = (if x = owner then m else stream_min x db)" for x
    using row by (auto simp: stream_min_def cursor_row_def db' upd split: option.splits)
  have logs: "r \<in> set (event_logs db') \<longleftrightarrow> r \<in> set (event_logs db) \<and> \<not> D r" for r
    by (simp add: db')
  show l: "stream_last o' db' = stream_last o' db" and mn: "stream_min o' db' = (if o' = owner then m else stream_min o' db)"
    by (rule last, rule smin)
  show wf': "events_wf db'"
    unfolding events_wf_def
  proof (intro conjI)
    show "distinct (map cur_owner_user_id (event_owner_cursors db'))"
      using wf_owners [OF wf] by (simp add: db' table_simps)
    show "\<forall>x. stream_min x db' \<le> stream_last x db' \<and> stream_last x db' \<le> MAX_EVENT_CURSOR"
      using last smin m(2) stream_min_le_last [OF wf] stream_last_le_max [OF wf] by auto
    show "distinct (map (\<lambda>r. (evl_owner_user_id r, evl_owner_cursor r)) (event_logs db'))"
      "distinct (map (\<lambda>r. (evl_device_id r, evl_sequence r)) (event_logs db'))"
      using wf_cursors [OF wf] wf_sequences [OF wf] by (simp_all add: db' distinct_delete_where_key)
    show "\<forall>r \<in> set (event_logs db'). 0 < evl_owner_cursor r
        \<and> evl_owner_cursor r \<le> stream_last (evl_owner_user_id r) db'"
      using wf_positive [OF wf] wf_bounded [OF wf] last logs by simp
    show "\<forall>x n. stream_min x db' < n \<and> n \<le> stream_last x db' \<longrightarrow>
        (\<exists>r \<in> set (event_logs db'). evl_owner_user_id r = x \<and> evl_owner_cursor r = n)"
    proof (intro allI impI, elim conjE)
      fix x n assume n: "stream_min x db' < n" "n \<le> stream_last x db'"
      then have "stream_min x db < n" using m(1) smin by (auto split: if_splits)
      then obtain r where r: "r \<in> set (event_logs db)" "evl_owner_user_id r = x" "evl_owner_cursor r = n"
        using wf_complete [OF wf] n(2) last by auto
      then have "\<not> D r" using drop n(1) smin by fastforce
      then show "\<exists>r \<in> set (event_logs db'). evl_owner_user_id r = x \<and> evl_owner_cursor r = n"
        using r logs by blast
    qed
    show "distinct (map dev_id (devices db'))" using wf_devices [OF wf] by (simp add: db')
    show "\<forall>r \<in> set (event_logs db'). \<exists>d \<in> set (devices db').
        dev_id d = evl_device_id r \<and> evl_sequence r \<le> dev_last_event_sequence d"
      using wf_device_sequence [OF wf] logs by (simp add: db')
  qed
  show keep: "stream_at o' db' n = stream_at o' db n" if "stream_at o' db' n \<noteq> None" for n
    using that stream_at_Some [OF wf'] stream_at_Some [OF wf] logs
    by (metis option.exhaust_sel)
  show "stream_at o' db' n = stream_at o' db n" if n: "stream_min o' db' < n"
  proof (cases "n \<le> stream_last o' db")
    case True
    then have "stream_at o' db' n \<noteq> None"
      using stream_complete [OF wf' n] l by auto
    then show ?thesis by (rule keep)
  next
    case False
    then have "stream_at o' db n = None" "stream_at o' db' n = None"
      using stream_at_range(2) [OF wf] stream_at_range(2) [OF wf'] l by (metis option.exhaust)+
    then show ?thesis by simp
  qed
qed

lemma delete_where_twice:
  "delete_where Q (delete_where P rows) = delete_where (\<lambda>r. P r \<or> Q r) rows"
  by (induction rows) auto

lemma count_where_delete_where:
  "count_where P rows + length (delete_where P rows) = length rows"
  by (induction rows) auto

lemma filter_ge_threshold:
  fixes xs :: "nat list"
  assumes "distinct xs" "drop (n - 1) (rev (sort xs)) = t # rest" "0 < n"
  shows "length (filter (\<lambda>x. \<not> x < t) xs) \<le> n"
proof -
  have split: "rev (sort xs) = take (n - 1) (rev (sort xs)) @ t # rest"
    using assms(2) by (metis append_take_drop_id)
  have "distinct (rev (sort xs))" "sorted_wrt (\<ge>) (rev (sort xs))"
    using assms(1) by (simp_all add: sorted_wrt_rev)
  then have "\<forall>x \<in> set rest. x < t"
    by (subst (asm) (1 2) split) (auto simp: sorted_wrt_append order.order_iff_strict)
  then have empty: "filter (\<lambda>x. \<not> x < t) rest = []" by (simp add: filter_empty_conv)
  have "length (filter (\<lambda>x. \<not> x < t) xs) = length (filter (\<lambda>x. \<not> x < t) (rev (sort xs)))"
    by (simp add: rev_filter [symmetric] filter_sort)
  also have "\<dots> = length (filter (\<lambda>x. \<not> x < t) (take (n - 1) (rev (sort xs)))) + 1"
    by (subst split) (simp add: empty)
  also have "\<dots> \<le> (n - 1) + 1"
    by (intro add_right_mono order.trans [OF length_filter_le]) simp
  finally show ?thesis using assms(3) by simp
qed

lemma raise_over_ge: "n \<le> raise_over P logs n"
  by (simp add: raise_over_def raise_to_ge)

lemma raise_over_covers: "r \<in> set logs \<Longrightarrow> P r \<Longrightarrow> evl_owner_cursor r \<le> raise_over P logs n"
  unfolding raise_over_def by (rule raise_to_covers) simp

lemma raise_over_le:
  "n \<le> k \<Longrightarrow> (\<And>r. r \<in> set logs \<Longrightarrow> P r \<Longrightarrow> evl_owner_cursor r \<le> k) \<Longrightarrow> raise_over P logs n \<le> k"
  unfolding raise_over_def by (rule raise_to_le) auto

lemma overflow_bound:
  assumes "distinct (map evl_owner_cursor (filter (\<lambda>r. evl_owner_user_id r = owner) logs))"
    and pos: "0 < browser_event_max_per_owner cfg"
  shows "count_where (\<lambda>r. evl_owner_user_id r = owner)
      (delete_where (overflow_event cfg owner logs) logs) \<le> browser_event_max_per_owner cfg"
proof -
  let ?C = "map evl_owner_cursor (filter (\<lambda>r. evl_owner_user_id r = owner) logs)"
  let ?thr = "overflow_threshold cfg owner logs"
  have len: "count_where (\<lambda>r. evl_owner_user_id r = owner)
      (delete_where (overflow_event cfg owner logs) logs) =
      length (filter (\<lambda>x. \<not> (case ?thr of None \<Rightarrow> False | Some t \<Rightarrow> x < t)) ?C)"
    unfolding count_where_def delete_where_def filter_map length_map filter_filter
    by (rule arg_cong [of _ _ length], rule filter_cong) (auto simp: overflow_event_def)
  show ?thesis
  proof (cases ?thr)
    case None
    then have "length ?C \<le> browser_event_max_per_owner cfg - 1"
      by (auto simp: overflow_threshold_def split: list.splits)
    then show ?thesis using len None by simp
  next
    case (Some t)
    then obtain rest where "drop (browser_event_max_per_owner cfg - 1) (rev (sort ?C)) = t # rest"
      by (auto simp: overflow_threshold_def split: list.splits)
    then show ?thesis
      using filter_ge_threshold [OF assms(1) _ pos] len Some by simp
  qed
qed

text \<open>One owner's share of \<open>prune\<close>: the rows that go, the bound that rises.\<close>

definition pruned_event :: "settings \<Rightarrow> datetime \<Rightarrow> ustr \<Rightarrow> event_log list \<Rightarrow> event_log \<Rightarrow> bool" where
  "pruned_event cfg now owner logs r \<longleftrightarrow> expired_event cfg now owner r
     \<or> overflow_event cfg owner (delete_where (expired_event cfg now owner) logs) r"

definition pruned_bound :: "settings \<Rightarrow> datetime \<Rightarrow> ustr \<Rightarrow> database \<Rightarrow> nat" where
  "pruned_bound cfg now owner db =
     (let logs1 = delete_where (expired_event cfg now owner) (event_logs db) in
      raise_over (overflow_event cfg owner logs1) logs1
        (raise_over (expired_event cfg now owner) (event_logs db) (stream_min owner db)))"

lemma prune_owner_eq:
  assumes "cursor_row owner db = Some st"
  shows "prune_owner cfg now owner db =
    (count_where (pruned_event cfg now owner (event_logs db)) (event_logs db),
     db\<lparr>event_logs := delete_where (pruned_event cfg now owner (event_logs db)) (event_logs db),
        event_owner_cursors := update_where (\<lambda>x. cur_owner_user_id x = owner)
          (\<lambda>x. x\<lparr>cur_minimum_resume_cursor := pruned_bound cfg now owner db\<rparr>)
          (event_owner_cursors db)\<rparr>)"
proof -
  let ?E = "expired_event cfg now owner"
  let ?V = "overflow_event cfg owner (delete_where ?E (event_logs db))"
  have "delete_where ?V (delete_where ?E (event_logs db)) =
      delete_where (pruned_event cfg now owner (event_logs db)) (event_logs db)"
    by (simp add: delete_where_twice pruned_event_def [abs_def])
  moreover have "count_where ?E (event_logs db) + count_where ?V (delete_where ?E (event_logs db)) =
      count_where (pruned_event cfg now owner (event_logs db)) (event_logs db)"
    using count_where_delete_where [of ?E "event_logs db"]
      count_where_delete_where [of ?V "delete_where ?E (event_logs db)"]
      count_where_delete_where [of "pruned_event cfg now owner (event_logs db)" "event_logs db"]
      calculation by simp
  ultimately show ?thesis
    using assms by (simp add: prune_owner_def pruned_bound_def stream_min_def Let_def)
qed

lemma pruned_covered:
  assumes "r \<in> set (event_logs db)" "pruned_event cfg now owner (event_logs db) r"
  shows "evl_owner_user_id r = owner \<and> evl_owner_cursor r \<le> pruned_bound cfg now owner db"
proof -
  let ?E = "expired_event cfg now owner"
  let ?logs1 = "delete_where ?E (event_logs db)"
  consider "?E r" | "\<not> ?E r" "overflow_event cfg owner ?logs1 r"
    using assms(2) by (auto simp: pruned_event_def)
  then show ?thesis
  proof cases
    case 1
    then show ?thesis
      using order.trans [OF raise_over_covers [of r "event_logs db" ?E "stream_min owner db"]
          raise_over_ge] assms(1)
      by (auto simp: pruned_bound_def Let_def expired_event_def)
  next
    case 2
    then show ?thesis
      using raise_over_covers [of r ?logs1 "overflow_event cfg owner ?logs1"] assms(1)
      by (auto simp: pruned_bound_def Let_def overflow_event_def)
  qed
qed

lemma pruned_bound_range:
  assumes wf: "events_wf db"
  shows "stream_min owner db \<le> pruned_bound cfg now owner db"
    and "pruned_bound cfg now owner db \<le> stream_last owner db"
proof -
  have mine: "evl_owner_cursor r \<le> stream_last owner db"
    if "r \<in> set (event_logs db)" "evl_owner_user_id r = owner" for r
    using wf_bounded [OF wf that(1)] that(2) by simp
  show "stream_min owner db \<le> pruned_bound cfg now owner db"
    unfolding pruned_bound_def Let_def by (meson order.trans raise_over_ge)
  show "pruned_bound cfg now owner db \<le> stream_last owner db"
    unfolding pruned_bound_def Let_def
    using mine stream_min_le_last [OF wf, of owner]
    by (intro raise_over_le) (auto simp: expired_event_def overflow_event_def)
qed

text \<open>How a stream may change under pruning: heads stay, resume bounds rise, and an event above the
  resume bound, or still present, is the event that was there.\<close>

definition stream_pruned :: "database \<Rightarrow> database \<Rightarrow> bool" where
  "stream_pruned db db' \<longleftrightarrow> (\<forall>owner.
     stream_last owner db' = stream_last owner db
   \<and> stream_min owner db \<le> stream_min owner db'
   \<and> (\<forall>n. stream_min owner db' < n \<or> stream_at owner db' n \<noteq> None \<longrightarrow>
         stream_at owner db' n = stream_at owner db n))"

lemma stream_pruned_refl: "stream_pruned db db"
  by (simp add: stream_pruned_def)

lemma stream_pruned_trans:
  "stream_pruned db db' \<Longrightarrow> stream_pruned db' db'' \<Longrightarrow> stream_pruned db db''"
  unfolding stream_pruned_def by (metis order.trans order.strict_trans1)

lemma prune_owner_pruned:
  assumes wf: "events_wf db"
  shows "events_wf (snd (prune_owner cfg now owner db))
    \<and> stream_pruned db (snd (prune_owner cfg now owner db))"
proof (cases "cursor_row owner db")
  case None
  then show ?thesis using wf by (simp add: prune_owner_def stream_pruned_refl)
next
  case (Some st)
  note drop = drop_rows [OF wf Some pruned_covered pruned_bound_range [OF wf] refl]
  show ?thesis
    unfolding prune_owner_eq [OF Some] snd_conv stream_pruned_def
    using drop pruned_bound_range(1) [OF wf] by auto
qed

lemma prune_owners_pruned:
  assumes "events_wf db"
  shows "events_wf (snd (prune_owners cfg now owners k db))
    \<and> stream_pruned db (snd (prune_owners cfg now owners k db))"
  using assms
proof (induction owners arbitrary: k db)
  case (Cons owner owners)
  obtain n db' where p: "prune_owner cfg now owner db = (n, db')" by fastforce
  have "events_wf db'" "stream_pruned db db'"
    using prune_owner_pruned [OF Cons.prems, of cfg now owner] p by auto
  then show ?case
    using Cons.IH [of db' "k + n"] p stream_pruned_trans by auto
qed (simp add: stream_pruned_refl)

lemma event_prune_pruned:
  assumes "events_wf db"
  shows "events_wf (snd (event_prune cfg now db))" "stream_pruned db (snd (event_prune cfg now db))"
  using prune_owners_pruned [OF assms] by (simp_all add: event_prune_def)

lemma lock_owner_cursor_stream:
  assumes "events_wf db" "lock_owner_cursor owner db = (n, db')"
  shows "events_wf db'" "stream_last o' db' = stream_last o' db" "stream_min o' db' = stream_min o' db"
    "stream_at o' db' = stream_at o' db" "n = stream_last owner db"
proof -
  have app: "scalar (\<lambda>r. cur_owner_user_id r = x) (cs @ [c]) =
      (case scalar (\<lambda>r. cur_owner_user_id r = x) cs of
         Some y \<Rightarrow> Some y | None \<Rightarrow> if cur_owner_user_id c = x then Some c else None)"
    for x c and cs :: "event_owner_cursor list"
    by (induction cs) auto
  have last: "stream_last x db' = stream_last x db" and mn: "stream_min x db' = stream_min x db"
    and at: "stream_at x db' = stream_at x db" for x
    using assms(2)
    by (auto simp: lock_owner_cursor_def stream_last_def stream_min_def stream_at_def cursor_row_def
        app split: option.splits if_splits)
  show "stream_last o' db' = stream_last o' db" "stream_min o' db' = stream_min o' db"
    "stream_at o' db' = stream_at o' db" "n = stream_last owner db"
    using last mn at assms(2)
    by (auto simp: lock_owner_cursor_def stream_last_def split: option.splits)
  have "distinct (map cur_owner_user_id (event_owner_cursors db'))"
    "event_logs db' = event_logs db" "devices db' = devices db"
    using assms wf_owners [OF assms(1)] cursor_row_None [of owner db]
    by (auto simp: lock_owner_cursor_def split: option.splits)
  then show "events_wf db'"
    using assms(1) by (simp add: events_wf_def last mn)
qed

section \<open>Interleaving of one browser with the rest of the system\<close>

text \<open>
  The state of one browser socket of \<open>owner\<close> beside the shared database: the cursor reached,
  the events sent, and, for the specification only, the event that each cursor ever received.
  Appends of any device, pruning passes and the socket's page fetches interleave in any order.
\<close>

record stream_run =
  run_db :: database
  run_cursor :: int
  run_sent :: "browser_event list"
  run_history :: "nat \<Rightarrow> browser_event option"

inductive stream_step ::
  "(browser_event \<Rightarrow> nat) \<Rightarrow> settings \<Rightarrow> ustr \<Rightarrow> stream_run \<Rightarrow> stream_run \<Rightarrow> bool"
  for event_bytes cfg owner where
  append: "event_append now o' device_id ty data tb oc (run_db s) = Inr (e, db') \<Longrightarrow>
     stream_step event_bytes cfg owner s
       (s\<lparr>run_db := db', run_history := (if o' = owner
          then (run_history s)(nat (cursor_value e) \<mapsto> e) else run_history s)\<rparr>)"
| prune: "event_prune cfg now (run_db s) = (n, db') \<Longrightarrow>
     stream_step event_bytes cfg owner s (s\<lparr>run_db := db'\<rparr>)"
| lock: "lock_owner_cursor o' (run_db s) = (n, db') \<Longrightarrow>
     stream_step event_bytes cfg owner s (s\<lparr>run_db := db'\<rparr>)"
| page: "catch_up_page event_bytes cfg owner (run_cursor s) (run_db s) = Inr p \<Longrightarrow>
     stream_step event_bytes cfg owner s
       (s\<lparr>run_cursor := advance_cursor (run_cursor s) (page_events p),
          run_sent := run_sent s @ page_events p\<rparr>)"

definition run_inv :: "ustr \<Rightarrow> nat \<Rightarrow> stream_run \<Rightarrow> bool" where
  "run_inv owner start s \<longleftrightarrow>
     events_wf (run_db s)
   \<and> (\<forall>n. stream_at owner (run_db s) n \<noteq> None \<longrightarrow>
        stream_at owner (run_db s) n = run_history s n)
   \<and> (\<forall>n. run_history s n \<noteq> None \<longrightarrow> n \<le> stream_last owner (run_db s))
   \<and> (\<exists>k. run_cursor s = int (start + k)
        \<and> run_sent s = map (\<lambda>i. the (run_history s i)) [start + 1..<start + 1 + k]
        \<and> (\<forall>i. start < i \<and> i \<le> start + k \<longrightarrow> run_history s i \<noteq> None))"

lemma run_inv_step:
  assumes "stream_step f cfg owner s s'" "run_inv owner start s"
  shows "run_inv owner start s'"
  using assms
proof cases
  case (append now o' device_id ty data tb oc e db')
  let ?db = "run_db s"
  have wf: "events_wf ?db" using assms(2) by (simp add: run_inv_def)
  obtain k where k: "run_cursor s = int (start + k)"
      "run_sent s = map (\<lambda>i. the (run_history s i)) [start + 1..<start + 1 + k]"
      "\<And>i. start < i \<Longrightarrow> i \<le> start + k \<Longrightarrow> run_history s i \<noteq> None"
    using assms(2) unfolding run_inv_def by blast
  have hist_le: "run_history s n \<noteq> None \<Longrightarrow> n \<le> stream_last owner ?db" for n
    using assms(2) unfolding run_inv_def by blast
  have agree: "stream_at owner ?db n \<noteq> None \<Longrightarrow> stream_at owner ?db n = run_history s n" for n
    using assms(2) unfolding run_inv_def by blast
  have cv: "o' = owner \<Longrightarrow> nat (cursor_value e) = stream_last owner ?db + 1"
    using append(2) by (auto elim!: event_append_Inr simp: appended_row_def)
  have old: "i \<noteq> stream_last owner ?db + 1" if "start < i" "i \<le> start + k" for i
    using hist_le [OF k(3) [OF that]] by simp
  have keep: "run_history s' i = run_history s i" if "start < i" "i \<le> start + k" for i
    using append(1) old [OF that] cv by auto
  have sent: "map (\<lambda>i. the (run_history s' i)) [start + 1..<start + 1 + k] =
      map (\<lambda>i. the (run_history s i)) [start + 1..<start + 1 + k]"
    using keep by (intro map_cong) auto
  show ?thesis
    unfolding run_inv_def
  proof (intro conjI)
    show "events_wf (run_db s')"
      using append append_events_wf [OF wf] by simp
    show "\<forall>n. stream_at owner (run_db s') n \<noteq> None \<longrightarrow>
        stream_at owner (run_db s') n = run_history s' n"
      using append append_stream_at [OF wf append(2), of owner] agree cv by auto
    show "\<forall>n. run_history s' n \<noteq> None \<longrightarrow> n \<le> stream_last owner (run_db s')"
      using append append_stream_last(1) [OF append(2), of owner] hist_le cv
      by (auto simp: le_SucI)
    show "\<exists>k. run_cursor s' = int (start + k)
        \<and> run_sent s' = map (\<lambda>i. the (run_history s' i)) [start + 1..<start + 1 + k]
        \<and> (\<forall>i. start < i \<and> i \<le> start + k \<longrightarrow> run_history s' i \<noteq> None)"
      using append(1) k keep sent by (intro exI [of _ k]) (auto simp del: upt_Suc)
  qed
next
  case (prune now n db')
  then have "events_wf db'" "stream_pruned (run_db s) db'"
    using event_prune_pruned [of "run_db s" cfg now] assms(2) by (auto simp: run_inv_def)
  then show ?thesis
    using assms(2) prune(1) unfolding run_inv_def stream_pruned_def by simp
next
  case (lock o' n db')
  have wf: "events_wf (run_db s)" using assms(2) by (simp add: run_inv_def)
  show ?thesis
    using assms(2) lock lock_owner_cursor_stream [OF wf lock(2)] unfolding run_inv_def by simp
next
  case (page p)
  let ?db = "run_db s"
  have wf: "events_wf ?db" using assms(2) by (simp add: run_inv_def)
  obtain k where k: "run_cursor s = int (start + k)"
      "run_sent s = map (\<lambda>i. the (run_history s i)) [start + 1..<start + 1 + k]"
      "\<And>i. start < i \<Longrightarrow> i \<le> start + k \<Longrightarrow> run_history s i \<noteq> None"
    using assms(2) unfolding run_inv_def by blast
  have agree: "stream_at owner ?db n \<noteq> None \<Longrightarrow> stream_at owner ?db n = run_history s n" for n
    using assms(2) unfolding run_inv_def by blast
  have min: "stream_min owner ?db \<le> start + k"
    using stream_resumable(1) [OF page(2)] k(1) by simp
  obtain j where j: "start + k + j \<le> stream_last owner ?db"
      "page_events p = map (\<lambda>i. the (stream_at owner ?db i)) [start + k + 1..<start + k + 1 + j]"
      "advance_cursor (int (start + k)) (page_events p) = int (start + k) + int j"
    using catch_up_page_events [OF wf page(2), unfolded k(1) nat_int] by blast
  have same: "stream_at owner ?db i = run_history s i \<and> run_history s i \<noteq> None"
    if "start + k < i" "i \<le> start + k + j" for i
    using stream_complete [OF wf, of owner i] that j(1) min agree [of i] by auto
  have pe: "page_events p = map (\<lambda>i. the (run_history s i)) [start + k + 1..<start + k + 1 + j]"
    unfolding j(2) using same by (intro map_cong) auto
  then have "run_sent s @ page_events p =
      map (\<lambda>i. the (run_history s i)) [start + 1..<start + 1 + (k + j)]"
    using k(2) page_events_upt_append [of start k "start + k + j" "\<lambda>i. the (run_history s i)"]
    by (simp add: ac_simps del: upt_Suc)
  moreover have "run_history s i \<noteq> None" if "start < i" "i \<le> start + (k + j)" for i
    using that k(3) [of i] same [of i] by (cases "i \<le> start + k") auto
  ultimately show ?thesis
    using assms(2) page(1) j(3) k(1) unfolding run_inv_def
    by (auto simp del: upt_Suc intro!: exI [of _ "k + j"])
qed

lemma run_inv_steps:
  assumes "(stream_step f cfg owner)\<^sup>*\<^sup>* s s'" "run_inv owner start s"
  shows "run_inv owner start s'"
  using assms by (induction rule: rtranclp_induct) (auto intro: run_inv_step)

section \<open>Bounds after pruning\<close>

definition within_bounds :: "settings \<Rightarrow> datetime \<Rightarrow> ustr \<Rightarrow> database \<Rightarrow> bool" where
  "within_bounds cfg now owner db \<longleftrightarrow>
     count_where (\<lambda>r. evl_owner_user_id r = owner) (event_logs db) \<le> browser_event_max_per_owner cfg
   \<and> (\<forall>r \<in> set (event_logs db). \<not> expired_event cfg now owner r)"

lemma prune_owner_logs:
  "\<exists>D. event_logs (snd (prune_owner cfg now owner db)) = delete_where D (event_logs db)
     \<and> fst (prune_owner cfg now owner db) + length (event_logs (snd (prune_owner cfg now owner db)))
       = length (event_logs db)"
proof (cases "cursor_row owner db")
  case None
  then show ?thesis by (intro exI [of _ "\<lambda>_. False"]) (simp add: prune_owner_def delete_where_def)
next
  case (Some st)
  show ?thesis
    unfolding prune_owner_eq [OF Some] using count_where_delete_where by auto
qed

lemma prune_owner_bounds:
  assumes wf: "events_wf db" and "0 < browser_event_max_per_owner cfg"
  shows "within_bounds cfg now owner (snd (prune_owner cfg now owner db))"
proof (cases "cursor_row owner db")
  case None
  then have none: "\<forall>r \<in> set (event_logs db). evl_owner_user_id r \<noteq> owner"
    using wf_bounded [OF wf] wf_positive [OF wf] by (fastforce simp: stream_last_def)
  then have "count_where (\<lambda>r. evl_owner_user_id r = owner) (event_logs db) = 0"
    by (simp add: count_where_zero_iff)
  then show ?thesis
    using none None by (simp add: within_bounds_def prune_owner_def expired_event_def)
next
  case (Some st)
  let ?E = "expired_event cfg now owner"
  let ?logs1 = "delete_where ?E (event_logs db)"
  have "distinct (map evl_owner_cursor (filter (\<lambda>r. evl_owner_user_id r = owner) ?logs1))"
    using distinct_delete_where_key [OF wf_cursors [OF wf], of ?E]
    by (auto simp: distinct_map inj_on_def)
  then have "count_where (\<lambda>r. evl_owner_user_id r = owner)
      (delete_where (pruned_event cfg now owner (event_logs db)) (event_logs db))
      \<le> browser_event_max_per_owner cfg"
    using overflow_bound [of owner ?logs1 cfg] assms(2)
    by (simp add: delete_where_twice pruned_event_def [abs_def])
  then show ?thesis
    unfolding prune_owner_eq [OF Some] within_bounds_def by (simp add: pruned_event_def)
qed

lemma within_bounds_delete:
  "within_bounds cfg now owner db \<Longrightarrow> event_logs db' = delete_where D (event_logs db) \<Longrightarrow>
     within_bounds cfg now owner db'"
  using count_where_delete_le [of "\<lambda>r. evl_owner_user_id r = owner" D "event_logs db"]
  by (auto simp: within_bounds_def)

lemma prune_owners_bounds:
  assumes "events_wf db" "0 < browser_event_max_per_owner cfg"
  shows "(\<forall>o'. o' \<in> set owners \<or> within_bounds cfg now o' db \<longrightarrow>
      within_bounds cfg now o' (snd (prune_owners cfg now owners k db)))
    \<and> fst (prune_owners cfg now owners k db)
        + length (event_logs (snd (prune_owners cfg now owners k db))) = k + length (event_logs db)"
  using assms(1)
proof (induction owners arbitrary: k db)
  case (Cons owner owners)
  obtain n db' where p: "prune_owner cfg now owner db = (n, db')" by fastforce
  have wf': "events_wf db'" using prune_owner_pruned [OF Cons.prems, of cfg now owner] p by simp
  obtain D where D: "event_logs db' = delete_where D (event_logs db)"
      "n + length (event_logs db') = length (event_logs db)"
    using prune_owner_logs [of cfg now owner db] p by auto
  have "within_bounds cfg now owner db'"
    using prune_owner_bounds [OF Cons.prems assms(2), of now owner] p by simp
  moreover have "within_bounds cfg now o' db \<Longrightarrow> within_bounds cfg now o' db'" for o'
    using within_bounds_delete D(1) by blast
  ultimately show ?case
    using Cons.IH [OF wf', of "k + n"] p D(2) by auto
qed auto

lemma event_prune_bounds:
  assumes wf: "events_wf db" and pos: "0 < browser_event_max_per_owner cfg"
  shows "within_bounds cfg now owner (snd (event_prune cfg now db))"
    and "fst (event_prune cfg now db) + length (event_logs (snd (event_prune cfg now db)))
      = length (event_logs db)"
proof -
  note b = prune_owners_bounds [OF assms, of "map cur_owner_user_id (event_owner_cursors db)" now 0]
  show "fst (event_prune cfg now db) + length (event_logs (snd (event_prune cfg now db)))
      = length (event_logs db)"
    using b by (simp add: event_prune_def)
  show "within_bounds cfg now owner (snd (event_prune cfg now db))"
  proof (cases "cursor_row owner db")
    case None
    then have "fst (prune_owner cfg now owner db) = 0" "snd (prune_owner cfg now owner db) = db"
      by (simp_all add: prune_owner_def)
    then have "within_bounds cfg now owner db"
      using prune_owner_bounds [OF assms, of now owner] by simp
    then show ?thesis using b by (simp add: event_prune_def)
  next
    case (Some st)
    then have "owner \<in> set (map cur_owner_user_id (event_owner_cursors db))"
      using cursor_rowD [OF Some] by auto
    then show ?thesis using b by (simp add: event_prune_def)
  qed
qed

section \<open>Properties\<close>

lemma sample_events_wf: "events_wf sample_database"
  by (auto simp: events_wf_def sample_database_def empty_database_def stream_min_def
      stream_last_def cursor_row_def)

lemmas sample_simps =
  sample_database_def sample_device_def empty_database_def event_append_def
  allocate_owner_cursor_def cursor_row_def bump_device_def row_event_def Let_def
  MAX_EVENT_CURSOR_def

definition sample_append :: "browser_event \<times> database" where
  "sample_append = projr (event_append 10 (u ''user-1'') 1 ''device.updated'' (EventDict []) None None
     sample_database)"

lemma sample_append_ok:
  "event_append 10 (u ''user-1'') 1 ''device.updated'' (EventDict []) None None sample_database
     = Inr (fst sample_append, snd sample_append)"
  unfolding sample_append_def by (simp add: sample_simps)

lemma sample_append_page:
  "catch_up_page (\<lambda>_. 100) default_settings (u ''user-1'') 0 (snd sample_append) =
     Inr \<lparr>page_events = [fst sample_append], page_has_more = False, page_serialized_bytes = 100\<rparr>"
  unfolding sample_append_def
  by (simp add: sample_simps catch_up_page_def catch_up_rows_def select_ordered_def
      default_settings_def)

text \<open>C26: appending extends the stream.  A successful append gives the event the cursor after
  the owner's head, places exactly that event there, changes no other position of any stream and no
  resume bound, and keeps the invariant of the event tables.\<close>

theorem append_extends_stream:
  assumes "events_wf db"
    and "event_append now owner device_id ty data tb oc db = Inr (e, db')"
  shows "events_wf db'
    \<and> be_cursor e = nat_str (stream_last owner db + 1)
    \<and> stream_last owner db' = stream_last owner db + 1
    \<and> stream_at owner db' = (stream_at owner db)(stream_last owner db + 1 \<mapsto> e)
    \<and> (\<forall>o'. stream_min o' db' = stream_min o' db)
    \<and> (\<forall>o'. o' \<noteq> owner \<longrightarrow>
         stream_last o' db' = stream_last o' db \<and> stream_at o' db' = stream_at o' db)"
  using append_events_wf [OF assms] append_stream_last [OF assms(2)] append_stream_at [OF assms]
    assms(2)
  by (auto elim!: event_append_Inr simp: row_event_def appended_row_def)

theorem append_extends_stream_witness:
  "stream_last (u ''user-1'') (snd sample_append) = 1
   \<and> stream_at (u ''user-1'') (snd sample_append) 1 = Some (fst sample_append)"
  using append_extends_stream [OF sample_events_wf sample_append_ok]
  by (simp add: stream_last_def cursor_row_def sample_database_def empty_database_def)

text \<open>Why an append fails.  On consistent event tables an append fails only when the device
  is not the owner's, when the device's event counter or the owner's cursor has reached the largest
  signed 64 bit value; it never violates a unique constraint.\<close>

theorem append_failure_causes:
  assumes "events_wf db"
  shows "event_append now owner device_id ty data tb oc db = Inl err \<longleftrightarrow>
    (case scalar (\<lambda>d. dev_id d = device_id \<and> dev_owner_user_id d = owner) (devices db) of
       None \<Rightarrow> err = Event_Device_Ownership_Mismatch
     | Some d \<Rightarrow>
         if dev_last_event_sequence d \<ge> MAX_EVENT_CURSOR then err = Event_Bigint_Overflow
         else stream_last owner db = MAX_EVENT_CURSOR \<and> err = Event_Cursor_Exhausted)"
  using assms by (rule append_Inl)

theorem append_failure_causes_witness:
  "event_append 10 (u ''user-2'') 1 ''device.updated'' (EventDict []) None None sample_database
     = Inl Event_Device_Ownership_Mismatch"
  using append_failure_causes [OF sample_events_wf, of 10 "u ''user-2''" 1]
  by (simp add: sample_database_def sample_device_def)

text \<open>A page is exact.  A catch-up page holds the events after the cursor, consecutively and
  without a gap, within the row and the byte limit; it announces more exactly if the head is not
  reached, in which case it is not empty; and the cursor that the socket then has is the cursor of
  the last event of the page.\<close>

theorem catch_up_page_exact:
  assumes "events_wf db" and "catch_up_page event_bytes cfg owner cursor db = Inr p"
  shows "\<exists>k. nat cursor + k \<le> stream_last owner db
    \<and> page_events p = map (\<lambda>i. the (stream_at owner db i)) [nat cursor + 1..<nat cursor + 1 + k]
    \<and> k \<le> browser_event_catchup_limit cfg
    \<and> page_serialized_bytes p = sum_list (map event_bytes (page_events p))
    \<and> page_serialized_bytes p \<le> browser_event_catchup_max_bytes cfg
    \<and> (page_has_more p \<longleftrightarrow> nat cursor + k < stream_last owner db)
    \<and> (page_has_more p \<longrightarrow> 0 < k)
    \<and> advance_cursor cursor (page_events p) = cursor + int k"
  using assms by (rule catch_up_page_events)

theorem catch_up_page_exact_witness:
  "\<exists>k. [fst sample_append] = map (\<lambda>i. the (stream_at (u ''user-1'') (snd sample_append) i))
     [nat 0 + 1..<nat 0 + 1 + k]"
  using catch_up_page_exact [OF append_events_wf [OF sample_events_wf sample_append_ok]
      sample_append_page]
  unfolding event_page.select_convs by (elim exE conjE) (rule exI)



text \<open>C27: pruning is safe and bounds the log.  Pruning keeps the invariant and every owner's head,
  only raises resume bounds, and every position above the new bound still holds the event it held;
  afterwards no owner keeps more rows than the configured bound, no row is past its retention, and
  the reported number is the number of rows deleted.\<close>

theorem prune_safe_and_bounded:
  assumes "events_wf db" and "0 < browser_event_max_per_owner cfg"
    and "event_prune cfg now db = (n, db')"
  shows "events_wf db' \<and> stream_pruned db db' \<and> within_bounds cfg now owner db'
    \<and> n + length (event_logs db') = length (event_logs db)"
  using event_prune_pruned [OF assms(1), of cfg now]
    event_prune_bounds [OF assms(1,2), of now] assms(3) by simp

theorem prune_safe_and_bounded_witness:
  "events_wf (snd (event_prune default_settings (days 365) (snd sample_append)))
   \<and> within_bounds default_settings (days 365) (u ''user-1'')
       (snd (event_prune default_settings (days 365) (snd sample_append)))"
  using prune_safe_and_bounded [OF append_events_wf [OF sample_events_wf sample_append_ok],
      of default_settings "days 365"
        "fst (event_prune default_settings (days 365) (snd sample_append))"
        "snd (event_prune default_settings (days 365) (snd sample_append))" "u ''user-1''"]
  by (simp add: default_settings_def)

text \<open>C1: exactly once, in order.  Whatever the interleaving of appends for any owner, prunings,
  cursor locks and the pages one browser reads, the browser has received the events with the
  consecutive cursors after its start, each once, in order and with the content they were appended
  with, and its cursor is the last of them.\<close>

theorem delivery_exactly_once:
  assumes "(stream_step event_bytes cfg owner)\<^sup>*\<^sup>* s s'"
    and "events_wf (run_db s)" "run_cursor s = int start" "run_sent s = []"
    and "run_history s = stream_at owner (run_db s)"
  shows "\<exists>k. run_cursor s' = int (start + k)
    \<and> run_sent s' = map (\<lambda>i. the (run_history s' i)) [start + 1..<start + 1 + k]
    \<and> (\<forall>i. start < i \<and> i \<le> start + k \<longrightarrow> run_history s' i \<noteq> None)"
proof -
  have "run_inv owner start s"
    unfolding run_inv_def using assms(2-5)
    by (auto intro!: exI [of _ 0] dest: stream_at_range [OF assms(2)])
  then have "run_inv owner start s'" using run_inv_steps [OF assms(1)] by blast
  then show ?thesis unfolding run_inv_def by blast
qed

definition sample_run :: stream_run where
  "sample_run = \<lparr>run_db = sample_database, run_cursor = 0, run_sent = [],
     run_history = stream_at (u ''user-1'') sample_database\<rparr>"

theorem delivery_exactly_once_witness:
  "\<exists>s' k. (stream_step (\<lambda>_. 100) default_settings (u ''user-1''))\<^sup>*\<^sup>* sample_run s'
     \<and> run_sent s' = [fst sample_append]
     \<and> run_sent s' = map (\<lambda>i. the (run_history s' i)) [0 + 1..<0 + 1 + k]"
proof -
  let ?s1 = "sample_run\<lparr>run_db := snd sample_append, run_history :=
    (run_history sample_run)(nat (cursor_value (fst sample_append)) \<mapsto> fst sample_append)\<rparr>"
  let ?s2 = "?s1\<lparr>run_cursor := advance_cursor 0 [fst sample_append], run_sent := [fst sample_append]\<rparr>"
  have "event_append 10 (u ''user-1'') 1 ''device.updated'' (EventDict []) None None
      (run_db sample_run) = Inr (fst sample_append, snd sample_append)"
    using sample_append_ok by (simp add: sample_run_def)
  from stream_step.append [OF this, of "\<lambda>_. 100" default_settings "u ''user-1''"]
  have "stream_step (\<lambda>_. 100) default_settings (u ''user-1'') sample_run ?s1" by simp
  moreover have "catch_up_page (\<lambda>_. 100) default_settings (u ''user-1'') (run_cursor ?s1) (run_db ?s1) =
      Inr \<lparr>page_events = [fst sample_append], page_has_more = False, page_serialized_bytes = 100\<rparr>"
    using sample_append_page by (simp add: sample_run_def)
  from stream_step.page [OF this]
  have "stream_step (\<lambda>_. 100) default_settings (u ''user-1'') ?s1 ?s2"
    by (simp add: sample_run_def)
  ultimately have r: "(stream_step (\<lambda>_. 100) default_settings (u ''user-1''))\<^sup>*\<^sup>* sample_run ?s2"
    by (meson converse_rtranclp_into_rtranclp rtranclp.rtrancl_refl)
  have "events_wf (run_db sample_run)" "run_cursor sample_run = int 0" "run_sent sample_run = []"
    "run_history sample_run = stream_at (u ''user-1'') (run_db sample_run)"
    using sample_events_wf by (simp_all add: sample_run_def)
  from delivery_exactly_once [OF r this]
  have "\<exists>k. run_sent ?s2 = map (\<lambda>i. the (run_history ?s2 i)) [0 + 1..<0 + 1 + k]"
    by (elim exE conjE) (rule exI)
  moreover have "run_sent ?s2 = [fst sample_append]" by simp
  ultimately show ?thesis using r by blast
qed

end
