(* ===== verification/Effects.thy ===== *)
theory Effects
  imports Events
begin

text \<open>
  What the services do besides their own tables: append events to the durable stream, and after the
  commit wake other processes.  A wake or a publication is best effort: the code catches every
  exception of it and continues, so a handler is modelled with the list of notices that it tries
  to send, in order, and its durable result does not depend on them.  The locale
  \<open>event_sink\<close> is the contract of \<open>EventService\<close> that every other service relies on.
\<close>

section \<open>Notices\<close>

datatype notice =
    Wake_Command uuid uuid
  | Wake_Approval uuid uuid
  | Wake_Revoked uuid
  | Kick_Connections uuid "ustr list"
  | Publish_Event ustr browser_event
  | Publish_Session_Revoked uuid

section \<open>Tables whose rows progress\<close>

lemma list_all2_put:
  assumes "distinct (map key rows)" "r \<in> set rows" "key r' = key r" "R r r'" "\<And>x. R x x"
  shows "list_all2 R rows (update_where (\<lambda>x. key x = key r') (\<lambda>_. r') rows)"
proof -
  have "R x (if key x = key r' then r' else x)" if "x \<in> set rows" for x
    using assms that by (auto simp: distinct_map inj_on_def)
  then show ?thesis
    unfolding update_where_def list_all2_map2 by (auto intro: list_all2_refl simp: list_all2_same)
qed

lemma count_where_put:
  assumes "distinct (map key rows)" "r \<in> set rows" "key r' = key r" "Q r" "\<not> Q r'"
  shows "count_where Q rows = Suc (count_where Q (update_where (\<lambda>x. key x = key r') (\<lambda>_. r') rows))"
  using assms
proof (induction rows)
  case (Cons a rows)
  show ?case
  proof (cases "a = r")
    case True
    then have "update_where (\<lambda>x. key x = key r') (\<lambda>_. r') rows = rows"
      using Cons.prems by (intro update_where_idle) (auto simp: image_iff)
    then show ?thesis using True Cons.prems by simp
  next
    case False
    then have "key a \<noteq> key r'" "r \<in> set rows" using Cons.prems by auto
    then show ?thesis using Cons False by auto
  qed
qed simp

lemma list_all2_map_eq:
  "list_all2 R xs ys \<Longrightarrow> (\<And>x y. R x y \<Longrightarrow> g y = g x) \<Longrightarrow> map g ys = map g xs"
  by (induction rule: list_all2_induct) auto

lemma list_all2_count_le:
  "list_all2 R xs ys \<Longrightarrow> (\<And>x y. R x y \<Longrightarrow> Q y \<Longrightarrow> Q x) \<Longrightarrow> count_where Q ys \<le> count_where Q xs"
  by (induction rule: list_all2_induct) (auto intro: le_SucI)

section \<open>Sequences of events\<close>

text \<open>Owner, device, type, data and thread of an event.\<close>

type_synonym event_spec = "ustr \<times> uuid \<times> string \<times> event_data \<times> uuid option"

type_synonym append_fun =
  "datetime \<Rightarrow> ustr \<Rightarrow> uuid \<Rightarrow> string \<Rightarrow> event_data \<Rightarrow> uuid option \<Rightarrow> datetime option \<Rightarrow> database
     \<Rightarrow> event_error + browser_event \<times> database"

fun append_all ::
  "append_fun \<Rightarrow> datetime \<Rightarrow> event_spec list \<Rightarrow> database \<Rightarrow> event_error + browser_event list \<times> database"
where
  "append_all emit now [] db = Inr ([], db)"
| "append_all emit now ((owner, device_id, ty, data, tb) # specs) db =
     (case emit now owner device_id ty data tb None db of
        Inl e \<Rightarrow> Inl e
      | Inr (event, db1) \<Rightarrow>
          (case append_all emit now specs db1 of
             Inl e \<Rightarrow> Inl e
           | Inr (events, db2) \<Rightarrow> Inr (event # events, db2)))"

section \<open>What the event stream leaves alone\<close>

text \<open>The database without the event tables and without the event counters of the devices.\<close>

definition core_of :: "database \<Rightarrow> database" where
  "core_of db = db\<lparr>devices := map (\<lambda>d. d\<lparr>dev_last_event_sequence := 0\<rparr>) (devices db),
     event_logs := [], event_owner_cursors := [], next_event_id := 0\<rparr>"

lemma core_of_simps [simp]:
  "control_sessions (core_of db) = control_sessions db"
  "device_pairings (core_of db) = device_pairings db"
  "devices (core_of db) = map (\<lambda>d. d\<lparr>dev_last_event_sequence := 0\<rparr>) (devices db)"
  "device_connections (core_of db) = device_connections db"
  "device_outboxes (core_of db) = device_outboxes db"
  "thread_bindings (core_of db) = thread_bindings db"
  "commands (core_of db) = commands db"
  "approvals (core_of db) = approvals db"
  "audit_events (core_of db) = audit_events db"
  by (simp_all add: core_of_def)

lemma core_ofD:
  assumes "core_of db' = core_of db"
  shows "control_sessions db' = control_sessions db"
    "device_pairings db' = device_pairings db"
    "device_connections db' = device_connections db"
    "device_outboxes db' = device_outboxes db"
    "thread_bindings db' = thread_bindings db"
    "commands db' = commands db"
    "approvals db' = approvals db"
    "audit_events db' = audit_events db"
  using arg_cong [OF assms, of control_sessions] arg_cong [OF assms, of device_pairings]
    arg_cong [OF assms, of device_connections] arg_cong [OF assms, of device_outboxes]
    arg_cong [OF assms, of thread_bindings] arg_cong [OF assms, of commands]
    arg_cong [OF assms, of approvals] arg_cong [OF assms, of audit_events]
  by simp_all

lemma core_of_devices:
  assumes "core_of db' = core_of db"
    and "\<And>d n. g (d\<lparr>dev_last_event_sequence := n\<rparr>) = g d"
  shows "map g (devices db') = map g (devices db)"
proof -
  have "map g (map (\<lambda>d. d\<lparr>dev_last_event_sequence := 0\<rparr>) (devices db')) =
      map g (map (\<lambda>d. d\<lparr>dev_last_event_sequence := 0\<rparr>) (devices db))"
    using arg_cong [OF assms(1), of devices] by (simp del: map_map)
  then show ?thesis by (simp add: comp_def assms(2))
qed

lemma events_wf_cong:
  assumes "event_logs db' = event_logs db" "event_owner_cursors db' = event_owner_cursors db"
    and "map (\<lambda>d. (dev_id d, dev_last_event_sequence d)) (devices db') =
      map (\<lambda>d. (dev_id d, dev_last_event_sequence d)) (devices db)"
  shows "events_wf db' \<longleftrightarrow> events_wf db"
proof -
  have c: "cursor_row o' db' = cursor_row o' db" for o'
    by (simp add: cursor_row_def assms(2))
  have "map fst (map (\<lambda>d. (dev_id d, dev_last_event_sequence d)) (devices db')) =
      map fst (map (\<lambda>d. (dev_id d, dev_last_event_sequence d)) (devices db))"
    using assms(3) by (simp only:)
  then have ids: "map dev_id (devices db') = map dev_id (devices db)" by (simp add: comp_def)
  have "(\<exists>d \<in> set (devices db'). dev_id d = i \<and> n \<le> dev_last_event_sequence d) \<longleftrightarrow>
      (\<exists>p \<in> set (map (\<lambda>d. (dev_id d, dev_last_event_sequence d)) (devices db')). fst p = i \<and> n \<le> snd p)"
    for i n by simp
  also have "\<dots> i n \<longleftrightarrow> (\<exists>d \<in> set (devices db). dev_id d = i \<and> n \<le> dev_last_event_sequence d)"
    for i n unfolding assms(3) by simp
  finally show ?thesis
    by (simp only: events_wf_def stream_min_def stream_last_def c assms(1,2) ids)
qed

lemma lock_simps [simp]:
  "control_sessions (snd (lock_owner_cursor owner db)) = control_sessions db"
  "device_pairings (snd (lock_owner_cursor owner db)) = device_pairings db"
  "devices (snd (lock_owner_cursor owner db)) = devices db"
  "device_connections (snd (lock_owner_cursor owner db)) = device_connections db"
  "device_outboxes (snd (lock_owner_cursor owner db)) = device_outboxes db"
  "thread_bindings (snd (lock_owner_cursor owner db)) = thread_bindings db"
  "commands (snd (lock_owner_cursor owner db)) = commands db"
  "approvals (snd (lock_owner_cursor owner db)) = approvals db"
  "audit_events (snd (lock_owner_cursor owner db)) = audit_events db"
  by (simp_all add: lock_owner_cursor_def split: option.split)

section \<open>Contract of the event stream\<close>

locale event_sink =
  fixes emit :: append_fun
    and lock :: "ustr \<Rightarrow> database \<Rightarrow> nat \<times> database"
    and stream_ok :: "database \<Rightarrow> bool"
    and head :: "ustr \<Rightarrow> database \<Rightarrow> nat"
  assumes emit_core:
      "emit now owner device_id ty data tb oc db = Inr (e, db') \<Longrightarrow> core_of db' = core_of db"
    and emit_ok:
      "emit now owner device_id ty data tb oc db = Inr (e, db') \<Longrightarrow> stream_ok db \<Longrightarrow> stream_ok db'"
    and emit_head:
      "emit now owner device_id ty data tb oc db = Inr (e, db') \<Longrightarrow>
         head o' db' = head o' db + (if o' = owner then 1 else 0)"
    and lock_core: "core_of (snd (lock owner db)) = core_of db"
    and lock_ok: "stream_ok db \<Longrightarrow> stream_ok (snd (lock owner db))"
    and lock_head: "stream_ok db \<Longrightarrow> head o' (snd (lock owner db)) = head o' db"
begin

lemma append_all_keeps:
  assumes "append_all emit now specs db = Inr (events, db')"
  shows "core_of db' = core_of db" "stream_ok db \<Longrightarrow> stream_ok db'"
    "length events = length specs"
    "head owner db' = head owner db + length (filter (\<lambda>sp. fst sp = owner) specs)"
proof -
  have "core_of db' = core_of db \<and> (stream_ok db \<longrightarrow> stream_ok db') \<and> length events = length specs
      \<and> head owner db' = head owner db + length (filter (\<lambda>sp. fst sp = owner) specs)"
    using assms
  proof (induction specs arbitrary: db events)
    case (Cons sp specs)
    obtain o' device_id ty data tb where sp: "sp = (o', device_id, ty, data, tb)"
      by (cases sp) auto
    obtain e db1 es where e: "emit now o' device_id ty data tb None db = Inr (e, db1)"
        "append_all emit now specs db1 = Inr (es, db')" "events = e # es"
      using Cons.prems sp by (auto split: sum.splits prod.splits)
    show ?case
      using Cons.IH [OF e(2)] emit_core [OF e(1)] emit_ok [OF e(1)] emit_head [OF e(1), of owner] e(3) sp
      by auto
  qed simp
  then show "core_of db' = core_of db" "stream_ok db \<Longrightarrow> stream_ok db'"
    "length events = length specs"
    "head owner db' = head owner db + length (filter (\<lambda>sp. fst sp = owner) specs)"
    by auto
qed

end

interpretation stream: event_sink event_append lock_owner_cursor events_wf stream_last
proof unfold_locales
  fix now owner device_id ty data tb oc db e db' o'
  assume a: "event_append now owner device_id ty data tb oc db = Inr (e, db')"
  show "core_of db' = core_of db"
    using a map_bump_device [of "\<lambda>d. d\<lparr>dev_last_event_sequence := 0\<rparr>" device_id owner "devices db"]
    by (auto elim!: event_append_Inr simp: core_of_def)
  show "events_wf db \<Longrightarrow> events_wf db'" using append_events_wf a by blast
  show "stream_last o' db' = stream_last o' db + (if o' = owner then 1 else 0)"
    using append_stream_last(1) [OF a] by simp
next
  fix owner db o'
  show "core_of (snd (lock_owner_cursor owner db)) = core_of db"
    by (simp add: lock_owner_cursor_def core_of_def split: option.split)
  show "events_wf db \<Longrightarrow> events_wf (snd (lock_owner_cursor owner db))"
    using lock_owner_cursor_stream(1) by (metis prod.collapse)
  show "events_wf db \<Longrightarrow> stream_last o' (snd (lock_owner_cursor owner db)) = stream_last o' db"
    using lock_owner_cursor_stream(2) by (metis prod.collapse)
qed

end
