(* ===== verification/Sweep.thy ===== *)
theory Sweep
  imports Effects
begin

text \<open>
  The periodic sweeps have one shape: a batch of candidates is selected, then every candidate is
  handled in a transaction of its own, which re-reads its row under the locks and either does
  nothing (another process was faster), commits the closing of the row, or raises and ends the
  sweep.  The locale \<open>sweep\<close> is the contract of such a step; what the whole sweep does is proved
  once in it.
\<close>

fun sweep_loop ::
  "('c \<Rightarrow> database \<Rightarrow> 'e + (database \<times> notice list) option) \<Rightarrow> 'c list \<Rightarrow> nat \<Rightarrow> database
     \<Rightarrow> notice list \<Rightarrow> ('e + nat) \<times> database \<times> notice list" where
  "sweep_loop step [] n db ns = (Inr n, db, ns)"
| "sweep_loop step (cand # cands) n db ns =
     (case step cand db of
        Inl e \<Rightarrow> (Inl e, db, ns)
      | Inr None \<Rightarrow> sweep_loop step cands n db ns
      | Inr (Some (db', ns')) \<Rightarrow> sweep_loop step cands (n + 1) db' (ns @ ns'))"

lemma step_cases:
  obtains e where "step cand db = Inl e" | "step cand db = Inr None"
    | db1 ns1 where "step cand db = Inr (Some (db1, ns1))"
  by (metis old.sum.exhaust option.exhaust surj_pair)

lemma sweep_loop_effect:
  assumes "sweep_loop step cands n db ns = (res, db', ns')"
    and "\<And>c x y m. step c x = Inr (Some (y, m)) \<Longrightarrow> P x y" "\<And>x. P x x"
    and "\<And>x y z. P x y \<Longrightarrow> P y z \<Longrightarrow> P x z"
  shows "P db db'"
  using assms(1)
proof (induction cands arbitrary: n db ns)
  case Nil
  then show ?case using assms(3) by simp
next
  case (Cons c cands)
  show ?case
  proof (cases rule: step_cases [of step c db])
    case (1 e)
    then show ?thesis using Cons.prems assms(3) by simp
  next
    case 2
    then show ?thesis using Cons.prems Cons.IH by simp
  next
    case (3 db1 ns1)
    then have "P db1 db'" using Cons.prems Cons.IH by simp
    then show ?thesis using assms(2) [OF 3] assms(4) by blast
  qed
qed

text \<open>Whether the device of a candidate (row, device, owner) is registered for the owner.\<close>

definition has_device :: "uuid \<times> uuid \<times> ustr \<Rightarrow> database \<Rightarrow> bool" where
  "has_device cand db \<longleftrightarrow>
     (\<exists>d \<in> set (devices db). dev_id d = fst (snd cand) \<and> dev_owner_user_id d = snd (snd cand))"

lemma core_map_devices:
  assumes "devices (core_of db') = devices (core_of db)"
    and "\<And>d n. g (d\<lparr>dev_last_event_sequence := n\<rparr>) = g d"
  shows "map g (devices db') = map g (devices db)"
proof -
  have "map g (devices (core_of db')) = map g (devices (core_of db))" using assms(1) by (simp only:)
  then show ?thesis by (simp add: comp_def assms(2))
qed

lemma has_device_core:
  assumes "devices (core_of db') = devices (core_of db)"
  shows "has_device cand db' = has_device cand db"
proof -
  have "map (\<lambda>d. (dev_id d, dev_owner_user_id d)) (devices db') =
      map (\<lambda>d. (dev_id d, dev_owner_user_id d)) (devices db)"
    by (rule core_map_devices [OF assms]) simp
  moreover have "has_device cand x \<longleftrightarrow> (fst (snd cand), snd (snd cand)) \<in>
      set (map (\<lambda>d. (dev_id d, dev_owner_user_id d)) (devices x))" for x
    by (cases cand) (auto simp: has_device_def image_iff)
  ultimately show ?thesis by (simp only:)
qed

locale sweep =
  fixes step :: "uuid \<times> uuid \<times> ustr \<Rightarrow> database \<Rightarrow> event_error + (database \<times> notice list) option"
    and rows :: "database \<Rightarrow> 'r list"
    and key :: "'r \<Rightarrow> uuid"
    and cand_of :: "'r \<Rightarrow> uuid \<times> uuid \<times> ustr"
    and due :: "'r \<Rightarrow> bool"
    and closes :: "'r \<Rightarrow> 'r \<Rightarrow> bool"
  assumes step_row: "step cand db = Inr (Some (db', ns)) \<Longrightarrow>
      \<exists>r r'. r \<in> set (rows db) \<and> cand_of r = cand \<and> due r \<and> closes r r'
        \<and> rows db' = update_where (\<lambda>x. key x = key r') (\<lambda>_. r') (rows db)"
    and step_devices: "step cand db = Inr (Some (db', ns)) \<Longrightarrow> devices (core_of db') = devices (core_of db)"
    and step_events: "step cand db = Inr (Some (db', ns)) \<Longrightarrow> events_wf db \<Longrightarrow> events_wf db'"
    and step_none: "step cand db = Inr None \<Longrightarrow> has_device cand db \<Longrightarrow> r \<in> set (rows db) \<Longrightarrow>
      cand_of r = cand \<Longrightarrow> \<not> due r"
    and closes_key: "closes r r' \<Longrightarrow> key r' = key r"
    and closes_due: "closes r r' \<Longrightarrow> \<not> due r'"
    and cand_key: "cand_of r = cand_of s \<Longrightarrow> key r = key s"
begin

definition closing :: "'r \<Rightarrow> 'r \<Rightarrow> bool" where
  "closing r r' \<longleftrightarrow> r' = r \<or> (due r \<and> closes r r')"

lemma closing_trans: "closing a b \<Longrightarrow> closing b c \<Longrightarrow> closing a c"
  using closes_due by (auto simp: closing_def)

lemma closings_trans:
  "list_all2 closing a b \<Longrightarrow> list_all2 closing b c \<Longrightarrow> list_all2 closing a c"
  by (rule list_all2_trans [OF closing_trans])

lemma closing_keys: "list_all2 closing rs rs' \<Longrightarrow> map key rs' = map key rs"
  using list_all2_map_eq [of closing rs rs' key] closes_key by (auto simp: closing_def)

lemma due_back: "list_all2 closing rs rs' \<Longrightarrow> r \<in> set rs' \<Longrightarrow> due r \<Longrightarrow> r \<in> set rs"
  by (induction rule: list_all2_induct) (auto simp: closing_def dest: closes_due)

lemma step_closing:
  assumes "step cand db = Inr (Some (db', ns))" "distinct (map key (rows db))"
  shows "list_all2 closing (rows db) (rows db')"
    "count_where due (rows db) = Suc (count_where due (rows db'))"
    "\<forall>r \<in> set (rows db'). cand_of r = cand \<longrightarrow> \<not> due r"
proof -
  obtain r r' where r: "r \<in> set (rows db)" "cand_of r = cand" "due r" "closes r r'"
      "rows db' = update_where (\<lambda>x. key x = key r') (\<lambda>_. r') (rows db)"
    using step_row [OF assms(1)] by blast
  note k = closes_key [OF r(4)] closes_due [OF r(4)]
  show "list_all2 closing (rows db) (rows db')"
    unfolding r(5) using list_all2_put [OF assms(2) r(1) k(1), of closing] r(3,4)
    by (simp add: closing_def)
  show "count_where due (rows db) = Suc (count_where due (rows db'))"
    unfolding r(5) using count_where_put [OF assms(2) r(1) k(1), of due] r(3) k(2) by simp
  show "\<forall>r \<in> set (rows db'). cand_of r = cand \<longrightarrow> \<not> due r"
  proof (intro ballI impI)
    fix x assume x: "x \<in> set (rows db')" "cand_of x = cand"
    then have "key x = key r'" using cand_key [of x r] r(2) k(1) by simp
    then show "\<not> due x" using x(1) k(2) by (auto simp: r(5) in_set_update_where split: if_splits)
  qed
qed

definition swept ::
  "(uuid \<times> uuid \<times> ustr) list \<Rightarrow> nat \<Rightarrow> database \<Rightarrow> event_error + nat \<Rightarrow> database \<Rightarrow> bool" where
  "swept cands n db res db' \<longleftrightarrow>
     list_all2 closing (rows db) (rows db')
   \<and> devices (core_of db') = devices (core_of db) \<and> (events_wf db \<longrightarrow> events_wf db')
   \<and> (\<forall>m. res = Inr m \<longrightarrow> m + count_where due (rows db') = n + count_where due (rows db))
   \<and> (\<forall>m r. res = Inr m \<longrightarrow> r \<in> set (rows db') \<longrightarrow> cand_of r \<in> set cands \<longrightarrow>
        has_device (cand_of r) db \<longrightarrow> \<not> due r)"

lemma swept_idle: "swept [] n db (Inr n) db" "swept cands n db (Inl e) db"
  by (simp_all add: swept_def list_all2_refl closing_def)

lemma swept_skip:
  assumes "swept cands n db res db'" "step cand db = Inr None"
  shows "swept (cand # cands) n db res db'"
proof -
  note rest = assms(1) [unfolded swept_def]
  have "\<not> due r" if r: "res = Inr m" "r \<in> set (rows db')"
      "cand_of r \<in> set (cand # cands)" "has_device (cand_of r) db" for m r
  proof
    assume o: "due r"
    then have "r \<in> set (rows db)" using due_back rest r(2) by blast
    then have "cand_of r \<noteq> cand" using step_none [OF assms(2)] r(4) o by blast
    then show False using rest r o by auto
  qed
  then show ?thesis using rest unfolding swept_def by blast
qed

lemma swept_step:
  assumes "swept cands (n + 1) db1 res db'" "step cand db = Inr (Some (db1, ns))"
    "distinct (map key (rows db))"
  shows "swept (cand # cands) n db res db'"
proof -
  note st = step_closing [OF assms(2,3)]
  note dev = step_devices [OF assms(2)]
  note rest = assms(1) [unfolded swept_def]
  have "list_all2 closing (rows db) (rows db')"
    using closings_trans [OF st(1)] rest by simp
  moreover have "m + count_where due (rows db') = n + count_where due (rows db)"
    if "res = Inr m" for m using rest that st(2) by simp
  moreover have "\<not> due r" if r: "res = Inr m" "r \<in> set (rows db')"
      "cand_of r \<in> set (cand # cands)" "has_device (cand_of r) db" for m r
  proof (cases "cand_of r = cand")
    case True
    then show ?thesis using st(3) due_back [of "rows db1" "rows db'" r] rest r(2) by blast
  next
    case False
    then show ?thesis using rest r has_device_core [OF dev, of "cand_of r"] by simp
  qed
  moreover have "devices (core_of db') = devices (core_of db)" "events_wf db \<longrightarrow> events_wf db'"
    using rest dev step_events [OF assms(2)] by simp_all
  ultimately show ?thesis unfolding swept_def by blast
qed

lemma sweep_loop_swept:
  "sweep_loop step cands n db ns = (res, db', ns') \<Longrightarrow> distinct (map key (rows db)) \<Longrightarrow>
     swept cands n db res db'"
proof (induction cands arbitrary: n db ns)
  case Nil
  then show ?case using swept_idle by auto
next
  case (Cons cand cands)
  show ?case
  proof (cases rule: step_cases [of step cand db])
    case (1 e)
    then show ?thesis using Cons.prems swept_idle by auto
  next
    case 2
    then show ?thesis using Cons.IH [of n db ns] Cons.prems swept_skip by auto
  next
    case (3 db1 ns1)
    then have "distinct (map key (rows db1))"
      using closing_keys step_closing(1) Cons.prems(2) by metis
    then show ?thesis using 3 Cons.IH [of "n + 1" db1 "ns @ ns1"] Cons.prems swept_step [OF _ 3] by simp
  qed
qed

end

end
