(* ===== verification/Budget.thy ===== *)
theory Budget
  imports Json
begin

text \<open>
  \<open>command_budget.py\<close>: the byte budgets that a command must respect before it is stored, and the
  projection of its parameters that the connector computes.  A raised
  \<open>CommandPayloadTooLarge\<close> is a value of \<open>budget_error\<close>; \<open>Budget_Value_Error\<close> is the
  \<open>ValueError\<close> of a value that cannot be serialized.
\<close>

section \<open>Limits\<close>

definition MAX_FRAME_BYTES :: nat where
  "MAX_FRAME_BYTES = 262144"
definition MAX_ENSURE_ASCII_PARAMS_BYTES :: nat where
  "MAX_ENSURE_ASCII_PARAMS_BYTES = 229376"
definition MAX_ENSURE_ASCII_PROJECTED_BYTES :: nat where
  "MAX_ENSURE_ASCII_PROJECTED_BYTES = 229376"
definition MAX_ENSURE_ASCII_TEXT_BYTES :: nat where
  "MAX_ENSURE_ASCII_TEXT_BYTES = 200000"
definition MAX_TEXT_CODE_POINTS :: nat where
  "MAX_TEXT_CODE_POINTS = 200000"
definition MAX_SEQUENCE :: nat where
  "MAX_SEQUENCE = 9223372036854775807"

definition UUID_PLACEHOLDER :: ustr where
  "UUID_PLACEHOLDER = u ''ffffffff-ffff-ffff-ffff-ffffffffffff''"
definition TIMESTAMP_PLACEHOLDER :: ustr where
  "TIMESTAMP_PLACEHOLDER = u ''9999-12-31T23:59:59.999999Z''"

datatype budget_error =
    Text_Code_Points_Exceeded
  | Text_Bytes_Exceeded
  | Params_Exceeded
  | Projected_Params_Exceeded
  | Envelope_Exceeded
  | Budget_Value_Error

section \<open>Operations\<close>

text \<open>The connector's encoder (Go \<open>encoding/json\<close>) escapes five characters more than the Python
  one.  None of them occurs in an escape that \<open>dumps\<close> writes, so the replacements act on the
  characters of the text one by one.\<close>

definition go_escape :: "nat \<Rightarrow> ustr" where
  "go_escape c =
     (if c = 60 then u [CHR 0x5C] @ u ''u003c''
      else if c = 62 then u [CHR 0x5C] @ u ''u003e''
      else if c = 38 then u [CHR 0x5C] @ u ''u0026''
      else if c = 8232 then u [CHR 0x5C] @ u ''u2028''
      else if c = 8233 then u [CHR 0x5C] @ u ''u2029''
      else [c])"

definition connector_compact_json_size :: "json \<Rightarrow> nat option" where
  "connector_compact_json_size v =
     (case utf8_length (concat (map go_escape (dumps False v))) of
        Some n \<Rightarrow> Some n
      | None \<Rightarrow> ensure_ascii_json_byte_length v)"

definition validate_turn_text_budget :: "ustr \<Rightarrow> budget_error option" where
  "validate_turn_text_budget text =
     (if length text > MAX_TEXT_CODE_POINTS then Some Text_Code_Points_Exceeded
      else if ensure_ascii_string_content_byte_length text > MAX_ENSURE_ASCII_TEXT_BYTES
      then Some Text_Bytes_Exceeded
      else None)"

definition has_key :: "dict \<Rightarrow> ustr \<Rightarrow> bool" where
  "has_key d k \<longleftrightarrow> k \<in> set (map fst d)"

text \<open>\<open>params.get("input")\<close> when it is a list of exactly one mapping.\<close>

fun single_dict :: "json option \<Rightarrow> dict option" where
  "single_dict (Some (JArr [JObj d])) = Some d"
| "single_dict _ = None"

definition workspace_write_policy :: json where
  "workspace_write_policy = JObj
     [(u ''type'', JStr (u ''workspaceWrite'')),
      (u ''writableRoots'', JArr []),
      (u ''networkAccess'', JBool False),
      (u ''excludeSlashTmp'', JBool True),
      (u ''excludeTmpdirEnvVar'', JBool True)]"

definition projected_command_params :: "string \<Rightarrow> dict \<Rightarrow> ustr list \<Rightarrow> dict" where
  "projected_command_params method params workspace_roots =
     (if method \<in> {''thread/start'', ''thread/resume''} then
        dict_set (u ''approvalsReviewer'') (JStr (u ''user''))
          (dict_set (u ''approvalPolicy'') (JStr (u ''on-request''))
            (dict_set (u ''sandbox'') (JStr (u ''workspace-write'')) params))
      else if method = ''thread/list'' then
        (case dict_get params (u ''cwd'') of
           None \<Rightarrow> dict_set (u ''cwd'') (JArr (map JStr workspace_roots)) params
         | Some JNull \<Rightarrow> dict_set (u ''cwd'') (JArr (map JStr workspace_roots)) params
         | Some (JStr s) \<Rightarrow> dict_set (u ''cwd'') (JArr [JStr s]) params
         | Some _ \<Rightarrow> params)
      else if method = ''thread/read'' \<and> \<not> has_key params (u ''includeTurns'') then
        dict_set (u ''includeTurns'') (JBool False) params
      else if method \<in> {''turn/start'', ''turn/steer''} then
        let p1 = (case single_dict (dict_get params (u ''input'')) of
            None \<Rightarrow> params
          | Some item \<Rightarrow>
              if dict_get item (u ''type'') = Some (JStr (u ''text''))
              then dict_set (u ''input'')
                     (JArr [JObj (dict_set (u ''text_elements'') (JArr []) item)]) params
              else params)
        in if method = ''turn/start''
           then dict_set (u ''approvalsReviewer'') (JStr (u ''user''))
                  (dict_set (u ''approvalPolicy'') (JStr (u ''on-request''))
                    (dict_set (u ''sandboxPolicy'') workspace_write_policy p1))
           else p1
      else params)"

text \<open>The frame whose size stands for every frame that can carry the command.\<close>

definition command_frame ::
  "ustr \<Rightarrow> ustr \<Rightarrow> ustr \<Rightarrow> nat \<Rightarrow> nat \<Rightarrow> ustr \<Rightarrow> ustr \<Rightarrow> ustr \<Rightarrow> string \<Rightarrow> dict \<Rightarrow> ustr \<Rightarrow> json" where
  "command_frame frame_id device_id epoch seq ack sent_at command_id key method params deadline_at =
     JObj [(u ''version'', JInt 1), (u ''id'', JStr frame_id), (u ''device_id'', JStr device_id),
       (u ''epoch'', JStr epoch), (u ''seq'', JInt (int seq)), (u ''ack'', JInt (int ack)),
       (u ''type'', JStr (u ''command'')), (u ''sent_at'', JStr sent_at),
       (u ''payload'', JObj
         [(u ''command_id'', JStr command_id), (u ''idempotency_key'', JStr key),
          (u ''method'', JStr (u method)), (u ''params'', JObj params),
          (u ''deadline_at'', JStr deadline_at)])]"

definition exceeds :: "nat option \<Rightarrow> nat \<Rightarrow> budget_error \<Rightarrow> budget_error option" where
  "exceeds sz limit err =
     (case sz of
        None \<Rightarrow> Some Budget_Value_Error
      | Some n \<Rightarrow> if n > limit then Some err else None)"

fun first_error :: "budget_error option list \<Rightarrow> budget_error option" where
  "first_error [] = None"
| "first_error (None # es) = first_error es"
| "first_error (Some e # es) = Some e"

definition validate_command_budget ::
  "uuid \<Rightarrow> ustr \<Rightarrow> ustr list \<Rightarrow> string \<Rightarrow> dict \<Rightarrow> ustr \<Rightarrow> nat \<Rightarrow> budget_error option" where
  "validate_command_budget device_id epoch workspace_roots method params idempotency_key
       max_envelope_bytes =
     first_error
       [if method \<in> {''turn/start'', ''turn/steer''}
        then (case single_dict (dict_get params (u ''input'')) of
            None \<Rightarrow> None
          | Some item \<Rightarrow>
              (case dict_get item (u ''text'') of
                 Some (JStr text) \<Rightarrow> validate_turn_text_budget text
               | _ \<Rightarrow> None))
        else None,
        exceeds (ensure_ascii_json_byte_length (JObj params)) MAX_ENSURE_ASCII_PARAMS_BYTES
          Params_Exceeded,
        exceeds (ensure_ascii_json_byte_length
            (JObj (projected_command_params method params workspace_roots)))
          MAX_ENSURE_ASCII_PROJECTED_BYTES Projected_Params_Exceeded,
        exceeds (connector_compact_json_size
            (JObj (projected_command_params method params workspace_roots)))
          MAX_ENSURE_ASCII_PROJECTED_BYTES Projected_Params_Exceeded,
        exceeds (ensure_ascii_json_byte_length
            (command_frame UUID_PLACEHOLDER (uuid_str device_id) epoch MAX_SEQUENCE MAX_SEQUENCE
              TIMESTAMP_PLACEHOLDER UUID_PLACEHOLDER idempotency_key method params
              TIMESTAMP_PLACEHOLDER))
          (min max_envelope_bytes MAX_FRAME_BYTES) Envelope_Exceeded]"

section \<open>Frame sizes\<close>

lemma length_quote: "length (quote True s) = 2 + weight (\<lambda>c. length (escape_char True c)) s"
  by (simp add: quote_def weight_def length_concat comp_def)

lemma content_length:
  "ensure_ascii_string_content_byte_length s = weight (\<lambda>c. length (escape_char True c)) s"
  by (simp add: ensure_ascii_string_content_byte_length_def ensure_ascii_json_byte_length_def
      length_quote)

abbreviation content :: "ustr \<Rightarrow> nat" where
  "content \<equiv> ensure_ascii_string_content_byte_length"

lemma escape_plain:
  "32 \<le> c \<Longrightarrow> c \<le> 126 \<Longrightarrow> c \<noteq> 34 \<Longrightarrow> c \<noteq> 92 \<Longrightarrow> length (escape_char True c) = 1"
  by (simp add: escape_char_def short_escape_def)

lemma content_plain:
  "(\<And>c. c \<in> set s \<Longrightarrow> 32 \<le> c \<and> c \<le> 126 \<and> c \<noteq> 34 \<and> c \<noteq> 92) \<Longrightarrow> content s = length s"
  unfolding content_length by (induction s) (simp_all add: escape_plain)

lemma content_lower: "length s \<le> content s"
  unfolding content_length
proof (induction s)
  case (Cons c s)
  then show ?case using escape_char_length(1) [of True c] by simp
qed simp

lemma content_upper: "content s \<le> 12 * length s"
  unfolding content_length
proof (induction s)
  case (Cons c s)
  then show ?case using escape_char_length(2) [of True c] by simp
qed simp

lemma frame_size:
  "length (dumps True (command_frame fid did epoch seq ack sent cid key method params deadline)) =
     179 + content fid + content did + content epoch + length (nat_str seq) + length (nat_str ack)
     + content sent + content cid + content key + content (u method)
     + length (dumps True (JObj params)) + content deadline"
proof -
  have "weight (\<lambda>c. length (escape_char True c)) (u ''version'') = 7"
    "weight (\<lambda>c. length (escape_char True c)) (u ''id'') = 2"
    "weight (\<lambda>c. length (escape_char True c)) (u ''device_id'') = 9"
    "weight (\<lambda>c. length (escape_char True c)) (u ''epoch'') = 5"
    "weight (\<lambda>c. length (escape_char True c)) (u ''seq'') = 3"
    "weight (\<lambda>c. length (escape_char True c)) (u ''ack'') = 3"
    "weight (\<lambda>c. length (escape_char True c)) (u ''type'') = 4"
    "weight (\<lambda>c. length (escape_char True c)) (u ''command'') = 7"
    "weight (\<lambda>c. length (escape_char True c)) (u ''sent_at'') = 7"
    "weight (\<lambda>c. length (escape_char True c)) (u ''payload'') = 7"
    "weight (\<lambda>c. length (escape_char True c)) (u ''command_id'') = 10"
    "weight (\<lambda>c. length (escape_char True c)) (u ''idempotency_key'') = 15"
    "weight (\<lambda>c. length (escape_char True c)) (u ''method'') = 6"
    "weight (\<lambda>c. length (escape_char True c)) (u ''params'') = 6"
    "weight (\<lambda>c. length (escape_char True c)) (u ''deadline_at'') = 11"
    by (simp_all add: u_def escape_plain)
  then show ?thesis
    by (simp add: command_frame_def length_quote content_length int_str_def nat_str.simps [of "Suc 0"])
qed

lemma nat_str_length_mono: "m \<le> n \<Longrightarrow> length (nat_str m) \<le> length (nat_str n)"
proof (induction n arbitrary: m rule: less_induct)
  case (less n)
  show ?case
  proof (cases "m < 10")
    case True
    then show ?thesis using nat_str_nonempty [of n]
      by (simp add: nat_str.simps [of m] Suc_le_eq)
  next
    case False
    then have "length (nat_str (m div 10)) \<le> length (nat_str (n div 10))"
      using less by (intro less.IH) (simp_all add: div_le_mono)
    then show ?thesis using False less.prems
      by (simp add: nat_str.simps [of m] nat_str.simps [of n])
  qed
qed

lemma hex_digits_plain:
  "c \<in> set (hex_digits k n) \<Longrightarrow> 48 \<le> c \<and> c \<le> 57 \<or> 97 \<le> c \<and> c \<le> 102"
proof (induction k arbitrary: n)
  case (Suc k)
  have "48 \<le> hex_digit d \<and> hex_digit d \<le> 57 \<or> 97 \<le> hex_digit d \<and> hex_digit d \<le> 102" if "d < 16" for d
    using that by (simp add: hex_digit_def)
  from this [of "n mod 16"] show ?case using Suc by auto
qed simp

lemma utf8_width_ascii: "c < 128 \<Longrightarrow> utf8_width c = 1"
  by (simp add: utf8_width_def)

lemma uuid_str_content [simp]: "content (uuid_str i) = 36"
proof -
  have "c = 45 \<or> 48 \<le> c \<and> c \<le> 57 \<or> 97 \<le> c \<and> c \<le> 102" if "c \<in> set (uuid_str i)" for c
    using that hex_digits_plain [of c 32 "unat i"] unfolding uuid_str_def Let_def
    by (auto dest: in_set_takeD in_set_dropD)
  then have "content (uuid_str i) = length (uuid_str i)" by (intro content_plain) fastforce
  then show ?thesis by (simp add: uuid_str_def Let_def)
qed

lemma uuid_quote: "length (quote True (uuid_str i)) = 38"
  using uuid_str_content by (simp add: content_length length_quote)

lemma placeholder_content [simp]: "content UUID_PLACEHOLDER = 36" "content TIMESTAMP_PLACEHOLDER = 27"
  by (simp_all add: content_length UUID_PLACEHOLDER_def TIMESTAMP_PLACEHOLDER_def u_def escape_plain)

text \<open>The text that the wire carries is not escaped to ASCII; as UTF-8 it is never longer than the
  measured text.\<close>

lemma escape_width: "weight utf8_width (escape_char False c) \<le> length (escape_char True c)"
proof -
  have "weight utf8_width (hex_digits 4 c) = 4"
  proof -
    have "\<forall>x \<in> set (hex_digits 4 c). utf8_width x = 1"
      using hex_digits_plain by (fastforce simp: utf8_width_def)
    then have "map utf8_width (hex_digits 4 c) = replicate (length (hex_digits 4 c)) 1"
      by (metis length_map map_eq_conv map_replicate_const)
    then show ?thesis by (simp add: weight_def sum_list_replicate)
  qed
  then show ?thesis
    by (auto simp: escape_char_def utf8_width_def short_escape_def split: option.splits)
qed

lemma weight_ascii: "(\<And>c. c \<in> set s \<Longrightarrow> c < 128) \<Longrightarrow> weight utf8_width s = length s"
  by (induction s) (simp_all add: utf8_width_ascii)

lemma quote_width: "weight utf8_width (quote False s) \<le> length (quote True s)"
proof -
  have "weight utf8_width (concat (map (escape_char False) s))
      \<le> length (concat (map (escape_char True) s))"
    using escape_width by (induction s) (simp_all add: add_mono)
  then show ?thesis by (simp add: quote_def utf8_width_ascii)
qed

lemma dumps_width:
  "float_texts j \<Longrightarrow> weight utf8_width (dumps False j) \<le> length (dumps True j)"
proof (induction j)
  case (JInt i)
  then show ?case using int_str_ascii weight_ascii [of "int_str i"] by fastforce
next
  case (JFloat t)
  then show ?case using dumps_True_ascii [of "JFloat t"] weight_ascii [of t] by fastforce
next
  case (JStr s)
  then show ?case using quote_width by simp
next
  case (JArr xs)
  then have "sum_list (map (weight utf8_width) (map (dumps False) xs))
      \<le> sum_list (map length (map (dumps True) xs))"
    by (simp add: sum_list_mono list_all_iff)
  then show ?case by (simp add: weight_sep_by length_sep_by utf8_width_ascii)
next
  case (JObj d)
  then have "sum_list (map (weight utf8_width) (map (\<lambda>(k, v). quote False k @ 58 # dumps False v) d))
      \<le> sum_list (map length (map (\<lambda>(k, v). quote True k @ 58 # dumps True v) d))"
    unfolding map_map using quote_width
    by (intro sum_list_mono) (fastforce simp: list_all_iff utf8_width_ascii intro!: add_mono)
  then show ?case by (simp add: weight_sep_by length_sep_by utf8_width_ascii)
qed (simp_all add: weight_ascii u_def utf8_width_ascii)

section \<open>Properties\<close>

lemma first_error_None: "first_error es = None \<longleftrightarrow> (\<forall>e \<in> set es. e = None)"
  by (induction es rule: first_error.induct) auto

lemma exceeds_None: "exceeds sz limit err = None \<longleftrightarrow> (\<exists>n. sz = Some n \<and> n \<le> limit)"
  by (auto simp: exceeds_def split: option.splits if_splits)

lemma validate_command_budgetD:
  assumes "validate_command_budget device_id epoch roots method params key max_bytes = None"
  shows "length (dumps True (JObj params)) \<le> MAX_ENSURE_ASCII_PARAMS_BYTES"
    "length (dumps True (command_frame UUID_PLACEHOLDER (uuid_str device_id) epoch MAX_SEQUENCE
       MAX_SEQUENCE TIMESTAMP_PLACEHOLDER UUID_PLACEHOLDER key method params TIMESTAMP_PLACEHOLDER))
       \<le> min max_bytes MAX_FRAME_BYTES"
  using assms
  by (auto simp: validate_command_budget_def first_error_None exceeds_None
      ensure_ascii_json_byte_length_def split: if_splits)

lemma float_texts_frame:
  "float_texts (command_frame fid did epoch seq ack sent cid key method params deadline)
     = float_texts (JObj params)"
  by (simp add: command_frame_def)


definition sample_params :: "nat \<Rightarrow> dict" where
  "sample_params n = [(u ''x'', JStr (replicate n 97))]"

lemma sample_params_size: "length (dumps True (JObj (sample_params n))) = 8 + n"
proof -
  have "weight (\<lambda>c. length (escape_char True c)) (replicate n 97) = n"
    by (induction n) (simp_all add: escape_plain)
  then show ?thesis
    by (simp add: sample_params_def length_quote u_def escape_plain)
qed

lemma sample_nat_str: "length (nat_str MAX_SEQUENCE) = 19"
  unfolding MAX_SEQUENCE_def by (simp add: nat_str.simps)

lemma sample_content:
  "content (u ''epoch-0000000001'') = 16" "content (u ''k'') = 1" "content (u ''model/list'') = 10"
  by (simp_all add: content_length u_def escape_plain)

lemma sample_finite: "all_finite (JObj (sample_params n))"
  by (simp add: sample_params_def)

lemma sample_accepted:
  "validate_command_budget 1 (u ''epoch-0000000001'') [] ''model/list'' (sample_params 3682)
     (u ''k'') 4096 = None"
proof -
  have esc: "concat (map go_escape (dumps False (JObj (sample_params 3682)))) =
      dumps False (JObj (sample_params 3682))"
    by (simp add: sample_params_def quote_def u_def escape_char_def short_escape_def go_escape_def
        map_replicate_const concat_replicate_trivial)
  have "\<not> list_ex surrogate (dumps False (JObj (sample_params 3682)))"
    by (simp add: sample_params_def quote_def u_def escape_char_def short_escape_def surrogate_def
        list_ex_iff)
  then have "connector_compact_json_size (JObj (sample_params 3682)) =
      Some (weight utf8_width (dumps False (JObj (sample_params 3682))))"
    unfolding connector_compact_json_size_def esc by (simp add: utf8_length_def weight_def)
  moreover have "weight utf8_width (dumps False (JObj (sample_params 3682))) \<le> 8 + 3682"
    using dumps_width [of "JObj (sample_params 3682)"] sample_params_size [of 3682]
    by (simp add: sample_params_def)
  moreover have "all_finite (command_frame fid did epoch seq ack sent cid key me
      (sample_params 3682) deadline)" for fid did epoch seq ack sent cid key me deadline
    using sample_finite [of 3682] by (simp add: command_frame_def)
  moreover have "projected_command_params ''model/list'' (sample_params 3682) [] = sample_params 3682"
    by (simp add: projected_command_params_def)
  ultimately show ?thesis
    unfolding validate_command_budget_def first_error_None
    by (simp add: exceeds_None ensure_ascii_json_byte_length_def frame_size sample_params_size
        sample_nat_str sample_content sample_finite MAX_ENSURE_ASCII_PARAMS_BYTES_def
        MAX_ENSURE_ASCII_PROJECTED_BYTES_def MAX_FRAME_BYTES_def del: dumps.simps all_finite.simps)
qed


text \<open>At the default limit the key does not matter.  A command with an epoch of at most 128
  characters and a method name of at most 16, whose parameters are accepted, fits a frame of
  \<open>MAX_FRAME_BYTES\<close> also under any other key of at most 64 plain characters, such as the hash
  that the dispatcher sends.\<close>

theorem wire_key_fits_default_frame:
  assumes "validate_command_budget device_id epoch roots method params key max_bytes = None"
    and "length epoch \<le> 128" "content (u method) \<le> 16" "content key' \<le> 64"
    and "seq \<le> MAX_SEQUENCE" "ack \<le> MAX_SEQUENCE" "content sent \<le> 27" "content deadline \<le> 27"
  shows "length (dumps True (command_frame (uuid_str fid) (uuid_str device_id) epoch seq ack sent
      (uuid_str cid) key' method params deadline)) \<le> MAX_FRAME_BYTES"
  using validate_command_budgetD(1) [OF assms(1)] assms(2-4,7,8) content_upper [of epoch]
    nat_str_length_mono [OF assms(5)] nat_str_length_mono [OF assms(6)]
  unfolding frame_size sample_nat_str
  by (simp add: MAX_FRAME_BYTES_def MAX_ENSURE_ASCII_PARAMS_BYTES_def)

theorem wire_key_fits_default_frame_witness:
  "length (dumps True (command_frame (uuid_str 2) (uuid_str 1) (u ''epoch-0000000001'') 5 0
     TIMESTAMP_PLACEHOLDER (uuid_str 3) (hex_digits 64 7) ''model/list'' (sample_params 3682)
     TIMESTAMP_PLACEHOLDER)) \<le> MAX_FRAME_BYTES"
proof -
  have "content (hex_digits 64 7) = 64"
    using hex_digits_plain content_plain [of "hex_digits 64 7"] by fastforce
  then show ?thesis
    by (intro wire_key_fits_default_frame [OF sample_accepted])
      (simp_all add: sample_content MAX_SEQUENCE_def)
qed

text \<open>A short key under a lowered limit.  The check measures the client's key, but the frame
  carries a key of 64 hexadecimal digits: with a limit of 4096 bytes there is a command that is
  accepted and whose frames all exceed the limit.\<close>

theorem short_key_frame_overflow:
  "validate_command_budget 1 (u ''epoch-0000000001'') [] ''model/list'' (sample_params 3682)
     (u ''k'') 4096 = None
   \<and> 4096 < length (dumps True (command_frame (uuid_str fid) (uuid_str 1) (u ''epoch-0000000001'')
       seq ack TIMESTAMP_PLACEHOLDER (uuid_str cid) (hex_digits 64 h) ''model/list''
       (sample_params 3682) TIMESTAMP_PLACEHOLDER))"
proof -
  have "content (hex_digits 64 h) = 64"
    using hex_digits_plain content_plain [of "hex_digits 64 h"] by fastforce
  moreover have "1 \<le> length (nat_str n)" for n
    using nat_str_nonempty [of n] by (simp add: Suc_le_eq)
  from this [of seq] this [of ack] calculation show ?thesis
    using sample_accepted by (simp add: frame_size sample_params_size sample_content del: dumps.simps)
qed

end
