(* ===== verification/Commands.thy ===== *)
theory Commands
  imports Sweep Budget Storage
begin

text \<open>
  \<open>commands.py\<close>: creation of commands with idempotency keys and quotas, and expiry.  A request is
  one transaction on the database; an error before the commit leaves the database as it was.  The
  device and owner locks of \<open>CommandService\<close> and the row locks make the transactions of one device
  and of one owner sequential, which is what the atomic step models.  The hash function
  \<open>sha256\<close> (over the text whose UTF-8 bytes are hashed), the fresh identifier, the clock reading
  and the rendering \<open>py_str\<close> of a JSON value that is not a string are arguments.
\<close>

section \<open>Operations\<close>

definition ALLOWED_RPC_METHODS :: "string list" where
  "ALLOWED_RPC_METHODS = [''model/list'', ''thread/start'', ''thread/list'', ''thread/read'',
     ''thread/resume'', ''turn/start'', ''turn/steer'', ''turn/interrupt'']"

datatype command_error =
    Method_Not_Allowlisted
  | Command_Budget budget_error
  | Scope_Invalid
  | Command_Idempotency_Conflict
  | Command_Object_Not_Found
  | Device_Offline
  | Outstanding_Commands_Exceeded
  | Device_Command_Records_Exceeded
  | Owner_Command_Records_Exceeded
  | Turn_Start_In_Progress
  | Command_Integrity_Error
  | Command_Event_Error event_error

definition canonical_document :: "string \<Rightarrow> dict \<Rightarrow> ustr option \<Rightarrow> ustr" where
  "canonical_document method params scope =
     dumps True (sort_keys (JObj ([(u ''method'', JStr (u method)), (u ''params'', JObj params)]
       @ (case scope of None \<Rightarrow> [] | Some s \<Rightarrow> [(u ''scope'', JStr s)]))))"

definition canonical_request_hash :: "(ustr \<Rightarrow> ustr) \<Rightarrow> string \<Rightarrow> dict \<Rightarrow> ustr option \<Rightarrow> ustr" where
  "canonical_request_hash sha256 method params scope = sha256 (canonical_document method params scope)"

text \<open>Truth value of a JSON value.\<close>

fun json_truthy :: "json \<Rightarrow> bool" where
  "json_truthy JNull = False"
| "json_truthy (JBool b) = b"
| "json_truthy (JInt i) = (i \<noteq> 0)"
| "json_truthy (JFloat t) = (t \<noteq> u ''0.0'' \<and> t \<noteq> u ''-0.0'')"
| "json_truthy (JStr s) = (s \<noteq> [])"
| "json_truthy (JArr xs) = (xs \<noteq> [])"
| "json_truthy (JObj d) = (d \<noteq> [])"

fun json_str :: "(json \<Rightarrow> ustr) \<Rightarrow> json \<Rightarrow> ustr" where
  "json_str py_str (JStr s) = s"
| "json_str py_str j = py_str j"

definition command_scope ::
  "(json \<Rightarrow> ustr) \<Rightarrow> uuid \<Rightarrow> string \<Rightarrow> uuid option \<Rightarrow> dict \<Rightarrow> ustr" where
  "command_scope py_str device_id method thread_binding_id params =
     (let resource = (case thread_binding_id of
            Some i \<Rightarrow> Some (JStr (uuid_str i))
          | None \<Rightarrow> dict_get params (u ''threadId''));
          normalized = (case resource of
            None \<Rightarrow> u ''device''
          | Some r \<Rightarrow> if json_truthy r then take 255 (json_str py_str r) else u ''device'')
      in u ''device:'' @ uuid_str device_id @ u ''|method:'' @ u method @ u ''|resource:'' @ normalized)"

definition wire_idempotency_key :: "(ustr \<Rightarrow> ustr) \<Rightarrow> ustr \<Rightarrow> ustr \<Rightarrow> ustr" where
  "wire_idempotency_key sha256 scope key =
     sha256 (u ''sub2api-codex-control/wire-idempotency/v1'' @ [0] @ scope @ [0] @ key)"

definition thread_event_data :: "thread_binding \<Rightarrow> event_data" where
  "thread_event_data b = ThreadData (thread_summary b)"

definition repair_binding_for_terminal_command ::
  "thread_binding \<Rightarrow> command \<Rightarrow> datetime \<Rightarrow> thread_binding option" where
  "repair_binding_for_terminal_command b c now =
     (if thr_status b \<in> {CLOSED, STALE} then None
      else Some (b\<lparr>thr_status := THREAD_FAILED, thr_active_turn_id := None,
        thr_last_error := (if truthy (cmd_error_message c) then cmd_error_message c
          else map_option u (cmd_error_code c)),
        thr_updated_at := now\<rparr>))"

definition outstanding :: "command \<Rightarrow> bool" where
  "outstanding c \<longleftrightarrow> cmd_status c \<in> {QUEUED, DISPATCHED, ACKNOWLEDGED}"

subsection \<open>Registry of live connections\<close>

definition registry_key :: "uuid \<Rightarrow> ustr" where
  "registry_key device_id = u ''connection:'' @ uuid_str device_id"

text \<open>\<open>fr\<close> renders floats; the store is read once.\<close>

definition registry_nonce :: "(ustr \<Rightarrow> ustr) \<Rightarrow> ustr option \<Rightarrow> json option" where
  "registry_nonce fr raw =
     (case raw of
        None \<Rightarrow> None
      | Some t \<Rightarrow>
          (case loads fr t of
             Some (JObj d) \<Rightarrow> dict_get d (u ''connection_nonce'')
           | _ \<Rightarrow> None))"

definition is_online ::
  "(ustr \<Rightarrow> int \<Rightarrow> 's \<Rightarrow> ustr option \<times> 's) \<Rightarrow> (ustr \<Rightarrow> ustr) \<Rightarrow> uuid \<Rightarrow> ustr option \<Rightarrow> int \<Rightarrow> 's
     \<Rightarrow> bool \<times> 's" where
  "is_online get fr device_id connection_nonce now s =
     (if \<not> truthy connection_nonce then (False, s)
      else case get (registry_key device_id) now s of
        (raw, s') \<Rightarrow>
          (registry_nonce fr raw = map_option JStr connection_nonce, s'))"

definition require_owned_online_device ::
  "(ustr \<Rightarrow> int \<Rightarrow> 's \<Rightarrow> ustr option \<times> 's) \<Rightarrow> (ustr \<Rightarrow> ustr) \<Rightarrow> ustr \<Rightarrow> uuid \<Rightarrow> database \<Rightarrow> int \<Rightarrow> 's
     \<Rightarrow> (command_error + device) \<times> 's" where
  "require_owned_online_device get fr owner device_id db now s =
     (case scalar (\<lambda>d. dev_id d = device_id \<and> dev_owner_user_id d = owner) (devices db) of
        None \<Rightarrow> (Inl Command_Object_Not_Found, s)
      | Some d \<Rightarrow>
          if dev_status d = REVOKED then (Inl Command_Object_Not_Found, s)
          else if \<not> truthy (dev_active_epoch d) then (Inl Device_Offline, s)
          else case is_online get fr (dev_id d) (dev_active_connection_nonce d) now s of
            (online, s') \<Rightarrow> (if online then Inr d else Inl Device_Offline, s'))"

subsection \<open>Creation\<close>

definition find_existing :: "ustr \<Rightarrow> uuid \<Rightarrow> ustr \<Rightarrow> ustr \<Rightarrow> database \<Rightarrow> command option" where
  "find_existing owner device_id scope key db =
     scalar (\<lambda>c. cmd_owner_user_id c = owner \<and> cmd_device_id c = device_id
       \<and> cmd_idempotency_scope c = scope \<and> cmd_idempotency_key c = key) (commands db)"

definition reuse_existing ::
  "command \<Rightarrow> ustr \<Rightarrow> uuid \<Rightarrow> (command_error + command) \<times> notice list" where
  "reuse_existing existing request_hash device_id =
     (if cmd_request_hash existing \<noteq> request_hash then (Inl Command_Idempotency_Conflict, [])
      else (Inr existing,
        if cmd_status existing = QUEUED then [Wake_Command device_id (cmd_id existing)] else []))"

definition new_command ::
  "settings \<Rightarrow> datetime \<Rightarrow> uuid \<Rightarrow> ustr \<Rightarrow> device \<Rightarrow> string \<Rightarrow> dict \<Rightarrow> ustr \<Rightarrow> uuid option
     \<Rightarrow> nat option \<Rightarrow> ustr \<Rightarrow> ustr \<Rightarrow> command" where
  "new_command cfg now cid owner d method params key thread_binding_id deadline_seconds scope
       request_hash =
     (let limit = command_ttl_seconds cfg;
          ttl = min (case deadline_seconds of
              None \<Rightarrow> limit | Some n \<Rightarrow> if n = 0 then limit else n) limit
      in \<lparr>cmd_id = cid, cmd_owner_user_id = owner, cmd_device_id = dev_id d,
          cmd_thread_binding_id = thread_binding_id, cmd_idempotency_key = key,
          cmd_idempotency_scope = scope, cmd_request_hash = request_hash, cmd_method = method,
          cmd_payload = params, cmd_status = QUEUED, cmd_appserver_epoch = dev_active_epoch d,
          cmd_result = None, cmd_error_code = None, cmd_error_message = None,
          cmd_created_at = now, cmd_dispatched_at = None, cmd_acknowledged_at = None,
          cmd_completed_at = None, cmd_expires_at = Some (now + seconds (int ttl))\<rparr>)"

definition command_event :: "command \<Rightarrow> event_spec" where
  "command_event c = (cmd_owner_user_id c, cmd_device_id c, ''command.updated'',
     CommandData (cmd_device_id c) (command_view_of c), cmd_thread_binding_id c)"

definition thread_event :: "ustr \<Rightarrow> uuid \<Rightarrow> thread_binding \<Rightarrow> event_spec" where
  "thread_event owner device_id b =
     (owner, device_id, ''thread.updated'', thread_event_data b, Some (thr_id b))"

definition create_audit :: "datetime \<Rightarrow> request_metadata \<Rightarrow> command \<Rightarrow> audit_event" where
  "create_audit now metadata c =
     \<lparr>aud_actor_user_id = Some (cmd_owner_user_id c), aud_actor_session_id = None,
      aud_actor_device_id = None, aud_action = ''command.create'', aud_outcome = AUDIT_SUCCEEDED,
      aud_resource_type = Some ''command'', aud_resource_id = Some (uuid_str (cmd_id c)),
      aud_request_id = rm_request_id metadata, aud_source_ip = rm_source_ip metadata,
      aud_user_agent = rm_user_agent metadata,
      aud_details = [(u ''device_id'', JStr (uuid_str (cmd_device_id c))),
        (u ''method'', JStr (u (cmd_method c))),
        (u ''idempotency_scope'', JStr (cmd_idempotency_scope c))],
      aud_created_at = now\<rparr>"

definition visible_binding :: "ustr \<Rightarrow> uuid option \<Rightarrow> database \<Rightarrow> thread_binding option" where
  "visible_binding owner thread_binding_id db =
     (case thread_binding_id of
        None \<Rightarrow> None
      | Some i \<Rightarrow>
          (case scalar (\<lambda>b. thr_id b = i) (thread_bindings db) of
             None \<Rightarrow> None
           | Some b \<Rightarrow>
               if thr_owner_user_id b = owner \<and> thr_status b \<notin> {CLOSED, STALE}
               then Some b else None))"

definition create_serialized ::
  "settings \<Rightarrow> datetime \<Rightarrow> uuid \<Rightarrow> request_metadata \<Rightarrow> ustr \<Rightarrow> device \<Rightarrow> string \<Rightarrow> dict \<Rightarrow> ustr
     \<Rightarrow> uuid option \<Rightarrow> nat option \<Rightarrow> ustr \<Rightarrow> ustr \<Rightarrow> database
     \<Rightarrow> (command_error + command) \<times> database \<times> notice list" where
  "create_serialized cfg now cid metadata owner dev method params key thread_binding_id
       deadline_seconds scope request_hash db =
     (case find_existing owner (dev_id dev) scope key db of
        Some existing \<Rightarrow>
          (case reuse_existing existing request_hash (dev_id dev) of (r, ns) \<Rightarrow> (r, db, ns))
      | None \<Rightarrow>
     (case scalar (\<lambda>d. dev_id d = dev_id dev \<and> dev_owner_user_id d = owner \<and> dev_status d = ACTIVE)
         (devices db) of
        None \<Rightarrow> (Inl Command_Object_Not_Found, db, [])
      | Some d \<Rightarrow>
          if count_where (\<lambda>c. cmd_device_id c = dev_id d \<and> outstanding c) (commands db)
               \<ge> device_max_outstanding_commands cfg
          then (Inl Outstanding_Commands_Exceeded, db, [])
          else if count_where (\<lambda>c. cmd_device_id c = dev_id d) (commands db)
               \<ge> device_max_command_records cfg
          then (Inl Device_Command_Records_Exceeded, db, [])
          else
            let db1 = snd (lock_owner_cursor owner db) in
            if count_where (\<lambda>c. cmd_owner_user_id c = owner) (commands db1)
                 \<ge> owner_max_command_records cfg
            then (Inl Owner_Command_Records_Exceeded, db, [])
            else if method = ''turn/start'' \<and> thread_binding_id \<noteq> None
                \<and> exists_where (\<lambda>c. cmd_owner_user_id c = owner \<and> cmd_device_id c = dev_id d
                    \<and> cmd_thread_binding_id c = thread_binding_id \<and> cmd_method c = ''turn/start''
                    \<and> outstanding c) (commands db1)
            then (Inl Turn_Start_In_Progress, db, [])
            else
              let c = new_command cfg now cid owner d method params key thread_binding_id
                    deadline_seconds scope request_hash in
              if exists_where (\<lambda>x. cmd_id x = cid) (commands db1)
              then (Inl Command_Integrity_Error, db, [])
              else
                let db2 = add_audit (create_audit now metadata c)
                      (db1\<lparr>commands := commands db1 @ [c]\<rparr>);
                    specs = command_event c #
                      (case visible_binding owner thread_binding_id db2 of
                         None \<Rightarrow> [] | Some b \<Rightarrow> [thread_event owner (dev_id d) b])
                in case append_all event_append now specs db2 of
                     Inl e \<Rightarrow> (Inl (Command_Event_Error e), db, [])
                   | Inr (events, db3) \<Rightarrow>
                       (Inr c, db3, Wake_Command (dev_id d) cid # map (Publish_Event owner) events)))"

definition command_create ::
  "(ustr \<Rightarrow> ustr) \<Rightarrow> (json \<Rightarrow> ustr) \<Rightarrow> settings \<Rightarrow> datetime \<Rightarrow> uuid \<Rightarrow> request_metadata \<Rightarrow> ustr \<Rightarrow> device
     \<Rightarrow> string \<Rightarrow> dict \<Rightarrow> ustr \<Rightarrow> uuid option \<Rightarrow> nat option \<Rightarrow> ustr option \<Rightarrow> database
     \<Rightarrow> (command_error + command) \<times> database \<times> notice list" where
  "command_create sha256 py_str cfg now cid metadata owner dev method params key thread_binding_id
       deadline_seconds idempotency_scope db =
     (if method \<notin> set ALLOWED_RPC_METHODS then (Inl Method_Not_Allowlisted, db, [])
      else case validate_command_budget (dev_id dev) (or_empty (dev_active_epoch dev))
             (dev_workspace_roots dev) method params key (device_max_envelope_bytes cfg) of
        Some e \<Rightarrow> (Inl (Command_Budget e), db, [])
      | None \<Rightarrow>
          let scope = (if truthy idempotency_scope then or_empty idempotency_scope
                else command_scope py_str (dev_id dev) method thread_binding_id params)
          in if scope = [] \<or> length scope > 512 then (Inl Scope_Invalid, db, [])
             else create_serialized cfg now cid metadata owner dev method params key
                    thread_binding_id deadline_seconds scope
                    (canonical_request_hash sha256 method params (Some scope)) db)"

subsection \<open>Expiry\<close>

definition overdue :: "datetime \<Rightarrow> command \<Rightarrow> bool" where
  "overdue now c \<longleftrightarrow> outstanding c \<and> (case cmd_expires_at c of None \<Rightarrow> False | Some t \<Rightarrow> t \<le> now)"

definition expired_form :: "datetime \<Rightarrow> command \<Rightarrow> command" where
  "expired_form now c = c\<lparr>cmd_status := EXPIRED, cmd_completed_at := Some now,
     cmd_error_code := Some ''expired'',
     cmd_error_message := Some (u ''command deadline passed before completion'')\<rparr>"

definition expire_audit :: "datetime \<Rightarrow> command \<Rightarrow> audit_event" where
  "expire_audit now c =
     \<lparr>aud_actor_user_id = Some (cmd_owner_user_id c), aud_actor_session_id = None,
      aud_actor_device_id = None, aud_action = ''command.expire'', aud_outcome = AUDIT_FAILED,
      aud_resource_type = Some ''command'', aud_resource_id = Some (uuid_str (cmd_id c)),
      aud_request_id = None, aud_source_ip = None, aud_user_agent = None,
      aud_details = [(u ''device_id'', JStr (uuid_str (cmd_device_id c))),
        (u ''method'', JStr (u (cmd_method c)))],
      aud_created_at = now\<rparr>"

definition command_binding :: "command \<Rightarrow> database \<Rightarrow> thread_binding option" where
  "command_binding c db =
     (case cmd_thread_binding_id c of
        None \<Rightarrow> None
      | Some i \<Rightarrow> scalar (\<lambda>b. thr_id b = i \<and> thr_device_id b = cmd_device_id c
          \<and> thr_owner_user_id b = cmd_owner_user_id c) (thread_bindings db))"

definition put_binding :: "thread_binding \<Rightarrow> database \<Rightarrow> database" where
  "put_binding b db = db\<lparr>thread_bindings :=
     update_where (\<lambda>x. thr_id x = thr_id b) (\<lambda>_. b) (thread_bindings db)\<rparr>"

definition put_command :: "command \<Rightarrow> database \<Rightarrow> database" where
  "put_command c db = db\<lparr>commands := update_where (\<lambda>x. cmd_id x = cmd_id c) (\<lambda>_. c) (commands db)\<rparr>"

text \<open>The binding of a command that became terminal is repaired and the change is announced.\<close>

definition repair_and_announce ::
  "datetime \<Rightarrow> command \<Rightarrow> database \<Rightarrow> event_error + browser_event list \<times> database" where
  "repair_and_announce now c db =
     (case command_binding c db of
        None \<Rightarrow> Inr ([], db)
      | Some b \<Rightarrow>
          (case repair_binding_for_terminal_command b c now of
             None \<Rightarrow> Inr ([], db)
           | Some b' \<Rightarrow>
               append_all event_append now [thread_event (cmd_owner_user_id c) (cmd_device_id c) b']
                 (put_binding b' db)))"

text \<open>One candidate: \<open>None\<close> when its transaction is rolled back.\<close>

definition expire_command ::
  "datetime \<Rightarrow> uuid \<times> uuid \<times> ustr \<Rightarrow> database \<Rightarrow> event_error + (database \<times> notice list) option" where
  "expire_command now cand db =
     (case cand of (command_id, device_id, owner) \<Rightarrow>
        if scalar (\<lambda>d. dev_id d = device_id \<and> dev_owner_user_id d = owner) (devices db) = None
        then Inr None
        else
          let db1 = snd (lock_owner_cursor owner db) in
          case scalar (\<lambda>c. cmd_id c = command_id \<and> cmd_device_id c = device_id
                 \<and> cmd_owner_user_id c = owner \<and> overdue now c) (commands db1) of
            None \<Rightarrow> Inr None
          | Some c \<Rightarrow>
              let c' = expired_form now c;
                  db2 = add_audit (expire_audit now c) (put_command c' db1)
              in case append_all event_append now [command_event c'] db2 of
                   Inl e \<Rightarrow> Inl e
                 | Inr (events1, db3) \<Rightarrow>
                     (case repair_and_announce now c' db3 of
                        Inl e \<Rightarrow> Inl e
                      | Inr (events2, db4) \<Rightarrow>
                          Inr (Some (db4, map (Publish_Event owner) (events1 @ events2)))))"

definition expire_candidates :: "settings \<Rightarrow> datetime \<Rightarrow> database \<Rightarrow> (uuid \<times> uuid \<times> ustr) list" where
  "expire_candidates cfg now db =
     map (\<lambda>c. (cmd_id c, cmd_device_id c, cmd_owner_user_id c))
       (select_ordered (overdue now) (\<lambda>c. (cmd_device_id c, cmd_id c))
         (retention_sweep_batch_size cfg) (commands db))"

definition command_expire_due ::
  "settings \<Rightarrow> datetime \<Rightarrow> database \<Rightarrow> (event_error + nat) \<times> database \<times> notice list" where
  "command_expire_due cfg now db =
     sweep_loop (expire_command now) (expire_candidates cfg now db) 0 db []"

section \<open>Invariant of the command table\<close>

definition outstanding_on :: "uuid \<Rightarrow> command \<Rightarrow> bool" where
  "outstanding_on device_id c \<longleftrightarrow> cmd_device_id c = device_id \<and> outstanding c"

definition active_turn_start :: "ustr \<Rightarrow> uuid \<Rightarrow> uuid \<Rightarrow> command \<Rightarrow> bool" where
  "active_turn_start owner device_id binding c \<longleftrightarrow>
     cmd_owner_user_id c = owner \<and> cmd_device_id c = device_id
     \<and> cmd_thread_binding_id c = Some binding \<and> cmd_method c = ''turn/start'' \<and> outstanding c"

definition command_key :: "command \<Rightarrow> ustr \<times> uuid \<times> ustr \<times> ustr" where
  "command_key c = (cmd_owner_user_id c, cmd_device_id c, cmd_idempotency_scope c, cmd_idempotency_key c)"

definition commands_wf :: "settings \<Rightarrow> command list \<Rightarrow> bool" where
  "commands_wf cfg cs \<longleftrightarrow>
     distinct (map cmd_id cs) \<and> distinct (map command_key cs)
   \<and> (\<forall>i. count_where (outstanding_on i) cs \<le> device_max_outstanding_commands cfg)
   \<and> (\<forall>i. count_where (\<lambda>c. cmd_device_id c = i) cs \<le> device_max_command_records cfg)
   \<and> (\<forall>o'. count_where (\<lambda>c. cmd_owner_user_id c = o') cs \<le> owner_max_command_records cfg)
   \<and> (\<forall>o' i b. count_where (active_turn_start o' i b) cs \<le> 1)
   \<and> (\<forall>c \<in> set cs. cmd_method c \<in> set ALLOWED_RPC_METHODS)"

text \<open>What any later step may do to a stored command: only a command that is not finished changes,
  and only in its status and its outcome.\<close>

definition cmd_base :: "command \<Rightarrow> command" where
  "cmd_base c = c\<lparr>cmd_status := QUEUED, cmd_result := None, cmd_error_code := None,
     cmd_error_message := None, cmd_dispatched_at := None, cmd_acknowledged_at := None,
     cmd_completed_at := None\<rparr>"

definition cmd_progress :: "command \<Rightarrow> command \<Rightarrow> bool" where
  "cmd_progress c c' \<longleftrightarrow> cmd_base c' = cmd_base c \<and> (outstanding c \<or> c' = c)"

lemma cmd_base_simps [simp]:
  "cmd_id (cmd_base c) = cmd_id c" "command_key (cmd_base c) = command_key c"
  "cmd_owner_user_id (cmd_base c) = cmd_owner_user_id c"
  "cmd_device_id (cmd_base c) = cmd_device_id c"
  "cmd_thread_binding_id (cmd_base c) = cmd_thread_binding_id c"
  "cmd_method (cmd_base c) = cmd_method c" "cmd_request_hash (cmd_base c) = cmd_request_hash c"
  "cmd_payload (cmd_base c) = cmd_payload c" "cmd_expires_at (cmd_base c) = cmd_expires_at c"
  "cmd_created_at (cmd_base c) = cmd_created_at c"
  "cmd_appserver_epoch (cmd_base c) = cmd_appserver_epoch c"
  by (simp_all add: cmd_base_def command_key_def)

lemma cmd_progress_refl [simp]: "cmd_progress c c"
  by (simp add: cmd_progress_def)

lemma cmd_progressD:
  assumes "cmd_progress c c'"
  shows "cmd_id c' = cmd_id c" "command_key c' = command_key c"
    "cmd_owner_user_id c' = cmd_owner_user_id c" "cmd_device_id c' = cmd_device_id c"
    "cmd_thread_binding_id c' = cmd_thread_binding_id c" "cmd_method c' = cmd_method c"
    "cmd_request_hash c' = cmd_request_hash c" "cmd_payload c' = cmd_payload c"
    "cmd_expires_at c' = cmd_expires_at c" "cmd_created_at c' = cmd_created_at c"
    "cmd_appserver_epoch c' = cmd_appserver_epoch c" "outstanding c' \<Longrightarrow> outstanding c"
    "\<not> outstanding c \<Longrightarrow> c' = c"
  using assms unfolding cmd_progress_def by (metis cmd_base_simps)+

lemma cmd_progress_trans: "cmd_progress a b \<Longrightarrow> cmd_progress b c \<Longrightarrow> cmd_progress a c"
  unfolding cmd_progress_def by auto

definition commands_progress :: "command list \<Rightarrow> command list \<Rightarrow> bool" where
  "commands_progress = list_all2 cmd_progress"

lemma commands_progress_refl [simp]: "commands_progress cs cs"
  by (simp add: commands_progress_def list_all2_refl)

lemma commands_progress_trans:
  "commands_progress a b \<Longrightarrow> commands_progress b c \<Longrightarrow> commands_progress a c"
  unfolding commands_progress_def by (rule list_all2_trans [OF cmd_progress_trans])

lemma put_command_progress:
  assumes "distinct (map cmd_id (commands db))" "c \<in> set (commands db)" "cmd_progress c c'"
  shows "commands_progress (commands db) (commands (put_command c' db))"
  unfolding commands_progress_def put_command_def
  using list_all2_put [OF assms(1,2), of c' cmd_progress] assms(3) cmd_progressD(1) by simp

text \<open>The weaker relation that already keeps the quotas: a finished command stays finished.\<close>

definition cmd_evolves :: "command \<Rightarrow> command \<Rightarrow> bool" where
  "cmd_evolves c c' \<longleftrightarrow> cmd_base c' = cmd_base c \<and> (outstanding c' \<longrightarrow> outstanding c)"

lemma cmd_evolvesD:
  assumes "cmd_evolves c c'"
  shows "cmd_id c' = cmd_id c" "command_key c' = command_key c"
    "cmd_owner_user_id c' = cmd_owner_user_id c" "cmd_device_id c' = cmd_device_id c"
    "cmd_thread_binding_id c' = cmd_thread_binding_id c" "cmd_method c' = cmd_method c"
    "outstanding c' \<Longrightarrow> outstanding c"
  using assms unfolding cmd_evolves_def by (metis cmd_base_simps)+

lemma cmd_evolves_refl [simp]: "cmd_evolves c c"
  by (simp add: cmd_evolves_def)

lemma progress_evolves: "cmd_progress c c' \<Longrightarrow> cmd_evolves c c'"
  by (auto simp: cmd_progress_def cmd_evolves_def)

lemma commands_evolve_wf:
  assumes "list_all2 cmd_evolves cs cs'" "commands_wf cfg cs"
  shows "commands_wf cfg cs'"
proof -
  note p = assms(1)
  have keys: "map cmd_id cs' = map cmd_id cs" "map command_key cs' = map command_key cs"
    using list_all2_map_eq [OF p] cmd_evolvesD by blast+
  have le: "count_where Q cs' \<le> count_where Q cs"
    if "\<And>c c'. cmd_evolves c c' \<Longrightarrow> Q c' \<Longrightarrow> Q c" for Q
    using list_all2_count_le [OF p] that by blast
  have methods: "map cmd_method cs' = map cmd_method cs"
    using list_all2_map_eq [OF p] cmd_evolvesD by blast
  have "count_where (outstanding_on i) cs' \<le> count_where (outstanding_on i) cs" for i
    by (rule le) (auto simp: outstanding_on_def cmd_evolvesD)
  moreover have "count_where (\<lambda>c. cmd_device_id c = i) cs' \<le> count_where (\<lambda>c. cmd_device_id c = i) cs" for i
    by (rule le) (auto simp: cmd_evolvesD)
  moreover have "count_where (\<lambda>c. cmd_owner_user_id c = i) cs'
      \<le> count_where (\<lambda>c. cmd_owner_user_id c = i) cs" for i
    by (rule le) (auto simp: cmd_evolvesD)
  moreover have "count_where (active_turn_start o' i b) cs'
      \<le> count_where (active_turn_start o' i b) cs" for o' i b
    by (rule le) (auto simp: active_turn_start_def cmd_evolvesD)
  moreover have "\<forall>c \<in> set cs'. cmd_method c \<in> set ALLOWED_RPC_METHODS"
  proof -
    have "set (map cmd_method cs) \<subseteq> set ALLOWED_RPC_METHODS"
      using assms(2) by (auto simp: commands_wf_def)
    then have "set (map cmd_method cs') \<subseteq> set ALLOWED_RPC_METHODS" using methods by simp
    then show ?thesis by auto
  qed
  ultimately show ?thesis
    using assms(2) unfolding commands_wf_def keys by (blast intro: order.trans)
qed

lemma commands_progress_wf:
  assumes "commands_progress cs cs'" "commands_wf cfg cs"
  shows "commands_wf cfg cs'"
  using commands_evolve_wf [OF list_all2_mono] assms progress_evolves unfolding commands_progress_def by blast

section \<open>Creation\<close>

lemma put_simps [simp]:
  "thread_bindings (put_command c db) = thread_bindings db"
  "devices (put_command c db) = devices db"
  "event_logs (put_command c db) = event_logs db"
  "event_owner_cursors (put_command c db) = event_owner_cursors db"
  "approvals (put_command c db) = approvals db"
  "device_outboxes (put_command c db) = device_outboxes db"
  "audit_events (put_command c db) = audit_events db"
  "commands (put_binding b db) = commands db"
  "devices (put_binding b db) = devices db"
  "event_logs (put_binding b db) = event_logs db"
  "event_owner_cursors (put_binding b db) = event_owner_cursors db"
  "approvals (put_binding b db) = approvals db"
  "device_outboxes (put_binding b db) = device_outboxes db"
  "audit_events (put_binding b db) = audit_events db"
  by (simp_all add: put_command_def put_binding_def)

lemma core_of_put [simp]:
  "core_of (put_command c db) = put_command c (core_of db)"
  "core_of (put_binding b db) = put_binding b (core_of db)"
  "core_of (add_audit a db) = add_audit a (core_of db)"
  "core_of (db\<lparr>commands := cs\<rparr>) = (core_of db)\<lparr>commands := cs\<rparr>"
  by (simp_all add: core_of_def put_command_def put_binding_def add_audit_def)

lemma events_wf_put [simp]:
  "events_wf (put_command c db) = events_wf db"
  "events_wf (put_binding b db) = events_wf db"
  "events_wf (add_audit a db) = events_wf db"
  "events_wf (db\<lparr>commands := cs\<rparr>) = events_wf db"
  by (intro events_wf_cong; simp)+

lemma new_command_simps [simp]:
  "cmd_id (new_command cfg now cid owner d method params key tb dl scope h) = cid"
  "cmd_owner_user_id (new_command cfg now cid owner d method params key tb dl scope h) = owner"
  "cmd_device_id (new_command cfg now cid owner d method params key tb dl scope h) = dev_id d"
  "cmd_thread_binding_id (new_command cfg now cid owner d method params key tb dl scope h) = tb"
  "cmd_method (new_command cfg now cid owner d method params key tb dl scope h) = method"
  "cmd_request_hash (new_command cfg now cid owner d method params key tb dl scope h) = h"
  "cmd_status (new_command cfg now cid owner d method params key tb dl scope h) = QUEUED"
  "command_key (new_command cfg now cid owner d method params key tb dl scope h)
     = (owner, dev_id d, scope, key)"
  "outstanding (new_command cfg now cid owner d method params key tb dl scope h)"
  by (simp_all add: new_command_def Let_def command_key_def outstanding_def)

lemma find_existing_None:
  "find_existing owner device_id scope key db = None \<longleftrightarrow>
     (owner, device_id, scope, key) \<notin> set (map command_key (commands db))"
  by (auto simp: find_existing_def scalar_None_iff command_key_def)

lemma find_existing_unique:
  assumes "distinct (map command_key (commands db))" "c \<in> set (commands db)"
    "command_key c = (owner, device_id, scope, key)"
  shows "find_existing owner device_id scope key db = Some c"
  unfolding find_existing_def using assms
  by (intro scalar_unique [where key = command_key]) (auto simp: command_key_def)

text \<open>A successful creation replays a stored command or stores a new one.\<close>

lemma create_serialized_Inr:
  assumes "create_serialized cfg now cid metadata owner dev method params key tb dl scope h db
      = (Inr c, db', ns)"
  obtains (replay) "find_existing owner (dev_id dev) scope key db = Some c" "cmd_request_hash c = h"
      "db' = db" "ns = (if cmd_status c = QUEUED then [Wake_Command (dev_id dev) (cmd_id c)] else [])"
  | (fresh) d events where
      "find_existing owner (dev_id dev) scope key db = None"
      "scalar (\<lambda>d. dev_id d = dev_id dev \<and> dev_owner_user_id d = owner \<and> dev_status d = ACTIVE)
         (devices db) = Some d"
      "count_where (outstanding_on (dev_id d)) (commands db) < device_max_outstanding_commands cfg"
      "count_where (\<lambda>c. cmd_device_id c = dev_id d) (commands db) < device_max_command_records cfg"
      "count_where (\<lambda>c. cmd_owner_user_id c = owner) (commands db) < owner_max_command_records cfg"
      "\<And>b. method = ''turn/start'' \<Longrightarrow> tb = Some b \<Longrightarrow>
         count_where (active_turn_start owner (dev_id d) b) (commands db) = 0"
      "cid \<notin> set (map cmd_id (commands db))"
      "c = new_command cfg now cid owner d method params key tb dl scope h"
      "append_all event_append now
         (command_event c # (case visible_binding owner tb db of
            None \<Rightarrow> [] | Some b \<Rightarrow> [thread_event owner (dev_id d) b]))
         (add_audit (create_audit now metadata c)
           ((snd (lock_owner_cursor owner db))\<lparr>commands := commands db @ [c]\<rparr>)) = Inr (events, db')"
      "ns = Wake_Command (dev_id d) cid # map (Publish_Event owner) events"
proof -
  have lock: "commands (snd (lock_owner_cursor owner db)) = commands db"
    "thread_bindings (snd (lock_owner_cursor owner db)) = thread_bindings db"
    using core_ofD [OF stream.lock_core] by simp_all
  show thesis
  proof (cases "find_existing owner (dev_id dev) scope key db")
    case (Some x)
    then show thesis
      using assms replay by (auto simp: create_serialized_def reuse_existing_def split: if_splits)
  next
    case None
    have vb: "visible_binding owner tb (add_audit a ((snd (lock_owner_cursor owner db))\<lparr>commands := cs\<rparr>))
        = visible_binding owner tb db" for a cs
      by (cases tb) (simp_all add: visible_binding_def lock)
    show thesis
      using assms None
      unfolding create_serialized_def Let_def vb lock
      by (auto simp: outstanding_on_def [abs_def] not_le active_turn_start_def count_where_zero_iff
          split: option.splits if_splits sum.splits prod.splits intro!: fresh)
  qed
qed

lemma create_serialized_Inl:
  "create_serialized cfg now cid metadata owner dev method params key tb dl scope h db
     = (Inl e, db', ns) \<Longrightarrow> db' = db \<and> ns = []"
  by (auto simp: create_serialized_def Let_def reuse_existing_def
      split: option.splits if_splits sum.splits prod.splits)

lemma fresh_command_wf:
  assumes wf: "commands_wf cfg cs" and "cid \<notin> set (map cmd_id cs)"
    "command_key c \<notin> set (map command_key cs)" "cmd_id c = cid"
    "count_where (outstanding_on (cmd_device_id c)) cs < device_max_outstanding_commands cfg"
    "count_where (\<lambda>x. cmd_device_id x = cmd_device_id c) cs < device_max_command_records cfg"
    "count_where (\<lambda>x. cmd_owner_user_id x = cmd_owner_user_id c) cs < owner_max_command_records cfg"
    "\<And>b. cmd_method c = ''turn/start'' \<Longrightarrow> cmd_thread_binding_id c = Some b \<Longrightarrow>
       count_where (active_turn_start (cmd_owner_user_id c) (cmd_device_id c) b) cs = 0"
    "cmd_method c \<in> set ALLOWED_RPC_METHODS"
  shows "commands_wf cfg (cs @ [c])"
proof -
  have "count_where (outstanding_on i) (cs @ [c]) \<le> device_max_outstanding_commands cfg" for i
    using wf assms(5) by (auto simp: commands_wf_def outstanding_on_def intro: Suc_leI)
  moreover have "count_where (\<lambda>x. cmd_device_id x = i) (cs @ [c]) \<le> device_max_command_records cfg" for i
    using wf assms(6) by (auto simp: commands_wf_def intro: Suc_leI)
  moreover have "count_where (\<lambda>x. cmd_owner_user_id x = o') (cs @ [c]) \<le> owner_max_command_records cfg"
    for o'
    using wf assms(7) by (auto simp: commands_wf_def intro: Suc_leI)
  moreover have "count_where (active_turn_start o' i b) (cs @ [c]) \<le> 1" for o' i b
    using wf assms(8) [of b] by (auto simp: commands_wf_def active_turn_start_def)
  ultimately show ?thesis
    using wf assms(2-4,9) by (auto simp: commands_wf_def)
qed

lemma create_serialized_tables:
  assumes "create_serialized cfg now cid metadata owner dev method params key tb dl scope h db
      = (r, db', ns)"
    and "commands_wf cfg (commands db)" "events_wf db" "method \<in> set ALLOWED_RPC_METHODS"
  shows "commands_wf cfg (commands db') \<and> events_wf db'"
proof (cases r)
  case (Inl e)
  then show ?thesis using create_serialized_Inl assms by blast
next
  case (Inr c)
  from assms(1) [unfolded Inr] show ?thesis
  proof (cases rule: create_serialized_Inr)
    case replay
    then show ?thesis using assms by simp
  next
    case (fresh d events)
    note keeps = stream.append_all_keeps [OF fresh(9)]
    have "commands db' = commands db @ [c]" using core_ofD(6) [OF keeps(1)] by simp
    moreover have "commands_wf cfg (commands db @ [c])"
      using fresh assms(2,4) scalar_SomeD(2) [OF fresh(2)]
      by (intro fresh_command_wf) (auto simp: find_existing_None)
    ultimately show ?thesis
      using keeps(2) stream.lock_ok assms(3) by simp
  qed
qed

section \<open>Expiry\<close>

lemma expired_form_simps [simp]:
  "cmd_id (expired_form now c) = cmd_id c" "\<not> overdue t (expired_form now c)"
  "cmd_owner_user_id (expired_form now c) = cmd_owner_user_id c"
  "cmd_device_id (expired_form now c) = cmd_device_id c"
  by (simp_all add: expired_form_def overdue_def outstanding_def)

definition expiry :: "datetime \<Rightarrow> command \<Rightarrow> command \<Rightarrow> bool" where
  "expiry now c c' \<longleftrightarrow> c' = c \<or> (overdue now c \<and> c' = expired_form now c)"

lemma expiry_progress: "expiry now c c' \<Longrightarrow> cmd_progress c c'"
  by (auto simp: expiry_def cmd_progress_def overdue_def cmd_base_def expired_form_def)

text \<open>Either the bindings stay or the binding of the command is repaired.\<close>

definition bindings_repaired :: "datetime \<Rightarrow> command \<Rightarrow> database \<Rightarrow> database \<Rightarrow> bool" where
  "bindings_repaired now c db db' \<longleftrightarrow> thread_bindings db' = thread_bindings db
     \<or> (\<exists>b b'. command_binding c db = Some b \<and> repair_binding_for_terminal_command b c now = Some b'
         \<and> thread_bindings db' = thread_bindings (put_binding b' db))"

lemma bindings_repaired_cong:
  "thread_bindings db1 = thread_bindings db \<Longrightarrow> bindings_repaired now c db1 db' = bindings_repaired now c db db'"
  unfolding bindings_repaired_def command_binding_def put_binding_def
  by (cases "cmd_thread_binding_id c") simp_all

lemma repair_and_announce_Inr:
  assumes "repair_and_announce now c db = Inr (es, db')"
  shows "bindings_repaired now c db db'" "events_wf db \<Longrightarrow> events_wf db'"
    "commands db' = commands db" "devices (core_of db') = devices (core_of db)"
proof -
  consider "db' = db"
    | b b' where "command_binding c db = Some b" "repair_binding_for_terminal_command b c now = Some b'"
      "append_all event_append now [thread_event (cmd_owner_user_id c) (cmd_device_id c) b']
         (put_binding b' db) = Inr (es, db')"
    using assms by (auto simp: repair_and_announce_def split: option.splits)
  then have "bindings_repaired now c db db' \<and> (events_wf db \<longrightarrow> events_wf db')
    \<and> commands db' = commands db \<and> devices (core_of db') = devices (core_of db)"
  proof cases
    case (2 b b')
    note keeps = stream.append_all_keeps [OF 2(3)]
    show ?thesis
      using 2(1,2) keeps(2) core_ofD(5,6) [OF keeps(1)] arg_cong [OF keeps(1), of devices]
      by (auto simp: bindings_repaired_def)
  qed (simp add: bindings_repaired_def)
  then show "bindings_repaired now c db db'" "events_wf db \<Longrightarrow> events_wf db'"
    "commands db' = commands db" "devices (core_of db') = devices (core_of db)" by auto
qed

lemma expire_command_Some:
  assumes "expire_command now (command_id, device_id, owner) db = Inr (Some (db', ns))"
  obtains c where "c \<in> set (commands db)" "cmd_id c = command_id" "cmd_device_id c = device_id"
    "cmd_owner_user_id c = owner" "overdue now c"
    "commands db' = commands (put_command (expired_form now c) db)"
    "devices (core_of db') = devices (core_of db)"
    "events_wf db \<longrightarrow> events_wf db'"
    "bindings_repaired now (expired_form now c) db db'"
proof -
  let ?db1 = "snd (lock_owner_cursor owner db)"
  note lock = core_ofD [OF stream.lock_core [of owner db]]
  obtain c es1 db3 es2 where c: "scalar (\<lambda>c. cmd_id c = command_id \<and> cmd_device_id c = device_id
         \<and> cmd_owner_user_id c = owner \<and> overdue now c) (commands db) = Some c"
      "append_all event_append now [command_event (expired_form now c)]
        (add_audit (expire_audit now c) (put_command (expired_form now c) ?db1)) = Inr (es1, db3)"
      "repair_and_announce now (expired_form now c) db3 = Inr (es2, db')"
    using assms lock by (auto simp: expire_command_def Let_def split: option.splits sum.splits if_splits)
  note k = stream.append_all_keeps [OF c(2)]
  note rep = repair_and_announce_Inr [OF c(3)]
  have core3: "core_of db3 = add_audit (expire_audit now c) (put_command (expired_form now c) (core_of db))"
    using k(1) stream.lock_core [of owner db] by simp
  show thesis
  proof (rule that [of c])
    show "c \<in> set (commands db)" "cmd_id c = command_id" "cmd_device_id c = device_id"
      "cmd_owner_user_id c = owner" "overdue now c"
      using scalar_SomeD [OF c(1)] by auto
    show "commands db' = commands (put_command (expired_form now c) db)"
      using rep(3) core_ofD(6) [OF k(1)] lock by (simp add: put_command_def)
    show "devices (core_of db') = devices (core_of db)" using rep(4) core3 by simp
    show "events_wf db \<longrightarrow> events_wf db'" using k(2) rep(2) stream.lock_ok by simp
    show "bindings_repaired now (expired_form now c) db db'"
      using rep(1) bindings_repaired_cong [of db3 db] core_ofD(5) [OF k(1)] lock(5) by simp
  qed
qed

definition candidate_of :: "command \<Rightarrow> uuid \<times> uuid \<times> ustr" where
  "candidate_of c = (cmd_id c, cmd_device_id c, cmd_owner_user_id c)"

lemma expire_command_None:
  assumes "expire_command now cand db = Inr None"
  shows "\<not> has_device cand db \<or> (\<forall>c \<in> set (commands db). candidate_of c = cand \<longrightarrow> \<not> overdue now c)"
proof -
  obtain command_id device_id owner where cand: "cand = (command_id, device_id, owner)"
    by (cases cand) auto
  have lock: "commands (snd (lock_owner_cursor owner db)) = commands db"
    using core_ofD [OF stream.lock_core] by simp
  show ?thesis
    using assms lock
    by (auto simp: cand expire_command_def Let_def has_device_def candidate_of_def scalar_None_iff
        split: option.splits sum.splits if_splits)
qed

interpretation command_sweep: sweep "expire_command now" commands cmd_id candidate_of "overdue now"
  "\<lambda>c c'. c' = expired_form now c" for now
proof unfold_locales
  fix cand db db' ns
  assume s: "expire_command now cand db = Inr (Some (db', ns))"
  obtain i d o' where cand: "cand = (i, d, o')" by (cases cand) auto
  obtain c where c: "c \<in> set (commands db)" "cmd_id c = i" "cmd_device_id c = d"
    "cmd_owner_user_id c = o'" "overdue now c"
    "commands db' = commands (put_command (expired_form now c) db)"
    "devices (core_of db') = devices (core_of db)"
    "events_wf db \<longrightarrow> events_wf db'"
    "bindings_repaired now (expired_form now c) db db'"
    using s unfolding cand by (rule expire_command_Some)
  then show "\<exists>r r'. r \<in> set (commands db) \<and> candidate_of r = cand \<and> overdue now r
      \<and> r' = expired_form now r
      \<and> commands db' = update_where (\<lambda>x. cmd_id x = cmd_id r') (\<lambda>_. r') (commands db)"
    by (auto simp: candidate_of_def cand put_command_def)
  show "devices (core_of db') = devices (core_of db)" "events_wf db \<Longrightarrow> events_wf db'"
    using c(7,8) by blast+
qed (use expire_command_None in \<open>auto simp: candidate_of_def\<close>)

section \<open>A sample run\<close>

definition sample_metadata :: request_metadata where
  "sample_metadata = \<lparr>rm_request_id = None, rm_source_ip = None, rm_user_agent = None\<rparr>"

text \<open>The hash is instantiated by the identity, the rendering of other values by \<open>dumps\<close>.\<close>

definition sample_create :: "uuid \<Rightarrow> dict \<Rightarrow> database \<Rightarrow> (command_error + command) \<times> database \<times> notice list"
where
  "sample_create cid params = command_create id (dumps True) default_settings 1000 cid sample_metadata
     (u ''user-1'') sample_device ''model/list'' params (u ''key-1'') None None (Some (u ''scope-1''))"

lemma sample_budget:
  "validate_command_budget 1 (u ''epoch-0000000001'') [u ''/work''] ''model/list'' [] (u ''key-1'') 262144
     = None"
proof -
  have "content (u ''key-1'') = 5" by (simp add: content_length u_def escape_plain)
  moreover have "length (dumps True (JObj [])) = 2" "all_finite (JObj [])"
    "connector_compact_json_size (JObj []) = Some 2"
    by (simp_all add: connector_compact_json_size_def go_escape_def utf8_length_def surrogate_def
        utf8_width_def)
  moreover have "all_finite (command_frame fid did epoch seq ack sent cid key m [] deadline)"
    for fid did epoch seq ack sent cid key m deadline by (simp add: command_frame_def)
  ultimately show ?thesis
    unfolding validate_command_budget_def first_error_None
    by (simp add: exceeds_None ensure_ascii_json_byte_length_def frame_size sample_nat_str
        sample_content projected_command_params_def MAX_ENSURE_ASCII_PARAMS_BYTES_def
        MAX_ENSURE_ASCII_PROJECTED_BYTES_def MAX_FRAME_BYTES_def del: dumps.simps all_finite.simps)
qed

lemma sample_create_eq:
  "sample_create cid [] = create_serialized default_settings 1000 cid sample_metadata (u ''user-1'')
     sample_device ''model/list'' [] (u ''key-1'') None None (u ''scope-1'')
     (canonical_document ''model/list'' [] (Some (u ''scope-1'')))"
  using sample_budget
  by (simp add: sample_create_def command_create_def fun_eq_iff ALLOWED_RPC_METHODS_def Let_def
      canonical_request_hash_def)

definition sample_command :: command where
  "sample_command = new_command default_settings 1000 7 (u ''user-1'') sample_device ''model/list'' []
     (u ''key-1'') None None (u ''scope-1'')
     (canonical_document ''model/list'' [] (Some (u ''scope-1'')))"

lemma sample_command_sel [simp]:
  "cmd_id sample_command = 7" "cmd_owner_user_id sample_command = u ''user-1''"
  "cmd_device_id sample_command = 1" "cmd_thread_binding_id sample_command = None"
  by (simp_all add: sample_command_def new_command_def)

lemma sample_create_ok: "fst (sample_create 7 [] sample_database) = Inr sample_command"
  by (simp add: sample_create_eq create_serialized_def find_existing_def sample_database_def
      empty_database_def Let_def lock_owner_cursor_def
      cursor_row_def visible_binding_def event_append_def allocate_owner_cursor_def bump_device_def
      row_event_def MAX_EVENT_CURSOR_def add_audit_def sample_command_def command_event_def)

section \<open>Canonical request documents\<close>

lemma storable_sort_keys: "storable fr j \<Longrightarrow> storable fr (sort_keys j)"
proof (induction j rule: sort_keys.induct)
  case (1 xs)
  then show ?case by (auto simp: list_all_iff)
next
  case (2 kvs)
  have "map fst (map (\<lambda>(k, v). (k, sort_keys v)) kvs) = map fst kvs"
    by (simp add: comp_def case_prod_unfold)
  then have "distinct (map fst (sort_key fst (map (\<lambda>(k, v). (k, sort_keys v)) kvs)))"
    using "2.prems" by (simp only: map_key_sort_key distinct_sort storable.simps)
  moreover have "list_all (\<lambda>(k, v). list_all valid_char k \<and> storable fr v)
      (sort_key fst (map (\<lambda>(k, v). (k, sort_keys v)) kvs))"
    using 2 by (fastforce simp: list_all_iff)
  ultimately show ?case by simp
qed auto

lemma valid_char_u: "list_all valid_char (u s)"
proof -
  have b: "of_char c < (256 :: nat)" for c using range_nat_of_char by auto
  have "valid_char (of_char c)" for c
  proof -
    have "of_char c < (1114112 :: nat)" "\<not> (55296 :: nat) \<le> of_char c" using b [of c] by linarith+
    then show ?thesis unfolding valid_char_def surrogate_def by blast
  qed
  then show ?thesis by (simp add: u_def list_all_iff)
qed

lemma sort_document:
  "sort_keys (JObj [(u ''method'', JStr m), (u ''params'', p), (u ''scope'', JStr sc)]) =
     JObj [(u ''method'', JStr m), (u ''params'', sort_keys p), (u ''scope'', JStr sc)]"
  by (simp add: u_def)

section \<open>Properties\<close>



text \<open>C18: quotas and uniqueness.  Whatever a creation request does, it leaves at most the configured
  number of outstanding and of stored commands per device and of stored commands per owner, at most
  one unfinished \<open>turn/start\<close> per thread, unique identifiers and unique idempotency keys, only
  allow-listed methods, and consistent event tables; and a refused request changes nothing and sends
  nothing.\<close>

theorem create_keeps_quotas:
  assumes "command_create sha256 py_str cfg now cid metadata owner dev method params key tb dl sc db
      = (r, db', ns)"
    and "commands_wf cfg (commands db)" "events_wf db"
  shows "commands_wf cfg (commands db') \<and> events_wf db'
    \<and> ((\<exists>e. r = Inl e) \<longrightarrow> db' = db \<and> ns = [])"
proof -
  consider "db' = db" "ns = []"
    | scope h where "method \<in> set ALLOWED_RPC_METHODS"
      "create_serialized cfg now cid metadata owner dev method params key tb dl scope h db = (r, db', ns)"
    using assms(1) by (auto simp: command_create_def Let_def split: if_splits option.splits)
  then show ?thesis
  proof cases
    case (2 scope h)
    then show ?thesis
      using create_serialized_tables [OF 2(2) assms(2,3)] create_serialized_Inl by blast
  qed (use assms in simp)
qed

lemma sample_commands_wf: "commands_wf default_settings (commands sample_database)"
  by (simp add: commands_wf_def sample_database_def empty_database_def)

theorem create_keeps_quotas_witness:
  "commands_wf default_settings (commands (fst (snd (sample_create 7 [] sample_database))))"
  using create_keeps_quotas [of id "dumps True" default_settings 1000 7 sample_metadata "u ''user-1''"
      sample_device "''model/list''" "[]" "u ''key-1''" None None "Some (u ''scope-1'')" sample_database]
    sample_commands_wf sample_events_wf
  by (metis prod.collapse sample_create_def)

lemma created_key:
  assumes "create_serialized cfg now cid metadata owner dev method params key tb dl scope h db
      = (Inr c, db', ns)"
  shows "command_key c = (owner, dev_id dev, scope, key)" "cmd_request_hash c = h"
proof -
  have "command_key c = (owner, dev_id dev, scope, key) \<and> cmd_request_hash c = h"
    using assms
  proof (cases rule: create_serialized_Inr)
    case replay
    then show ?thesis using scalar_SomeD(2) by (force simp: find_existing_def command_key_def)
  next
    case (fresh d events)
    then show ?thesis using scalar_SomeD(2) [OF fresh(2)] by simp
  qed
  then show "command_key c = (owner, dev_id dev, scope, key)" "cmd_request_hash c = h" by auto
qed

text \<open>C33: retrying is safe.  After a request was answered with a command, the same request, repeated
  at any later time while the command is stored in whatever later state, is answered with that
  stored command and changes nothing; and a request that reuses its key and scope but has another
  hash is refused as a conflict and changes nothing.\<close>

theorem create_retry:
  assumes "command_create sha256 py_str cfg now cid metadata owner dev method params key tb dl sc db
      = (Inr c, db1, ns)"
    and "commands_wf cfg (commands db2)" "c' \<in> set (commands db2)" "cmd_progress c c'"
  shows "(\<exists>ns'. command_create sha256 py_str cfg now' cid' metadata' owner dev method params key tb dl' sc db2
      = (Inr c', db2, ns'))
    \<and> (cmd_request_hash c \<noteq> h \<longrightarrow>
       create_serialized cfg now' cid' metadata' owner dev method' params' key tb dl'
         (cmd_idempotency_scope c) h db2 = (Inl Command_Idempotency_Conflict, db2, []))"
proof -
  obtain scope where ok: "method \<in> set ALLOWED_RPC_METHODS"
    "validate_command_budget (dev_id dev) (or_empty (dev_active_epoch dev)) (dev_workspace_roots dev)
       method params key (device_max_envelope_bytes cfg) = None"
    "scope = (if truthy sc then or_empty sc else command_scope py_str (dev_id dev) method tb params)"
    "\<not> (scope = [] \<or> length scope > 512)"
    and c: "create_serialized cfg now cid metadata owner dev method params key tb dl scope
       (canonical_request_hash sha256 method params (Some scope)) db = (Inr c, db1, ns)"
    using assms(1) by (auto simp: command_create_def Let_def split: if_splits option.splits)
  note key = created_key [OF c] and prog = cmd_progressD [OF assms(4)]
  have "find_existing owner (dev_id dev) scope key db2 = Some c'"
    using find_existing_unique [of db2 c'] assms(2,3) key(1) prog(2) by (simp add: commands_wf_def)
  moreover have "cmd_idempotency_scope c = scope" using key(1) by (simp add: command_key_def)
  ultimately show ?thesis
    using ok key(2) prog(7)
    by (simp add: command_create_def create_serialized_def reuse_existing_def Let_def)
qed

theorem create_retry_witness:
  "\<exists>ns. command_create id (dumps True) default_settings 2000 8 sample_metadata (u ''user-1'')
      sample_device ''model/list'' [] (u ''key-1'') None None (Some (u ''scope-1''))
      (sample_database\<lparr>commands := [expired_form 1500 sample_command]\<rparr>)
    = (Inr (expired_form 1500 sample_command),
       sample_database\<lparr>commands := [expired_form 1500 sample_command]\<rparr>, ns)"
proof -
  obtain db1 ns where c: "command_create id (dumps True) default_settings 1000 7 sample_metadata
      (u ''user-1'') sample_device ''model/list'' [] (u ''key-1'') None None (Some (u ''scope-1''))
      sample_database = (Inr sample_command, db1, ns)"
    using sample_create_ok unfolding sample_create_def by (metis prod.collapse)
  have "commands_wf default_settings (commands (sample_database\<lparr>commands := [expired_form 1500 sample_command]\<rparr>))"
    by (simp add: commands_wf_def outstanding_on_def active_turn_start_def outstanding_def
        expired_form_def sample_command_def new_command_def ALLOWED_RPC_METHODS_def)
  moreover have "cmd_progress sample_command (expired_form 1500 sample_command)"
    by (simp add: cmd_progress_def cmd_base_def expired_form_def sample_command_def)
  ultimately show ?thesis using create_retry [OF c] by simp
qed

text \<open>C34: what a new command is.  A request that is not a replay appends exactly one command: queued,
  for the owner and the device, bound to the epoch of the stored device, with the hash of the
  request, and due after the smaller of the requested and the configured time; it records one audit
  entry, announces the command and, when its thread is visible, the thread, and wakes the device
  first.\<close>

theorem create_fresh_effects:
  assumes "create_serialized cfg now cid metadata owner dev method params key tb dl scope h db
      = (Inr c, db', ns)"
    and "find_existing owner (dev_id dev) scope key db = None"
  shows "commands db' = commands db @ [c] \<and> cmd_id c = cid \<and> cmd_status c = QUEUED
    \<and> cmd_request_hash c = h \<and> cmd_payload c = params \<and> command_key c = (owner, dev_id dev, scope, key)
    \<and> (\<exists>d \<in> set (devices db). dev_id d = dev_id dev \<and> dev_status d = ACTIVE
         \<and> cmd_appserver_epoch c = dev_active_epoch d)
    \<and> (\<exists>ttl \<le> command_ttl_seconds cfg. cmd_expires_at c = Some (now + seconds (int ttl))
         \<and> (\<forall>n. dl = Some n \<longrightarrow> 0 < n \<longrightarrow> ttl \<le> n))
    \<and> audit_events db' = audit_events db @ [create_audit now metadata c]
    \<and> thread_bindings db' = thread_bindings db \<and> approvals db' = approvals db
    \<and> (\<exists>events. ns = Wake_Command (dev_id dev) cid # map (Publish_Event owner) events
         \<and> length events = (if visible_binding owner tb db = None then 1 else 2))"
  using assms(1)
proof (cases rule: create_serialized_Inr)
  case replay
  then show ?thesis using assms(2) by simp
next
  case (fresh d events)
  note k = stream.append_all_keeps [OF fresh(9)]
  note t = core_ofD [OF k(1)] and l = core_ofD [OF stream.lock_core [of owner db]]
  have d: "d \<in> set (devices db)" "dev_id d = dev_id dev" "dev_status d = ACTIVE"
    using scalar_SomeD [OF fresh(2)] by auto
  have "length events = (if visible_binding owner tb db = None then 1 else 2)"
    using k(3) by (auto split: option.splits)
  moreover have "cmd_payload c = params" "cmd_appserver_epoch c = dev_active_epoch d"
    by (simp_all add: fresh(8) new_command_def Let_def)
  moreover have "\<exists>ttl \<le> command_ttl_seconds cfg. cmd_expires_at c = Some (now + seconds (int ttl))
         \<and> (\<forall>n. dl = Some n \<longrightarrow> 0 < n \<longrightarrow> ttl \<le> n)"
  proof (cases dl)
    case (Some n)
    then show ?thesis
      by (intro exI [of _ "min (if n = 0 then command_ttl_seconds cfg else n) (command_ttl_seconds cfg)"])
        (simp add: fresh(8) new_command_def Let_def)
  next
    case None
    then show ?thesis
      by (intro exI [of _ "command_ttl_seconds cfg"]) (simp add: fresh(8) new_command_def Let_def)
  qed
  ultimately show ?thesis
    using t l d fresh(8,10) by auto
qed

theorem create_fresh_effects_witness:
  "\<exists>db' ns. create_serialized default_settings 1000 7 sample_metadata (u ''user-1'') sample_device
      ''model/list'' [] (u ''key-1'') None None (u ''scope-1'')
      (canonical_document ''model/list'' [] (Some (u ''scope-1''))) sample_database
      = (Inr sample_command, db', ns) \<and> commands db' = [sample_command]"
proof -
  obtain db' ns where c: "create_serialized default_settings 1000 7 sample_metadata (u ''user-1'')
      sample_device ''model/list'' [] (u ''key-1'') None None (u ''scope-1'')
      (canonical_document ''model/list'' [] (Some (u ''scope-1''))) sample_database
      = (Inr sample_command, db', ns)"
    using sample_create_ok unfolding sample_create_eq by (metis prod.collapse)
  have e: "commands sample_database = []" by (simp add: sample_database_def empty_database_def)
  then have "find_existing (u ''user-1'') (dev_id sample_device) (u ''scope-1'') (u ''key-1'') sample_database = None"
    by (simp add: find_existing_def)
  from create_fresh_effects [OF c this] c e show ?thesis by auto
qed



end
