(* ===== verification/Approvals.thy ===== *)
theory Approvals
  imports Commands
begin

text \<open>
  \<open>approvals.py\<close>: decisions of the user on approval requests of a device, and the default denials
  (stale epoch, lost connection, revoked device, timeout).  A registry lookup in the key-value store
  is an argument \<open>lookup\<close>: \<open>None\<close> when the store raises, \<open>Some raw\<close> otherwise.  The
  operations that run inside the transaction of a caller take and give the database; the request
  handlers return what is committed and the notices they try to send.
\<close>

section \<open>Operations\<close>

datatype approval_error =
    Approval_Not_Found
  | Approval_Expired
  | Approval_Stale_Epoch
  | Approval_Device_Offline
  | Approval_Decision_Conflict
  | Approval_Store_Error
  | Approval_Event_Error event_error

definition NON_DISPATCHABLE_APPROVAL_REASONS :: "string list" where
  "NON_DISPATCHABLE_APPROVAL_REASONS = [''device_offline_default_deny'', ''disconnect_default_deny'',
     ''device_revoked_default_deny'', ''stale_epoch_default_deny'']"

definition approval_item_of :: "approval \<Rightarrow> device \<Rightarrow> approval_item" where
  "approval_item_of a d = \<lparr>ai_approval_id = apv_id a,
     ai_command_id = (if truthy (apv_external_command_id a) then or_empty (apv_external_command_id a)
       else case apv_command_id a of None \<Rightarrow> [] | Some i \<Rightarrow> uuid_str i),
     ai_kind = apv_approval_kind a, ai_summary = apv_summary a, ai_details = apv_request a,
     ai_expires_at = apv_expires_at a, ai_device_id = dev_id d, ai_device_name = dev_name d,
     ai_created_at = apv_requested_at a\<rparr>"

text \<open>The newest first; the join pairs an approval with the device of its identifier.\<close>

definition list_pending :: "datetime \<Rightarrow> ustr \<Rightarrow> database \<Rightarrow> approval_item list" where
  "list_pending now owner db =
     map (\<lambda>(a, d). approval_item_of a d)
       (sort_key (\<lambda>(a, d). - apv_requested_at a)
         [(a, d). a \<leftarrow> approvals db, d \<leftarrow> devices db,
           dev_id d = apv_device_id a \<and> apv_owner_user_id a = owner
           \<and> apv_status a = APPROVAL_PENDING \<and> apv_expires_at a > now \<and> dev_status d \<noteq> REVOKED])"

definition put_approval :: "approval \<Rightarrow> database \<Rightarrow> database" where
  "put_approval a db = db\<lparr>approvals := update_where (\<lambda>x. apv_id x = apv_id a) (\<lambda>_. a) (approvals db)\<rparr>"

definition registry_dict :: "(ustr \<Rightarrow> ustr) \<Rightarrow> ustr option \<Rightarrow> dict" where
  "registry_dict fr raw =
     (case raw of
        None \<Rightarrow> []
      | Some t \<Rightarrow> (case loads fr t of Some (JObj d) \<Rightarrow> d | _ \<Rightarrow> []))"

definition registry_matches :: "(ustr \<Rightarrow> ustr) \<Rightarrow> device \<Rightarrow> ustr option \<Rightarrow> bool" where
  "registry_matches fr d raw \<longleftrightarrow> truthy (dev_active_connection_nonce d)
     \<and> dict_get (registry_dict fr raw) (u ''connection_nonce'') = map_option JStr (dev_active_connection_nonce d)
     \<and> dict_get (registry_dict fr raw) (u ''epoch'') = map_option JStr (dev_active_epoch d)"

definition epoch_current :: "approval \<Rightarrow> device \<Rightarrow> bool" where
  "epoch_current a d \<longleftrightarrow> truthy (dev_active_epoch d) \<and> dev_active_epoch d = Some (apv_appserver_epoch a)"

subsection \<open>Default denial\<close>

definition denied_form :: "datetime \<Rightarrow> string \<Rightarrow> approval \<Rightarrow> approval" where
  "denied_form now reason a = a\<lparr>apv_status := APPROVAL_DENIED, apv_decided_at := Some now,
     apv_decided_by_session_id := None, apv_decision_reason := Some reason,
     apv_external_command_id := None, apv_summary := u ''Approval denied'', apv_request := []\<rparr>"

definition default_deny_audit :: "datetime \<Rightarrow> approval \<Rightarrow> device \<Rightarrow> dict \<Rightarrow> audit_event" where
  "default_deny_audit now a d details =
     \<lparr>aud_actor_user_id = Some (apv_owner_user_id a), aud_actor_session_id = None,
      aud_actor_device_id = Some (dev_id d), aud_action = ''approval.default_deny'',
      aud_outcome = AUDIT_DENIED, aud_resource_type = Some ''approval'',
      aud_resource_id = Some (uuid_str (apv_id a)), aud_request_id = None, aud_source_ip = None,
      aud_user_agent = None, aud_details = details, aud_created_at = now\<rparr>"

definition approval_command :: "approval \<Rightarrow> database \<Rightarrow> command option" where
  "approval_command a db =
     (case apv_command_id a of
        None \<Rightarrow> None
      | Some i \<Rightarrow> scalar (\<lambda>c. cmd_id c = i \<and> cmd_device_id c = apv_device_id a
          \<and> cmd_owner_user_id c = apv_owner_user_id a) (commands db))"

definition approval_binding :: "approval \<Rightarrow> database \<Rightarrow> thread_binding option" where
  "approval_binding a db =
     (case approval_command a db of
        None \<Rightarrow> None
      | Some c \<Rightarrow>
          (case cmd_thread_binding_id c of
             None \<Rightarrow> None
           | Some i \<Rightarrow> scalar (\<lambda>b. thr_id b = i \<and> thr_device_id b = apv_device_id a
               \<and> thr_owner_user_id b = apv_owner_user_id a) (thread_bindings db)))"

definition failed_binding :: "datetime \<Rightarrow> string \<Rightarrow> thread_binding \<Rightarrow> thread_binding" where
  "failed_binding now reason b = b\<lparr>thr_status := THREAD_FAILED, thr_active_turn_id := None,
     thr_last_error := Some (u reason), thr_updated_at := now\<rparr>"

definition append_default_deny_effects ::
  "datetime \<Rightarrow> approval \<Rightarrow> device \<Rightarrow> string \<Rightarrow> dict \<Rightarrow> database
     \<Rightarrow> event_error + browser_event list \<times> database" where
  "append_default_deny_effects now a d reason audit_details db =
     (let db1 = add_audit (default_deny_audit now a d audit_details) db in
      case append_all event_append now
          [(dev_owner_user_id d, dev_id d, ''approval.resolved'',
            ApprovalResolvedData (apv_id a) ''deny'' (Some reason), None)] db1 of
        Inl e \<Rightarrow> Inl e
      | Inr (events, db2) \<Rightarrow>
          (case approval_binding a db2 of
             None \<Rightarrow> Inr (events, db2)
           | Some b \<Rightarrow>
               if reason \<noteq> ''device_revoked_default_deny'' \<and> thr_status b \<notin> {CLOSED, STALE}
               then
                 let b' = failed_binding now reason b in
                 (case append_all event_append now
                     [(dev_owner_user_id d, dev_id d, ''thread.updated'', thread_event_data b',
                       Some (thr_id b'))] (put_binding b' db2) of
                    Inl e \<Rightarrow> Inl e
                  | Inr (events', db3) \<Rightarrow> Inr (events @ events', db3))
               else Inr (events, db2)))"

definition default_deny_tx ::
  "datetime \<Rightarrow> approval \<Rightarrow> device \<Rightarrow> string \<Rightarrow> database \<Rightarrow> event_error + browser_event list \<times> database"
where
  "default_deny_tx now a d reason db =
     append_default_deny_effects now (denied_form now reason a) d reason
       [(u ''reason'', JStr (u reason))] (put_approval (denied_form now reason a) db)"

definition notify :: "ustr \<Rightarrow> uuid \<Rightarrow> uuid \<Rightarrow> browser_event list \<Rightarrow> bool \<Rightarrow> notice list" where
  "notify owner device_id approval_id events dispatchable =
     (if dispatchable then [Wake_Approval device_id approval_id] else [])
     @ map (Publish_Event owner) events"

text \<open>The reason of a timeout and whether the device is told.\<close>

definition expired_denial ::
  "(ustr \<Rightarrow> ustr) \<Rightarrow> (uuid \<Rightarrow> ustr option option) \<Rightarrow> device \<Rightarrow> approval \<Rightarrow> string \<times> bool" where
  "expired_denial fr lookup d a =
     (if dev_status d \<noteq> ACTIVE then (''device_revoked_default_deny'', False)
      else if \<not> epoch_current a d then (''stale_epoch_default_deny'', False)
      else if \<not> truthy (dev_active_connection_nonce d) then (''device_offline_default_deny'', False)
      else case lookup (dev_id d) of
        None \<Rightarrow> (''device_offline_default_deny'', False)
      | Some raw \<Rightarrow>
          if registry_matches fr d raw then (''timeout_default_deny'', True)
          else (''device_offline_default_deny'', False))"

subsection \<open>Decision of the user\<close>

definition dispatchable :: "approval \<Rightarrow> device \<Rightarrow> bool" where
  "dispatchable a d \<longleftrightarrow> apv_decision_dispatched_at a = None \<and> dev_status d = ACTIVE
     \<and> truthy (dev_active_connection_nonce d) \<and> dev_active_epoch d = Some (apv_appserver_epoch a)
     \<and> (\<forall>r. apv_decision_reason a = Some r \<longrightarrow> r \<notin> set NON_DISPATCHABLE_APPROVAL_REASONS)"

definition deny_and_fail ::
  "datetime \<Rightarrow> ustr \<Rightarrow> approval \<Rightarrow> device \<Rightarrow> string \<Rightarrow> bool \<Rightarrow> approval_error \<Rightarrow> database \<Rightarrow> database
     \<Rightarrow> (approval_error + approval) \<times> database \<times> notice list" where
  "deny_and_fail now owner a d reason wake err db db1 =
     (case default_deny_tx now a d reason db1 of
        Inl e \<Rightarrow> (Inl (Approval_Event_Error e), db, [])
      | Inr (events, db2) \<Rightarrow> (Inl err, db2, notify owner (dev_id d) (apv_id a) events wake))"

definition decided_form :: "datetime \<Rightarrow> uuid \<Rightarrow> string \<Rightarrow> approval \<Rightarrow> approval" where
  "decided_form now session_id decision a = a\<lparr>
     apv_status := (if decision = ''approve'' then APPROVED else APPROVAL_DENIED),
     apv_decided_at := Some now, apv_decided_by_session_id := Some session_id,
     apv_decision_reason := Some (if decision = ''approve'' then ''user_approved'' else ''user_denied'')\<rparr>"

definition decide_audit ::
  "datetime \<Rightarrow> ustr \<Rightarrow> uuid \<Rightarrow> request_metadata \<Rightarrow> string \<Rightarrow> approval \<Rightarrow> device \<Rightarrow> audit_event" where
  "decide_audit now owner session_id metadata decision a d =
     \<lparr>aud_actor_user_id = Some owner, aud_actor_session_id = Some session_id,
      aud_actor_device_id = None, aud_action = ''approval.decide'', aud_outcome = AUDIT_SUCCEEDED,
      aud_resource_type = Some ''approval'', aud_resource_id = Some (uuid_str (apv_id a)),
      aud_request_id = rm_request_id metadata, aud_source_ip = rm_source_ip metadata,
      aud_user_agent = rm_user_agent metadata,
      aud_details = [(u ''decision'', JStr (u decision)), (u ''device_id'', JStr (uuid_str (dev_id d))),
        (u ''epoch'', JStr (apv_appserver_epoch a))],
      aud_created_at = now\<rparr>"

definition decide ::
  "(ustr \<Rightarrow> ustr) \<Rightarrow> (uuid \<Rightarrow> ustr option option) \<Rightarrow> datetime \<Rightarrow> request_metadata \<Rightarrow> ustr \<Rightarrow> uuid \<Rightarrow> string
     \<Rightarrow> uuid \<Rightarrow> database \<Rightarrow> (approval_error + approval) \<times> database \<times> notice list" where
  "decide fr lookup now metadata owner approval_id decision session_id db =
     (case scalar (\<lambda>a. apv_id a = approval_id \<and> apv_owner_user_id a = owner) (approvals db) of
        None \<Rightarrow> (Inl Approval_Not_Found, db, [])
      | Some a0 \<Rightarrow>
     (case scalar (\<lambda>d. dev_id d = apv_device_id a0) (devices db) of
        None \<Rightarrow> (Inl Approval_Not_Found, db, [])
      | Some d \<Rightarrow>
          let db1 = snd (lock_owner_cursor owner db) in
     (case scalar (\<lambda>a. apv_id a = approval_id \<and> apv_owner_user_id a = owner
               \<and> apv_device_id a = dev_id d) (approvals db1) of
        None \<Rightarrow> (Inl Approval_Not_Found, db, [])
      | Some a \<Rightarrow>
          let desired = decided_form now session_id decision a in
          if apv_status a \<noteq> APPROVAL_PENDING then
            if apv_status a = apv_status desired \<and> apv_decision_reason a = apv_decision_reason desired
            then (Inr a, db1, notify owner (dev_id d) (apv_id a) [] (dispatchable a d))
            else (Inl Approval_Decision_Conflict, db, [])
          else if dev_status d \<noteq> ACTIVE then
            deny_and_fail now owner a d ''device_revoked_default_deny'' False Approval_Not_Found db db1
          else if \<not> epoch_current a d then
            deny_and_fail now owner a d ''stale_epoch_default_deny'' False Approval_Stale_Epoch db db1
          else if apv_expires_at a \<le> now then
            (case expired_denial fr lookup d a of
               (reason, wake) \<Rightarrow> deny_and_fail now owner a d reason wake Approval_Expired db db1)
          else
     (case lookup (dev_id d) of
        None \<Rightarrow> (Inl Approval_Store_Error, db, [])
      | Some raw \<Rightarrow>
          if \<not> registry_matches fr d raw then
            deny_and_fail now owner a d ''device_offline_default_deny'' False Approval_Device_Offline db db1
          else
            let db2 = add_audit (decide_audit now owner session_id metadata decision a d)
                  (put_approval desired db1)
            in case append_all event_append now
                 [(owner, dev_id d, ''approval.resolved'',
                   ApprovalResolvedData (apv_id a) decision None, None)] db2 of
                 Inl e \<Rightarrow> (Inl (Approval_Event_Error e), db, [])
               | Inr (events, db3) \<Rightarrow>
                   (Inr desired, db3, notify owner (dev_id d) (apv_id a) events True)))))"

subsection \<open>Denials when a connection is lost or replaced\<close>

definition undispatched :: "device \<Rightarrow> ustr option \<Rightarrow> approval \<Rightarrow> bool" where
  "undispatched d current_epoch a \<longleftrightarrow>
     apv_device_id a = dev_id d \<and> apv_decision_dispatched_at a = None
     \<and> (apv_status a \<in> {APPROVAL_PENDING, APPROVED}
        \<or> apv_status a = APPROVAL_DENIED
          \<and> (\<forall>r. apv_decision_reason a = Some r \<longrightarrow> r \<notin> set NON_DISPATCHABLE_APPROVAL_REASONS))
     \<and> (\<forall>e. current_epoch = Some e \<longrightarrow> apv_appserver_epoch a \<noteq> e)"

fun deny_each ::
  "datetime \<Rightarrow> device \<Rightarrow> string \<Rightarrow> (approval \<Rightarrow> dict) \<Rightarrow> approval list \<Rightarrow> database
     \<Rightarrow> event_error + browser_event list \<times> database" where
  "deny_each now d reason details [] db = Inr ([], db)"
| "deny_each now d reason details (a # as) db =
     (case append_default_deny_effects now a d reason (details a) db of
        Inl e \<Rightarrow> Inl e
      | Inr (events, db1) \<Rightarrow>
          (case deny_each now d reason details as db1 of
             Inl e \<Rightarrow> Inl e
           | Inr (events', db2) \<Rightarrow> Inr (events @ events', db2)))"

definition deny_undispatched ::
  "datetime \<Rightarrow> device \<Rightarrow> string \<Rightarrow> string \<Rightarrow> ustr option \<Rightarrow> database
     \<Rightarrow> event_error + browser_event list \<times> database" where
  "deny_undispatched now d reason audit_reason current_epoch db =
     (let db1 = snd (lock_owner_cursor (dev_owner_user_id d) db);
          claimed = filter (undispatched d current_epoch) (approvals db1);
          db2 = db1\<lparr>approvals := update_where (undispatched d current_epoch) (denied_form now reason)
                  (approvals db1)\<rparr>;
          details = (\<lambda>a. [(u ''reason'', JStr (u audit_reason)), (u ''epoch'', JStr (apv_appserver_epoch a))]
            @ (case current_epoch of None \<Rightarrow> [] | Some e \<Rightarrow> [(u ''current_epoch'', JStr e)]))
      in if claimed = [] then Inr ([], db1)
         else deny_each now d reason details
                (sort_key (\<lambda>a. (apv_requested_at a, apv_id a)) (map (denied_form now reason) claimed)) db2)"

definition deny_stale_epoch ::
  "datetime \<Rightarrow> device \<Rightarrow> ustr \<Rightarrow> database \<Rightarrow> event_error + browser_event list \<times> database" where
  "deny_stale_epoch now d current_epoch db =
     deny_undispatched now d ''stale_epoch_default_deny'' ''stale_epoch'' (Some current_epoch) db"

definition deny_disconnected ::
  "datetime \<Rightarrow> device \<Rightarrow> database \<Rightarrow> event_error + browser_event list \<times> database" where
  "deny_disconnected now d db =
     deny_undispatched now d ''disconnect_default_deny'' ''disconnect'' None db"

definition deny_revoked ::
  "datetime \<Rightarrow> device \<Rightarrow> database \<Rightarrow> event_error + browser_event list \<times> database" where
  "deny_revoked now d db =
     deny_undispatched now d ''device_revoked_default_deny'' ''device_revoked'' None db"

subsection \<open>Sweeps\<close>

definition approval_overdue :: "datetime \<Rightarrow> approval \<Rightarrow> bool" where
  "approval_overdue now a \<longleftrightarrow> apv_status a = APPROVAL_PENDING \<and> apv_expires_at a \<le> now"

definition expire_approval ::
  "(ustr \<Rightarrow> ustr) \<Rightarrow> (uuid \<Rightarrow> ustr option option) \<Rightarrow> datetime \<Rightarrow> uuid \<times> uuid \<times> ustr \<Rightarrow> database
     \<Rightarrow> event_error + (database \<times> notice list) option" where
  "expire_approval fr lookup now cand db =
     (case cand of (approval_id, device_id, owner) \<Rightarrow>
        case scalar (\<lambda>d. dev_id d = device_id \<and> dev_owner_user_id d = owner) (devices db) of
          None \<Rightarrow> Inr None
        | Some d \<Rightarrow>
            let db1 = snd (lock_owner_cursor owner db) in
            case scalar (\<lambda>a. apv_id a = approval_id \<and> apv_device_id a = device_id
                   \<and> apv_owner_user_id a = owner \<and> approval_overdue now a) (approvals db1) of
              None \<Rightarrow> Inr None
            | Some a \<Rightarrow>
                (case expired_denial fr lookup d a of
                   (reason, wake) \<Rightarrow>
                     (case default_deny_tx now a d reason db1 of
                        Inl e \<Rightarrow> Inl e
                      | Inr (events, db2) \<Rightarrow>
                          Inr (Some (db2, notify owner device_id approval_id events wake)))))"

definition approval_candidates :: "datetime \<Rightarrow> database \<Rightarrow> (uuid \<times> uuid \<times> ustr) list" where
  "approval_candidates now db =
     map (\<lambda>a. (apv_id a, apv_device_id a, apv_owner_user_id a))
       (select_ordered (approval_overdue now) (\<lambda>a. (apv_device_id a, apv_id a)) 500 (approvals db))"

definition approval_expire_due ::
  "(ustr \<Rightarrow> ustr) \<Rightarrow> (uuid \<Rightarrow> ustr option option) \<Rightarrow> datetime \<Rightarrow> database
     \<Rightarrow> (event_error + nat) \<times> database \<times> notice list" where
  "approval_expire_due fr lookup now db =
     sweep_loop (expire_approval fr lookup now) (approval_candidates now db) 0 db []"

text \<open>The decisions that the device of their epoch has not been told yet.  \<open>decided_at\<close> of a
  decided approval is set; a missing one would come last.\<close>

definition the_time :: "datetime option \<Rightarrow> datetime" where
  "the_time t = (case t of None \<Rightarrow> 0 | Some x \<Rightarrow> x)"

definition reconcilable :: "approval \<Rightarrow> device \<Rightarrow> bool" where
  "reconcilable a d \<longleftrightarrow> dev_id d = apv_device_id a \<and> apv_status a \<in> {APPROVED, APPROVAL_DENIED}
     \<and> apv_decision_dispatched_at a = None
     \<and> (\<forall>r. apv_decision_reason a = Some r \<longrightarrow> r \<notin> set NON_DISPATCHABLE_APPROVAL_REASONS)
     \<and> dev_status d = ACTIVE \<and> dev_active_connection_nonce d \<noteq> None
     \<and> dev_active_epoch d = Some (apv_appserver_epoch a)"

definition reconcile_undispatched :: "nat \<Rightarrow> database \<Rightarrow> notice list" where
  "reconcile_undispatched limit db =
     map (\<lambda>(a, d). Wake_Approval (dev_id d) (apv_id a))
       (take limit (sort_key (\<lambda>(a, d). (apv_decided_at a = None, the_time (apv_decided_at a), apv_id a))
         [(a, d). a \<leftarrow> approvals db, d \<leftarrow> devices db, reconcilable a d]))"

section \<open>What later steps may do to an approval\<close>

text \<open>The part of an approval that no operation of this component changes.\<close>

definition apv_base :: "approval \<Rightarrow> approval" where
  "apv_base a = a\<lparr>apv_status := APPROVAL_PENDING, apv_decided_at := None,
     apv_decided_by_session_id := None, apv_decision_reason := None, apv_external_command_id := None,
     apv_summary := [], apv_request := [], apv_decision_dispatched_at := None\<rparr>"

definition apv_progress :: "approval \<Rightarrow> approval \<Rightarrow> bool" where
  "apv_progress a a' \<longleftrightarrow> apv_base a' = apv_base a
     \<and> (apv_decision_dispatched_at a \<noteq> None \<longrightarrow> a' = a)
     \<and> (apv_status a = APPROVAL_PENDING \<or> apv_status a' = apv_status a \<or> apv_status a' = APPROVAL_DENIED)"

definition approvals_progress :: "approval list \<Rightarrow> approval list \<Rightarrow> bool" where
  "approvals_progress = list_all2 apv_progress"

lemma apv_base_simps [simp]:
  "apv_id (apv_base a) = apv_id a" "apv_owner_user_id (apv_base a) = apv_owner_user_id a"
  "apv_device_id (apv_base a) = apv_device_id a" "apv_command_id (apv_base a) = apv_command_id a"
  "apv_appserver_epoch (apv_base a) = apv_appserver_epoch a"
  "apv_expires_at (apv_base a) = apv_expires_at a" "apv_requested_at (apv_base a) = apv_requested_at a"
  "apv_request_hash (apv_base a) = apv_request_hash a"
  by (simp_all add: apv_base_def)

lemma apv_base_forms [simp]:
  "apv_base (denied_form now reason a) = apv_base a"
  "apv_base (decided_form now s decision a) = apv_base a"
  by (simp_all add: apv_base_def denied_form_def decided_form_def)

lemma apv_progress_refl [simp]: "apv_progress a a"
  by (simp add: apv_progress_def)

lemma apv_progress_trans: "apv_progress a b \<Longrightarrow> apv_progress b c \<Longrightarrow> apv_progress a c"
  by (auto simp: apv_progress_def)

lemma apv_progressD:
  assumes "apv_progress a a'"
  shows "apv_id a' = apv_id a" "apv_owner_user_id a' = apv_owner_user_id a"
    "apv_device_id a' = apv_device_id a" "apv_command_id a' = apv_command_id a"
    "apv_appserver_epoch a' = apv_appserver_epoch a" "apv_expires_at a' = apv_expires_at a"
    "apv_request_hash a' = apv_request_hash a"
  using assms unfolding apv_progress_def by (metis apv_base_simps)+

lemma approvals_progress_refl [simp]: "approvals_progress as as"
  by (simp add: approvals_progress_def list_all2_refl)

lemma approvals_progress_trans:
  "approvals_progress a b \<Longrightarrow> approvals_progress b c \<Longrightarrow> approvals_progress a c"
  unfolding approvals_progress_def by (rule list_all2_trans [OF apv_progress_trans])

lemma form_simps [simp]:
  "apv_id (denied_form now reason a) = apv_id a"
  "apv_device_id (denied_form now reason a) = apv_device_id a"
  "apv_owner_user_id (denied_form now reason a) = apv_owner_user_id a"
  "apv_command_id (denied_form now reason a) = apv_command_id a"
  "apv_appserver_epoch (denied_form now reason a) = apv_appserver_epoch a"
  "apv_status (denied_form now reason a) = APPROVAL_DENIED"
  "apv_decision_reason (denied_form now reason a) = Some reason"
  "apv_decision_dispatched_at (denied_form now reason a) = apv_decision_dispatched_at a"
  "apv_id (decided_form now s decision a) = apv_id a"
  "apv_decision_dispatched_at (decided_form now s decision a) = apv_decision_dispatched_at a"
  by (simp_all add: denied_form_def decided_form_def)

lemma denied_progress [simp]:
  "apv_decision_dispatched_at a = None \<Longrightarrow> apv_progress a (denied_form now reason a)"
  by (simp add: apv_progress_def)

lemma decided_progress [simp]:
  "apv_decision_dispatched_at a = None \<Longrightarrow> apv_status a = APPROVAL_PENDING \<Longrightarrow>
     apv_progress a (decided_form now s decision a)"
  by (simp add: apv_progress_def)

section \<open>Default denials\<close>

lemma put_approval_simps [simp]:
  "thread_bindings (put_approval a db) = thread_bindings db"
  "commands (put_approval a db) = commands db"
  "devices (put_approval a db) = devices db"
  "audit_events (put_approval a db) = audit_events db"
  "device_outboxes (put_approval a db) = device_outboxes db"
  "device_connections (put_approval a db) = device_connections db"
  "control_sessions (put_approval a db) = control_sessions db"
  "device_pairings (put_approval a db) = device_pairings db"
  "core_of (put_approval a db) = put_approval a (core_of db)"
  "events_wf (put_approval a db) = events_wf db"
  by (simp_all add: put_approval_def core_of_def) (intro events_wf_cong; simp)

lemma put_approval_progress:
  assumes "distinct (map apv_id (approvals db))" "a \<in> set (approvals db)" "apv_progress a a'"
  shows "approvals_progress (approvals db) (approvals (put_approval a' db))"
  unfolding approvals_progress_def put_approval_def
  using list_all2_put [OF assms(1,2), of a' apv_progress] assms(3) apv_progressD(1) by simp

text \<open>The threads after a default denial: the one that waited for the approval has failed, unless
  the device is gone or the thread was closed.\<close>

definition denied_bindings :: "datetime \<Rightarrow> string \<Rightarrow> approval \<Rightarrow> database \<Rightarrow> thread_binding list" where
  "denied_bindings now reason a db =
     (case approval_binding a db of
        None \<Rightarrow> thread_bindings db
      | Some b \<Rightarrow>
          if reason \<noteq> ''device_revoked_default_deny'' \<and> thr_status b \<notin> {CLOSED, STALE}
          then thread_bindings (put_binding (failed_binding now reason b) db)
          else thread_bindings db)"

lemma approval_binding_cong:
  assumes "commands db' = commands db" "thread_bindings db' = thread_bindings db"
  shows "approval_binding a db' = approval_binding a db"
    "denied_bindings now reason a db' = denied_bindings now reason a db"
proof -
  show b: "approval_binding a db' = approval_binding a db"
    unfolding approval_binding_def approval_command_def assms ..
  show "denied_bindings now reason a db' = denied_bindings now reason a db"
    unfolding denied_bindings_def b put_binding_def by (simp add: assms(2) split: option.split)
qed

lemma denied_binding_ids [simp]:
  "map thr_id (denied_bindings now reason a db) = map thr_id (thread_bindings db)"
  by (simp add: denied_bindings_def put_binding_def map_update_where split: option.split)

lemma approval_binding_form [simp]:
  "approval_binding (denied_form now r a) db = approval_binding a db"
  "denied_bindings now reason (denied_form now r a) db = denied_bindings now reason a db"
  unfolding denied_bindings_def approval_binding_def approval_command_def form_simps by (rule refl)+

lemma deny_effects_Inr:
  assumes "append_default_deny_effects now a d reason details db = Inr (events, db')"
  shows "core_of db' = (core_of (add_audit (default_deny_audit now a d details) db))
      \<lparr>thread_bindings := denied_bindings now reason a db\<rparr>"
    "events_wf db \<Longrightarrow> events_wf db'"
proof -
  let ?db1 = "add_audit (default_deny_audit now a d details) db"
  let ?fail = "\<lambda>b. reason \<noteq> ''device_revoked_default_deny'' \<and> thr_status b \<notin> {CLOSED, STALE}"
  obtain es db2 where a1: "append_all event_append now
          [(dev_owner_user_id d, dev_id d, ''approval.resolved'',
            ApprovalResolvedData (apv_id a) ''deny'' (Some reason), None)] ?db1 = Inr (es, db2)"
    using assms by (auto simp: append_default_deny_effects_def Let_def split: sum.splits
        simp del: append_all.simps)
  note k = stream.append_all_keeps [OF a1]
  have b: "approval_binding a db2 = approval_binding a db" "thread_bindings db2 = thread_bindings db"
    using approval_binding_cong(1) [of db2 db] core_ofD(5,6) [OF k(1)] by simp_all
  have "core_of db' = (core_of ?db1)\<lparr>thread_bindings := denied_bindings now reason a db\<rparr>
    \<and> (events_wf db \<longrightarrow> events_wf db')"
  proof (cases "\<exists>b. approval_binding a db = Some b \<and> ?fail b")
    case True
    then obtain b where bb: "approval_binding a db = Some b" "?fail b" by blast
    let ?b = "failed_binding now reason b"
    obtain es' where a2: "append_all event_append now
        [(dev_owner_user_id d, dev_id d, ''thread.updated'', thread_event_data ?b, Some (thr_id ?b))]
        (put_binding ?b db2) = Inr (es', db')"
      using assms bb b a1 by (auto simp: append_default_deny_effects_def Let_def split: sum.splits
          simp del: append_all.simps)
    note k2 = stream.append_all_keeps [OF a2]
    have "denied_bindings now reason a db = thread_bindings (put_binding ?b db)"
      using bb by (simp add: denied_bindings_def)
    moreover have "core_of db' = put_binding ?b (core_of ?db1)" using k(1) k2(1) by simp
    ultimately show ?thesis using k(2) k2(2) by (simp add: put_binding_def [of _ "add_audit _ _"] put_binding_def [of _ db])
  next
    case False
    then have "db' = db2" "denied_bindings now reason a db = thread_bindings db"
      using assms a1 b by (auto simp: append_default_deny_effects_def Let_def denied_bindings_def
          split: sum.splits option.splits if_splits simp del: append_all.simps)
    then have "core_of db' = (core_of ?db1)\<lparr>thread_bindings := denied_bindings now reason a db\<rparr>"
      using k(1) by (simp add: core_of_def add_audit_def)
    then show ?thesis using k(2) \<open>db' = db2\<close> by simp
  qed
  then show "core_of db' = (core_of ?db1)\<lparr>thread_bindings := denied_bindings now reason a db\<rparr>"
    "events_wf db \<Longrightarrow> events_wf db'" by auto
qed

text \<open>What a default denial of an approval does to the database, events apart.\<close>

definition denied_core :: "datetime \<Rightarrow> approval \<Rightarrow> device \<Rightarrow> string \<Rightarrow> dict \<Rightarrow> database \<Rightarrow> database" where
  "denied_core now a d reason details db =
     (add_audit (default_deny_audit now a d details) (put_approval (denied_form now reason a) db))
       \<lparr>thread_bindings := denied_bindings now reason a db\<rparr>"

lemma denied_core_simps [simp]:
  "approvals (denied_core now a d reason details db) = approvals (put_approval (denied_form now reason a) db)"
  "devices (denied_core now a d reason details db) = devices db"
  "commands (denied_core now a d reason details db) = commands db"
  "thread_bindings (denied_core now a d reason details db) = denied_bindings now reason a db"
  by (simp_all add: denied_core_def)

lemma audit_form [simp]:
  "default_deny_audit now (denied_form t reason a) d details = default_deny_audit now a d details"
  by (simp add: default_deny_audit_def)

lemma default_deny_tx_Inr:
  assumes "default_deny_tx now a d reason db = Inr (events, db')"
  shows "core_of db' = denied_core now a d reason [(u ''reason'', JStr (u reason))] (core_of db)"
    "events_wf db \<Longrightarrow> events_wf db'"
proof -
  note e = deny_effects_Inr [OF assms [unfolded default_deny_tx_def]]
  have b: "denied_bindings now reason a (put_approval (denied_form now reason a) db) =
      denied_bindings now reason a (core_of db)"
    by (rule approval_binding_cong) simp_all
  show "core_of db' = denied_core now a d reason [(u ''reason'', JStr (u reason))] (core_of db)"
    using e(1) by (simp add: b denied_core_def)
  show "events_wf db \<Longrightarrow> events_wf db'" using e(2) by simp
qed

section \<open>Decisions\<close>

text \<open>The row and the device that a decision is about.\<close>

definition decision_target :: "ustr \<Rightarrow> uuid \<Rightarrow> database \<Rightarrow> approval \<Rightarrow> device \<Rightarrow> bool" where
  "decision_target owner approval_id db a d \<longleftrightarrow> a \<in> set (approvals db) \<and> d \<in> set (devices db)
     \<and> apv_id a = approval_id \<and> apv_owner_user_id a = owner \<and> dev_id d = apv_device_id a"

text \<open>The denial that a decision on a pending approval meets, with the error it is answered with
  and whether the device is woken.\<close>

definition default_denial ::
  "(ustr \<Rightarrow> ustr) \<Rightarrow> (uuid \<Rightarrow> ustr option option) \<Rightarrow> datetime \<Rightarrow> device \<Rightarrow> approval
     \<Rightarrow> (string \<times> bool \<times> approval_error) option" where
  "default_denial fr lookup now d a =
     (if dev_status d \<noteq> ACTIVE then Some (''device_revoked_default_deny'', False, Approval_Not_Found)
      else if \<not> epoch_current a d then Some (''stale_epoch_default_deny'', False, Approval_Stale_Epoch)
      else if apv_expires_at a \<le> now
        then Some (fst (expired_denial fr lookup d a), snd (expired_denial fr lookup d a), Approval_Expired)
      else if \<exists>raw. lookup (dev_id d) = Some raw \<and> \<not> registry_matches fr d raw
        then Some (''device_offline_default_deny'', False, Approval_Device_Offline)
      else None)"

definition live_registry :: "(ustr \<Rightarrow> ustr) \<Rightarrow> (uuid \<Rightarrow> ustr option option) \<Rightarrow> device \<Rightarrow> bool" where
  "live_registry fr lookup d \<longleftrightarrow> (\<exists>raw. lookup (dev_id d) = Some raw \<and> registry_matches fr d raw)"

lemma decide_cases:
  assumes "decide fr lookup now metadata owner approval_id decision session_id db = (res, db', ns)"
  obtains (unchanged) e where "res = Inl e" "db' = db" "ns = []"
  | (repeated) a d where "decision_target owner approval_id db a d" "apv_status a \<noteq> APPROVAL_PENDING"
      "apv_status a = apv_status (decided_form now session_id decision a)"
      "apv_decision_reason a = apv_decision_reason (decided_form now session_id decision a)"
      "res = Inr a" "db' = snd (lock_owner_cursor owner db)"
      "ns = notify owner (dev_id d) (apv_id a) [] (dispatchable a d)"
  | (denied) a d reason wake err events where "decision_target owner approval_id db a d"
      "apv_status a = APPROVAL_PENDING" "default_denial fr lookup now d a = Some (reason, wake, err)"
      "default_deny_tx now a d reason (snd (lock_owner_cursor owner db)) = Inr (events, db')"
      "res = Inl err" "ns = notify owner (dev_id d) (apv_id a) events wake"
  | (decided) a d events where "decision_target owner approval_id db a d"
      "apv_status a = APPROVAL_PENDING" "default_denial fr lookup now d a = None"
      "live_registry fr lookup d"
      "append_all event_append now [(owner, dev_id d, ''approval.resolved'',
          ApprovalResolvedData (apv_id a) decision None, None)]
        (add_audit (decide_audit now owner session_id metadata decision a d)
          (put_approval (decided_form now session_id decision a) (snd (lock_owner_cursor owner db))))
        = Inr (events, db')"
      "res = Inr (decided_form now session_id decision a)"
      "ns = notify owner (dev_id d) (apv_id a) events True"
proof -
  let ?db1 = "snd (lock_owner_cursor owner db)"
  consider "\<exists>e. res = Inl e \<and> db' = db \<and> ns = []"
    | a0 d a where "scalar (\<lambda>a. apv_id a = approval_id \<and> apv_owner_user_id a = owner) (approvals db) = Some a0"
      "scalar (\<lambda>d. dev_id d = apv_device_id a0) (devices db) = Some d"
      "scalar (\<lambda>a. apv_id a = approval_id \<and> apv_owner_user_id a = owner
               \<and> apv_device_id a = dev_id d) (approvals db) = Some a"
    using assms by (auto simp: decide_def Let_def split: option.splits)
  then show thesis
  proof cases
    case 1
    then show ?thesis using unchanged by blast
  next
    case (2 a0 d a)
    have t: "decision_target owner approval_id db a d"
      using scalar_SomeD [OF 2(2)] scalar_SomeD [OF 2(3)] by (simp add: decision_target_def)
    have deny: "thesis" if "deny_and_fail now owner a d reason wake err db ?db1 = (res, db', ns)"
        "apv_status a = APPROVAL_PENDING" "default_denial fr lookup now d a = Some (reason, wake, err)"
      for reason wake err
      using that unchanged denied [OF t that(2,3)]
      by (auto simp: deny_and_fail_def split: sum.splits prod.splits)
    note run = assms [unfolded decide_def Let_def lock_simps 2 option.case]
    show ?thesis
    proof (cases "apv_status a = APPROVAL_PENDING")
      case False
      then show ?thesis using run unchanged repeated [OF t False] by (auto split: if_splits)
    next
      case pending: True
      show ?thesis
      proof (cases "default_denial fr lookup now d a")
        case None
        then have n: "dev_status d = ACTIVE" "epoch_current a d" "\<not> apv_expires_at a \<le> now"
            "\<And>raw. lookup (dev_id d) = Some raw \<Longrightarrow> registry_matches fr d raw"
          by (auto simp: default_denial_def split: if_splits)
        then show ?thesis
          using run pending unchanged decided [OF t pending None]
          by (auto simp: live_registry_def split: option.splits sum.splits simp del: append_all.simps)
      next
        case (Some t3)
        then show ?thesis
          using run pending deny [OF _ pending]
          by (cases t3) (auto simp: default_denial_def split: if_splits option.splits prod.splits
              simp del: append_all.simps)
      qed
    qed
  qed
qed

section \<open>Invariant of the approval table\<close>

text \<open>A pending approval has no decision; an approved one was decided by a user; a decision with a
  reason that must not be dispatched is a denial without request data that was not dispatched.\<close>

definition approval_ok :: "approval \<Rightarrow> bool" where
  "approval_ok a \<longleftrightarrow>
     (apv_status a = APPROVAL_PENDING \<longrightarrow> apv_decided_at a = None \<and> apv_decision_reason a = None
        \<and> apv_decision_dispatched_at a = None)
   \<and> (apv_status a = APPROVED \<longrightarrow> apv_decision_reason a = Some ''user_approved''
        \<and> apv_decided_at a \<noteq> None)
   \<and> (\<forall>r. apv_decision_reason a = Some r \<longrightarrow> r \<in> set NON_DISPATCHABLE_APPROVAL_REASONS \<longrightarrow>
        apv_status a = APPROVAL_DENIED \<and> apv_request a = [] \<and> apv_decision_dispatched_at a = None)"

definition approvals_wf :: "approval list \<Rightarrow> bool" where
  "approvals_wf as \<longleftrightarrow> distinct (map apv_id as) \<and> (\<forall>a \<in> set as. approval_ok a)"

lemma denied_ok [simp]: "apv_decision_dispatched_at a = None \<Longrightarrow> approval_ok (denied_form now reason a)"
  by (simp add: approval_ok_def denied_form_def)

lemma decided_ok [simp]:
  "apv_status a = APPROVAL_PENDING \<Longrightarrow> approval_ok a \<Longrightarrow> approval_ok (decided_form now s decision a)"
  by (simp add: approval_ok_def decided_form_def NON_DISPATCHABLE_APPROVAL_REASONS_def)

lemma pending_undispatched:
  "approval_ok a \<Longrightarrow> apv_status a = APPROVAL_PENDING \<Longrightarrow> apv_decision_dispatched_at a = None"
  by (simp add: approval_ok_def)

lemma put_approval_wf:
  assumes "approvals_wf (approvals db)" "approval_ok a"
  shows "approvals_wf (approvals (put_approval a db))"
  using assms by (auto simp: approvals_wf_def put_approval_def in_set_update_where
      intro!: distinct_update_where_key split: if_splits)

text \<open>What any operation on approvals keeps of the other tables and of its own.\<close>

definition approval_effect :: "database \<Rightarrow> database \<Rightarrow> bool" where
  "approval_effect db db' \<longleftrightarrow>
     (approvals_wf (approvals db) \<longrightarrow> approvals_wf (approvals db')
        \<and> approvals_progress (approvals db) (approvals db'))
   \<and> (events_wf db \<longrightarrow> events_wf db')
   \<and> commands db' = commands db \<and> device_outboxes db' = device_outboxes db
   \<and> device_connections db' = device_connections db \<and> control_sessions db' = control_sessions db
   \<and> device_pairings db' = device_pairings db \<and> devices (core_of db') = devices (core_of db)
   \<and> map thr_id (thread_bindings db') = map thr_id (thread_bindings db)"

lemma approval_effect_refl [simp]: "approval_effect db db"
  by (simp add: approval_effect_def)

lemma approval_effect_trans:
  "approval_effect a b \<Longrightarrow> approval_effect b c \<Longrightarrow> approval_effect a c"
  unfolding approval_effect_def using approvals_progress_trans by auto

lemma approval_effectI:
  assumes "core_of db' = c"
    and "commands c = commands db" "device_outboxes c = device_outboxes db"
    and "device_connections c = device_connections db" "control_sessions c = control_sessions db"
    and "device_pairings c = device_pairings db" "devices c = devices (core_of db)"
    and "map thr_id (thread_bindings c) = map thr_id (thread_bindings db)"
    and "events_wf db \<longrightarrow> events_wf db'"
    and "approvals_wf (approvals db) \<longrightarrow> approvals_wf (approvals c)
      \<and> approvals_progress (approvals db) (approvals c)"
  shows "approval_effect db db'"
  using assms unfolding approval_effect_def by (metis core_of_simps)

lemma lock_effect: "approval_effect db (snd (lock_owner_cursor owner db))"
  by (rule approval_effectI [OF stream.lock_core]) (use stream.lock_ok in simp_all)

lemma put_effect:
  assumes "approvals_wf (approvals db)" "a \<in> set (approvals db)" "approval_ok a'" "apv_progress a a'"
  shows "approvals_wf (approvals (put_approval a' db))
    \<and> approvals_progress (approvals db) (approvals (put_approval a' db))"
  using put_approval_wf [OF assms(1,3)] put_approval_progress [OF _ assms(2,4)] assms(1)
  by (auto simp: approvals_wf_def)

lemma default_deny_effect:
  assumes "default_deny_tx now a d reason db = Inr (events, db')"
    and "a \<in> set (approvals db)" "apv_status a = APPROVAL_PENDING"
  shows "approval_effect db db'"
proof (rule approval_effectI [OF default_deny_tx_Inr(1) [OF assms(1)]])
  let ?c = "denied_core now a d reason [(u ''reason'', JStr (u reason))] (core_of db)"
  have c: "approvals ?c = approvals (put_approval (denied_form now reason a) db)"
    by (simp add: put_approval_def)
  show "approvals_wf (approvals db) \<longrightarrow> approvals_wf (approvals ?c)
      \<and> approvals_progress (approvals db) (approvals ?c)"
  proof
    assume wf: "approvals_wf (approvals db)"
    then have n: "apv_decision_dispatched_at a = None"
      using pending_undispatched assms(2,3) by (simp add: approvals_wf_def)
    show "approvals_wf (approvals ?c) \<and> approvals_progress (approvals db) (approvals ?c)"
      unfolding c by (rule put_effect [OF wf assms(2) denied_ok [OF n] denied_progress [OF n]])
  qed
qed (use default_deny_tx_Inr(2) [OF assms(1)] in \<open>auto simp: put_approval_def denied_core_def\<close>)

lemma decide_effect:
  assumes "decide fr lookup now metadata owner approval_id decision session_id db = (res, db', ns)"
  shows "approval_effect db db'"
proof -
  let ?db1 = "snd (lock_owner_cursor owner db)"
  show ?thesis
    using assms
  proof (cases rule: decide_cases)
    case (denied a d reason wake err events)
    then have "approval_effect ?db1 db'"
      using default_deny_effect [OF denied(4)] by (simp add: decision_target_def)
    then show ?thesis using approval_effect_trans lock_effect by blast
  next
    case (decided a d events)
    note k = stream.append_all_keeps [OF decided(5)]
    let ?c = "core_of (add_audit (decide_audit now owner session_id metadata decision a d)
        (put_approval (decided_form now session_id decision a) ?db1))"
    have c: "approvals ?c = approvals (put_approval (decided_form now session_id decision a) ?db1)"
      by (simp add: put_approval_def)
    have "approval_effect ?db1 db'"
    proof (rule approval_effectI [OF k(1)])
      show "approvals_wf (approvals ?db1) \<longrightarrow> approvals_wf (approvals ?c)
          \<and> approvals_progress (approvals ?db1) (approvals ?c)"
      proof
        assume wf: "approvals_wf (approvals ?db1)"
        have a: "a \<in> set (approvals ?db1)" using decided(1) by (simp add: decision_target_def)
        then have ok: "approval_ok a" using wf by (simp add: approvals_wf_def)
        show "approvals_wf (approvals ?c) \<and> approvals_progress (approvals ?db1) (approvals ?c)"
          unfolding c by (rule put_effect [OF wf a decided_ok [OF decided(2) ok]
                decided_progress [OF pending_undispatched [OF ok decided(2)] decided(2)]])
      qed
    qed (use k(2) in auto)
    then show ?thesis using approval_effect_trans lock_effect by blast
  qed (use lock_effect in auto)
qed

section \<open>Lost and replaced connections\<close>

lemma deny_each_Inr:
  assumes "deny_each now d reason details as db = Inr (events, db')"
  shows "approvals db' = approvals db \<and> commands db' = commands db
    \<and> device_outboxes db' = device_outboxes db \<and> device_connections db' = device_connections db
    \<and> control_sessions db' = control_sessions db \<and> device_pairings db' = device_pairings db
    \<and> devices (core_of db') = devices (core_of db)
    \<and> audit_events db' = audit_events db @ map (\<lambda>a. default_deny_audit now a d (details a)) as
    \<and> map thr_id (thread_bindings db') = map thr_id (thread_bindings db)
    \<and> (events_wf db \<longrightarrow> events_wf db')"
  using assms
proof (induction as arbitrary: db events)
  case (Cons a as)
  obtain es1 db1 es2 where e: "append_default_deny_effects now a d reason (details a) db = Inr (es1, db1)"
      "deny_each now d reason details as db1 = Inr (es2, db')"
    using Cons.prems by (auto split: sum.splits)
  note f = deny_effects_Inr [OF e(1)]
  have "approvals (core_of db1) = approvals db" "commands (core_of db1) = commands db"
    "device_outboxes (core_of db1) = device_outboxes db"
    "device_connections (core_of db1) = device_connections db"
    "control_sessions (core_of db1) = control_sessions db"
    "device_pairings (core_of db1) = device_pairings db"
    "devices (core_of db1) = devices (core_of db)"
    "audit_events (core_of db1) = audit_events db @ [default_deny_audit now a d (details a)]"
    "map thr_id (thread_bindings (core_of db1)) = map thr_id (thread_bindings db)"
    unfolding f(1) by simp_all
  then show ?case using Cons.IH [OF e(2)] f(2) by auto
qed simp

lemma undispatched_progress:
  "undispatched d ep a \<Longrightarrow> apv_progress a (denied_form now reason a)"
  by (simp add: undispatched_def)

lemma undispatched_denied:
  "reason \<in> set NON_DISPATCHABLE_APPROVAL_REASONS \<Longrightarrow> \<not> undispatched d ep (denied_form now reason a)"
  by (simp add: undispatched_def)

lemma deny_update_effect:
  "approvals_wf as \<Longrightarrow> approvals_wf (update_where (undispatched d ep) (denied_form now reason) as)
     \<and> approvals_progress as (update_where (undispatched d ep) (denied_form now reason) as)"
proof (intro conjI)
  assume "approvals_wf as"
  then show "approvals_wf (update_where (undispatched d ep) (denied_form now reason) as)"
    by (auto simp: approvals_wf_def in_set_update_where undispatched_def intro!: distinct_update_where_key)
  show "approvals_progress as (update_where (undispatched d ep) (denied_form now reason) as)"
    unfolding approvals_progress_def update_where_def list_all2_map2
    by (rule list_all2_refl) (simp add: undispatched_progress)
qed

lemma deny_undispatched_Inr:
  assumes "deny_undispatched now d reason audit_reason ep db = Inr (events, db')"
  shows "approvals db' = update_where (undispatched d ep) (denied_form now reason) (approvals db)"
    "approval_effect db db'"
    "length (audit_events db') = length (audit_events db) + count_where (undispatched d ep) (approvals db)"
proof -
  let ?db1 = "snd (lock_owner_cursor (dev_owner_user_id d) db)"
  let ?new = "update_where (undispatched d ep) (denied_form now reason) (approvals db)"
  let ?db2 = "?db1\<lparr>approvals := ?new\<rparr>"
  have wf2: "events_wf db \<longrightarrow> events_wf ?db2"
    using stream.lock_ok [of db] events_wf_cong [of ?db2 ?db1] by simp
  consider (none) "filter (undispatched d ep) (approvals db) = []" "db' = ?db1"
    | (some) details as where "deny_each now d reason details as ?db2 = Inr (events, db')"
      "length as = count_where (undispatched d ep) (approvals db)"
    using assms by (auto simp: deny_undispatched_def Let_def count_where_def split: if_splits)
  then have "approvals db' = ?new \<and> commands db' = commands db
    \<and> device_outboxes db' = device_outboxes db \<and> device_connections db' = device_connections db
    \<and> control_sessions db' = control_sessions db \<and> device_pairings db' = device_pairings db
    \<and> devices (core_of db') = devices (core_of db) \<and> (events_wf db \<longrightarrow> events_wf db')
    \<and> map thr_id (thread_bindings db') = map thr_id (thread_bindings db)
    \<and> length (audit_events db') = length (audit_events db) + count_where (undispatched d ep) (approvals db)"
  proof cases
    case none
    then have "?new = approvals db" by (auto simp: filter_empty_conv intro: update_where_idle)
    then show ?thesis using none stream.lock_ok
      by (simp add: count_where_def)
  next
    case (some details as)
    then show ?thesis using deny_each_Inr [OF some(1)] wf2 by simp
  qed
  then show "approvals db' = ?new" "approval_effect db db'"
    "length (audit_events db') = length (audit_events db) + count_where (undispatched d ep) (approvals db)"
    unfolding approval_effect_def using deny_update_effect by auto
qed

section \<open>Expiry\<close>

definition approval_candidate :: "approval \<Rightarrow> uuid \<times> uuid \<times> ustr" where
  "approval_candidate a = (apv_id a, apv_device_id a, apv_owner_user_id a)"

definition expiry_reasons :: "string list" where
  "expiry_reasons = [''device_revoked_default_deny'', ''stale_epoch_default_deny'',
     ''device_offline_default_deny'', ''timeout_default_deny'']"

lemma expired_denial_reason:
  "fst (expired_denial fr lookup d a) \<in> set expiry_reasons"
  "snd (expired_denial fr lookup d a) \<longleftrightarrow> fst (expired_denial fr lookup d a) = ''timeout_default_deny''"
  by (auto simp: expired_denial_def expiry_reasons_def split: option.split)

lemma expire_approval_Some:
  assumes "expire_approval fr lookup now (i, device_id, owner) db = Inr (Some (db', ns))"
  obtains a d events where "a \<in> set (approvals db)" "approval_candidate a = (i, device_id, owner)"
    "approval_overdue now a"
    "default_deny_tx now a d (fst (expired_denial fr lookup d a)) (snd (lock_owner_cursor owner db)) =
       Inr (events, db')"
proof -
  obtain d a where a: "scalar (\<lambda>a. apv_id a = i \<and> apv_device_id a = device_id
         \<and> apv_owner_user_id a = owner \<and> approval_overdue now a) (approvals db) = Some a"
      "\<exists>events. default_deny_tx now a d (fst (expired_denial fr lookup d a))
         (snd (lock_owner_cursor owner db)) = Inr (events, db')"
    using assms by (auto simp: expire_approval_def Let_def split: option.splits sum.splits prod.splits)
      (metis fst_conv)
  then show thesis using that scalar_SomeD [OF a(1)] by (auto simp: approval_candidate_def)
qed

interpretation approval_sweep: sweep "expire_approval fr lookup now" approvals apv_id
  approval_candidate "approval_overdue now"
  "\<lambda>a a'. \<exists>reason \<in> set expiry_reasons. a' = denied_form now reason a" for fr lookup now
proof unfold_locales
  fix cand db db' ns
  assume s: "expire_approval fr lookup now cand db = Inr (Some (db', ns))"
  obtain i dev owner where cand: "cand = (i, dev, owner)" by (cases cand) auto
  obtain a d events where a: "a \<in> set (approvals db)" "approval_candidate a = (i, dev, owner)"
    "approval_overdue now a"
    "default_deny_tx now a d (fst (expired_denial fr lookup d a)) (snd (lock_owner_cursor owner db)) =
       Inr (events, db')"
    using s unfolding cand by (rule expire_approval_Some)
  note t = default_deny_tx_Inr [OF a(4)]
  have "approvals db' = approvals (put_approval (denied_form now (fst (expired_denial fr lookup d a)) a) db)"
    using arg_cong [OF t(1), of approvals] by (simp add: put_approval_def)
  then show "\<exists>r r'. r \<in> set (approvals db) \<and> approval_candidate r = cand \<and> approval_overdue now r
      \<and> (\<exists>reason \<in> set expiry_reasons. r' = denied_form now reason r)
      \<and> approvals db' = update_where (\<lambda>x. apv_id x = apv_id r') (\<lambda>_. r') (approvals db)"
    using a expired_denial_reason(1) unfolding cand put_approval_def by force
  show "devices (core_of db') = devices (core_of db)" using arg_cong [OF t(1), of devices] by simp
  show "events_wf db \<Longrightarrow> events_wf db'" using t(2) stream.lock_ok by simp
next
  fix cand db r
  assume "expire_approval fr lookup now cand db = Inr None" "has_device cand db"
    "r \<in> set (approvals db)" "approval_candidate r = cand"
  then show "\<not> approval_overdue now r"
    by (auto simp: expire_approval_def Let_def has_device_def approval_candidate_def scalar_None_iff
        split: option.splits sum.splits prod.splits)
qed (auto simp: approval_overdue_def approval_candidate_def)

lemma expire_approval_effect:
  assumes "expire_approval fr lookup now cand db = Inr (Some (db', ns))"
  shows "approval_effect db db'"
proof -
  obtain i dev owner where cand: "cand = (i, dev, owner)" by (cases cand) auto
  obtain a d events where a: "a \<in> set (approvals db)" "approval_candidate a = (i, dev, owner)"
    "approval_overdue now a"
    "default_deny_tx now a d (fst (expired_denial fr lookup d a)) (snd (lock_owner_cursor owner db)) =
       Inr (events, db')"
    using assms unfolding cand by (rule expire_approval_Some)
  have "approval_effect (snd (lock_owner_cursor owner db)) db'"
    using default_deny_effect [OF a(4)] a(1,3) by (simp add: approval_overdue_def)
  then show ?thesis using approval_effect_trans lock_effect by blast
qed

lemma approval_expire_due_effect:
  "approval_expire_due fr lookup now db = (res, db', ns) \<Longrightarrow> approval_effect db db'"
  unfolding approval_expire_due_def
  by (rule sweep_loop_effect [where P = approval_effect])
    (auto intro: expire_approval_effect approval_effect_trans)

section \<open>A sample run\<close>

definition sample_approval :: approval where
  "sample_approval = \<lparr>apv_id = 9, apv_owner_user_id = u ''user-1'', apv_device_id = 1,
     apv_command_id = None, apv_external_command_id = None, apv_decided_by_session_id = None,
     apv_approval_kind = ''file_change'', apv_summary = u ''write a file'',
     apv_request = [(u ''path'', JStr (u ''/work/a''))], apv_request_hash = u ''hash'',
     apv_status = APPROVAL_PENDING, apv_appserver_epoch = u ''epoch-0000000001'',
     apv_requested_at = 0, apv_expires_at = seconds 60, apv_decided_at = None,
     apv_decision_dispatched_at = None, apv_decision_reason = None\<rparr>"

lemma sample_approval_sel [simp]:
  "apv_id sample_approval = 9" "apv_owner_user_id sample_approval = u ''user-1''"
  "apv_device_id sample_approval = 1" "apv_command_id sample_approval = None"
  "apv_status sample_approval = APPROVAL_PENDING"
  "apv_appserver_epoch sample_approval = u ''epoch-0000000001''"
  "apv_expires_at sample_approval = seconds 60" "apv_decision_dispatched_at sample_approval = None"
  "apv_decided_at sample_approval = None" "apv_decision_reason sample_approval = None"
  by (simp_all add: sample_approval_def)

definition approval_database :: database where
  "approval_database = sample_database\<lparr>approvals := [sample_approval]\<rparr>"

definition sample_registry :: ustr where
  "sample_registry = dumps True (JObj [(u ''connection_nonce'', JStr (u ''nonce-1'')),
     (u ''epoch'', JStr (u ''epoch-0000000001''))])"

definition sample_lookup :: "uuid \<Rightarrow> ustr option option" where
  "sample_lookup i = Some (if i = 1 then Some sample_registry else None)"

lemma sample_registry_matches: "registry_matches id sample_device (Some sample_registry)"
proof -
  have "registry_dict id (Some sample_registry) = [(u ''connection_nonce'', JStr (u ''nonce-1'')),
     (u ''epoch'', JStr (u ''epoch-0000000001''))]"
    unfolding registry_dict_def sample_registry_def option.case
    by (subst loads_dumps) (simp_all add: valid_char_u)
  then show ?thesis by (simp add: registry_matches_def dict_get_def)
qed

lemma approval_database_wf: "approvals_wf (approvals approval_database)" "events_wf approval_database"
  unfolding approval_database_def
  using sample_events_wf events_wf_cong [of "sample_database\<lparr>approvals := [sample_approval]\<rparr>" sample_database]
  by (simp_all add: approvals_wf_def approval_ok_def)

lemmas sample_run_simps = lock_owner_cursor_def cursor_row_def event_append_def allocate_owner_cursor_def
  bump_device_def row_event_def MAX_EVENT_CURSOR_def add_audit_def

section \<open>Properties\<close>

text \<open>C5: A decision that is answered with success was made by the owner of the approval.  Either
  the approval already has this decision and the table is unchanged; or the approval was pending and
  not expired, its device is active, in the app-server epoch of the approval and connected according
  to the live registry, exactly this row takes the decision with the deciding session, one audit
  entry is written and the device is woken first.\<close>

theorem decide_authorised:
  assumes "decide fr lookup now metadata owner approval_id decision session_id db = (Inr a', db', ns)"
  shows "\<exists>a d. decision_target owner approval_id db a d
    \<and> (apv_status a \<noteq> APPROVAL_PENDING \<and> a' = a \<and> core_of db' = core_of db
        \<and> apv_status a = (if decision = ''approve'' then APPROVED else APPROVAL_DENIED)
        \<and> apv_decision_reason a = Some (if decision = ''approve'' then ''user_approved'' else ''user_denied'')
      \<or> apv_status a = APPROVAL_PENDING \<and> now < apv_expires_at a \<and> dev_status d = ACTIVE
        \<and> epoch_current a d \<and> live_registry fr lookup d
        \<and> a' = decided_form now session_id decision a
        \<and> core_of db' = add_audit (decide_audit now owner session_id metadata decision a d)
            (put_approval a' (core_of db))
        \<and> (\<exists>e. ns = [Wake_Approval (dev_id d) approval_id, Publish_Event owner e]))"
  using assms
proof (cases rule: decide_cases)
  case (repeated a d)
  then show ?thesis
    using stream.lock_core [of owner db] repeated(3,4) [unfolded decided_form_def]
    by (intro exI [of _ a] exI [of _ d] conjI disjI1) auto
next
  case (decided a d events)
  note k = stream.append_all_keeps [OF decided(5)]
  obtain e where e: "events = [e]" using k(3) by (auto simp: length_Suc_conv)
  have "now < apv_expires_at a \<and> dev_status d = ACTIVE \<and> epoch_current a d"
    using decided(3) by (auto simp: default_denial_def split: if_splits)
  moreover have "core_of db' = add_audit (decide_audit now owner session_id metadata decision a d)
      (put_approval a' (core_of db))"
    using k(1) decided(6) stream.lock_core [of owner db] by simp
  ultimately show ?thesis
    using decided(1,2,4,6,7) e by (intro exI [of _ a] exI [of _ d]) (auto simp: notify_def decision_target_def)
qed auto

theorem decide_authorised_witness:
  "\<exists>a' db' ns. decide id sample_lookup 5 sample_metadata (u ''user-1'') 9 ''approve'' 77 approval_database
       = (Inr a', db', ns)
     \<and> apv_status a' = APPROVED \<and> apv_decided_by_session_id a' = Some 77
     \<and> Wake_Approval 1 9 \<in> set ns"
proof -
  obtain a' db' ns where run: "decide id sample_lookup 5 sample_metadata (u ''user-1'') 9 ''approve'' 77
      approval_database = (Inr a', db', ns)"
    using sample_registry_matches
    by (simp add: decide_def approval_database_def sample_database_def empty_database_def Let_def
        epoch_current_def seconds_def sample_lookup_def sample_run_simps put_approval_def decided_form_def)
  show ?thesis
    using decide_authorised [OF run] run
    by (auto simp: decided_form_def decision_target_def approval_database_def)
qed

text \<open>C36: A decision that is answered with an error changes nothing, or it met a pending approval of
  the caller whose device is gone, in another epoch or offline, or which is overdue.  Then the
  approval is denied with that reason, without its request data, an audit entry is written, the
  waiting thread fails unless the device is revoked, and the device is woken only for a plain
  timeout.  No error path approves an approval.\<close>

theorem decide_refusal:
  assumes "decide fr lookup now metadata owner approval_id decision session_id db = (Inl e, db', ns)"
  shows "db' = db \<and> ns = []
    \<or> (\<exists>a d reason wake. decision_target owner approval_id db a d \<and> apv_status a = APPROVAL_PENDING
        \<and> default_denial fr lookup now d a = Some (reason, wake, e)
        \<and> (wake \<longleftrightarrow> reason = ''timeout_default_deny'')
        \<and> reason \<in> set expiry_reasons
        \<and> core_of db' = denied_core now a d reason [(u ''reason'', JStr (u reason))] (core_of db)
        \<and> (Wake_Approval (dev_id d) approval_id \<in> set ns \<longleftrightarrow> wake))"
  using assms
proof (cases rule: decide_cases)
  case (denied a d reason wake err events)
  have "(wake \<longleftrightarrow> reason = ''timeout_default_deny'') \<and> reason \<in> set expiry_reasons"
    using denied(3) expired_denial_reason [of fr lookup d a]
    by (auto simp: default_denial_def expiry_reasons_def split: if_splits)
  moreover have "core_of db' = denied_core now a d reason [(u ''reason'', JStr (u reason))] (core_of db)"
    using default_deny_tx_Inr(1) [OF denied(4)] stream.lock_core [of owner db] by simp
  ultimately show ?thesis
    using denied(1,2,3,5,6)
    by (intro disjI2 exI [of _ a] exI [of _ d] exI [of _ reason] exI [of _ wake])
      (auto simp: notify_def decision_target_def)
qed auto

theorem decide_refusal_witness:
  "\<exists>e db' ns. decide id sample_lookup (seconds 60) sample_metadata (u ''user-1'') 9 ''approve'' 77
       approval_database = (Inl e, db', ns)
     \<and> approvals db' = [denied_form (seconds 60) ''timeout_default_deny'' sample_approval]
     \<and> Wake_Approval 1 9 \<in> set ns"
proof -
  have ex: "expired_denial id sample_lookup sample_device sample_approval = (''timeout_default_deny'', True)"
    using sample_registry_matches by (simp add: expired_denial_def epoch_current_def sample_lookup_def)
  obtain e db' ns where run: "decide id sample_lookup (seconds 60) sample_metadata (u ''user-1'') 9
      ''approve'' 77 approval_database = (Inl e, db', ns)" "db' \<noteq> approval_database"
    using ex
    by (simp add: decide_def approval_database_def sample_database_def empty_database_def Let_def
        epoch_current_def sample_lookup_def sample_run_simps put_approval_def
        deny_and_fail_def default_deny_tx_def append_default_deny_effects_def approval_binding_def
        approval_command_def denied_form_def)
  obtain a d reason wake where r: "decision_target (u ''user-1'') 9 approval_database a d"
      "default_denial id sample_lookup (seconds 60) d a = Some (reason, wake, e)"
      "core_of db' = denied_core (seconds 60) a d reason [(u ''reason'', JStr (u reason))]
         (core_of approval_database)"
      "Wake_Approval (dev_id d) 9 \<in> set ns \<longleftrightarrow> wake"
    using decide_refusal [OF run(1)] run(2) by blast
  have ad: "a = sample_approval" "d = sample_device"
    using r(1) by (simp_all add: decision_target_def approval_database_def sample_database_def)
  then have "reason = ''timeout_default_deny''" "wake"
    using r(2) ex by (auto simp: default_denial_def epoch_current_def)
  moreover have "approvals db' = [denied_form (seconds 60) reason sample_approval]"
    using arg_cong [OF r(3), of approvals] ad by (simp add: put_approval_def approval_database_def)
  ultimately show ?thesis using run(1) r(4) ad by auto
qed

text \<open>Losing a connection, changing the epoch or revoking a device denies exactly the
  approvals of the device that were not dispatched yet (of another epoch, if an epoch is given),
  approved ones included: their rows are scrubbed, each gets one audit entry, no other row changes,
  none of them is left undispatched, and after a lost connection or a revocation no decision for
  that device is offered for dispatch any more.\<close>

theorem deny_undispatched_closes:
  assumes "deny_undispatched now d reason audit_reason epoch db = Inr (events, db')"
    and "reason \<in> set NON_DISPATCHABLE_APPROVAL_REASONS"
  shows "approvals db' = update_where (undispatched d epoch) (denied_form now reason) (approvals db)
    \<and> (\<forall>a \<in> set (approvals db'). \<not> undispatched d epoch a)
    \<and> length (audit_events db') = length (audit_events db) + count_where (undispatched d epoch) (approvals db)
    \<and> approval_effect db db'
    \<and> (epoch = None \<longrightarrow> Wake_Approval (dev_id d) i \<notin> set (reconcile_undispatched limit db'))"
proof -
  note e = deny_undispatched_Inr [OF assms(1)]
  have closed: "\<forall>a \<in> set (approvals db'). \<not> undispatched d epoch a"
  proof
    fix a assume "a \<in> set (approvals db')"
    then obtain a0 where "a = (if undispatched d epoch a0 then denied_form now reason a0 else a0)"
      unfolding e(1) in_set_update_where by blast
    then show "\<not> undispatched d epoch a" using undispatched_denied [OF assms(2)] by simp
  qed
  have "Wake_Approval (dev_id d) i \<notin> set (reconcile_undispatched limit db')" if "epoch = None"
  proof
    assume "Wake_Approval (dev_id d) i \<in> set (reconcile_undispatched limit db')"
    then obtain a d' where a: "a \<in> set (approvals db')" "reconcilable a d'" "dev_id d' = dev_id d"
      unfolding reconcile_undispatched_def by (auto dest!: in_set_takeD)
    then have "undispatched d epoch a" using that by (auto simp: reconcilable_def undispatched_def)
    then show False using closed a(1) by blast
  qed
  then show ?thesis using e closed by blast
qed

theorem deny_undispatched_closes_witness:
  "\<exists>events db'. deny_disconnected 7 sample_device approval_database = Inr (events, db')
     \<and> approvals db' = [denied_form 7 ''disconnect_default_deny'' sample_approval]"
proof -
  obtain events db' where run: "deny_undispatched 7 sample_device ''disconnect_default_deny''
      ''disconnect'' None approval_database = Inr (events, db')"
    by (simp add: deny_undispatched_def approval_database_def sample_database_def empty_database_def
        Let_def undispatched_def sample_run_simps append_default_deny_effects_def approval_binding_def
        approval_command_def denied_form_def)
  show ?thesis
    using deny_undispatched_closes [OF run] run
    by (simp add: deny_disconnected_def NON_DISPATCHABLE_APPROVAL_REASONS_def approval_database_def
        undispatched_def)
qed

text \<open>The approval sweep only turns overdue pending approvals into denied ones with one of the
  four denial reasons, keeps the invariants of the approval and event tables and the other tables,
  and counts what it denies.  When it ends regularly every approval of the batch whose device is
  registered for its owner is decided.\<close>

theorem approval_expiry_sweep:
  assumes "approval_expire_due fr lookup now db = (r, db', ns)" "approvals_wf (approvals db)"
  shows "list_all2 (\<lambda>a a'. a' = a \<or> approval_overdue now a
        \<and> (\<exists>reason \<in> set expiry_reasons. a' = denied_form now reason a)) (approvals db) (approvals db')
    \<and> approval_effect db db'
    \<and> (\<forall>n. r = Inr n \<longrightarrow>
        n + count_where (approval_overdue now) (approvals db') = count_where (approval_overdue now) (approvals db)
        \<and> (\<forall>a \<in> set (approvals db'). approval_candidate a \<in> set (approval_candidates now db)
             \<and> has_device (approval_candidate a) db \<longrightarrow> \<not> approval_overdue now a))"
proof -
  have "distinct (map apv_id (approvals db))" using assms(2) by (simp add: approvals_wf_def)
  then have sw: "approval_sweep.swept now (approval_candidates now db) 0 db r db'"
    using assms(1) approval_sweep.sweep_loop_swept by (simp add: approval_expire_due_def)
  then show ?thesis
    using approval_expire_due_effect [OF assms(1)]
    unfolding approval_sweep.swept_def approval_sweep.closing_def by simp
qed

theorem approval_expiry_sweep_witness:
  "\<exists>n db' ns. approval_expire_due id sample_lookup (seconds 60) approval_database = (Inr n, db', ns)
     \<and> n + count_where (approval_overdue (seconds 60)) (approvals db') = 1
     \<and> (\<forall>a \<in> set (approvals db'). apv_status a = APPROVAL_DENIED)"
proof -
  have od: "approval_overdue (seconds 60) sample_approval" by (simp add: approval_overdue_def)
  have ex: "expired_denial id sample_lookup sample_device sample_approval = (''timeout_default_deny'', True)"
    using sample_registry_matches by (simp add: expired_denial_def epoch_current_def sample_lookup_def)
  have cands: "approval_candidates (seconds 60) approval_database = [(9, 1, u ''user-1'')]"
    using od by (simp add: approval_candidates_def select_ordered_def approval_database_def)
  obtain n db' ns where run: "approval_expire_due id sample_lookup (seconds 60) approval_database = (Inr n, db', ns)"
    using od ex unfolding approval_expire_due_def cands
    by (simp add: expire_approval_def approval_database_def sample_database_def empty_database_def
        Let_def sample_run_simps put_approval_def default_deny_tx_def append_default_deny_effects_def
        approval_binding_def approval_command_def denied_form_def)
  note sweep = approval_expiry_sweep [OF run approval_database_wf(1)]
  have dev: "has_device (9, 1, u ''user-1'') approval_database"
    by (auto simp: has_device_def sample_database_def approval_database_def)
  have one: "approvals db' = [sample_approval] \<or> (\<exists>reason. approvals db' = [denied_form (seconds 60) reason sample_approval])"
    using sweep by (auto simp: list_all2_Cons1 approval_database_def)
  moreover have "approvals db' \<noteq> [sample_approval]"
    using sweep dev od by (auto simp: cands approval_candidate_def)
  ultimately show ?thesis using run sweep od by (auto simp: approval_database_def)
qed

end
