(* ===== verification/Capacity.thy ===== *)
theory Capacity
  imports Approvals
begin

text \<open>
  \<open>capacity.py\<close> and \<open>views.py\<close>: the projections that a browser bootstrap is made of, the checks
  of their size, the record quotas of an owner and a device, and the bounded model catalog.  The
  text of a timestamp is an argument \<open>fmt\<close>, the \<open>str\<close> of a metadata value that is not a
  string an argument \<open>pystr\<close>, and whether the validation library accepts a text an argument
  \<open>valid_text\<close>.
\<close>

section \<open>Projections\<close>

datatype capacity_error =
    Owner_Capacity_Exceeded string
  | Projection_Invalid
  | Not_Serializable

fun thread_status_value :: "thread_binding_status \<Rightarrow> string" where
  "thread_status_value IDLE = ''idle''"
| "thread_status_value RUNNING = ''running''"
| "thread_status_value WAITING_FOR_APPROVAL = ''waiting_for_approval''"
| "thread_status_value THREAD_FAILED = ''failed''"
| "thread_status_value CLOSED = ''closed''"
| "thread_status_value STALE = ''stale''"

definition datetime_max :: datetime where
  "datetime_max = 253402300799999999"

definition metadata_text :: "(json \<Rightarrow> ustr) \<Rightarrow> dict \<Rightarrow> string \<Rightarrow> ustr" where
  "metadata_text pystr md key =
     (case dict_get md (u key) of None \<Rightarrow> [] | Some v \<Rightarrow> json_str pystr v)"

definition summary_of :: "(json \<Rightarrow> ustr) \<Rightarrow> string \<Rightarrow> device \<Rightarrow> device_summary" where
  "summary_of pystr status d = \<lparr>ds_id = dev_id d, ds_name = dev_name d, ds_status = status,
     ds_connector_version = metadata_text pystr (dev_device_metadata d) ''connector_version'',
     ds_codex_version = metadata_text pystr (dev_device_metadata d) ''codex_version'',
     ds_last_seen_at = dev_last_seen_at d, ds_workspace_roots = dev_workspace_roots d\<rparr>"

text \<open>\<open>DeviceSummary\<close> refuses fields outside its bounds.\<close>

definition device_summary_valid :: "device_summary \<Rightarrow> bool" where
  "device_summary_valid s \<longleftrightarrow> 1 \<le> length (ds_name s) \<and> length (ds_name s) \<le> 255
     \<and> length (ds_connector_version s) \<le> 64 \<and> length (ds_codex_version s) \<le> 64
     \<and> length (ds_workspace_roots s) \<le> 32"

definition device_bootstrap_summary :: "(json \<Rightarrow> ustr) \<Rightarrow> device \<Rightarrow> capacity_error + device_summary" where
  "device_bootstrap_summary pystr d =
     (let s = summary_of pystr ''offline'' d in
      if device_summary_valid s then Inr s else Inl Projection_Invalid)"

definition device_summary_of ::
  "(ustr \<Rightarrow> ustr) \<Rightarrow> (json \<Rightarrow> ustr) \<Rightarrow> ustr option \<Rightarrow> device \<Rightarrow> capacity_error + device_summary" where
  "device_summary_of fr pystr registry_raw d =
     (let status = (if dev_status d = REVOKED then ''revoked''
            else if truthy (dev_active_connection_nonce d)
              \<and> registry_nonce fr registry_raw = map_option JStr (dev_active_connection_nonce d)
            then ''online'' else ''offline'');
          s = summary_of pystr status d
      in if device_summary_valid s then Inr s else Inl Projection_Invalid)"

definition opt_time :: "(datetime \<Rightarrow> ustr) \<Rightarrow> datetime option \<Rightarrow> json" where
  "opt_time fmt t = (case t of None \<Rightarrow> JNull | Some x \<Rightarrow> JStr (fmt x))"

definition device_json :: "(datetime \<Rightarrow> ustr) \<Rightarrow> device_summary \<Rightarrow> json" where
  "device_json fmt s = JObj [(u ''id'', JStr (uuid_str (ds_id s))), (u ''name'', JStr (ds_name s)),
     (u ''status'', JStr (u (ds_status s))), (u ''connector_version'', JStr (ds_connector_version s)),
     (u ''codex_version'', JStr (ds_codex_version s)),
     (u ''last_seen_at'', opt_time fmt (ds_last_seen_at s)),
     (u ''workspace_roots'', JArr (map JStr (ds_workspace_roots s)))]"

definition thread_json :: "(datetime \<Rightarrow> ustr) \<Rightarrow> managed_thread_summary \<Rightarrow> json" where
  "thread_json fmt t = JObj [(u ''id'', JStr (uuid_str (ts_id t))),
     (u ''device_id'', JStr (uuid_str (ts_device_id t))), (u ''title'', JStr (ts_title t)),
     (u ''cwd'', JStr (ts_cwd t)), (u ''model'', JStr (ts_model t)),
     (u ''updated_at'', JStr (fmt (ts_updated_at t))),
     (u ''status'', JStr (u (thread_status_value (ts_status t))))]"

definition approval_json :: "(datetime \<Rightarrow> ustr) \<Rightarrow> approval_item \<Rightarrow> json" where
  "approval_json fmt i = JObj [(u ''approval_id'', JStr (uuid_str (ai_approval_id i))),
     (u ''command_id'', JStr (ai_command_id i)), (u ''kind'', JStr (u (ai_kind i))),
     (u ''summary'', JStr (ai_summary i)), (u ''details'', JObj (ai_details i)),
     (u ''expires_at'', JStr (fmt (ai_expires_at i))),
     (u ''device_id'', JStr (uuid_str (ai_device_id i))), (u ''device_name'', JStr (ai_device_name i)),
     (u ''created_at'', JStr (fmt (ai_created_at i)))]"

section \<open>Size checks\<close>

definition ensure_fits :: "json \<Rightarrow> nat \<Rightarrow> string \<Rightarrow> capacity_error option" where
  "ensure_fits j limit code =
     (case ensure_ascii_json_byte_length j of
        None \<Rightarrow> Some Not_Serializable
      | Some n \<Rightarrow> if n > limit then Some (Owner_Capacity_Exceeded code) else None)"

definition ensure_device_projection_fits ::
  "(datetime \<Rightarrow> ustr) \<Rightarrow> (json \<Rightarrow> ustr) \<Rightarrow> device \<Rightarrow> capacity_error option" where
  "ensure_device_projection_fits fmt pystr d =
     (case device_bootstrap_summary pystr d of
        Inl e \<Rightarrow> Some e
      | Inr s \<Rightarrow> ensure_fits (device_json fmt (s\<lparr>ds_status := ''offline'', ds_last_seen_at := Some datetime_max\<rparr>))
          BOOTSTRAP_DEVICE_SUMMARY_MAX_BYTES ''device_summary_too_large'')"

definition thread_summary_valid :: "managed_thread_summary \<Rightarrow> bool" where
  "thread_summary_valid t \<longleftrightarrow> 1 \<le> length (ts_title t) \<and> length (ts_title t) \<le> 255
     \<and> length (ts_cwd t) \<le> 4096 \<and> length (ts_model t) \<le> 128"

definition ensure_thread_projection_fits ::
  "(datetime \<Rightarrow> ustr) \<Rightarrow> thread_binding \<Rightarrow> capacity_error option" where
  "ensure_thread_projection_fits fmt b =
     (if \<not> thread_summary_valid (thread_summary b) then Some Projection_Invalid
      else ensure_fits (thread_json fmt ((thread_summary b)\<lparr>ts_status := WAITING_FOR_APPROVAL\<rparr>))
        BOOTSTRAP_THREAD_SUMMARY_MAX_BYTES ''thread_summary_too_large'')"

definition approval_item_valid :: "approval_item \<Rightarrow> bool" where
  "approval_item_valid i \<longleftrightarrow> ai_kind i \<in> {''command'', ''file_change'', ''permission''}
     \<and> 1 \<le> length (ai_summary i) \<and> length (ai_summary i) \<le> 512"

definition ensure_approval_projection_fits ::
  "(datetime \<Rightarrow> ustr) \<Rightarrow> approval \<Rightarrow> device \<Rightarrow> capacity_error option" where
  "ensure_approval_projection_fits fmt a d =
     (if \<not> approval_item_valid (approval_item_of a d) then Some Projection_Invalid
      else ensure_fits (approval_json fmt (approval_item_of a d))
        BOOTSTRAP_APPROVAL_ITEM_MAX_BYTES ''approval_item_too_large'')"

section \<open>Model catalog\<close>

record model_summary =
  ms_id :: ustr
  ms_display_name :: ustr
  ms_description :: "ustr option"

definition model_valid :: "(ustr \<Rightarrow> bool) \<Rightarrow> model_summary \<Rightarrow> bool" where
  "model_valid valid_text s \<longleftrightarrow> 1 \<le> length (ms_id s) \<and> length (ms_id s) \<le> 128
     \<and> 1 \<le> length (ms_display_name s) \<and> length (ms_display_name s) \<le> 255
     \<and> (\<forall>t. ms_description s = Some t \<longrightarrow> length t \<le> 512 \<and> valid_text t)
     \<and> valid_text (ms_id s) \<and> valid_text (ms_display_name s)"

definition opt_text :: "ustr option \<Rightarrow> json" where
  "opt_text t = (case t of None \<Rightarrow> JNull | Some s \<Rightarrow> JStr s)"

definition model_json :: "model_summary \<Rightarrow> json" where
  "model_json s = JObj [(u ''id'', JStr (ms_id s)), (u ''display_name'', JStr (ms_display_name s)),
     (u ''description'', opt_text (ms_description s))]"

fun first_string :: "dict \<Rightarrow> string list \<Rightarrow> ustr option" where
  "first_string d [] = None"
| "first_string d (k # ks) =
     (case dict_get d (u k) of Some (JStr (c # cs)) \<Rightarrow> Some (c # cs) | _ \<Rightarrow> first_string d ks)"

fun catalog_candidates_of :: "dict \<Rightarrow> string list \<Rightarrow> json list option" where
  "catalog_candidates_of d [] = None"
| "catalog_candidates_of d (k # ks) =
     (case dict_get d (u k) of Some (JArr xs) \<Rightarrow> Some xs | _ \<Rightarrow> catalog_candidates_of d ks)"

fun catalog_candidates :: "json \<Rightarrow> json list option" where
  "catalog_candidates (JObj d) = catalog_candidates_of d [''data'', ''models'', ''items'']"
| "catalog_candidates (JArr xs) = Some xs"
| "catalog_candidates _ = None"

fun model_of :: "(ustr \<Rightarrow> bool) \<Rightarrow> json \<Rightarrow> model_summary option" where
  "model_of valid_text (JObj d) =
     (case first_string d [''id'', ''model'', ''slug''] of
        None \<Rightarrow> None
      | Some model_id \<Rightarrow>
          let display = (case first_string d [''display_name'', ''displayName'', ''name''] of
                 None \<Rightarrow> model_id | Some n \<Rightarrow> n);
              s = \<lparr>ms_id = take 128 model_id, ms_display_name = take 255 display,
                   ms_description = map_option (take 512) (first_string d [''description''])\<rparr>
          in if model_valid valid_text s then Some s else None)"
| "model_of valid_text _ = None"

fun catalog_loop ::
  "(ustr \<Rightarrow> bool) \<Rightarrow> nat \<Rightarrow> json list \<Rightarrow> json list \<Rightarrow> json list" where
  "catalog_loop valid_text limit [] catalog = catalog"
| "catalog_loop valid_text limit (raw # raws) catalog =
     (if length catalog \<ge> limit then catalog
      else case model_of valid_text raw of
        None \<Rightarrow> catalog_loop valid_text limit raws catalog
      | Some s \<Rightarrow>
          if length (dumps True (JArr (catalog @ [model_json s]))) > BOOTSTRAP_MODEL_CATALOG_MAX_BYTES
          then catalog
          else catalog_loop valid_text limit raws (catalog @ [model_json s]))"

definition bounded_model_catalog :: "(ustr \<Rightarrow> bool) \<Rightarrow> json \<Rightarrow> settings \<Rightarrow> json list" where
  "bounded_model_catalog valid_text result cfg =
     (case catalog_candidates result of
        None \<Rightarrow> []
      | Some raws \<Rightarrow> catalog_loop valid_text (bootstrap_max_models_per_device cfg) raws [])"

text \<open>\<open>ModelSummary.model_validate\<close> of a stored entry: the three fields, no others, the
  description optional.\<close>

fun validated_model :: "(ustr \<Rightarrow> bool) \<Rightarrow> json \<Rightarrow> model_summary option" where
  "validated_model valid_text (JObj d) =
     (if set (map fst d) \<subseteq> {u ''id'', u ''display_name'', u ''description''}
      then case (dict_get d (u ''id''), dict_get d (u ''display_name''), dict_get d (u ''description'')) of
          (Some (JStr i), Some (JStr n), desc) \<Rightarrow>
            (case desc of
               Some (JStr t) \<Rightarrow>
                 (let s = \<lparr>ms_id = i, ms_display_name = n, ms_description = Some t\<rparr> in
                  if model_valid valid_text s then Some s else None)
             | None \<Rightarrow>
                 (let s = \<lparr>ms_id = i, ms_display_name = n, ms_description = None\<rparr> in
                  if model_valid valid_text s then Some s else None)
             | Some JNull \<Rightarrow>
                 (let s = \<lparr>ms_id = i, ms_display_name = n, ms_description = None\<rparr> in
                  if model_valid valid_text s then Some s else None)
             | _ \<Rightarrow> None)
        | _ \<Rightarrow> None
      else None)"
| "validated_model valid_text _ = None"

definition model_catalog_of :: "(ustr \<Rightarrow> bool) \<Rightarrow> json list \<Rightarrow> model_summary list" where
  "model_catalog_of valid_text raws = List.map_filter (validated_model valid_text) raws"

definition ensure_model_catalog_fits ::
  "(ustr \<Rightarrow> bool) \<Rightarrow> device \<Rightarrow> settings \<Rightarrow> capacity_error option" where
  "ensure_model_catalog_fits valid_text d cfg =
     (let n = bootstrap_max_models_per_device cfg;
          catalog = map model_json (model_catalog_of valid_text (take (n + 1) (dev_model_catalog d)))
      in if length catalog > n then Some (Owner_Capacity_Exceeded ''model_catalog_item_limit_exceeded'')
         else ensure_fits (JArr catalog) BOOTSTRAP_MODEL_CATALOG_MAX_BYTES ''model_catalog_too_large'')"

section \<open>Quotas\<close>

definition device_visible :: "database \<Rightarrow> uuid \<Rightarrow> bool" where
  "device_visible db i \<longleftrightarrow> exists_where (\<lambda>d. dev_id d = i \<and> dev_status d \<noteq> REVOKED) (devices db)"

definition active_device_count :: "database \<Rightarrow> ustr \<Rightarrow> nat" where
  "active_device_count db owner =
     count_where (\<lambda>d. dev_owner_user_id d = owner \<and> dev_status d \<noteq> REVOKED) (devices db)"

definition total_device_count :: "database \<Rightarrow> ustr \<Rightarrow> nat" where
  "total_device_count db owner = count_where (\<lambda>d. dev_owner_user_id d = owner) (devices db)"

definition ensure_device_creation_capacity ::
  "settings \<Rightarrow> ustr \<Rightarrow> database \<Rightarrow> capacity_error + database" where
  "ensure_device_creation_capacity cfg owner db =
     (let db1 = snd (lock_owner_cursor owner db) in
      if active_device_count db1 owner \<ge> bootstrap_max_devices cfg
      then Inl (Owner_Capacity_Exceeded ''active_device_limit_exceeded'')
      else if total_device_count db1 owner \<ge> owner_max_device_records cfg
      then Inl (Owner_Capacity_Exceeded ''device_record_limit_exceeded'')
      else Inr db1)"

definition resume_reservation :: "database \<Rightarrow> thread_binding \<Rightarrow> bool" where
  "resume_reservation db b \<longleftrightarrow> exists_where (\<lambda>c. cmd_thread_binding_id c = Some (thr_id b)
     \<and> cmd_method c = ''thread/resume'' \<and> outstanding c) (commands db)"

definition thread_counted :: "database \<Rightarrow> ustr \<Rightarrow> thread_binding \<Rightarrow> bool" where
  "thread_counted db owner b \<longleftrightarrow> thr_owner_user_id b = owner \<and> device_visible db (thr_device_id b)
     \<and> (thr_status b \<notin> {CLOSED, STALE} \<or> resume_reservation db b)"

definition visible_thread_count :: "database \<Rightarrow> ustr \<Rightarrow> nat" where
  "visible_thread_count db owner = count_where (thread_counted db owner) (thread_bindings db)"

definition total_thread_count :: "database \<Rightarrow> ustr \<Rightarrow> nat" where
  "total_thread_count db owner = count_where (\<lambda>b. thr_owner_user_id b = owner) (thread_bindings db)"

definition ensure_thread_visibility_capacity_locked ::
  "settings \<Rightarrow> ustr \<Rightarrow> database \<Rightarrow> capacity_error option" where
  "ensure_thread_visibility_capacity_locked cfg owner db =
     (if visible_thread_count db owner \<ge> bootstrap_max_threads cfg
      then Some (Owner_Capacity_Exceeded ''thread_limit_exceeded'') else None)"

definition ensure_thread_creation_capacity_locked ::
  "settings \<Rightarrow> ustr \<Rightarrow> database \<Rightarrow> capacity_error option" where
  "ensure_thread_creation_capacity_locked cfg owner db =
     (case ensure_thread_visibility_capacity_locked cfg owner db of
        Some e \<Rightarrow> Some e
      | None \<Rightarrow>
          if total_thread_count db owner \<ge> owner_max_thread_records cfg
          then Some (Owner_Capacity_Exceeded ''thread_record_limit_exceeded'') else None)"

definition ensure_thread_creation_capacity ::
  "settings \<Rightarrow> ustr \<Rightarrow> database \<Rightarrow> capacity_error + database" where
  "ensure_thread_creation_capacity cfg owner db =
     (let db1 = snd (lock_owner_cursor owner db) in
      case ensure_thread_creation_capacity_locked cfg owner db1 of
        Some e \<Rightarrow> Inl e
      | None \<Rightarrow> Inr db1)"

definition pending_visible :: "datetime \<Rightarrow> ustr \<Rightarrow> database \<Rightarrow> approval \<Rightarrow> bool" where
  "pending_visible now owner db a \<longleftrightarrow> apv_owner_user_id a = owner \<and> apv_status a = APPROVAL_PENDING
     \<and> apv_expires_at a > now \<and> device_visible db (apv_device_id a)"

definition active_pending_approval_count :: "datetime \<Rightarrow> database \<Rightarrow> ustr \<Rightarrow> nat" where
  "active_pending_approval_count now db owner = count_where (pending_visible now owner db) (approvals db)"

definition approval_capacity_denial_reason_locked ::
  "settings \<Rightarrow> ustr \<Rightarrow> uuid \<Rightarrow> datetime \<Rightarrow> database \<Rightarrow> string option" where
  "approval_capacity_denial_reason_locked cfg owner device_id now db =
     (if count_where (\<lambda>a. apv_device_id a = device_id \<and> apv_status a = APPROVAL_PENDING
           \<and> apv_expires_at a > now) (approvals db) \<ge> device_max_pending_approvals cfg
      then Some ''approval_limit_default_deny''
      else if active_pending_approval_count now db owner \<ge> bootstrap_max_pending_approvals cfg
      then Some ''owner_approval_limit_default_deny''
      else None)"

definition ensure_approval_record_capacity_locked ::
  "settings \<Rightarrow> ustr \<Rightarrow> uuid \<Rightarrow> database \<Rightarrow> capacity_error option" where
  "ensure_approval_record_capacity_locked cfg owner device_id db =
     (if count_where (\<lambda>a. apv_device_id a = device_id) (approvals db) \<ge> device_max_approval_records cfg
      then Some (Owner_Capacity_Exceeded ''device_approval_record_limit_exceeded'')
      else if count_where (\<lambda>a. apv_owner_user_id a = owner) (approvals db) \<ge> owner_max_approval_records cfg
      then Some (Owner_Capacity_Exceeded ''owner_approval_record_limit_exceeded'')
      else None)"

definition thread_is_safely_archivable :: "database \<Rightarrow> thread_binding \<Rightarrow> bool" where
  "thread_is_safely_archivable db b \<longleftrightarrow>
     thr_status b \<in> {IDLE, THREAD_FAILED} \<and> thr_active_turn_id b = None
   \<and> \<not> exists_where (\<lambda>c. cmd_thread_binding_id c = Some (thr_id b) \<and> outstanding c) (commands db)
   \<and> \<not> exists_where (\<lambda>a. apv_status a = APPROVAL_PENDING
        \<and> exists_where (\<lambda>c. apv_command_id a = Some (cmd_id c)
            \<and> cmd_thread_binding_id c = Some (thr_id b)) (commands db)) (approvals db)
   \<and> \<not> exists_where (\<lambda>x. obx_device_id x = thr_device_id b \<and> obx_acked_at x = None) (device_outboxes db)"

section \<open>Facts about the projections\<close>

lemma ensure_fits_None:
  "ensure_fits j limit code = None \<longleftrightarrow> all_finite j \<and> length (dumps True j) \<le> limit"
  by (auto simp: ensure_fits_def ensure_ascii_json_byte_length_def split: option.splits if_splits)

lemma validated_model_json [simp]:
  "validated_model valid_text (model_json s) = (if model_valid valid_text s then Some s else None)"
proof (cases s)
  case (fields i n d)
  then show ?thesis by (cases d) (simp_all add: model_json_def opt_text_def dict_get_def Let_def)
qed

lemma model_of_valid: "model_of valid_text raw = Some s \<Longrightarrow> model_valid valid_text s"
  by (cases raw) (auto simp: Let_def split: option.splits if_splits)

lemma catalog_loop_invariant:
  assumes "\<forall>j \<in> set catalog. \<exists>s. j = model_json s \<and> model_valid valid_text s"
    and "length catalog \<le> limit"
    and "length (dumps True (JArr catalog)) \<le> BOOTSTRAP_MODEL_CATALOG_MAX_BYTES"
  shows "(\<forall>j \<in> set (catalog_loop valid_text limit raws catalog).
        \<exists>s. j = model_json s \<and> model_valid valid_text s)
    \<and> length (catalog_loop valid_text limit raws catalog) \<le> limit
    \<and> length (dumps True (JArr (catalog_loop valid_text limit raws catalog)))
        \<le> BOOTSTRAP_MODEL_CATALOG_MAX_BYTES"
  using assms
proof (induction raws arbitrary: catalog)
  case (Cons raw raws)
  show ?case
  proof (cases "length catalog < limit \<and> (\<exists>s. model_of valid_text raw = Some s
      \<and> length (dumps True (JArr (catalog @ [model_json s]))) \<le> BOOTSTRAP_MODEL_CATALOG_MAX_BYTES)")
    case True
    then obtain s where s: "model_of valid_text raw = Some s" "length catalog < limit"
        "length (dumps True (JArr (catalog @ [model_json s]))) \<le> BOOTSTRAP_MODEL_CATALOG_MAX_BYTES"
      by blast
    have eq: "catalog_loop valid_text limit (raw # raws) catalog =
        catalog_loop valid_text limit raws (catalog @ [model_json s])"
      using s by (simp del: dumps.simps)
    show ?thesis
      unfolding eq
    proof (rule Cons.IH [OF _ _ s(3)])
      show "\<forall>j \<in> set (catalog @ [model_json s]). \<exists>s. j = model_json s \<and> model_valid valid_text s"
        using Cons.prems(1) model_of_valid [OF s(1)] by auto
      show "length (catalog @ [model_json s]) \<le> limit" using s(2) by simp
    qed
  next
    case False
    then have "catalog_loop valid_text limit (raw # raws) catalog = catalog
      \<or> catalog_loop valid_text limit (raw # raws) catalog = catalog_loop valid_text limit raws catalog"
      by (cases "model_of valid_text raw") (auto simp del: dumps.simps)
    then show ?thesis
    proof (elim disjE)
      assume 1: "catalog_loop valid_text limit (raw # raws) catalog = catalog"
      show ?thesis unfolding 1 using Cons.prems by blast
    next
      assume 2: "catalog_loop valid_text limit (raw # raws) catalog =
        catalog_loop valid_text limit raws catalog"
      show ?thesis unfolding 2 by (rule Cons.IH [OF Cons.prems])
    qed
  qed
qed simp

text \<open>What the catalog routine stores is a list of valid model summaries within the item and
  the byte limit, whatever the device answers; so the stored catalog later passes the check of the
  bootstrap and is read back completely.\<close>

theorem bounded_catalog_fits:
  "ensure_model_catalog_fits valid_text (d\<lparr>dev_model_catalog := bounded_model_catalog valid_text result cfg\<rparr>) cfg
     = None
   \<and> map model_json (model_catalog_of valid_text (bounded_model_catalog valid_text result cfg))
     = bounded_model_catalog valid_text result cfg
   \<and> length (bounded_model_catalog valid_text result cfg) \<le> bootstrap_max_models_per_device cfg"
proof -
  let ?c = "bounded_model_catalog valid_text result cfg"
  have inv: "(\<forall>j \<in> set ?c. \<exists>s. j = model_json s \<and> model_valid valid_text s)
      \<and> length ?c \<le> bootstrap_max_models_per_device cfg
      \<and> length (dumps True (JArr ?c)) \<le> BOOTSTRAP_MODEL_CATALOG_MAX_BYTES"
    unfolding bounded_model_catalog_def
    using catalog_loop_invariant [of "[]" valid_text "bootstrap_max_models_per_device cfg"]
    by (auto split: option.split simp: BOOTSTRAP_MODEL_CATALOG_MAX_BYTES_def)
  have stored: "map model_json (model_catalog_of valid_text xs) = xs"
    if "\<forall>j \<in> set xs. \<exists>s. j = model_json s \<and> model_valid valid_text s" for xs
    using that by (induction xs) (auto simp: model_catalog_of_def List.map_filter_simps)
  have "all_finite (JArr ?c)"
    using inv by (auto simp: list_all_iff model_json_def opt_text_def split: option.split)
  moreover have all: "take (bootstrap_max_models_per_device cfg + 1)
      (dev_model_catalog (d\<lparr>dev_model_catalog := ?c\<rparr>)) = ?c" using inv by simp
  moreover have m: "map model_json (model_catalog_of valid_text ?c) = ?c" using stored inv by blast
  ultimately have "ensure_model_catalog_fits valid_text (d\<lparr>dev_model_catalog := ?c\<rparr>) cfg = None"
    unfolding ensure_model_catalog_fits_def Let_def all m
    using inv by (simp add: ensure_fits_None del: dumps.simps all_finite.simps)
  then show ?thesis using m inv by blast
qed

end
