(* ===== verification/Bootstrap.thy ===== *)
theory Bootstrap
  imports Capacity
begin

text \<open>
  The bootstrap snapshot of a browser (\<open>bootstrap_control\<close> and \<open>list_devices\<close> in
  \<open>control_routes.py\<close>): the state of an owner at a locked event cursor, refused when it exceeds
  the configured counts or sizes.  The serializer of the response model is an argument \<open>emit\<close>,
  the admitted connector release a JSON value.  One reading of the clock stands for the readings
  of the source.
\<close>

section \<open>Snapshot\<close>

record bootstrap =
  bs_event_cursor :: ustr
  bs_devices :: "device_summary list"
  bs_threads :: "managed_thread_summary list"
  bs_approvals :: "approval_item list"
  bs_models :: "(ustr \<times> model_summary list) list"
  bs_release :: json

datatype bootstrap_error =
    Bootstrap_Limit string
  | Bootstrap_Failure

definition bootstrap_json :: "(datetime \<Rightarrow> ustr) \<Rightarrow> bootstrap \<Rightarrow> json" where
  "bootstrap_json fmt s = JObj [(u ''event_cursor'', JStr (bs_event_cursor s)),
     (u ''devices'', JArr (map (device_json fmt) (bs_devices s))),
     (u ''threads'', JArr (map (thread_json fmt) (bs_threads s))),
     (u ''approvals'', JArr (map (approval_json fmt) (bs_approvals s))),
     (u ''models_by_device'', JObj (map (\<lambda>(k, ms). (k, JArr (map model_json ms))) (bs_models s))),
     (u ''connector_release'', bs_release s)]"

definition visible_devices :: "ustr \<Rightarrow> nat \<Rightarrow> database \<Rightarrow> device list" where
  "visible_devices owner limit db =
     select_ordered (\<lambda>d. dev_owner_user_id d = owner \<and> dev_status d \<noteq> REVOKED)
       (\<lambda>d. - dev_created_at d) limit (devices db)"

definition list_devices ::
  "(ustr \<Rightarrow> ustr) \<Rightarrow> (json \<Rightarrow> ustr) \<Rightarrow> settings \<Rightarrow> (uuid \<Rightarrow> ustr option) \<Rightarrow> ustr \<Rightarrow> database
     \<Rightarrow> (capacity_error + device_summary) list" where
  "list_devices fr pystr cfg lookup owner db =
     map (\<lambda>d. device_summary_of fr pystr (lookup (dev_id d)) d)
       (visible_devices owner (bootstrap_max_devices cfg) db)"

definition visible_threads :: "ustr \<Rightarrow> nat \<Rightarrow> database \<Rightarrow> thread_binding list" where
  "visible_threads owner limit db =
     take limit (sort_key (\<lambda>b. - thr_updated_at b)
       [b. b \<leftarrow> thread_bindings db, d \<leftarrow> devices db,
         dev_id d = thr_device_id b \<and> thr_owner_user_id b = owner \<and> thr_status b \<notin> {CLOSED, STALE}
         \<and> dev_status d \<noteq> REVOKED])"

definition pending_rows :: "datetime \<Rightarrow> ustr \<Rightarrow> database \<Rightarrow> approval list" where
  "pending_rows now owner db =
     [a. a \<leftarrow> approvals db, d \<leftarrow> devices db,
       dev_id d = apv_device_id a \<and> apv_owner_user_id a = owner \<and> apv_status a = APPROVAL_PENDING
       \<and> apv_expires_at a > now \<and> dev_status d \<noteq> REVOKED]"

fun first_failure :: "capacity_error option list \<Rightarrow> capacity_error option" where
  "first_failure [] = None"
| "first_failure (Some e # es) = Some e"
| "first_failure (None # es) = first_failure es"

definition approval_fits :: "(datetime \<Rightarrow> ustr) \<Rightarrow> device list \<Rightarrow> approval \<Rightarrow> capacity_error option" where
  "approval_fits fmt ds a =
     (case scalar (\<lambda>d. dev_id d = apv_device_id a) ds of
        None \<Rightarrow> Some (Owner_Capacity_Exceeded ''approval_device_not_bootstrap_visible'')
      | Some d \<Rightarrow> ensure_approval_projection_fits fmt a d)"

definition bootstrap_checks ::
  "(json \<Rightarrow> ustr) \<Rightarrow> (datetime \<Rightarrow> ustr) \<Rightarrow> (ustr \<Rightarrow> bool) \<Rightarrow> settings \<Rightarrow> device list \<Rightarrow> thread_binding list
     \<Rightarrow> approval list \<Rightarrow> capacity_error option" where
  "bootstrap_checks pystr fmt valid_text cfg ds bs as =
     first_failure
       (concat (map (\<lambda>d. [ensure_device_projection_fits fmt pystr d,
                            ensure_model_catalog_fits valid_text d cfg]) ds)
        @ map (ensure_thread_projection_fits fmt) bs @ map (approval_fits fmt ds) as)"

fun collect :: "('e + 'a) list \<Rightarrow> ('a list) option" where
  "collect [] = Some []"
| "collect (Inl e # xs) = None"
| "collect (Inr x # xs) = map_option ((#) x) (collect xs)"

text \<open>The first component is the answer, the second the database after the transaction.\<close>

definition bootstrap_control ::
  "(ustr \<Rightarrow> ustr) \<Rightarrow> (json \<Rightarrow> ustr) \<Rightarrow> (datetime \<Rightarrow> ustr) \<Rightarrow> (ustr \<Rightarrow> bool) \<Rightarrow> (json \<Rightarrow> ustr) \<Rightarrow> settings
     \<Rightarrow> (uuid \<Rightarrow> ustr option) \<Rightarrow> json \<Rightarrow> datetime \<Rightarrow> ustr \<Rightarrow> database
     \<Rightarrow> (bootstrap_error + bootstrap) \<times> database" where
  "bootstrap_control fr pystr fmt valid_text emit cfg lookup release now owner db =
     (case lock_owner_cursor owner db of (event_cursor, db1) \<Rightarrow>
      let ds = visible_devices owner (bootstrap_max_devices cfg + 1) db1;
          bs = visible_threads owner (bootstrap_max_threads cfg + 1) db1;
          thread_views = map thread_summary bs;
          approval_views = list_pending now owner db1
      in
      if length ds > bootstrap_max_devices cfg
      then (Inl (Bootstrap_Limit ''bootstrap_device_limit_exceeded''), db)
      else if length bs > bootstrap_max_threads cfg
      then (Inl (Bootstrap_Limit ''bootstrap_thread_limit_exceeded''), db)
      else if active_pending_approval_count now db1 owner > bootstrap_max_pending_approvals cfg
      then (Inl (Bootstrap_Limit ''bootstrap_approval_limit_exceeded''), db)
      else if \<not> list_all thread_summary_valid thread_views \<or> \<not> list_all approval_item_valid approval_views
      then (Inl Bootstrap_Failure, db)
      else case bootstrap_checks pystr fmt valid_text cfg ds bs (pending_rows now owner db1) of
        Some (Owner_Capacity_Exceeded code) \<Rightarrow> (Inl (Bootstrap_Limit code), db)
      | Some _ \<Rightarrow> (Inl Bootstrap_Failure, db)
      | None \<Rightarrow>
          (case collect (map (\<lambda>d. device_summary_of fr pystr (lookup (dev_id d)) d) ds) of
             None \<Rightarrow> (Inl Bootstrap_Failure, db1)
           | Some device_views \<Rightarrow>
               let snapshot = \<lparr>bs_event_cursor = nat_str event_cursor, bs_devices = device_views,
                     bs_threads = thread_views, bs_approvals = approval_views,
                     bs_models = map (\<lambda>d. (uuid_str (dev_id d),
                       model_catalog_of valid_text (dev_model_catalog d))) ds,
                     bs_release = release\<rparr>
               in if weight utf8_width (emit (bootstrap_json fmt snapshot)) > bootstrap_max_response_bytes cfg
                  then (Inl (Bootstrap_Limit ''bootstrap_response_limit_exceeded''), db1)
                  else (Inr snapshot, db1)))"

section \<open>Sizes\<close>

text \<open>What the size bound relies on: no timestamp is longer than that of the largest instant, and
  the serializer is not longer than the escaped text of the standard library.\<close>

definition timestamps_bounded :: "(datetime \<Rightarrow> ustr) \<Rightarrow> bool" where
  "timestamps_bounded fmt \<longleftrightarrow>
     2 \<le> content (fmt datetime_max) \<and> (\<forall>t. content (fmt t) \<le> content (fmt datetime_max))"

definition serializer_bounded :: "(json \<Rightarrow> ustr) \<Rightarrow> bool" where
  "serializer_bounded emit \<longleftrightarrow>
     (\<forall>j. float_texts j \<longrightarrow> weight utf8_width (emit j) \<le> length (dumps True j))"

lemma length_JArr_le:
  assumes "\<And>j. j \<in> set js \<Longrightarrow> length (dumps True j) \<le> k"
  shows "length (dumps True (JArr js)) \<le> 2 + length js * (k + 1)"
proof -
  have "sum_list (map (length \<circ> dumps True) js) \<le> length js * k"
    using sum_list_mono [of js "length \<circ> dumps True" "\<lambda>_. k"] assms
    by (simp add: sum_list_triv comp_def)
  then show ?thesis by (simp add: length_sep_by comp_def algebra_simps)
qed

lemma length_JObj_le:
  assumes "\<And>key v. (key, v) \<in> set d \<Longrightarrow> length (quote True key) + length (dumps True v) \<le> k"
  shows "length (dumps True (JObj d)) \<le> 2 + length d * (k + 2)"
proof -
  let ?f = "length \<circ> (\<lambda>(key, v). quote True key @ [58] @ dumps True v)"
  have "?f p \<le> k + 1" if "p \<in> set d" for p
    using assms [of "fst p" "snd p"] that by (cases p) simp
  then have "sum_list (map ?f d) \<le> length d * (k + 1)"
    using sum_list_mono [of d ?f "\<lambda>_. k + 1"] by (simp add: sum_list_triv comp_def)
  then show ?thesis by (simp add: length_sep_by comp_def algebra_simps)
qed

lemma length_quote_content: "length (quote True s) = content s + 2"
  by (simp add: content_length length_quote)

lemma status_content:
  "content (u ''offline'') = 7" "content (u ''online'') = 6" "content (u ''waiting_for_approval'') = 20"
  "content (u ''idle'') = 4" "content (u ''running'') = 7" "content (u ''failed'') = 6"
  by (simp_all add: content_length u_def escape_plain)

lemma device_json_fits:
  assumes "timestamps_bounded fmt" "ensure_device_projection_fits fmt pystr d = None"
    "dev_status d \<noteq> REVOKED" "device_summary_of fr pystr raw d = Inr s"
  shows "length (dumps True (device_json fmt s)) \<le> BOOTSTRAP_DEVICE_SUMMARY_MAX_BYTES"
proof -
  have s: "s = summary_of pystr ''online'' d \<or> s = summary_of pystr ''offline'' d"
    using assms(3,4) by (auto simp: device_summary_of_def Let_def split: if_splits)
  have seen: "length (dumps True (opt_time fmt (dev_last_seen_at d))) \<le> content (fmt datetime_max) + 2"
    using assms(1) by (auto simp: opt_time_def timestamps_bounded_def length_quote_content split: option.split)
  have "length (dumps True (device_json fmt ((summary_of pystr ''offline'' d)
      \<lparr>ds_status := ''offline'', ds_last_seen_at := Some datetime_max\<rparr>))) \<le> BOOTSTRAP_DEVICE_SUMMARY_MAX_BYTES"
    using assms(2) by (auto simp: ensure_device_projection_fits_def device_bootstrap_summary_def Let_def
        ensure_fits_None split: if_splits simp del: dumps.simps all_finite.simps)
  then show ?thesis
    using s seen by (auto simp: device_json_def summary_of_def opt_time_def length_quote_content status_content)
qed

lemma thread_json_fits:
  assumes "ensure_thread_projection_fits fmt b = None"
  shows "length (dumps True (thread_json fmt (thread_summary b))) \<le> BOOTSTRAP_THREAD_SUMMARY_MAX_BYTES"
proof -
  have "length (dumps True (thread_json fmt ((thread_summary b)\<lparr>ts_status := WAITING_FOR_APPROVAL\<rparr>)))
      \<le> BOOTSTRAP_THREAD_SUMMARY_MAX_BYTES"
    using assms by (auto simp: ensure_thread_projection_fits_def ensure_fits_None split: if_splits
        simp del: dumps.simps all_finite.simps)
  moreover have "content (u (thread_status_value (ts_status (thread_summary b)))) \<le> 20"
    using thread_summary_visible [of b] by (auto simp: status_content)
  ultimately show ?thesis by (simp add: thread_json_def length_quote_content status_content)
qed

lemma models_json_fits:
  assumes "ensure_model_catalog_fits valid_text d cfg = None"
    and "length (dev_model_catalog d) \<le> bootstrap_max_models_per_device cfg + 1"
  shows "length (dumps True (JArr (map model_json (model_catalog_of valid_text (dev_model_catalog d)))))
    \<le> BOOTSTRAP_MODEL_CATALOG_MAX_BYTES"
  using assms by (auto simp: ensure_model_catalog_fits_def Let_def ensure_fits_None split: if_splits
      simp del: dumps.simps all_finite.simps)

lemma first_failure_None: "first_failure xs = None \<longleftrightarrow> set xs \<subseteq> {None}"
  by (induction xs rule: first_failure.induct) auto

lemma collect_Some: "collect xs = Some ys \<Longrightarrow> xs = map Inr ys"
  by (induction xs arbitrary: ys rule: collect.induct) auto

section \<open>Joins with the device table\<close>

lemma join_singleton:
  assumes "distinct (map dev_id ds)"
  shows "concat (map (\<lambda>d. if dev_id d = i \<and> P d then [f d] else []) ds) =
    (case scalar (\<lambda>d. dev_id d = i \<and> P d) ds of None \<Rightarrow> [] | Some d \<Rightarrow> [f d])"
  using assms
proof (induction ds)
  case (Cons d ds)
  have "dev_id d = i \<Longrightarrow> concat (map (\<lambda>d. if dev_id d = i \<and> P d then [f d] else []) ds) = []"
    using Cons.prems by (auto simp: image_iff)
  moreover have "dev_id d = i \<Longrightarrow> scalar (\<lambda>d. dev_id d = i \<and> P d) ds = None"
    using Cons.prems by (simp add: scalar_None_iff) (metis imageI)
  ultimately show ?case using Cons by auto
qed simp

lemma list_pending_items:
  assumes "distinct (map dev_id (devices db))"
  shows "length (list_pending now owner db) = active_pending_approval_count now db owner"
    "i \<in> set (list_pending now owner db) \<Longrightarrow> \<exists>a d. i = approval_item_of a d \<and> a \<in> set (pending_rows now owner db)
       \<and> d \<in> set (devices db) \<and> dev_id d = apv_device_id a"
proof -
  have "length (concat (map (\<lambda>a. concat (map (\<lambda>d.
      if dev_id d = apv_device_id a \<and> apv_owner_user_id a = owner \<and> apv_status a = APPROVAL_PENDING
         \<and> apv_expires_at a > now \<and> dev_status d \<noteq> REVOKED then [(a, d)] else []) (devices db))) as)) =
      count_where (pending_visible now owner db) as" for as
    unfolding join_singleton [OF assms]
    by (induction as) (auto simp: pending_visible_def device_visible_def exists_where_iff scalar_None_iff
        dest!: scalar_SomeD split: option.splits)
  then show "length (list_pending now owner db) = active_pending_approval_count now db owner"
    by (simp add: list_pending_def active_pending_approval_count_def)
  show "i \<in> set (list_pending now owner db) \<Longrightarrow> \<exists>a d. i = approval_item_of a d
      \<and> a \<in> set (pending_rows now owner db) \<and> d \<in> set (devices db) \<and> dev_id d = apv_device_id a"
    by (fastforce simp: list_pending_def pending_rows_def)
qed

section \<open>The response limit\<close>

lemma cursor_content: "n \<le> MAX_EVENT_CURSOR \<Longrightarrow> content (nat_str n) \<le> 19"
proof -
  assume "n \<le> MAX_EVENT_CURSOR"
  then have "length (nat_str n) \<le> length (nat_str MAX_EVENT_CURSOR)" by (rule nat_str_length_mono)
  also have "\<dots> = 19" by (simp add: MAX_EVENT_CURSOR_def nat_str.simps)
  finally show ?thesis
    using content_plain [of "nat_str n"] nat_str_digits [of _ n] by force
qed

lemma check_codes:
  assumes "bootstrap_checks pystr fmt valid_text cfg ds bs as = Some (Owner_Capacity_Exceeded code)"
  shows "code \<noteq> ''bootstrap_response_limit_exceeded''"
proof -
  have mem: "first_failure xs = Some e \<Longrightarrow> Some e \<in> set xs" for xs and e
    by (induction xs rule: first_failure.induct) auto
  have fits: "ensure_fits j n c = Some (Owner_Capacity_Exceeded x) \<Longrightarrow> x = c" for j n c x
    by (auto simp: ensure_fits_def split: option.splits if_splits)
  show ?thesis
    using mem [OF assms [unfolded bootstrap_checks_def]]
    by (auto simp: ensure_device_projection_fits_def device_bootstrap_summary_def Let_def
        ensure_model_catalog_fits_def ensure_thread_projection_fits_def approval_fits_def
        ensure_approval_projection_fits_def
        dest!: fits [OF sym] split: sum.splits if_splits option.splits)
qed

lemma snapshot_float_texts:
  assumes "\<And>i. i \<in> set (bs_approvals s) \<Longrightarrow> float_texts (JObj (ai_details i))" "float_texts (bs_release s)"
  shows "float_texts (bootstrap_json fmt s)"
  using assms
  by (auto simp: bootstrap_json_def list_all_iff device_json_def thread_json_def approval_json_def
      model_json_def opt_time_def opt_text_def split: option.split)

lemma snapshot_length:
  assumes "\<And>x. x \<in> set (bs_devices s) \<Longrightarrow> length (dumps True (device_json fmt x)) \<le> BOOTSTRAP_DEVICE_SUMMARY_MAX_BYTES"
    and "\<And>x. x \<in> set (bs_threads s) \<Longrightarrow> length (dumps True (thread_json fmt x)) \<le> BOOTSTRAP_THREAD_SUMMARY_MAX_BYTES"
    and "\<And>x. x \<in> set (bs_approvals s) \<Longrightarrow> length (dumps True (approval_json fmt x)) \<le> BOOTSTRAP_APPROVAL_ITEM_MAX_BYTES"
    and "\<And>k ms. (k, ms) \<in> set (bs_models s) \<Longrightarrow> length (quote True k) = 38
        \<and> length (dumps True (JArr (map model_json ms))) \<le> BOOTSTRAP_MODEL_CATALOG_MAX_BYTES"
    and "length (dumps True (bs_release s)) \<le> BOOTSTRAP_CONNECTOR_RELEASE_MAX_BYTES"
    and "content (bs_event_cursor s) \<le> 19" "length (bs_devices s) \<le> bootstrap_max_devices cfg"
    and "length (bs_models s) \<le> bootstrap_max_devices cfg" "length (bs_threads s) \<le> bootstrap_max_threads cfg"
    and "length (bs_approvals s) \<le> bootstrap_max_pending_approvals cfg"
  shows "length (dumps True (bootstrap_json fmt s)) \<le> bootstrap_worst_case_bytes cfg"
proof -
  let ?arr = "\<lambda>js. length (dumps True (JArr js))"
  let ?models = "map (\<lambda>(k, ms). (k, JArr (map model_json ms))) (bs_models s)"
  have "?arr (map (device_json fmt) (bs_devices s)) \<le> 2 + length (map (device_json fmt) (bs_devices s))
      * (BOOTSTRAP_DEVICE_SUMMARY_MAX_BYTES + 1)"
    using assms(1) by (intro length_JArr_le) auto
  then have d: "?arr (map (device_json fmt) (bs_devices s)) \<le> 2 + bootstrap_max_devices cfg * 16385"
    using mult_right_mono [OF assms(7), of 16385] by (simp add: BOOTSTRAP_DEVICE_SUMMARY_MAX_BYTES_def del: dumps.simps)
  have "?arr (map (thread_json fmt) (bs_threads s)) \<le> 2 + length (map (thread_json fmt) (bs_threads s))
      * (BOOTSTRAP_THREAD_SUMMARY_MAX_BYTES + 1)"
    using assms(2) by (intro length_JArr_le) auto
  then have t: "?arr (map (thread_json fmt) (bs_threads s)) \<le> 2 + bootstrap_max_threads cfg * 12289"
    using mult_right_mono [OF assms(9), of 12289] by (simp add: BOOTSTRAP_THREAD_SUMMARY_MAX_BYTES_def del: dumps.simps)
  have "?arr (map (approval_json fmt) (bs_approvals s)) \<le> 2 + length (map (approval_json fmt) (bs_approvals s))
      * (BOOTSTRAP_APPROVAL_ITEM_MAX_BYTES + 1)"
    using assms(3) by (intro length_JArr_le) auto
  then have a: "?arr (map (approval_json fmt) (bs_approvals s)) \<le> 2 + bootstrap_max_pending_approvals cfg * 69633"
    using mult_right_mono [OF assms(10), of 69633] by (simp add: BOOTSTRAP_APPROVAL_ITEM_MAX_BYTES_def del: dumps.simps)
  have "length (dumps True (JObj ?models)) \<le> 2 + length ?models * (38 + BOOTSTRAP_MODEL_CATALOG_MAX_BYTES + 2)"
    using assms(4) by (intro length_JObj_le) (auto simp del: dumps.simps)
  then have m: "length (dumps True (JObj ?models)) \<le> 2 + bootstrap_max_devices cfg * 24616"
    using mult_right_mono [OF assms(8), of 24616] by (simp add: BOOTSTRAP_MODEL_CATALOG_MAX_BYTES_def del: dumps.simps)
  have keys: "content (u ''event_cursor'') = 12" "content (u ''devices'') = 7" "content (u ''threads'') = 7"
    "content (u ''approvals'') = 9" "content (u ''models_by_device'') = 16" "content (u ''connector_release'') = 17"
    by (simp_all add: content_length u_def escape_plain)
  have parts: "length (dumps True (JObj [(k1, v1), (k2, v2), (k3, v3), (k4, v4), (k5, v5), (k6, v6)])) =
      content k1 + content k2 + content k3 + content k4 + content k5 + content k6 + 25
      + length (dumps True v1) + length (dumps True v2) + length (dumps True v3)
      + length (dumps True v4) + length (dumps True v5) + length (dumps True v6)"
    for k1 v1 k2 v2 k3 v3 k4 v4 k5 v5 k6 v6 by (simp add: length_quote_content)
  have c: "length (dumps True (JStr (bs_event_cursor s))) \<le> 21"
    using assms(6) by (simp add: length_quote_content)
  have "length (dumps True (bootstrap_json fmt s)) \<le> 93 + 21 + (2 + bootstrap_max_devices cfg * 16385)
      + (2 + bootstrap_max_threads cfg * 12289) + (2 + bootstrap_max_pending_approvals cfg * 69633)
      + (2 + bootstrap_max_devices cfg * 24616) + BOOTSTRAP_CONNECTOR_RELEASE_MAX_BYTES"
    unfolding bootstrap_json_def parts keys using c d t a m assms(5) by linarith
  also have "\<dots> \<le> bootstrap_worst_case_bytes cfg"
    by (simp add: bootstrap_worst_case_bytes_def Let_def bootstrap_bounds)
  finally show ?thesis .
qed

lemma pending_item_fits:
  assumes "distinct (map dev_id (devices db))" "x \<in> set (list_pending now owner db)" "set ds \<subseteq> set (devices db)"
    and "\<And>a. a \<in> set (pending_rows now owner db) \<Longrightarrow> approval_fits fmt ds a = None"
  shows "length (dumps True (approval_json fmt x)) \<le> BOOTSTRAP_APPROVAL_ITEM_MAX_BYTES"
proof -
  obtain a d where x: "x = approval_item_of a d" "a \<in> set (pending_rows now owner db)"
      "d \<in> set (devices db)" "dev_id d = apv_device_id a"
    using list_pending_items(2) [OF assms(1)] assms(2) by blast
  obtain d' where d': "scalar (\<lambda>d. dev_id d = apv_device_id a) ds = Some d'"
      "ensure_approval_projection_fits fmt a d' = None"
    using assms(4) [OF x(2)] by (auto simp: approval_fits_def split: option.splits)
  have "d' \<in> set (devices db)" "dev_id d' = dev_id d"
    using scalar_SomeD [OF d'(1)] assms(3) x(4) by auto
  then have "d' = d" using assms(1) x(3) by (auto simp: distinct_map inj_on_def)
  then show ?thesis
    using d'(2) x(1) by (auto simp: ensure_approval_projection_fits_def ensure_fits_None split: if_splits
        simp del: dumps.simps all_finite.simps)
qed

text \<open>The snapshot that the handler assembles from its selections.\<close>

definition assembled ::
  "(ustr \<Rightarrow> bool) \<Rightarrow> settings \<Rightarrow> json \<Rightarrow> datetime \<Rightarrow> ustr \<Rightarrow> nat \<Rightarrow> database \<Rightarrow> device_summary list \<Rightarrow> bootstrap" where
  "assembled valid_text cfg release now owner cursor db views =
     \<lparr>bs_event_cursor = nat_str cursor, bs_devices = views,
       bs_threads = map thread_summary (visible_threads owner (bootstrap_max_threads cfg + 1) db),
       bs_approvals = list_pending now owner db,
       bs_models = map (\<lambda>d. (uuid_str (dev_id d), model_catalog_of valid_text (dev_model_catalog d)))
         (visible_devices owner (bootstrap_max_devices cfg + 1) db),
       bs_release = release\<rparr>"

lemma assembled_length:
  assumes "timestamps_bounded fmt" "distinct (map dev_id (devices db))" "cursor \<le> MAX_EVENT_CURSOR"
    and "\<forall>d \<in> set (devices db). length (dev_model_catalog d) \<le> bootstrap_max_models_per_device cfg"
    and "length (dumps True release) \<le> BOOTSTRAP_CONNECTOR_RELEASE_MAX_BYTES"
    and "length (visible_devices owner (bootstrap_max_devices cfg + 1) db) \<le> bootstrap_max_devices cfg"
    and "length (visible_threads owner (bootstrap_max_threads cfg + 1) db) \<le> bootstrap_max_threads cfg"
    and "active_pending_approval_count now db owner \<le> bootstrap_max_pending_approvals cfg"
    and "bootstrap_checks pystr fmt valid_text cfg (visible_devices owner (bootstrap_max_devices cfg + 1) db)
      (visible_threads owner (bootstrap_max_threads cfg + 1) db) (pending_rows now owner db) = None"
    and "collect (map (\<lambda>d. device_summary_of fr pystr (lookup (dev_id d)) d)
      (visible_devices owner (bootstrap_max_devices cfg + 1) db)) = Some views"
  shows "length (dumps True (bootstrap_json fmt (assembled valid_text cfg release now owner cursor db views)))
    \<le> bootstrap_worst_case_bytes cfg"
proof -
  let ?ds = "visible_devices owner (bootstrap_max_devices cfg + 1) db"
  let ?snap = "assembled valid_text cfg release now owner cursor db views"
  have dev: "d \<in> set (devices db)" "dev_status d \<noteq> REVOKED" if "d \<in> set ?ds" for d
    using that set_select_ordered unfolding visible_devices_def by fastforce+
  note checks = assms(9) [unfolded bootstrap_checks_def first_failure_None]
  have cd: "ensure_device_projection_fits fmt pystr d = None" "ensure_model_catalog_fits valid_text d cfg = None"
    if "d \<in> set ?ds" for d using checks that by auto
  note views = collect_Some [OF assms(10)]
  show ?thesis
  proof (rule snapshot_length)
    fix x assume "x \<in> set (bs_devices ?snap)"
    then have "Inr x \<in> set (map (\<lambda>d. device_summary_of fr pystr (lookup (dev_id d)) d) ?ds)"
      unfolding views by (simp add: assembled_def)
    then obtain d where "d \<in> set ?ds" "device_summary_of fr pystr (lookup (dev_id d)) d = Inr x" by auto
    then show "length (dumps True (device_json fmt x)) \<le> BOOTSTRAP_DEVICE_SUMMARY_MAX_BYTES"
      using device_json_fits assms(1) cd dev by blast
  next
    fix x assume "x \<in> set (bs_threads ?snap)"
    then show "length (dumps True (thread_json fmt x)) \<le> BOOTSTRAP_THREAD_SUMMARY_MAX_BYTES"
      using thread_json_fits checks by (auto simp: assembled_def)
  next
    fix x assume "x \<in> set (bs_approvals ?snap)"
    then have x: "x \<in> set (list_pending now owner db)" by (simp add: assembled_def)
    show "length (dumps True (approval_json fmt x)) \<le> BOOTSTRAP_APPROVAL_ITEM_MAX_BYTES"
    proof (rule pending_item_fits [OF assms(2) x])
      show "set ?ds \<subseteq> set (devices db)" using dev(1) by blast
    qed (use checks in auto)
  next
    fix k ms assume "(k, ms) \<in> set (bs_models ?snap)"
    then obtain d where d: "d \<in> set ?ds" "k = uuid_str (dev_id d)" "ms = model_catalog_of valid_text (dev_model_catalog d)"
      by (auto simp: assembled_def)
    then show "length (quote True k) = 38
        \<and> length (dumps True (JArr (map model_json ms))) \<le> BOOTSTRAP_MODEL_CATALOG_MAX_BYTES"
      using models_json_fits [OF cd(2)] assms(4) dev(1) [OF d(1)] uuid_quote by auto
  qed (use assms arg_cong [OF views, of length] list_pending_items(1) [OF assms(2)] cursor_content
      in \<open>auto simp: assembled_def\<close>)
qed



end
