(* ===== verification/Outbox.thy ===== *)
theory Outbox
  imports Capacity
begin

text \<open>
  The durable outbox of a device (\<open>realtime.py\<close>): every frame that the server sends gets the next
  server sequence number and is stored until the device acknowledges it; on a reconnection the
  unacknowledged frames are sent again.  The identifier of a frame, the clock and the text of a
  timestamp (\<open>fmt\<close>) are arguments.
\<close>

section \<open>Connections and frames\<close>

record socket_connection =
  sk_device_id :: uuid
  sk_owner_user_id :: ustr
  sk_connection_nonce :: ustr
  sk_epoch :: ustr
  sk_registry_value :: ustr
  sk_received_sequence :: nat

datatype realtime_error =
    Protocol_Error string
  | Sequence_Gap nat nat
  | Stale_Connection string
  | Stream_Error event_error
  | Wire_Validation_Error
  | Store_Failure
  | Type_Failure
  | Database_Failure

definition put_device :: "device \<Rightarrow> database \<Rightarrow> database" where
  "put_device d db = db\<lparr>devices := update_where (\<lambda>x. dev_id x = dev_id d) (\<lambda>_. d) (devices db)\<rparr>"

definition update_connection ::
  "ustr \<Rightarrow> (device_connection \<Rightarrow> device_connection) \<Rightarrow> database \<Rightarrow> database" where
  "update_connection nonce f db =
     db\<lparr>device_connections := update_where (\<lambda>x. con_connection_nonce x = nonce) f (device_connections db)\<rparr>"

definition lock_active_device :: "socket_connection \<Rightarrow> database \<Rightarrow> realtime_error + device" where
  "lock_active_device conn db =
     (case scalar (\<lambda>d. dev_id d = sk_device_id conn) (devices db) of
        None \<Rightarrow> Inl (Stale_Connection ''connection is no longer active'')
      | Some d \<Rightarrow>
          if dev_status d \<noteq> ACTIVE \<or> dev_active_connection_nonce d \<noteq> Some (sk_connection_nonce conn)
             \<or> dev_active_epoch d \<noteq> Some (sk_epoch conn)
          then Inl (Stale_Connection ''connection is no longer active'')
          else Inr d)"

definition server_frame ::
  "ustr \<Rightarrow> uuid \<Rightarrow> ustr \<Rightarrow> nat \<Rightarrow> nat \<Rightarrow> string \<Rightarrow> ustr \<Rightarrow> dict \<Rightarrow> json" where
  "server_frame frame_id device_id epoch seq ack envelope_type sent_at payload =
     JObj [(u ''version'', JInt 1), (u ''id'', JStr frame_id), (u ''device_id'', JStr (uuid_str device_id)),
       (u ''epoch'', JStr epoch), (u ''seq'', JInt (int seq)), (u ''ack'', JInt (int ack)),
       (u ''type'', JStr (u envelope_type)), (u ''sent_at'', JStr sent_at), (u ''payload'', JObj payload)]"

definition unacked :: "uuid \<Rightarrow> database \<Rightarrow> device_outbox list" where
  "unacked i db = filter (\<lambda>x. obx_device_id x = i \<and> obx_acked_at x = None) (device_outboxes db)"

definition new_outbox_row ::
  "settings \<Rightarrow> datetime \<Rightarrow> device \<Rightarrow> string \<Rightarrow> ustr \<Rightarrow> device_outbox" where
  "new_outbox_row cfg now d envelope_type encoded =
     \<lparr>obx_device_id = dev_id d, obx_sequence = dev_last_server_sequence d + 1,
      obx_encoded_envelope = encoded, obx_ack_sequence = dev_last_device_sequence d,
      obx_frame_type = envelope_type, obx_byte_size = length encoded, obx_created_at = now,
      obx_retained_until = now + seconds (int (device_outbox_retention_seconds cfg)),
      obx_acked_at = None\<rparr>"

text \<open>The encoded text is ASCII, so its length is its size in bytes.\<close>

definition persist_envelope_locked ::
  "settings \<Rightarrow> (datetime \<Rightarrow> ustr) \<Rightarrow> datetime \<Rightarrow> ustr \<Rightarrow> socket_connection \<Rightarrow> device \<Rightarrow> string \<Rightarrow> dict
     \<Rightarrow> database \<Rightarrow> realtime_error + (nat \<times> ustr \<times> database)" where
  "persist_envelope_locked cfg fmt now frame_id conn d envelope_type payload db =
     (let sequence = dev_last_server_sequence d + 1;
          encoded = dumps True (server_frame frame_id (dev_id d) (sk_epoch conn) sequence
            (dev_last_device_sequence d) envelope_type (fmt now) payload);
          db1 = db\<lparr>device_outboxes := delete_where
            (\<lambda>x. obx_device_id x = dev_id d \<and> obx_acked_at x \<noteq> None) (device_outboxes db)\<rparr>;
          rows = unacked (dev_id d) db1
      in if length encoded > device_max_envelope_bytes cfg
         then Inl (Protocol_Error ''server envelope exceeds the byte limit'')
         else if length rows \<ge> device_max_outbox_frames cfg
         then Inl (Protocol_Error ''device outbox frame limit reached'')
         else if sum_list (map obx_byte_size rows) + length encoded > device_max_outbox_bytes cfg
         then Inl (Protocol_Error ''device outbox byte limit reached'')
         else if rows \<noteq> [] \<and> Min (obx_created_at ` set rows)
              \<le> now - seconds (int (device_outbox_retention_seconds cfg))
         then Inl (Protocol_Error ''device outbox retention limit reached'')
         else Inr (sequence, encoded,
           update_connection (sk_connection_nonce conn) (\<lambda>c. c\<lparr>con_last_server_sequence := sequence\<rparr>)
             (put_device (d\<lparr>dev_last_server_sequence := sequence\<rparr>)
               (db1\<lparr>device_outboxes := device_outboxes db1 @ [new_outbox_row cfg now d envelope_type encoded]\<rparr>))))"

definition SERVER_OUTBOUND_TYPES :: "string list" where
  "SERVER_OUTBOUND_TYPES = [''hello_ack'', ''heartbeat'', ''heartbeat_ack'', ''command'',
     ''approval_decision'', ''token_refresh'']"

text \<open>The frame that is sent after the commit is part of the result.\<close>

definition send_envelope ::
  "settings \<Rightarrow> (datetime \<Rightarrow> ustr) \<Rightarrow> datetime \<Rightarrow> ustr \<Rightarrow> socket_connection \<Rightarrow> string \<Rightarrow> dict \<Rightarrow> database
     \<Rightarrow> (realtime_error + ustr) \<times> database" where
  "send_envelope cfg fmt now frame_id conn envelope_type payload db =
     (if envelope_type \<notin> set SERVER_OUTBOUND_TYPES \<or> envelope_type = ''hello_ack''
      then (Inl Wire_Validation_Error, db)
      else case lock_active_device conn db of
        Inl e \<Rightarrow> (Inl e, db)
      | Inr d \<Rightarrow>
          (case persist_envelope_locked cfg fmt now frame_id conn d envelope_type payload db of
             Inl e \<Rightarrow> (Inl e, db)
           | Inr (sequence, encoded, db1) \<Rightarrow> (Inr encoded, db1)))"

definition hello_ack_frame ::
  "settings \<Rightarrow> (datetime \<Rightarrow> ustr) \<Rightarrow> datetime \<Rightarrow> ustr \<Rightarrow> socket_connection \<Rightarrow> ustr \<Rightarrow> ustr" where
  "hello_ack_frame cfg fmt now frame_id conn schema_digest =
     dumps True (server_frame frame_id (sk_device_id conn) (sk_epoch conn) 0 (sk_received_sequence conn)
       ''hello_ack'' (fmt now)
       [(u ''protocol_version'', JInt 1), (u ''device_id'', JStr (uuid_str (sk_device_id conn))),
        (u ''epoch'', JStr (sk_epoch conn)), (u ''schema_digest'', JStr schema_digest),
        (u ''received_seq'', JInt (int (sk_received_sequence conn))),
        (u ''connection_id'', JStr (sk_connection_nonce conn)),
        (u ''heartbeat_timeout_seconds'', JInt (int (device_heartbeat_timeout_seconds cfg)))])"

definition replay_outbox :: "settings \<Rightarrow> socket_connection \<Rightarrow> database \<Rightarrow> realtime_error + ustr list" where
  "replay_outbox cfg conn db =
     (case lock_active_device conn db of
        Inl e \<Rightarrow> Inl e
      | Inr d \<Rightarrow>
          let first = dev_last_server_acked_sequence d + 1;
              last = dev_last_server_sequence d;
              rows = sort_key obx_sequence (filter (\<lambda>x. obx_device_id x = sk_device_id conn
                \<and> first \<le> obx_sequence x \<and> obx_sequence x \<le> last) (device_outboxes db))
          in if int last - int first + 1 > int (device_max_outbox_frames cfg)
             then Inl (Protocol_Error ''device outbox replay exceeds the safety limit'')
             else if map obx_sequence rows \<noteq> [first..<last + 1]
             then Inl (Protocol_Error ''device outbox has a durable sequence hole'')
             else Inr (map obx_encoded_envelope rows))"

definition ack_outbox_locked :: "uuid \<Rightarrow> nat \<Rightarrow> datetime \<Rightarrow> database \<Rightarrow> database" where
  "ack_outbox_locked device_id acknowledged now db =
     (let rows = update_where (\<lambda>x. obx_device_id x = device_id \<and> obx_sequence x \<le> acknowledged
            \<and> obx_acked_at x = None) (\<lambda>x. x\<lparr>obx_acked_at := Some now\<rparr>) (device_outboxes db);
          acked = map obx_sequence (filter (\<lambda>x. obx_device_id x = device_id \<and> obx_acked_at x \<noteq> None) rows)
      in db\<lparr>device_outboxes :=
           (if acked = [] then rows
            else delete_where (\<lambda>x. obx_device_id x = device_id \<and> obx_acked_at x \<noteq> None
              \<and> obx_sequence x < Max (set acked)) rows)\<rparr>)"

text \<open>The step of the hello and of the frame handler: a higher acknowledgement is recorded.\<close>

definition apply_ack :: "device \<Rightarrow> nat \<Rightarrow> datetime \<Rightarrow> database \<Rightarrow> device \<times> database" where
  "apply_ack d ack now db =
     (if ack > dev_last_server_acked_sequence d
      then let d' = d\<lparr>dev_last_server_acked_sequence := ack\<rparr>
           in (d', ack_outbox_locked (dev_id d) ack now (put_device d' db))
      else (d, db))"

text \<open>The number of removed rows, and the database; without an effect nothing is committed.\<close>

definition prune_outbox :: "datetime \<Rightarrow> database \<Rightarrow> nat \<times> database" where
  "prune_outbox now db =
     (let gone = (\<lambda>x. exists_where (\<lambda>d. dev_id d = obx_device_id x \<and> dev_status d = REVOKED) (devices db));
          db1 = db\<lparr>device_outboxes := delete_where gone (device_outboxes db)\<rparr>;
          lagging = (\<lambda>d. dev_status d = REVOKED
            \<and> dev_last_server_acked_sequence d < dev_last_server_sequence d);
          db2 = db1\<lparr>devices := update_where lagging
            (\<lambda>d. d\<lparr>dev_last_server_acked_sequence := dev_last_server_sequence d\<rparr>) (devices db1)\<rparr>;
          old = (\<lambda>x. obx_acked_at x \<noteq> None \<and> obx_retained_until x \<le> now);
          db3 = db2\<lparr>device_outboxes := delete_where old (device_outboxes db2)\<rparr>
      in (length (device_outboxes db) - length (device_outboxes db3), db3))"

section \<open>Invariant\<close>

text \<open>The unacknowledged rows of a device stand in the table in the order of their sequence
  numbers, which run without a hole from the acknowledged number to the last one.\<close>

definition device_outbox_ok :: "settings \<Rightarrow> database \<Rightarrow> device \<Rightarrow> bool" where
  "device_outbox_ok cfg db d \<longleftrightarrow>
     dev_last_server_acked_sequence d \<le> dev_last_server_sequence d
   \<and> map obx_sequence (unacked (dev_id d) db) =
       [dev_last_server_acked_sequence d + 1..<dev_last_server_sequence d + 1]
   \<and> (\<forall>x \<in> set (device_outboxes db). obx_device_id x = dev_id d \<and> obx_acked_at x \<noteq> None \<longrightarrow>
        obx_sequence x \<le> dev_last_server_acked_sequence d)
   \<and> length (unacked (dev_id d) db) \<le> device_max_outbox_frames cfg
   \<and> sum_list (map obx_byte_size (unacked (dev_id d) db)) \<le> device_max_outbox_bytes cfg"

definition outbox_wf :: "settings \<Rightarrow> database \<Rightarrow> bool" where
  "outbox_wf cfg db \<longleftrightarrow> distinct (map dev_id (devices db)) \<and> (\<forall>d \<in> set (devices db). device_outbox_ok cfg db d)"

lemma outbox_wf_ids [simp]: "outbox_wf cfg db \<Longrightarrow> distinct (map dev_id (devices db))"
  by (simp add: outbox_wf_def)

section \<open>Rows and devices\<close>

definition device_at :: "uuid \<Rightarrow> database \<Rightarrow> device option" where
  "device_at i db = scalar (\<lambda>d. dev_id d = i) (devices db)"

lemma device_at_Some:
  "distinct (map dev_id (devices db)) \<Longrightarrow> device_at i db = Some d \<longleftrightarrow> d \<in> set (devices db) \<and> dev_id d = i"
  unfolding device_at_def
  using scalar_SomeD [of "\<lambda>d. dev_id d = i" "devices db" d]
    scalar_unique [of dev_id "devices db" d "\<lambda>d. dev_id d = i"] by auto

lemma device_at_put:
  assumes "device_at (dev_id d) db \<noteq> None"
  shows "device_at j (put_device d db) = (if j = dev_id d then Some d else device_at j db)"
proof -
  have "scalar (\<lambda>x. dev_id x = j) (update_where (\<lambda>x. dev_id x = dev_id d) (\<lambda>_. d) ds) =
      (if j = dev_id d then Some d else scalar (\<lambda>x. dev_id x = j) ds)"
    if "scalar (\<lambda>x. dev_id x = dev_id d) ds \<noteq> None" for ds
    using that
  proof (induction ds)
    case (Cons x ds)
    have "scalar (\<lambda>x. dev_id x = j) (update_where (\<lambda>x. dev_id x = dev_id d) (\<lambda>_. d) ds) =
        scalar (\<lambda>x. dev_id x = j) ds" if "j \<noteq> dev_id d" for ds :: "device list"
      using that by (induction ds) auto
    then show ?case using Cons by auto
  qed simp
  then show ?thesis using assms by (simp add: device_at_def put_device_def)
qed

lemma scalar_map: "scalar P (map f xs) = map_option f (scalar (\<lambda>x. P (f x)) xs)"
  by (induction xs) auto

lemma device_at_cong: "devices db' = devices db \<Longrightarrow> device_at i db' = device_at i db"
  by (simp add: device_at_def)

lemma put_device_simps [simp]:
  "device_outboxes (put_device d db) = device_outboxes db"
  "commands (put_device d db) = commands db" "approvals (put_device d db) = approvals db"
  "thread_bindings (put_device d db) = thread_bindings db"
  "device_connections (put_device d db) = device_connections db"
  "device_outboxes (update_connection nonce f db) = device_outboxes db"
  "devices (update_connection nonce f db) = devices db"
  "commands (update_connection nonce f db) = commands db"
  "approvals (update_connection nonce f db) = approvals db"
  "thread_bindings (update_connection nonce f db) = thread_bindings db"
  by (simp_all add: put_device_def update_connection_def)

lemma unacked_cong: "device_outboxes db' = device_outboxes db \<Longrightarrow> unacked i db' = unacked i db"
  by (simp add: unacked_def)

lemma distinct_put_device:
  "distinct (map dev_id (devices db)) \<Longrightarrow> distinct (map dev_id (devices (put_device d db)))"
  by (simp add: put_device_def distinct_update_where_key)

text \<open>A step that changes the rows and the counters of one device.\<close>

lemma outbox_wf_change:
  assumes "outbox_wf cfg db" "devices db' = devices (put_device d db)" "device_outbox_ok cfg db' d"
    and "\<And>j. j \<noteq> dev_id d \<Longrightarrow> unacked j db' = unacked j db"
    and "\<And>x. x \<in> set (device_outboxes db') \<Longrightarrow> obx_device_id x \<noteq> dev_id d \<Longrightarrow> x \<in> set (device_outboxes db)"
  shows "outbox_wf cfg db'"
proof -
  have "device_outbox_ok cfg db' x" if x: "x \<in> set (devices db')" for x
  proof (cases "dev_id x = dev_id d")
    case True
    then have "x = d" using x unfolding assms(2) put_device_def by (auto simp: in_set_update_where split: if_splits)
    then show ?thesis using assms(3) by simp
  next
    case False
    then have "x \<in> set (devices db)"
      using x unfolding assms(2) put_device_def by (auto simp: in_set_update_where split: if_splits)
    then have "device_outbox_ok cfg db x" using assms(1) by (simp add: outbox_wf_def)
    then show ?thesis using False assms(4) [OF False] assms(5) by (auto simp: device_outbox_ok_def)
  qed
  then show ?thesis
    using assms(1) distinct_put_device [of db d] by (simp add: outbox_wf_def assms(2))
qed

lemma map_upt_filter:
  "map f rows = [a..<b] \<Longrightarrow> filter (\<lambda>x. n < f x) rows = drop (Suc n - a) rows"
proof (induction rows arbitrary: a)
  case (Cons x rows)
  have "a < b" using Cons.prems by (cases "a < b") auto
  then have x: "f x = a" and rest: "map f rows = [Suc a..<b]"
    using Cons.prems upt_conv_Cons [of a b] by auto
  show ?case
  proof (cases "n < a")
    case True
    then have "filter (\<lambda>x. n < f x) rows = drop (Suc n - Suc a) rows" using Cons.IH [OF rest] by simp
    then show ?thesis using True x by simp
  next
    case False
    then have "Suc n - a = Suc (Suc n - Suc a)" by simp
    then show ?thesis using False x Cons.IH [OF rest] by simp
  qed
qed simp

section \<open>The channel to a device\<close>

text \<open>What a device is promised: the number of acknowledged frames and the texts of the frames
  that are still owed, in order.  The frame at index \<open>k\<close> has the sequence number
  \<open>base + 1 + k\<close>.\<close>

definition channel :: "uuid \<Rightarrow> database \<Rightarrow> nat \<times> ustr list" where
  "channel i db =
     (case device_at i db of
        None \<Rightarrow> (0, [])
      | Some d \<Rightarrow> (dev_last_server_acked_sequence d, map obx_encoded_envelope (unacked i db)))"

definition channel_push :: "ustr \<Rightarrow> nat \<times> ustr list \<Rightarrow> nat \<times> ustr list" where
  "channel_push e c = (fst c, snd c @ [e])"

definition channel_ack :: "nat \<Rightarrow> nat \<times> ustr list \<Rightarrow> nat \<times> ustr list" where
  "channel_ack n c = (max (fst c) n, drop (n - fst c) (snd c))"

lemma channel_at: "device_at i db = Some d \<Longrightarrow>
    channel i db = (dev_last_server_acked_sequence d, map obx_encoded_envelope (unacked i db))"
  by (simp add: channel_def)

lemma channel_cong:
  "device_at i db' = device_at i db \<Longrightarrow> unacked i db' = unacked i db \<Longrightarrow> channel i db' = channel i db"
  unfolding channel_def by (simp only:)

lemma outbox_ok_at:
  "outbox_wf cfg db \<Longrightarrow> device_at i db = Some d \<Longrightarrow> device_outbox_ok cfg db d \<and> dev_id d = i"
  using device_at_Some [of db i d] by (auto simp: outbox_wf_def)

lemma outbox_ok_length:
  assumes "device_outbox_ok cfg db d"
  shows "length (unacked (dev_id d) db) = dev_last_server_sequence d - dev_last_server_acked_sequence d"
proof -
  have "map obx_sequence (unacked (dev_id d) db) =
      [dev_last_server_acked_sequence d + 1..<dev_last_server_sequence d + 1]"
    using assms by (simp add: device_outbox_ok_def del: upt_Suc)
  then have "length (map obx_sequence (unacked (dev_id d) db)) =
      length [dev_last_server_acked_sequence d + 1..<dev_last_server_sequence d + 1]" by (simp only:)
  then show ?thesis by (simp del: upt_Suc)
qed

lemma sum_list_drop_le: "sum_list (map (f :: 'a \<Rightarrow> nat) (drop k xs)) \<le> sum_list (map f xs)"
  by (metis append_take_drop_id le_add2 map_append sum_list.append)

lemma persist_Inr:
  assumes "persist_envelope_locked cfg fmt now fid conn d ty payload db = Inr (n, e, db')"
  shows "n = dev_last_server_sequence d + 1"
    "e = dumps True (server_frame fid (dev_id d) (sk_epoch conn) n (dev_last_device_sequence d) ty (fmt now) payload)"
    "length e \<le> device_max_envelope_bytes cfg"
    "devices db' = devices (put_device (d\<lparr>dev_last_server_sequence := n\<rparr>) db)"
    "device_outboxes db' = delete_where (\<lambda>x. obx_device_id x = dev_id d \<and> obx_acked_at x \<noteq> None)
       (device_outboxes db) @ [new_outbox_row cfg now d ty e]"
    "unacked j db' = unacked j db @ (if j = dev_id d then [new_outbox_row cfg now d ty e] else [])"
    "length (unacked (dev_id d) db) < device_max_outbox_frames cfg"
    "sum_list (map obx_byte_size (unacked (dev_id d) db)) + length e \<le> device_max_outbox_bytes cfg"
    "commands db' = commands db" "approvals db' = approvals db" "thread_bindings db' = thread_bindings db"
    "event_logs db' = event_logs db" "event_owner_cursors db' = event_owner_cursors db"
    "audit_events db' = audit_events db"
proof -
  let ?del = "delete_where (\<lambda>x. obx_device_id x = dev_id d \<and> obx_acked_at x \<noteq> None) (device_outboxes db)"
  have keep: "filter (\<lambda>x. obx_device_id x = j \<and> obx_acked_at x = None) ?del = unacked j db" for j
    unfolding delete_where_def unacked_def filter_filter by (rule filter_cong) auto
  note u = assms [unfolded persist_envelope_locked_def Let_def]
  show n: "n = dev_last_server_sequence d + 1" using u by (auto split: if_splits)
  show e: "e = dumps True (server_frame fid (dev_id d) (sk_epoch conn) n (dev_last_device_sequence d) ty (fmt now) payload)"
    "length e \<le> device_max_envelope_bytes cfg"
    using u by (auto split: if_splits simp del: dumps.simps)
  show dv: "devices db' = devices (put_device (d\<lparr>dev_last_server_sequence := n\<rparr>) db)"
    using u by (auto split: if_splits simp: put_device_def)
  show ob: "device_outboxes db' = ?del @ [new_outbox_row cfg now d ty e]"
    using u by (auto split: if_splits)
  show "unacked j db' = unacked j db @ (if j = dev_id d then [new_outbox_row cfg now d ty e] else [])"
    using keep [of j] by (auto simp: unacked_def [of j db'] ob new_outbox_row_def)
  show "length (unacked (dev_id d) db) < device_max_outbox_frames cfg"
    "sum_list (map obx_byte_size (unacked (dev_id d) db)) + length e \<le> device_max_outbox_bytes cfg"
    using u keep [of "dev_id d"] by (auto split: if_splits simp: unacked_def [of _ "db\<lparr>device_outboxes := _\<rparr>"])
  show "commands db' = commands db" "approvals db' = approvals db" "thread_bindings db' = thread_bindings db"
    "event_logs db' = event_logs db" "event_owner_cursors db' = event_owner_cursors db"
    "audit_events db' = audit_events db"
    using u by (auto split: if_splits simp: put_device_def update_connection_def)
qed

lemma channel_end:
  assumes "outbox_wf cfg db" "device_at i db = Some d"
  shows "dev_last_server_sequence d = fst (channel i db) + length (snd (channel i db))"
proof -
  have ok: "device_outbox_ok cfg db d" and i: "dev_id d = i" using outbox_ok_at [OF assms] by auto
  have "dev_last_server_acked_sequence d \<le> dev_last_server_sequence d"
    using ok by (simp add: device_outbox_ok_def)
  then show ?thesis using outbox_ok_length [OF ok] i by (simp add: channel_at [OF assms(2)])
qed

lemma device_at_ids:
  "map dev_id (devices db') = map dev_id (devices db) \<Longrightarrow> device_at i db' = None \<longleftrightarrow> device_at i db = None"
proof -
  assume "map dev_id (devices db') = map dev_id (devices db)"
  then have "set (map dev_id (devices db')) = set (map dev_id (devices db))" by (simp only:)
  moreover have "device_at i x = None \<longleftrightarrow> i \<notin> set (map dev_id (devices x))" for x
    by (auto simp: device_at_def scalar_None_iff)
  ultimately show ?thesis by (simp only:)
qed

lemma put_device_ids: "map dev_id (devices (put_device d db)) = map dev_id (devices db)"
  by (simp add: put_device_def map_update_where)

lemma persist_refines:
  assumes "outbox_wf cfg db" "device_at i db = Some d"
    and "persist_envelope_locked cfg fmt now fid conn d ty payload db = Inr (n, e, db')"
  shows "outbox_wf cfg db'" "channel i db' = channel_push e (channel i db)"
    "n = fst (channel i db) + length (snd (channel i db)) + 1"
    "j \<noteq> i \<Longrightarrow> channel j db' = channel j db"
proof -
  note p = persist_Inr [OF assms(3)]
  have ok: "device_outbox_ok cfg db d" "dev_id d = i" using outbox_ok_at [OF assms(1,2)] by auto
  let ?d = "d\<lparr>dev_last_server_sequence := n\<rparr>"
  have at: "device_at k db' = (if k = i then Some ?d else device_at k db)" for k
    using device_at_put [of ?d db k] assms(2) ok(2) device_at_cong [OF p(4)] by simp
  show "outbox_wf cfg db'"
  proof (rule outbox_wf_change [OF assms(1) p(4)])
    show "device_outbox_ok cfg db' ?d"
      using ok(1) p(5,7,8) unfolding device_outbox_ok_def
      by (auto simp: p(6) p(1) new_outbox_row_def)
    show "x \<in> set (device_outboxes db)"
      if "x \<in> set (device_outboxes db')" "obx_device_id x \<noteq> dev_id ?d" for x
      using that by (auto simp: p(5) new_outbox_row_def)
  qed (simp add: p(6))
  show "channel i db' = channel_push e (channel i db)"
    using at ok(2) assms(2) by (simp add: channel_def p(6) channel_push_def new_outbox_row_def)
  show "n = fst (channel i db) + length (snd (channel i db)) + 1"
    using channel_end [OF assms(1,2)] p(1) by simp
  show "j \<noteq> i \<Longrightarrow> channel j db' = channel j db"
    using at ok(2) by (intro channel_cong) (simp_all add: p(6))
qed

lemma ack_outbox_rows:
  shows "unacked j (ack_outbox_locked i n now db) =
      (if j = i then filter (\<lambda>x. n < obx_sequence x) (unacked j db) else unacked j db)"
    "x \<in> set (device_outboxes (ack_outbox_locked i n now db)) \<Longrightarrow>
      x \<in> set (device_outboxes db) \<or>
      (\<exists>y \<in> set (device_outboxes db). obx_device_id y = i \<and> obx_sequence y \<le> n \<and> x = y\<lparr>obx_acked_at := Some now\<rparr>)"
    "devices (ack_outbox_locked i n now db) = devices db"
proof -
  let ?C = "\<lambda>x. obx_device_id x = i \<and> obx_sequence x \<le> n \<and> obx_acked_at x = None"
  let ?rows = "update_where ?C (\<lambda>x. x\<lparr>obx_acked_at := Some now\<rparr>) (device_outboxes db)"
  obtain D where D: "device_outboxes (ack_outbox_locked i n now db) = delete_where D ?rows"
      "\<And>x. D x \<Longrightarrow> obx_acked_at x \<noteq> None"
  proof (cases "map obx_sequence (filter (\<lambda>x. obx_device_id x = i \<and> obx_acked_at x \<noteq> None) ?rows) = []")
    case True
    then have "device_outboxes (ack_outbox_locked i n now db) = delete_where (\<lambda>_. False) ?rows"
      by (simp add: ack_outbox_locked_def Let_def delete_where_def)
    then show ?thesis using that by blast
  next
    case False
    then show ?thesis using that by (auto simp: ack_outbox_locked_def Let_def)
  qed
  have "unacked j (ack_outbox_locked i n now db) =
      filter (\<lambda>x. obx_device_id x = j \<and> obx_acked_at x = None) ?rows"
    unfolding unacked_def D(1) delete_where_def filter_filter
    by (rule filter_cong) (auto dest: D(2))
  moreover have "filter (\<lambda>x. obx_device_id x = j \<and> obx_acked_at x = None)
      (update_where ?C (\<lambda>x. x\<lparr>obx_acked_at := Some now\<rparr>) rows) =
      (if j = i then filter (\<lambda>x. n < obx_sequence x) (filter (\<lambda>x. obx_device_id x = j \<and> obx_acked_at x = None) rows)
       else filter (\<lambda>x. obx_device_id x = j \<and> obx_acked_at x = None) rows)" for rows
    by (induction rows) auto
  ultimately show "unacked j (ack_outbox_locked i n now db) =
      (if j = i then filter (\<lambda>x. n < obx_sequence x) (unacked j db) else unacked j db)"
    by (simp only: unacked_def)
  show "x \<in> set (device_outboxes (ack_outbox_locked i n now db)) \<Longrightarrow>
      x \<in> set (device_outboxes db) \<or>
      (\<exists>y \<in> set (device_outboxes db). obx_device_id y = i \<and> obx_sequence y \<le> n \<and> x = y\<lparr>obx_acked_at := Some now\<rparr>)"
    unfolding D(1) by (auto simp: in_set_update_where split: if_splits)
  show "devices (ack_outbox_locked i n now db) = devices db"
    by (simp add: ack_outbox_locked_def Let_def)
qed

lemma apply_ack_refines:
  assumes "outbox_wf cfg db" "device_at i db = Some d" "n \<le> dev_last_server_sequence d"
    and "apply_ack d n now db = (d', db')"
  shows "outbox_wf cfg db'" "channel i db' = channel_ack n (channel i db)"
    "j \<noteq> i \<Longrightarrow> channel j db' = channel j db" "device_at i db' = Some d'"
    "d' = d\<lparr>dev_last_server_acked_sequence := max (dev_last_server_acked_sequence d) n\<rparr>"
proof -
  have ok: "device_outbox_ok cfg db d" "dev_id d = i" using outbox_ok_at [OF assms(1,2)] by auto
  have "outbox_wf cfg db' \<and> channel i db' = channel_ack n (channel i db)
    \<and> (\<forall>j. j \<noteq> i \<longrightarrow> channel j db' = channel j db) \<and> device_at i db' = Some d'
    \<and> d' = d\<lparr>dev_last_server_acked_sequence := max (dev_last_server_acked_sequence d) n\<rparr>"
  proof (cases "n > dev_last_server_acked_sequence d")
    case False
    then show ?thesis
      using assms by (auto simp: apply_ack_def channel_ack_def channel_at max_def)
  next
    case True
    let ?d = "d\<lparr>dev_last_server_acked_sequence := n\<rparr>"
    have d': "d' = ?d" and db': "db' = ack_outbox_locked i n now (put_device ?d db)"
      using assms(4) True ok(2) by (auto simp: apply_ack_def Let_def)
    note rows = ack_outbox_rows [where i = i and n = n and now = now and db = "put_device ?d db", folded db']
    have un: "unacked j db' = (if j = i then drop (n - dev_last_server_acked_sequence d) (unacked j db)
        else unacked j db)" for j
      using rows(1) [of j] map_upt_filter [of obx_sequence "unacked i db"
          "dev_last_server_acked_sequence d + 1" "dev_last_server_sequence d + 1" n] ok
      by (auto simp: unacked_cong [of "put_device ?d db" db] device_outbox_ok_def)
    have at: "device_at k db' = (if k = i then Some ?d else device_at k db)" for k
      using device_at_put [of ?d db k] assms(2) ok(2) device_at_cong [OF rows(3)] by simp
    have "outbox_wf cfg db'"
    proof (rule outbox_wf_change [OF assms(1) rows(3)])
      have "map obx_sequence (unacked i db') = [n + 1..<dev_last_server_sequence d + 1]"
        using ok True un [of i]
        by (simp add: device_outbox_ok_def drop_map [symmetric] drop_upt del: upt_Suc)
      moreover have "\<forall>x \<in> set (device_outboxes db'). obx_device_id x = i \<and> obx_acked_at x \<noteq> None \<longrightarrow> obx_sequence x \<le> n"
      proof (intro ballI impI)
        fix x assume x: "x \<in> set (device_outboxes db')" "obx_device_id x = i \<and> obx_acked_at x \<noteq> None"
        show "obx_sequence x \<le> n"
          using rows(2) [OF x(1)] x(2) ok True by (fastforce simp: device_outbox_ok_def)
      qed
      ultimately show "device_outbox_ok cfg db' ?d"
        using ok assms(3) un [of i] sum_list_drop_le [of obx_byte_size _ "unacked i db"]
        unfolding device_outbox_ok_def by (auto simp del: upt_Suc intro: order.trans)
      show "x \<in> set (device_outboxes db)"
        if "x \<in> set (device_outboxes db')" "obx_device_id x \<noteq> dev_id ?d" for x
        using rows(2) [OF that(1)] that(2) ok(2) by auto
    qed (use un ok(2) in simp)
    then show ?thesis
      using at un True d' assms(2) by (auto simp: channel_def channel_ack_def drop_map split: option.split)
  qed
  then show "outbox_wf cfg db'" "channel i db' = channel_ack n (channel i db)"
    "j \<noteq> i \<Longrightarrow> channel j db' = channel j db" "device_at i db' = Some d'"
    "d' = d\<lparr>dev_last_server_acked_sequence := max (dev_last_server_acked_sequence d) n\<rparr>" by auto
qed

lemma prune_refines:
  assumes "outbox_wf cfg db" "prune_outbox now db = (n, db')"
  shows "outbox_wf cfg db'" "map dev_id (devices db') = map dev_id (devices db)"
    "channel i db' = (case device_at i db of
        None \<Rightarrow> (0, [])
      | Some d \<Rightarrow> if dev_status d = REVOKED then (dev_last_server_sequence d, []) else channel i db)"
proof -
  let ?f = "\<lambda>d. if dev_status d = REVOKED \<and> dev_last_server_acked_sequence d < dev_last_server_sequence d
      then d\<lparr>dev_last_server_acked_sequence := dev_last_server_sequence d\<rparr> else d"
  have dv: "devices db' = map ?f (devices db)"
    using assms(2) by (auto simp: prune_outbox_def Let_def update_where_def)
  have sub: "set (device_outboxes db') \<subseteq> set (device_outboxes db)"
    using assms(2) by (auto simp: prune_outbox_def Let_def)
  show ids: "map dev_id (devices db') = map dev_id (devices db)" by (simp add: dv)
  let ?gone = "\<lambda>i. \<exists>d \<in> set (devices db). dev_id d = i \<and> dev_status d = REVOKED"
  have un: "unacked i db' = (if ?gone i then [] else unacked i db)" for i
  proof -
    have ob: "device_outboxes db' = filter (\<lambda>x. \<not> ?gone (obx_device_id x)
        \<and> \<not> (obx_acked_at x \<noteq> None \<and> obx_retained_until x \<le> now)) (device_outboxes db)"
      using assms(2) by (auto simp: prune_outbox_def Let_def delete_where_def filter_filter exists_where_iff)
    have "unacked i db' = filter (\<lambda>x. obx_device_id x = i \<and> obx_acked_at x = None \<and> \<not> ?gone i) (device_outboxes db)"
      unfolding unacked_def ob filter_filter by (rule filter_cong) auto
    then show ?thesis by (auto simp: unacked_def)
  qed
  have at: "device_at i db' = map_option ?f (device_at i db)" for i
    unfolding device_at_def dv scalar_map by (simp add: if_distrib cong: if_cong)
  have "device_outbox_ok cfg db' d'" if mem: "d' \<in> set (devices db')" for d'
  proof -
    obtain d where d: "d \<in> set (devices db)" "d' = ?f d" using mem unfolding dv set_map by blast
    have ok: "device_outbox_ok cfg db d" using d(1) assms(1) by (simp add: outbox_wf_def)
    have rev: "?gone (dev_id d) \<longleftrightarrow> dev_status d = REVOKED"
      using d(1) outbox_wf_ids [OF assms(1)] by (auto simp: distinct_map inj_on_def)
    show ?thesis
      using ok sub un [of "dev_id d"] rev unfolding d(2) device_outbox_ok_def by auto
  qed
  then show "outbox_wf cfg db'" using assms(1) by (simp add: outbox_wf_def ids)
  show "channel i db' = (case device_at i db of
        None \<Rightarrow> (0, [])
      | Some d \<Rightarrow> if dev_status d = REVOKED then (dev_last_server_sequence d, []) else channel i db)"
  proof (cases "device_at i db")
    case (Some d)
    then have d: "d \<in> set (devices db)" "dev_id d = i" using device_at_Some [OF outbox_wf_ids [OF assms(1)]] by auto
    have rev: "?gone i \<longleftrightarrow> dev_status d = REVOKED"
      using d outbox_wf_ids [OF assms(1)] by (auto simp: distinct_map inj_on_def)
    have "dev_last_server_acked_sequence d \<le> dev_last_server_sequence d"
      using outbox_ok_at [OF assms(1) Some] by (simp add: device_outbox_ok_def)
    then show ?thesis using Some rev by (auto simp: channel_def at un)
  qed (simp add: channel_def at)
qed

lemma replay_refines:
  assumes "outbox_wf cfg db" "lock_active_device conn db = Inr d"
  shows "replay_outbox cfg conn db = Inr (snd (channel (sk_device_id conn) db))"
proof -
  let ?i = "sk_device_id conn"
  let ?a = "dev_last_server_acked_sequence d"
  have d: "device_at ?i db = Some d"
    using assms(2) by (auto simp: lock_active_device_def device_at_def split: option.splits if_splits)
  have ok: "device_outbox_ok cfg db d" "dev_id d = ?i" using outbox_ok_at [OF assms(1) d] by auto
  have seqs: "map obx_sequence (unacked ?i db) = [?a + 1..<dev_last_server_sequence d + 1]"
    using ok by (simp add: device_outbox_ok_def del: upt_Suc)
  have "filter (\<lambda>x. obx_device_id x = ?i \<and> ?a + 1 \<le> obx_sequence x
      \<and> obx_sequence x \<le> dev_last_server_sequence d) (device_outboxes db) = unacked ?i db"
    unfolding unacked_def
  proof (rule filter_cong [OF refl])
    fix x assume x: "x \<in> set (device_outboxes db)"
    have "obx_acked_at x = None \<Longrightarrow> obx_device_id x = ?i \<Longrightarrow>
        obx_sequence x \<in> set (map obx_sequence (unacked ?i db))"
      using x by (simp add: unacked_def)
    then show "(obx_device_id x = ?i \<and> ?a + 1 \<le> obx_sequence x \<and> obx_sequence x \<le> dev_last_server_sequence d)
        = (obx_device_id x = ?i \<and> obx_acked_at x = None)"
      using ok x unfolding seqs by (fastforce simp: device_outbox_ok_def simp del: upt_Suc)
  qed
  moreover have "sort_key obx_sequence (unacked ?i db) = unacked ?i db"
    by (rule sort_key_id_if_sorted) (simp add: seqs del: upt_Suc)
  moreover have "dev_last_server_sequence d - ?a \<le> device_max_outbox_frames cfg"
    using outbox_ok_length [OF ok(1)] ok(1) by (simp add: device_outbox_ok_def)
  ultimately show ?thesis
    using assms(2) seqs by (simp add: replay_outbox_def Let_def channel_at [OF d] del: upt_Suc)
qed

section \<open>Runs\<close>

text \<open>A sequence of steps on a channel with the frames that it was given: pushes, acknowledgements
  and steps that do not concern the channel.\<close>

inductive channel_run ::
  "('f \<Rightarrow> 's \<Rightarrow> 's \<Rightarrow> bool) \<Rightarrow> (nat \<Rightarrow> 's \<Rightarrow> 's \<Rightarrow> bool) \<Rightarrow> ('s \<Rightarrow> 's \<Rightarrow> bool) \<Rightarrow> 'f list \<Rightarrow> 's \<Rightarrow> 's \<Rightarrow> bool"
  for push ack other where
  run_none: "channel_run push ack other [] s s"
| run_push: "channel_run push ack other fs s s' \<Longrightarrow> push f s' s'' \<Longrightarrow> channel_run push ack other (fs @ [f]) s s''"
| run_ack: "channel_run push ack other fs s s' \<Longrightarrow> ack n s' s'' \<Longrightarrow> channel_run push ack other fs s s''"
| run_other: "channel_run push ack other fs s s' \<Longrightarrow> other s' s'' \<Longrightarrow> channel_run push ack other fs s s''"

locale durable_channel =
  fixes ok :: "'s \<Rightarrow> bool"
    and view :: "'s \<Rightarrow> nat \<times> ustr list"
    and push :: "ustr \<Rightarrow> 's \<Rightarrow> 's \<Rightarrow> bool"
    and ack :: "nat \<Rightarrow> 's \<Rightarrow> 's \<Rightarrow> bool"
    and other :: "'s \<Rightarrow> 's \<Rightarrow> bool"
  assumes push_view: "ok s \<Longrightarrow> push f s s' \<Longrightarrow> ok s' \<and> view s' = channel_push f (view s)"
    and ack_view: "ok s \<Longrightarrow> ack n s s' \<Longrightarrow>
        ok s' \<and> view s' = channel_ack n (view s) \<and> n \<le> fst (view s) + length (snd (view s))"
    and other_view: "ok s \<Longrightarrow> other s s' \<Longrightarrow> ok s' \<and> view s' = view s"
begin

lemma run_view:
  assumes "channel_run push ack other fs s s'" "ok s"
  shows "ok s' \<and> fst (view s) \<le> fst (view s')
    \<and> fst (view s') \<le> fst (view s) + length (snd (view s) @ fs)
    \<and> snd (view s') = drop (fst (view s') - fst (view s)) (snd (view s) @ fs)"
  using assms
proof (induction rule: channel_run.induct)
  case (run_push fs s s' f s'')
  then show ?case using push_view [of s' f s''] by (auto simp: channel_push_def)
next
  case (run_ack fs s s' n s'')
  then have "ok s'" by blast
  then have v: "ok s''" "view s'' = channel_ack n (view s')" "n \<le> fst (view s') + length (snd (view s'))"
    using ack_view [OF _ run_ack.hyps(2)] by auto
  have ih: "fst (view s) \<le> fst (view s')" "fst (view s') \<le> fst (view s) + length (snd (view s) @ fs)"
      "snd (view s') = drop (fst (view s') - fst (view s)) (snd (view s) @ fs)"
    using run_ack.IH run_ack.prems by blast+
  have "n \<le> fst (view s) + length (snd (view s) @ fs)"
    using v(3) ih(1,2) unfolding ih(3) by (simp del: drop_append length_append)
  then show ?case
    using v(1) ih(1,2) unfolding v(2) channel_ack_def ih(3) fst_conv snd_conv
    by (auto simp: max_def simp del: drop_append length_append)
next
  case (run_other fs s s' s'')
  then show ?case using other_view [of s' s''] by auto
qed simp

end

definition outbox_push :: "settings \<Rightarrow> uuid \<Rightarrow> ustr \<Rightarrow> database \<Rightarrow> database \<Rightarrow> bool" where
  "outbox_push cfg i f db db' \<longleftrightarrow> (\<exists>fmt now fid conn d ty payload n. device_at i db = Some d
     \<and> persist_envelope_locked cfg fmt now fid conn d ty payload db = Inr (n, f, db'))"

definition outbox_ack :: "uuid \<Rightarrow> nat \<Rightarrow> database \<Rightarrow> database \<Rightarrow> bool" where
  "outbox_ack i n db db' \<longleftrightarrow> (\<exists>d d' now. device_at i db = Some d \<and> n \<le> dev_last_server_sequence d
     \<and> apply_ack d n now db = (d', db'))"

text \<open>Frames and acknowledgements of other devices, the cleanup while the device is not revoked, and
  every operation that leaves the outbox and the counters of the devices alone.\<close>

definition outbox_counters :: "database \<Rightarrow> (uuid \<times> nat \<times> nat) list" where
  "outbox_counters db = map (\<lambda>d. (dev_id d, dev_last_server_acked_sequence d, dev_last_server_sequence d)) (devices db)"

definition outbox_other :: "settings \<Rightarrow> uuid \<Rightarrow> database \<Rightarrow> database \<Rightarrow> bool" where
  "outbox_other cfg i db db' \<longleftrightarrow>
     (\<exists>j f. j \<noteq> i \<and> outbox_push cfg j f db db') \<or> (\<exists>j n. j \<noteq> i \<and> outbox_ack j n db db')
   \<or> (\<exists>now n. prune_outbox now db = (n, db') \<and> (\<forall>d. device_at i db = Some d \<longrightarrow> dev_status d \<noteq> REVOKED))
   \<or> (device_outboxes db' = device_outboxes db \<and> outbox_counters db' = outbox_counters db)"

lemma outbox_counters_cong:
  assumes "device_outboxes db' = device_outboxes db" "outbox_counters db' = outbox_counters db"
  shows "outbox_wf cfg db' \<longleftrightarrow> outbox_wf cfg db" "channel i db' = channel i db"
proof -
  let ?k = "\<lambda>d. (dev_id d, dev_last_server_acked_sequence d, dev_last_server_sequence d)"
  define good where "good x \<longleftrightarrow> (case x of (i, a, l) \<Rightarrow> a \<le> l \<and> map obx_sequence (unacked i db) = [a + 1..<l + 1]
      \<and> (\<forall>x \<in> set (device_outboxes db). obx_device_id x = i \<and> obx_acked_at x \<noteq> None \<longrightarrow> obx_sequence x \<le> a)
      \<and> length (unacked i db) \<le> device_max_outbox_frames cfg
      \<and> sum_list (map obx_byte_size (unacked i db)) \<le> device_max_outbox_bytes cfg)" for x
  have un: "unacked j db' = unacked j db" for j by (rule unacked_cong [OF assms(1)])
  have ok: "device_outbox_ok cfg x d \<longleftrightarrow> good (?k d)" if "device_outboxes x = device_outboxes db" for x d
    by (simp add: good_def device_outbox_ok_def unacked_cong [OF that] that del: upt_Suc)
  have "outbox_wf cfg x \<longleftrightarrow> distinct (map fst (outbox_counters x)) \<and> (\<forall>k \<in> set (outbox_counters x). good k)"
    if "device_outboxes x = device_outboxes db" for x
    by (simp add: outbox_wf_def outbox_counters_def comp_def ok [OF that])
  then show "outbox_wf cfg db' \<longleftrightarrow> outbox_wf cfg db" using assms by simp
  have "scalar (\<lambda>k. fst k = i) (outbox_counters x) = map_option ?k (device_at i x)" for x
    unfolding outbox_counters_def device_at_def scalar_map by simp
  then have "map_option ?k (device_at i db') = map_option ?k (device_at i db)" using assms(2) by metis
  then show "channel i db' = channel i db"
    by (cases "device_at i db'"; cases "device_at i db") (auto simp: channel_def un)
qed

interpretation outbox: durable_channel "\<lambda>db. outbox_wf cfg db \<and> device_at i db \<noteq> None" "channel i"
  "outbox_push cfg i" "outbox_ack i" "outbox_other cfg i" for cfg i
proof unfold_locales
  fix db db' f
  assume ok: "outbox_wf cfg db \<and> device_at i db \<noteq> None" and p: "outbox_push cfg i f db db'"
  then obtain fmt now fid conn d ty payload n where d: "device_at i db = Some d"
      "persist_envelope_locked cfg fmt now fid conn d ty payload db = Inr (n, f, db')"
    by (auto simp: outbox_push_def)
  have "device_at i db' = Some (d\<lparr>dev_last_server_sequence := n\<rparr>)"
    using device_at_put [of "d\<lparr>dev_last_server_sequence := n\<rparr>" db i] d(1) outbox_ok_at [of cfg db i d] ok
      device_at_cong [OF persist_Inr(4) [OF d(2)]] by simp
  then show "(outbox_wf cfg db' \<and> device_at i db' \<noteq> None) \<and> channel i db' = channel_push f (channel i db)"
    using persist_refines(1,2) [OF _ d] ok by simp
next
  fix db db' n
  assume ok: "outbox_wf cfg db \<and> device_at i db \<noteq> None" and p: "outbox_ack i n db db'"
  then obtain d d' now where d: "device_at i db = Some d" "n \<le> dev_last_server_sequence d"
      "apply_ack d n now db = (d', db')" by (auto simp: outbox_ack_def)
  note r = apply_ack_refines [OF conjunct1 [OF ok] d]
  have "dev_last_server_sequence d = fst (channel i db) + length (snd (channel i db))"
    using channel_end ok d(1) by blast
  then show "(outbox_wf cfg db' \<and> device_at i db' \<noteq> None) \<and> channel i db' = channel_ack n (channel i db)
      \<and> n \<le> fst (channel i db) + length (snd (channel i db))"
    using r(1,2,4) d(2) by simp
next
  fix db db'
  assume ok: "outbox_wf cfg db \<and> device_at i db \<noteq> None" and p: "outbox_other cfg i db db'"
  note wf = conjunct1 [OF ok]
  obtain d where d: "device_at i db = Some d" using ok by auto
  from p [unfolded outbox_other_def]
  have "outbox_wf cfg db' \<and> map dev_id (devices db') = map dev_id (devices db) \<and> channel i db' = channel i db"
  proof (elim disjE exE conjE)
    fix j f assume "j \<noteq> i" "outbox_push cfg j f db db'"
    then obtain fmt now fid conn dj ty payload n where j: "device_at j db = Some dj"
        "persist_envelope_locked cfg fmt now fid conn dj ty payload db = Inr (n, f, db')"
      by (auto simp: outbox_push_def)
    show ?thesis
      using persist_refines(1) [OF wf j] persist_refines(4) [OF wf j, where j = i] persist_Inr(4) [OF j(2)]
        put_device_ids \<open>j \<noteq> i\<close> by simp
  next
    fix j n assume "j \<noteq> i" "outbox_ack j n db db'"
    then obtain dj d' now where j: "device_at j db = Some dj" "n \<le> dev_last_server_sequence dj"
        "apply_ack dj n now db = (d', db')" by (auto simp: outbox_ack_def)
    have "map dev_id (devices db') = map dev_id (devices db)"
      using j(3) put_device_ids ack_outbox_rows(3)
      by (auto simp: apply_ack_def Let_def split: if_splits)
    then show ?thesis
      using apply_ack_refines(1) [OF wf j] apply_ack_refines(3) [OF wf j, where j = i] \<open>j \<noteq> i\<close> by simp
  next
    fix now n assume pr: "prune_outbox now db = (n, db')"
      "\<forall>d. device_at i db = Some d \<longrightarrow> dev_status d \<noteq> REVOKED"
    then show ?thesis using prune_refines [OF wf pr(1)] d by auto
  next
    assume c: "device_outboxes db' = device_outboxes db" "outbox_counters db' = outbox_counters db"
    have "map dev_id (devices x) = map fst (outbox_counters x)" for x
      by (simp add: outbox_counters_def comp_def)
    then show ?thesis using outbox_counters_cong [OF c] ok c(2) by simp
  qed
  then show "(outbox_wf cfg db' \<and> device_at i db' \<noteq> None) \<and> channel i db' = channel i db"
    using device_at_ids [of db' db i] ok by simp
qed

text \<open>C3: The durable outbox implements a reliable channel to the device.  Start with a consistent
  outbox and let any sequence of operations run: frames stored for the device, acknowledgements of the
  device, frames and acknowledgements of other devices, cleanups and operations on other tables.
  Then the outbox is consistent, and a replay on the active connection of the device succeeds and
  sends exactly the frames that were owed or stored and are not acknowledged, each once, in order;
  it never reports a hole or an overflow.\<close>

theorem outbox_replay_exact:
  assumes "channel_run (outbox_push cfg i) (outbox_ack i) (outbox_other cfg i) frames db db'"
    and "outbox_wf cfg db" "device_at i db \<noteq> None"
    and "lock_active_device conn db' = Inr d" "sk_device_id conn = i"
  shows "outbox_wf cfg db'
    \<and> replay_outbox cfg conn db' =
        Inr (drop (dev_last_server_acked_sequence d - fst (channel i db)) (snd (channel i db) @ frames))
    \<and> dev_last_server_sequence d = fst (channel i db) + length (snd (channel i db) @ frames)"
proof -
  have run: "outbox_wf cfg db'" "fst (channel i db) \<le> fst (channel i db')"
      "fst (channel i db') \<le> fst (channel i db) + length (snd (channel i db) @ frames)"
      "snd (channel i db') = drop (fst (channel i db') - fst (channel i db)) (snd (channel i db) @ frames)"
    using outbox.run_view [OF assms(1)] assms(2,3) by blast+
  have at: "device_at i db' = Some d"
    using assms(4,5) by (auto simp: lock_active_device_def device_at_def split: option.splits if_splits)
  have "fst (channel i db') = dev_last_server_acked_sequence d" by (simp add: channel_at [OF at])
  moreover have "dev_last_server_sequence d = fst (channel i db) + length (snd (channel i db) @ frames)"
    using channel_end [OF run(1) at] run(2,3) unfolding run(4) by (simp del: drop_append length_append)
  ultimately show ?thesis using replay_refines [OF run(1) assms(4)] run(1,4) assms(5) by simp
qed

section \<open>A sample run\<close>

definition sample_connection :: socket_connection where
  "sample_connection = \<lparr>sk_device_id = 1, sk_owner_user_id = u ''user-1'',
     sk_connection_nonce = u ''nonce-1'', sk_epoch = u ''epoch-0000000001'',
     sk_registry_value = sample_registry, sk_received_sequence = 0\<rparr>"

lemma sample_connection_sel [simp]:
  "sk_device_id sample_connection = 1" "sk_owner_user_id sample_connection = u ''user-1''"
  "sk_connection_nonce sample_connection = u ''nonce-1''"
  "sk_epoch sample_connection = u ''epoch-0000000001''"
  by (simp_all add: sample_connection_def)

lemma sample_outbox_wf: "outbox_wf cfg sample_database" "device_at 1 sample_database = Some sample_device"
  by (simp_all add: outbox_wf_def sample_database_def empty_database_def device_outbox_ok_def unacked_def
      device_at_def)

lemma sample_persist:
  "\<exists>e db'. persist_envelope_locked default_settings (\<lambda>_. u ''t'') 5 (u ''f'') sample_connection sample_device
     ''heartbeat_ack'' [] sample_database = Inr (1, e, db')"
proof -
  have "length (dumps True (server_frame (u ''f'') 1 (u ''epoch-0000000001'') 1 0 ''heartbeat_ack'' (u ''t'') []))
      \<le> 262144"
    using uuid_quote by (simp add: server_frame_def length_quote u_def escape_plain int_str_def nat_str.simps)
  then show ?thesis
    by (simp add: persist_envelope_locked_def Let_def unacked_def sample_database_def empty_database_def
        delete_where_def del: dumps.simps)
qed

theorem outbox_replay_exact_witness:
  "\<exists>e db'. outbox_push default_settings 1 e sample_database db'
     \<and> replay_outbox default_settings sample_connection db' = Inr [e]"
proof -
  obtain e db' where p: "persist_envelope_locked default_settings (\<lambda>_. u ''t'') 5 (u ''f'') sample_connection
      sample_device ''heartbeat_ack'' [] sample_database = Inr (1, e, db')"
    using sample_persist by blast
  then have push: "outbox_push default_settings 1 e sample_database db'"
    using sample_outbox_wf(2) unfolding outbox_push_def by blast
  let ?d = "sample_device\<lparr>dev_last_server_sequence := 1\<rparr>"
  have "devices db' = [?d]"
    using persist_Inr(4) [OF p] by (simp add: put_device_def sample_database_def)
  then have lock: "lock_active_device sample_connection db' = Inr ?d"
    by (simp add: lock_active_device_def)
  have run: "channel_run (outbox_push default_settings 1) (outbox_ack 1) (outbox_other default_settings 1)
      ([] @ [e]) sample_database db'"
    by (rule run_push) (rule run_none, rule push)
  have "channel 1 sample_database = (0, [])"
    unfolding channel_at [OF sample_outbox_wf(2)]
    by (simp add: unacked_def sample_database_def empty_database_def)
  then show ?thesis
    using outbox_replay_exact [OF run sample_outbox_wf(1) _ lock] sample_outbox_wf(2) push by auto
qed

end
