(* ===== verification/Dispatch.thy ===== *)
theory Dispatch
  imports Outbox
begin

text \<open>
  Dispatch of commands and of approval decisions to a connected device, and the reconciliation of
  work of an app-server epoch that was replaced (\<open>realtime.py\<close>).  A dispatch is one transaction:
  the row of the command or approval and the frame in the outbox change together.  The result is the
  frame to send, the database after the transaction and the publications that are tried.
\<close>

section \<open>Operations\<close>

definition rejection_audit ::
  "datetime \<Rightarrow> command \<Rightarrow> string \<Rightarrow> audit_outcome \<Rightarrow> string \<Rightarrow> audit_event" where
  "rejection_audit now c action outcome reason =
     \<lparr>aud_actor_user_id = Some (cmd_owner_user_id c), aud_actor_session_id = None,
      aud_actor_device_id = Some (cmd_device_id c), aud_action = action, aud_outcome = outcome,
      aud_resource_type = Some ''command'', aud_resource_id = Some (uuid_str (cmd_id c)),
      aud_request_id = None, aud_source_ip = None, aud_user_agent = None,
      aud_details = [(u ''device_id'', JStr (uuid_str (cmd_device_id c))),
        (u ''method'', JStr (u (cmd_method c))), (u ''reason'', JStr (u reason))],
      aud_created_at = now\<rparr>"

definition record_terminal_dispatch_rejection ::
  "datetime \<Rightarrow> command \<Rightarrow> string \<Rightarrow> audit_outcome \<Rightarrow> string \<Rightarrow> database
     \<Rightarrow> event_error + browser_event list \<times> database" where
  "record_terminal_dispatch_rejection now c action outcome reason db =
     (case append_all event_append now [command_event c]
         (add_audit (rejection_audit now c action outcome reason) db) of
        Inl e \<Rightarrow> Inl e
      | Inr (events1, db1) \<Rightarrow>
          (case repair_and_announce now c db1 of
             Inl e \<Rightarrow> Inl e
           | Inr (events2, db2) \<Rightarrow> Inr (events1 @ events2, db2)))"

definition expired_before_dispatch :: "datetime \<Rightarrow> command \<Rightarrow> command" where
  "expired_before_dispatch now c = c\<lparr>cmd_status := EXPIRED, cmd_completed_at := Some now,
     cmd_error_code := Some ''expired'',
     cmd_error_message := Some (u ''command deadline passed before dispatch'')\<rparr>"

definition denied_stale_epoch :: "datetime \<Rightarrow> command \<Rightarrow> command" where
  "denied_stale_epoch now c = c\<lparr>cmd_status := DENIED, cmd_completed_at := Some now,
     cmd_error_code := Some ''invalid_epoch'',
     cmd_error_message := Some (u ''command belongs to a stale app-server epoch'')\<rparr>"

definition reject_command ::
  "datetime \<Rightarrow> socket_connection \<Rightarrow> command \<Rightarrow> string \<Rightarrow> audit_outcome \<Rightarrow> string \<Rightarrow> database \<Rightarrow> database
     \<Rightarrow> (realtime_error + ustr option) \<times> database \<times> notice list" where
  "reject_command now conn c action outcome reason db db1 =
     (case record_terminal_dispatch_rejection now c action outcome reason (put_command c db1) of
        Inl e \<Rightarrow> (Inl (Stream_Error e), db, [])
      | Inr (events, db2) \<Rightarrow> (Inr None, db2, map (Publish_Event (sk_owner_user_id conn)) events))"

definition command_payload :: "(ustr \<Rightarrow> ustr) \<Rightarrow> (datetime \<Rightarrow> ustr) \<Rightarrow> command \<Rightarrow> datetime \<Rightarrow> dict" where
  "command_payload sha fmt c deadline =
     [(u ''command_id'', JStr (uuid_str (cmd_id c))),
      (u ''idempotency_key'', JStr (wire_idempotency_key sha (cmd_idempotency_scope c) (cmd_idempotency_key c))),
      (u ''method'', JStr (u (cmd_method c))), (u ''params'', JObj (cmd_payload c)),
      (u ''deadline_at'', JStr (fmt deadline))]"

definition dispatch_command ::
  "(ustr \<Rightarrow> ustr) \<Rightarrow> settings \<Rightarrow> (datetime \<Rightarrow> ustr) \<Rightarrow> datetime \<Rightarrow> ustr \<Rightarrow> socket_connection \<Rightarrow> uuid \<Rightarrow> database
     \<Rightarrow> (realtime_error + ustr option) \<times> database \<times> notice list" where
  "dispatch_command sha cfg fmt now frame_id conn command_id db =
     (case lock_active_device conn db of
        Inl e \<Rightarrow> (Inl e, db, [])
      | Inr d \<Rightarrow>
          let db1 = snd (lock_owner_cursor (sk_owner_user_id conn) db) in
     (case scalar (\<lambda>c. cmd_id c = command_id) (commands db1) of
        None \<Rightarrow> (Inr None, db, [])
      | Some c \<Rightarrow>
          if cmd_device_id c \<noteq> sk_device_id conn \<or> cmd_status c \<noteq> QUEUED then (Inr None, db, [])
          else case cmd_expires_at c of
            None \<Rightarrow> reject_command now conn (expired_before_dispatch now c) ''command.expire''
              AUDIT_FAILED ''expired_before_dispatch'' db db1
          | Some deadline \<Rightarrow>
              if deadline \<le> now
              then reject_command now conn (expired_before_dispatch now c) ''command.expire''
                AUDIT_FAILED ''expired_before_dispatch'' db db1
              else if cmd_appserver_epoch c \<noteq> Some (sk_epoch conn)
              then reject_command now conn (denied_stale_epoch now c) ''command.dispatch_reject''
                AUDIT_DENIED ''stale_epoch'' db db1
              else
                (case persist_envelope_locked cfg fmt now frame_id conn d ''command''
                    (command_payload sha fmt c deadline) db1 of
                   Inl e \<Rightarrow> (Inl e, db, [])
                 | Inr (sequence, encoded, db2) \<Rightarrow>
                     (Inr (Some encoded),
                      put_command (c\<lparr>cmd_status := DISPATCHED, cmd_dispatched_at := Some now\<rparr>) db2, []))))"

definition decision_payload :: "(datetime \<Rightarrow> ustr) \<Rightarrow> datetime \<Rightarrow> approval \<Rightarrow> dict" where
  "decision_payload fmt now a =
     [(u ''approval_id'', JStr (uuid_str (apv_id a))),
      (u ''decision'', JStr (u (if apv_status a = APPROVED then ''approve'' else ''deny''))),
      (u ''decided_at'', JStr (fmt (case apv_decided_at a of None \<Rightarrow> now | Some t \<Rightarrow> t)))]"

definition dispatch_approval ::
  "settings \<Rightarrow> (datetime \<Rightarrow> ustr) \<Rightarrow> datetime \<Rightarrow> ustr \<Rightarrow> socket_connection \<Rightarrow> uuid \<Rightarrow> database
     \<Rightarrow> (realtime_error + ustr option) \<times> database" where
  "dispatch_approval cfg fmt now frame_id conn approval_id db =
     (case lock_active_device conn db of
        Inl e \<Rightarrow> (Inl e, db)
      | Inr d \<Rightarrow>
     (case scalar (\<lambda>a. apv_id a = approval_id) (approvals db) of
        None \<Rightarrow> (Inr None, db)
      | Some a \<Rightarrow>
          if apv_device_id a \<noteq> sk_device_id conn \<or> apv_status a \<notin> {APPROVED, APPROVAL_DENIED}
             \<or> apv_decision_dispatched_at a \<noteq> None \<or> apv_appserver_epoch a \<noteq> sk_epoch conn
             \<or> (\<exists>r \<in> set NON_DISPATCHABLE_APPROVAL_REASONS. apv_decision_reason a = Some r)
          then (Inr None, db)
          else
            (case persist_envelope_locked cfg fmt now frame_id conn d ''approval_decision''
                (decision_payload fmt now a) db of
               Inl e \<Rightarrow> (Inl e, db)
             | Inr (sequence, encoded, db1) \<Rightarrow>
                 (Inr (Some encoded), put_approval (a\<lparr>apv_decision_dispatched_at := Some now\<rparr>) db1))))"

text \<open>The identifiers that a heartbeat tries to dispatch.\<close>

definition pending_dispatches :: "socket_connection \<Rightarrow> database \<Rightarrow> uuid list \<times> uuid list" where
  "pending_dispatches conn db =
     (map cmd_id (filter (\<lambda>c. cmd_device_id c = sk_device_id conn \<and> cmd_status c = QUEUED) (commands db)),
      map apv_id (filter (\<lambda>a. apv_device_id a = sk_device_id conn \<and> apv_status a \<in> {APPROVED, APPROVAL_DENIED}
        \<and> apv_decision_dispatched_at a = None
        \<and> (\<forall>r. apv_decision_reason a = Some r \<longrightarrow> r \<notin> set NON_DISPATCHABLE_APPROVAL_REASONS)) (approvals db)))"

text \<open>The calls are numbered; \<open>now n\<close> and \<open>fid n\<close> are the clock and the fresh identifier of the
  call with the number \<open>n\<close>.  An error ends the loop.\<close>

fun dispatch_each ::
  "(nat \<Rightarrow> uuid \<Rightarrow> database \<Rightarrow> (realtime_error + ustr option) \<times> database \<times> notice list) \<Rightarrow> nat \<Rightarrow> uuid list
     \<Rightarrow> database \<Rightarrow> realtime_error option \<times> ustr list \<times> database \<times> notice list" where
  "dispatch_each step n [] db = (None, [], db, [])"
| "dispatch_each step n (i # ids) db =
     (case step n i db of
        (Inl e, db1, ns) \<Rightarrow> (Some e, [], db1, ns)
      | (Inr r, db1, ns) \<Rightarrow>
          (case dispatch_each step (n + 1) ids db1 of
             (err, frames, db2, ns') \<Rightarrow>
               (err, (case r of None \<Rightarrow> frames | Some e \<Rightarrow> e # frames), db2, ns @ ns')))"

definition approval_step ::
  "settings \<Rightarrow> (datetime \<Rightarrow> ustr) \<Rightarrow> (nat \<Rightarrow> datetime) \<Rightarrow> (nat \<Rightarrow> ustr) \<Rightarrow> socket_connection \<Rightarrow> nat \<Rightarrow> uuid
     \<Rightarrow> database \<Rightarrow> (realtime_error + ustr option) \<times> database \<times> notice list" where
  "approval_step cfg fmt now fid conn n i db =
     (case dispatch_approval cfg fmt (now n) (fid n) conn i db of (r, db') \<Rightarrow> (r, db', []))"

definition dispatch_pending ::
  "(ustr \<Rightarrow> ustr) \<Rightarrow> settings \<Rightarrow> (datetime \<Rightarrow> ustr) \<Rightarrow> (nat \<Rightarrow> datetime) \<Rightarrow> (nat \<Rightarrow> ustr) \<Rightarrow> socket_connection
     \<Rightarrow> database \<Rightarrow> realtime_error option \<times> ustr list \<times> database \<times> notice list" where
  "dispatch_pending sha cfg fmt now fid conn db =
     (case pending_dispatches conn db of (command_ids, approval_ids) \<Rightarrow>
      (case dispatch_each (\<lambda>n. dispatch_command sha cfg fmt (now n) (fid n) conn) 0 command_ids db of
         (Some e, frames, db1, ns) \<Rightarrow> (Some e, frames, db1, ns)
       | (None, frames, db1, ns) \<Rightarrow>
           (case dispatch_each (approval_step cfg fmt now fid conn) (length command_ids) approval_ids db1 of
              (err, frames', db2, ns') \<Rightarrow> (err, frames @ frames', db2, ns @ ns'))))"

section \<open>Replaced epochs\<close>

definition stale_command :: "device \<Rightarrow> ustr \<Rightarrow> command \<Rightarrow> bool" where
  "stale_command d current_epoch c \<longleftrightarrow> cmd_device_id c = dev_id d
     \<and> cmd_owner_user_id c = dev_owner_user_id d
     \<and> (\<exists>e. cmd_appserver_epoch c = Some e \<and> e \<noteq> current_epoch) \<and> outstanding c"

definition reconciled_form :: "datetime \<Rightarrow> command \<Rightarrow> command" where
  "reconciled_form now c =
     (if cmd_status c = QUEUED
      then c\<lparr>cmd_status := DENIED, cmd_error_code := Some ''invalid_epoch'',
        cmd_error_message := Some (u ''command belonged to an app-server epoch that was replaced''),
        cmd_completed_at := Some now, cmd_result := None\<rparr>
      else c\<lparr>cmd_status := FAILED, cmd_error_code := Some ''epoch_replaced_indeterminate'',
        cmd_error_message := Some (u ''app-server epoch ended before a terminal acknowledgement; execution state is indeterminate''),
        cmd_completed_at := Some now, cmd_result := None\<rparr>)"

fun reconcile_commands ::
  "datetime \<Rightarrow> command list \<Rightarrow> database \<Rightarrow> event_error + browser_event list \<times> database" where
  "reconcile_commands now [] db = Inr ([], db)"
| "reconcile_commands now (c # cs) db =
     (let queued = (cmd_status c = QUEUED); c' = reconciled_form now c in
      case record_terminal_dispatch_rejection now c'
          (if queued then ''command.dispatch_reject'' else ''command.epoch_reconcile'')
          (if queued then AUDIT_DENIED else AUDIT_FAILED)
          (if queued then ''stale_epoch_before_dispatch'' else ''epoch_replaced_indeterminate'')
          (put_command c' db) of
        Inl e \<Rightarrow> Inl e
      | Inr (events, db1) \<Rightarrow>
          (case reconcile_commands now cs db1 of
             Inl e \<Rightarrow> Inl e
           | Inr (events', db2) \<Rightarrow> Inr (events @ events', db2)))"

definition stale_binding :: "device \<Rightarrow> ustr \<Rightarrow> thread_binding \<Rightarrow> bool" where
  "stale_binding d current_epoch b \<longleftrightarrow> thr_device_id b = dev_id d
     \<and> thr_owner_user_id b = dev_owner_user_id d \<and> thr_appserver_epoch b \<noteq> current_epoch
     \<and> thr_status b \<in> {IDLE, RUNNING, WAITING_FOR_APPROVAL}"

definition stale_thread :: "datetime \<Rightarrow> thread_binding \<Rightarrow> thread_binding" where
  "stale_thread now b = b\<lparr>thr_status := THREAD_FAILED, thr_active_turn_id := None,
     thr_last_error := Some (u ''app-server epoch was replaced; resume the thread to continue''),
     thr_updated_at := now\<rparr>"

definition stale_thread_audit :: "datetime \<Rightarrow> device \<Rightarrow> ustr \<Rightarrow> thread_binding \<Rightarrow> audit_event" where
  "stale_thread_audit now d current_epoch b =
     \<lparr>aud_actor_user_id = Some (dev_owner_user_id d), aud_actor_session_id = None,
      aud_actor_device_id = Some (dev_id d), aud_action = ''thread.epoch_reconcile'',
      aud_outcome = AUDIT_FAILED, aud_resource_type = Some ''thread_binding'',
      aud_resource_id = Some (uuid_str (thr_id b)), aud_request_id = None, aud_source_ip = None,
      aud_user_agent = None,
      aud_details = [(u ''old_epoch'', JStr (thr_appserver_epoch b)), (u ''current_epoch'', JStr current_epoch),
        (u ''reason'', JStr (u ''resume_required_after_epoch_replacement''))],
      aud_created_at = now\<rparr>"

fun reconcile_threads ::
  "datetime \<Rightarrow> device \<Rightarrow> ustr \<Rightarrow> thread_binding list \<Rightarrow> database
     \<Rightarrow> event_error + browser_event list \<times> database" where
  "reconcile_threads now d current_epoch [] db = Inr ([], db)"
| "reconcile_threads now d current_epoch (b # bs) db =
     (let b' = stale_thread now b in
      case append_all event_append now [thread_event (dev_owner_user_id d) (dev_id d) b']
          (add_audit (stale_thread_audit now d current_epoch b) (put_binding b' db)) of
        Inl e \<Rightarrow> Inl e
      | Inr (events, db1) \<Rightarrow>
          (case reconcile_threads now d current_epoch bs db1 of
             Inl e \<Rightarrow> Inl e
           | Inr (events', db2) \<Rightarrow> Inr (events @ events', db2)))"

definition reconcile_stale_epoch_commands ::
  "datetime \<Rightarrow> device \<Rightarrow> ustr \<Rightarrow> database \<Rightarrow> event_error + browser_event list \<times> database" where
  "reconcile_stale_epoch_commands now d current_epoch db =
     (let db1 = snd (lock_owner_cursor (dev_owner_user_id d) db);
          cs = sort_key (\<lambda>c. (cmd_created_at c, cmd_id c)) (filter (stale_command d current_epoch) (commands db1))
      in case reconcile_commands now cs db1 of
           Inl e \<Rightarrow> Inl e
         | Inr (events, db2) \<Rightarrow>
             let bs = sort_key (\<lambda>b. (thr_created_at b, thr_id b))
                   (filter (stale_binding d current_epoch) (thread_bindings db2))
             in (case reconcile_threads now d current_epoch bs db2 of
                   Inl e \<Rightarrow> Inl e
                 | Inr (events', db3) \<Rightarrow> Inr (events @ events', db3)))"

section \<open>What a rejection changes\<close>

definition repaired_bindings :: "datetime \<Rightarrow> command \<Rightarrow> database \<Rightarrow> thread_binding list" where
  "repaired_bindings now c db =
     (case command_binding c db of
        None \<Rightarrow> thread_bindings db
      | Some b \<Rightarrow>
          (case repair_binding_for_terminal_command b c now of
             None \<Rightarrow> thread_bindings db
           | Some b' \<Rightarrow> thread_bindings (put_binding b' db)))"

lemma repaired_bindings_cong:
  "thread_bindings db' = thread_bindings db \<Longrightarrow> repaired_bindings now c db' = repaired_bindings now c db"
  unfolding repaired_bindings_def command_binding_def put_binding_def
  by (cases "cmd_thread_binding_id c") (simp_all split: option.split)

lemma core_of_bindings [simp]: "core_of (db\<lparr>thread_bindings := bs\<rparr>) = (core_of db)\<lparr>thread_bindings := bs\<rparr>"
  by (simp add: core_of_def)

lemma core_bindings_idle: "(core_of db)\<lparr>thread_bindings := thread_bindings db\<rparr> = core_of db"
  by (simp add: core_of_def)

lemma repair_core:
  assumes "repair_and_announce now c db = Inr (es, db')"
  shows "core_of db' = (core_of db)\<lparr>thread_bindings := repaired_bindings now c db\<rparr>"
    "events_wf db \<Longrightarrow> events_wf db'"
proof -
  consider "repaired_bindings now c db = thread_bindings db" "db' = db"
    | b' where "repaired_bindings now c db = thread_bindings (put_binding b' db)"
      "append_all event_append now [thread_event (cmd_owner_user_id c) (cmd_device_id c) b']
         (put_binding b' db) = Inr (es, db')"
    using assms by (auto simp: repair_and_announce_def repaired_bindings_def split: option.splits)
  then show "core_of db' = (core_of db)\<lparr>thread_bindings := repaired_bindings now c db\<rparr>"
  proof cases
    case (2 b')
    have "core_of db' = core_of (put_binding b' db)" by (rule stream.append_all_keeps(1) [OF 2(2)])
    then show ?thesis unfolding 2(1) by (simp add: put_binding_def core_of_def)
  qed (simp add: core_bindings_idle)
  show "events_wf db \<Longrightarrow> events_wf db'" by (rule repair_and_announce_Inr(2) [OF assms])
qed

lemma rejection_core:
  assumes "record_terminal_dispatch_rejection now c action outcome reason db = Inr (es, db')"
  shows "core_of db' = (add_audit (rejection_audit now c action outcome reason) (core_of db))
      \<lparr>thread_bindings := repaired_bindings now c db\<rparr>"
    "events_wf db \<Longrightarrow> events_wf db'"
proof -
  obtain es1 db1 es2 where 1: "append_all event_append now [command_event c]
        (add_audit (rejection_audit now c action outcome reason) db) = Inr (es1, db1)"
      and 2: "repair_and_announce now c db1 = Inr (es2, db')"
    using assms by (auto simp: record_terminal_dispatch_rejection_def split: sum.splits)
  note k = stream.append_all_keeps [OF 1]
  have "thread_bindings db1 = thread_bindings db"
    using core_ofD(5) [OF k(1)] by (simp add: add_audit_def)
  then show "core_of db' = (add_audit (rejection_audit now c action outcome reason) (core_of db))
      \<lparr>thread_bindings := repaired_bindings now c db\<rparr>"
    using repair_core(1) [OF 2] k(1) repaired_bindings_cong [of db1 db] by simp
  show "events_wf db \<Longrightarrow> events_wf db'" using repair_core(2) [OF 2] k(2) by simp
qed

text \<open>The tables that work on commands and threads leaves alone.\<close>

definition work_effect :: "database \<Rightarrow> database \<Rightarrow> bool" where
  "work_effect db db' \<longleftrightarrow> (events_wf db \<longrightarrow> events_wf db')
   \<and> approvals db' = approvals db \<and> device_outboxes db' = device_outboxes db
   \<and> device_connections db' = device_connections db \<and> control_sessions db' = control_sessions db
   \<and> device_pairings db' = device_pairings db \<and> devices (core_of db') = devices (core_of db)
   \<and> map thr_id (thread_bindings db') = map thr_id (thread_bindings db)"

lemma work_effect_refl [simp]: "work_effect db db"
  by (simp add: work_effect_def)

lemma work_effect_trans: "work_effect a b \<Longrightarrow> work_effect b c \<Longrightarrow> work_effect a c"
  by (simp add: work_effect_def)

lemma put_binding_ids [simp]:
  "map thr_id (thread_bindings (put_binding b db)) = map thr_id (thread_bindings db)"
  by (simp add: put_binding_def map_update_where)

lemma repaired_ids [simp]:
  "map thr_id (repaired_bindings now c db) = map thr_id (thread_bindings db)"
  by (simp add: repaired_bindings_def split: option.split)

lemma work_effect_core:
  assumes "core_of db' = c" "events_wf db \<longrightarrow> events_wf db'"
    and "approvals c = approvals db" "device_outboxes c = device_outboxes db"
    and "device_connections c = device_connections db" "control_sessions c = control_sessions db"
    and "device_pairings c = device_pairings db" "devices c = devices (core_of db)"
    and "map thr_id (thread_bindings c) = map thr_id (thread_bindings db)"
  shows "work_effect db db'"
  using assms(2-) unfolding assms(1) [symmetric] by (simp add: work_effect_def)

lemma put_more_simps [simp]:
  "device_connections (put_command c db) = device_connections db"
  "control_sessions (put_command c db) = control_sessions db"
  "device_pairings (put_command c db) = device_pairings db"
  "device_connections (put_binding b db) = device_connections db"
  "control_sessions (put_binding b db) = control_sessions db"
  "device_pairings (put_binding b db) = device_pairings db"
  by (simp_all add: put_command_def put_binding_def)

lemma put_work_effect [simp]:
  "work_effect db (put_command c db)" "work_effect db (put_binding b db)" "work_effect db (add_audit a db)"
  by (simp_all add: work_effect_def)

lemma lock_work_effect [simp]: "work_effect db (snd (lock_owner_cursor owner db))"
  by (rule work_effect_core [OF stream.lock_core]) (use stream.lock_ok in simp_all)

lemma append_work_effect:
  "append_all event_append now specs db = Inr (es, db') \<Longrightarrow> work_effect db db'"
  by (rule work_effect_core [OF stream.append_all_keeps(1)]) (use stream.append_all_keeps(2) in auto)

lemma rejection_work_effect:
  assumes "record_terminal_dispatch_rejection now c action outcome reason db = Inr (es, db')"
  shows "work_effect db db'" "commands db' = commands db"
    "thread_bindings db' = repaired_bindings now c db"
    "audit_events db' = audit_events db @ [rejection_audit now c action outcome reason]"
proof -
  show "work_effect db db'"
    by (rule work_effect_core [OF rejection_core(1) [OF assms]])
      (use rejection_core(2) [OF assms] in \<open>simp_all add: add_audit_def\<close>)
  note r = rejection_core(1) [OF assms]
  show "commands db' = commands db" "thread_bindings db' = repaired_bindings now c db"
    "audit_events db' = audit_events db @ [rejection_audit now c action outcome reason]"
    using arg_cong [OF r, of commands] arg_cong [OF r, of thread_bindings] arg_cong [OF r, of audit_events]
    by (simp_all add: add_audit_def)
qed

lemma core_counters: "devices (core_of db') = devices (core_of db) \<Longrightarrow> outbox_counters db' = outbox_counters db"
  unfolding outbox_counters_def by (erule core_map_devices) simp

lemma work_effect_channel:
  assumes "work_effect db db'"
  shows "outbox_wf cfg db' \<longleftrightarrow> outbox_wf cfg db" "channel i db' = channel i db"
  using assms outbox_counters_cong [of db' db] core_counters [of db' db] by (auto simp: work_effect_def)

section \<open>Dispatch of a command\<close>

definition dispatch_ready :: "datetime \<Rightarrow> socket_connection \<Rightarrow> command \<Rightarrow> bool" where
  "dispatch_ready now conn c \<longleftrightarrow> cmd_appserver_epoch c = Some (sk_epoch conn)
     \<and> (\<exists>deadline. cmd_expires_at c = Some deadline \<and> now < deadline)"

text \<open>The form of a queued command that must not be sent.\<close>

definition rejected_form :: "datetime \<Rightarrow> command \<Rightarrow> command" where
  "rejected_form now c =
     (if \<exists>deadline. cmd_expires_at c = Some deadline \<and> now < deadline
      then denied_stale_epoch now c else expired_before_dispatch now c)"

definition dispatched_form :: "datetime \<Rightarrow> command \<Rightarrow> command" where
  "dispatched_form now c = c\<lparr>cmd_status := DISPATCHED, cmd_dispatched_at := Some now\<rparr>"

lemma dispatch_forms [simp]:
  "cmd_id (rejected_form now c) = cmd_id c" "cmd_id (dispatched_form now c) = cmd_id c"
  "cmd_id (reconciled_form now c) = cmd_id c"
  "\<not> outstanding (rejected_form now c)" "\<not> outstanding (reconciled_form now c)"
  "cmd_base (rejected_form now c) = cmd_base c" "cmd_base (dispatched_form now c) = cmd_base c"
  "cmd_base (reconciled_form now c) = cmd_base c"
  "cmd_status (dispatched_form now c) = DISPATCHED"
  by (simp_all add: rejected_form_def dispatched_form_def reconciled_form_def denied_stale_epoch_def
      expired_before_dispatch_def outstanding_def cmd_base_def)

lemma dispatch_progress:
  "outstanding c \<Longrightarrow> cmd_progress c (rejected_form now c)"
  "outstanding c \<Longrightarrow> cmd_progress c (dispatched_form now c)"
  "outstanding c \<Longrightarrow> cmd_progress c (reconciled_form now c)"
  by (simp_all add: cmd_progress_def)

definition queued_for :: "socket_connection \<Rightarrow> uuid \<Rightarrow> command \<Rightarrow> database \<Rightarrow> bool" where
  "queued_for conn cid c db \<longleftrightarrow> scalar (\<lambda>c. cmd_id c = cid) (commands db) = Some c
     \<and> cmd_device_id c = sk_device_id conn \<and> cmd_status c = QUEUED"

lemma reject_command_cases:
  assumes "reject_command now conn c action outcome reason db db1 = (res, db', ns)"
  obtains (failed) e where "res = Inl e" "db' = db" "ns = []"
  | (rejected) events where "res = Inr None" "ns = map (Publish_Event (sk_owner_user_id conn)) events"
      "record_terminal_dispatch_rejection now c action outcome reason (put_command c db1) = Inr (events, db')"
  using assms by (auto simp: reject_command_def split: sum.splits)

lemma dispatch_command_cases:
  assumes "dispatch_command sha cfg fmt now fid conn cid db = (res, db', ns)"
  obtains (failed) e where "res = Inl e" "db' = db" "ns = []"
  | (skipped) "res = Inr None" "db' = db" "ns = []" "\<And>c. \<not> queued_for conn cid c db"
  | (rejected) c action outcome reason events where "res = Inr None" "queued_for conn cid c db"
      "\<not> dispatch_ready now conn c" "ns = map (Publish_Event (sk_owner_user_id conn)) events"
      "record_terminal_dispatch_rejection now (rejected_form now c) action outcome reason
         (put_command (rejected_form now c) (snd (lock_owner_cursor (sk_owner_user_id conn) db))) = Inr (events, db')"
  | (dispatched) d c deadline e n db1 where "res = Inr (Some e)" "ns = []" "queued_for conn cid c db"
      "dispatch_ready now conn c" "cmd_expires_at c = Some deadline" "lock_active_device conn db = Inr d"
      "persist_envelope_locked cfg fmt now fid conn d ''command'' (command_payload sha fmt c deadline)
         (snd (lock_owner_cursor (sk_owner_user_id conn) db)) = Inr (n, e, db1)"
      "db' = put_command (dispatched_form now c) db1"
proof -
  note D = assms [unfolded dispatch_command_def Let_def lock_simps]
  show thesis
  proof (cases "lock_active_device conn db")
    case (Inl e)
    then show ?thesis using D failed by auto
  next
    case d: (Inr d)
    show ?thesis
    proof (cases "\<exists>c. queued_for conn cid c db")
      case False
      then show ?thesis using D d skipped
        by (auto simp: queued_for_def split: option.splits if_splits)
    next
      case True
      then obtain c where q: "queued_for conn cid c db" by blast
      show ?thesis
      proof (cases "dispatch_ready now conn c")
        case False
        then obtain action outcome reason where "reject_command now conn (rejected_form now c) action outcome reason
            db (snd (lock_owner_cursor (sk_owner_user_id conn) db)) = (res, db', ns)"
          using D d q by (auto simp: queued_for_def dispatch_ready_def rejected_form_def not_le
              split: option.splits if_splits)
        then show ?thesis
          by (cases rule: reject_command_cases) (use failed rejected q False in blast)+
      next
        case True
        then obtain deadline where dl: "cmd_expires_at c = Some deadline" by (auto simp: dispatch_ready_def)
        show ?thesis
          using D d q True dl failed dispatched
          by (auto simp: queued_for_def dispatch_ready_def dispatched_form_def not_le
              split: option.splits if_splits sum.splits prod.splits)
      qed
    qed
  qed
qed

lemma queued_forD:
  assumes "queued_for conn cid c db"
  shows "c \<in> set (commands db)" "cmd_id c = cid" "cmd_status c = QUEUED" "outstanding c"
    "cmd_device_id c = sk_device_id conn"
  using assms scalar_SomeD [of _ "commands db" c] by (auto simp: queued_for_def outstanding_def)

lemma lock_active_at: "lock_active_device conn db = Inr d \<Longrightarrow> device_at (sk_device_id conn) db = Some d"
  by (auto simp: lock_active_device_def device_at_def split: option.splits if_splits)

lemma outbox_wf_put [simp]:
  "outbox_wf cfg (put_command c db) = outbox_wf cfg db" "channel i (put_command c db) = channel i db"
  "outbox_wf cfg (put_approval a db) = outbox_wf cfg db" "channel i (put_approval a db) = channel i db"
  "outbox_wf cfg (snd (lock_owner_cursor owner db)) = outbox_wf cfg db"
  "channel i (snd (lock_owner_cursor owner db)) = channel i db"
  by (rule outbox_counters_cong; simp add: outbox_counters_def)+

lemma put_command_same: "commands db1 = commands db \<Longrightarrow> commands (put_command c db1) = commands (put_command c db)"
  by (simp add: put_command_def)

lemma persist_events:
  assumes "persist_envelope_locked cfg fmt now fid conn d ty payload db = Inr (n, e, db')"
    and "d \<in> set (devices db)" "distinct (map dev_id (devices db))"
  shows "events_wf db' = events_wf db"
proof (rule events_wf_cong)
  show "event_logs db' = event_logs db" "event_owner_cursors db' = event_owner_cursors db"
    using persist_Inr(12,13) [OF assms(1)] .
  have "x = d" if "x \<in> set (devices db)" "dev_id x = dev_id d" for x
    using that assms(2,3) by (metis distinct_map inj_on_eq_iff)
  then show "map (\<lambda>d. (dev_id d, dev_last_event_sequence d)) (devices db') =
      map (\<lambda>d. (dev_id d, dev_last_event_sequence d)) (devices db)"
    unfolding persist_Inr(4) [OF assms(1)] by (auto simp: put_device_def update_where_def)
qed

text \<open>A frame that is stored for the device of an active connection.\<close>

lemma persist_active:
  assumes "persist_envelope_locked cfg fmt now fid conn d ty payload db0 = Inr (n, e, db1)"
    and "lock_active_device conn db = Inr d" "outbox_wf cfg db" "events_wf db0"
    and "devices db0 = devices db" "device_outboxes db0 = device_outboxes db"
  shows "outbox_wf cfg db1" "events_wf db1"
    "channel (sk_device_id conn) db1 = channel_push e (channel (sk_device_id conn) db)"
    "j \<noteq> sk_device_id conn \<Longrightarrow> channel j db1 = channel j db"
    "n = fst (channel (sk_device_id conn) db) + length (snd (channel (sk_device_id conn) db)) + 1"
    "e = dumps True (server_frame fid (sk_device_id conn) (sk_epoch conn) n (dev_last_device_sequence d) ty
       (fmt now) payload)"
proof -
  note at = lock_active_at [OF assms(2)]
  have same: "outbox_wf cfg db0 = outbox_wf cfg db" "channel i db0 = channel i db" for i
    by (rule outbox_counters_cong; simp add: assms outbox_counters_def)+
  have at0: "device_at (sk_device_id conn) db0 = Some d" using at assms(5) by (simp add: device_at_def)
  have wf0: "outbox_wf cfg db0" using same(1) assms(3) by simp
  have din: "d \<in> set (devices db0)" "dev_id d = sk_device_id conn"
    using at0 device_at_Some [of db0 "sk_device_id conn" d] wf0 by auto
  note ref = persist_refines [OF wf0 at0 assms(1)]
  show "outbox_wf cfg db1" by (rule ref(1))
  show "events_wf db1" using persist_events [OF assms(1) din(1)] wf0 assms(4) by simp
  show "channel (sk_device_id conn) db1 = channel_push e (channel (sk_device_id conn) db)"
    "j \<noteq> sk_device_id conn \<Longrightarrow> channel j db1 = channel j db"
    "n = fst (channel (sk_device_id conn) db) + length (snd (channel (sk_device_id conn) db)) + 1"
    using ref(2,3) ref(4) [of j] same(2) by simp_all
  show "e = dumps True (server_frame fid (sk_device_id conn) (sk_epoch conn) n (dev_last_device_sequence d) ty
       (fmt now) payload)"
    using persist_Inr(2) [OF assms(1)] unfolding din(2) .
qed

lemma queued_unique: "queued_for conn cid c db \<Longrightarrow> queued_for conn cid x db \<longleftrightarrow> x = c"
  by (auto simp: queued_for_def)

lemma queued_progress:
  assumes "queued_for conn cid c db" "commands_wf cfg (commands db)"
  shows "commands_progress (commands db) (commands (put_command (rejected_form now c) db))"
    "commands_wf cfg (commands (put_command (rejected_form now c) db))"
    "commands_progress (commands db) (commands (put_command (dispatched_form now c) db))"
    "commands_wf cfg (commands (put_command (dispatched_form now c) db))"
proof -
  note q = queued_forD [OF assms(1)]
  show p: "commands_progress (commands db) (commands (put_command (rejected_form now c) db))"
    using assms(2) q(1) dispatch_progress(1) [OF q(4)] by (intro put_command_progress) (auto simp: commands_wf_def)
  show r: "commands_progress (commands db) (commands (put_command (dispatched_form now c) db))"
    using assms(2) q(1) dispatch_progress(2) [OF q(4)] by (intro put_command_progress) (auto simp: commands_wf_def)
  show "commands_wf cfg (commands (put_command (rejected_form now c) db))" by (rule commands_progress_wf [OF p assms(2)])
  show "commands_wf cfg (commands (put_command (dispatched_form now c) db))" by (rule commands_progress_wf [OF r assms(2)])
qed

text \<open>C4: Dispatching a command is atomic and happens only once.  An error leaves the database as it was.
  Otherwise, if no queued command of the device of the connection has the identifier, nothing
  changes.  If there is one, it is sent exactly if it belongs to the epoch of the connection and its
  deadline has not passed: then, in one step, its status becomes dispatched and one frame, which
  holds the command, its parameters and its wire key, is added to the channel of the device.  If it
  may not be sent, it becomes terminal (expired or denied), and no frame is added to any channel.
  The quotas, the outbox and the event tables stay consistent.\<close>

theorem dispatch_command_atomic:
  assumes "dispatch_command sha cfg fmt now fid conn cid db = (res, db', ns)"
    and "commands_wf cfg (commands db)" "outbox_wf cfg db" "events_wf db"
  shows "((\<exists>e. res = Inl e) \<longrightarrow> db' = db \<and> ns = [])
    \<and> ((\<exists>r. res = Inr r) \<longrightarrow> (\<forall>c. \<not> queued_for conn cid c db) \<longrightarrow> res = Inr None \<and> db' = db \<and> ns = [])
    \<and> ((\<exists>r. res = Inr r) \<longrightarrow> (\<forall>c. queued_for conn cid c db \<longrightarrow>
         (if dispatch_ready now conn c
          then \<exists>e n (d :: device). res = Inr (Some e) \<and> commands db' = commands (put_command (dispatched_form now c) db)
            \<and> channel (sk_device_id conn) db' = channel_push e (channel (sk_device_id conn) db)
            \<and> length e \<le> device_max_envelope_bytes cfg
            \<and> e = dumps True (server_frame fid (sk_device_id conn) (sk_epoch conn) n
                (dev_last_device_sequence d) ''command'' (fmt now)
                (command_payload sha fmt c (the (cmd_expires_at c))))
            \<and> n = fst (channel (sk_device_id conn) db) + length (snd (channel (sk_device_id conn) db)) + 1
          else res = Inr None \<and> commands db' = commands (put_command (rejected_form now c) db)
            \<and> (\<forall>i. channel i db' = channel i db))))
    \<and> (\<forall>i. i \<noteq> sk_device_id conn \<longrightarrow> channel i db' = channel i db)
    \<and> commands_wf cfg (commands db') \<and> commands_progress (commands db) (commands db')
    \<and> outbox_wf cfg db' \<and> events_wf db' \<and> approvals db' = approvals db"
  using assms(1)
proof (cases rule: dispatch_command_cases)
  case (failed e)
  then show ?thesis using assms(2-) by simp
next
  case skipped
  then show ?thesis using assms(2-) by simp
next
  case (rejected c action outcome reason events)
  note r = rejection_work_effect [OF rejected(5)]
  have eff: "work_effect db db'"
    by (rule work_effect_trans [OF work_effect_trans [OF lock_work_effect put_work_effect(1)] r(1)])
  have cs: "commands db' = commands (put_command (rejected_form now c) db)"
    unfolding r(2) by (rule put_command_same) simp
  note prog = queued_progress(1,2) [OF rejected(2) assms(2), of now, folded cs] and only = queued_unique [OF rejected(2)]
  have "outbox_wf cfg db'" "events_wf db'" "approvals db' = approvals db"
    using work_effect_channel(1) [OF eff, of cfg] eff assms(3,4) by (simp_all add: work_effect_def)
  then show ?thesis
    using rejected(1,3) prog work_effect_channel(2) [OF eff] by (simp add: only cs)
next
  case (dispatched d c deadline e n db1)
  note p = persist_Inr [OF dispatched(7)]
  note act = persist_active [OF dispatched(7,6) assms(3) stream.lock_ok [OF assms(4)] lock_simps(3,5)]
  have cs: "commands db' = commands (put_command (dispatched_form now c) db)"
    unfolding dispatched(8) by (rule put_command_same) (simp add: p(9))
  note prog = queued_progress(3,4) [OF dispatched(3) assms(2), of now, folded cs] and only = queued_unique [OF dispatched(3)]
  have chan: "channel (sk_device_id conn) db' = channel_push e (channel (sk_device_id conn) db)"
      "i \<noteq> sk_device_id conn \<Longrightarrow> channel i db' = channel i db" for i
    using act(3) act(4) [of i] unfolding dispatched(8) by simp_all
  have frame: "e = dumps True (server_frame fid (sk_device_id conn) (sk_epoch conn) n
      (dev_last_device_sequence d) ''command'' (fmt now) (command_payload sha fmt c (the (cmd_expires_at c))))"
    using act(6) dispatched(5) by (simp del: dumps.simps)
  have main: "\<exists>e n (d :: device). res = Inr (Some e) \<and> commands db' = commands (put_command (dispatched_form now c) db)
      \<and> channel (sk_device_id conn) db' = channel_push e (channel (sk_device_id conn) db)
      \<and> length e \<le> device_max_envelope_bytes cfg
      \<and> e = dumps True (server_frame fid (sk_device_id conn) (sk_epoch conn) n
          (dev_last_device_sequence d) ''command'' (fmt now) (command_payload sha fmt c (the (cmd_expires_at c))))
      \<and> n = fst (channel (sk_device_id conn) db) + length (snd (channel (sk_device_id conn) db)) + 1"
    by (intro exI [of _ e] exI [of _ n] exI [of _ d] conjI) (fact dispatched(1) cs chan(1) p(3) frame act(5))+
  have "outbox_wf cfg db'" "events_wf db'" "approvals db' = approvals db"
    using act(1,2) p(10) unfolding dispatched(8) by simp_all
  then show ?thesis
    using main prog chan(2) dispatched(1,4) by (simp add: only del: dumps.simps)
qed

section \<open>Dispatch of a decision\<close>

definition decision_ready :: "socket_connection \<Rightarrow> uuid \<Rightarrow> approval \<Rightarrow> database \<Rightarrow> bool" where
  "decision_ready conn aid a db \<longleftrightarrow> scalar (\<lambda>a. apv_id a = aid) (approvals db) = Some a
     \<and> apv_device_id a = sk_device_id conn \<and> apv_status a \<in> {APPROVED, APPROVAL_DENIED}
     \<and> apv_decision_dispatched_at a = None \<and> apv_appserver_epoch a = sk_epoch conn
     \<and> (\<forall>r \<in> set NON_DISPATCHABLE_APPROVAL_REASONS. apv_decision_reason a \<noteq> Some r)"

lemma dispatch_approval_cases:
  assumes "dispatch_approval cfg fmt now fid conn aid db = (res, db')"
  obtains (failed) e where "res = Inl e" "db' = db"
  | (skipped) "res = Inr None" "db' = db" "\<And>a. \<not> decision_ready conn aid a db"
  | (dispatched) d a e n db1 where "res = Inr (Some e)" "decision_ready conn aid a db"
      "lock_active_device conn db = Inr d"
      "persist_envelope_locked cfg fmt now fid conn d ''approval_decision'' (decision_payload fmt now a) db
         = Inr (n, e, db1)"
      "db' = put_approval (a\<lparr>apv_decision_dispatched_at := Some now\<rparr>) db1"
proof -
  note D = assms [unfolded dispatch_approval_def]
  show thesis
  proof (cases "lock_active_device conn db")
    case (Inl e)
    then show ?thesis using D failed by auto
  next
    case d: (Inr d)
    show ?thesis
    proof (cases "\<exists>a. decision_ready conn aid a db")
      case False
      then show ?thesis using D d skipped by (auto simp: decision_ready_def split: option.splits if_splits)
    next
      case True
      then obtain a where a: "decision_ready conn aid a db" by blast
      have found: "scalar (\<lambda>a. apv_id a = aid) (approvals db) = Some a"
        "\<not> (apv_device_id a \<noteq> sk_device_id conn \<or> apv_status a \<notin> {APPROVED, APPROVAL_DENIED}
             \<or> apv_decision_dispatched_at a \<noteq> None \<or> apv_appserver_epoch a \<noteq> sk_epoch conn
             \<or> (\<exists>r \<in> set NON_DISPATCHABLE_APPROVAL_REASONS. apv_decision_reason a = Some r))"
        using a by (auto simp: decision_ready_def)
      show ?thesis
        using D [unfolded d found(1) sum.case option.case if_not_P [OF found(2)]] d a failed dispatched
        by (auto split: sum.splits prod.splits)
    qed
  qed
qed

lemma dispatched_at_progress:
  assumes "apv_decision_dispatched_at a = None"
  shows "apv_progress a (a\<lparr>apv_decision_dispatched_at := Some now\<rparr>)"
  using assms by (simp add: apv_progress_def apv_base_def)

lemma decision_readyD:
  assumes "decision_ready conn aid a db"
  shows "a \<in> set (approvals db)" "apv_id a = aid" "apv_decision_dispatched_at a = None"
    "apv_status a \<in> {APPROVED, APPROVAL_DENIED}" "apv_device_id a = sk_device_id conn"
  using assms scalar_SomeD [of _ "approvals db" a] by (auto simp: decision_ready_def)

lemma dispatched_ok:
  assumes "approval_ok a" "decision_ready conn aid a db"
  shows "approval_ok (a\<lparr>apv_decision_dispatched_at := Some now\<rparr>)"
proof -
  have "apv_status a \<noteq> APPROVAL_PENDING" "r \<notin> set NON_DISPATCHABLE_APPROVAL_REASONS"
    if "apv_decision_reason a = Some r" for r
    using assms(2) that unfolding decision_ready_def by auto
  moreover have "apv_status a \<noteq> APPROVAL_PENDING" using assms(2) by (auto simp: decision_ready_def)
  ultimately show ?thesis using assms(1) by (simp add: approval_ok_def)
qed

lemma scalar_put:
  assumes "r \<in> set rows" "key r = key r'"
  shows "scalar (\<lambda>x. key x = j) (update_where (\<lambda>x. key x = key r') (\<lambda>_. r') rows) =
    (if j = key r' then Some r' else scalar (\<lambda>x. key x = j) rows)"
proof -
  have "scalar (\<lambda>x. key x = j) (update_where (\<lambda>x. key x = key r') (\<lambda>_. r') rows) = scalar (\<lambda>x. key x = j) rows"
    if "j \<noteq> key r'" for rows
    using that by (induction rows) auto
  then show ?thesis using assms by (induction rows) auto
qed


section \<open>Draining the pending work\<close>

text \<open>A step that handles one identifier: it leaves no work for it, keeps the work of the others,
  adds its frame at the end of the channel and keeps an invariant and another table.\<close>

locale dispatcher =
  fixes step :: "nat \<Rightarrow> uuid \<Rightarrow> database \<Rightarrow> (realtime_error + ustr option) \<times> database \<times> notice list"
    and pending :: "database \<Rightarrow> uuid set"
    and ok :: "database \<Rightarrow> bool"
    and owed :: "database \<Rightarrow> nat \<times> ustr list"
    and other :: "database \<Rightarrow> 't"
  assumes step_ok: "step n i db = (Inr r, db', ns) \<Longrightarrow> ok db \<Longrightarrow> ok db'"
    and step_pending: "step n i db = (Inr r, db', ns) \<Longrightarrow> ok db \<Longrightarrow> pending db' = pending db - {i}"
    and step_owed: "step n i db = (Inr r, db', ns) \<Longrightarrow> ok db \<Longrightarrow>
        owed db' = (fst (owed db), snd (owed db) @ (case r of None \<Rightarrow> [] | Some e \<Rightarrow> [e]))"
    and step_other: "step n i db = (Inr r, db', ns) \<Longrightarrow> ok db \<Longrightarrow> other db' = other db"
begin

lemma dispatch_each_drains:
  "dispatch_each step n ids db = (None, frames, db', ns) \<Longrightarrow> ok db \<Longrightarrow>
     ok db' \<and> pending db' = pending db - set ids \<and> owed db' = (fst (owed db), snd (owed db) @ frames)
     \<and> other db' = other db"
proof (induction ids arbitrary: n db frames ns)
  case (Cons i ids)
  obtain r db1 ns1 frames1 ns2 where s: "step n i db = (Inr r, db1, ns1)"
    and rest: "dispatch_each step (n + 1) ids db1 = (None, frames1, db', ns2)"
    and f: "frames = (case r of None \<Rightarrow> frames1 | Some e \<Rightarrow> e # frames1)"
    using Cons.prems(1) by (auto split: prod.splits sum.splits)
  show ?case
    using Cons.IH [OF rest step_ok [OF s Cons.prems(2)]] step_pending [OF s Cons.prems(2)]
      step_owed [OF s Cons.prems(2)] step_other [OF s Cons.prems(2)] f
    by (auto split: option.split)
qed simp

end

definition dispatch_ok :: "settings \<Rightarrow> database \<Rightarrow> bool" where
  "dispatch_ok cfg db \<longleftrightarrow> distinct (map cmd_id (commands db)) \<and> approvals_wf (approvals db) \<and> outbox_wf cfg db \<and> events_wf db"

definition queued_ids :: "socket_connection \<Rightarrow> database \<Rightarrow> uuid set" where
  "queued_ids conn db = {i. \<exists>c. queued_for conn i c db}"

definition ready_ids :: "socket_connection \<Rightarrow> database \<Rightarrow> uuid set" where
  "ready_ids conn db = {i. \<exists>a. decision_ready conn i a db}"

lemma queued_ids_put:
  assumes "queued_for conn i c db" "cmd_id c' = cmd_id c" "cmd_status c' \<noteq> QUEUED"
    and "commands db' = commands (put_command c' db)"
  shows "queued_ids conn db' = queued_ids conn db - {i}"
  using assms(2,3) queued_forD(1,2) [OF assms(1)] scalar_put [of c "commands db" cmd_id c']
  unfolding queued_ids_def queued_for_def assms(4) put_command_def by auto

lemma ready_ids_put:
  assumes "decision_ready conn i a db"
    and "approvals db' = approvals (put_approval (a\<lparr>apv_decision_dispatched_at := Some now\<rparr>) db)"
  shows "ready_ids conn db' = ready_ids conn db - {i}"
  using decision_readyD(1,2) [OF assms(1)]
    scalar_put [of a "approvals db" apv_id "a\<lparr>apv_decision_dispatched_at := Some now\<rparr>"]
  unfolding ready_ids_def decision_ready_def assms(2) put_approval_def by auto

lemma dispatch_command_drain:
  assumes "dispatch_command sha cfg fmt now fid conn i db = (Inr r, db', ns)" "dispatch_ok cfg db"
  shows "dispatch_ok cfg db' \<and> queued_ids conn db' = queued_ids conn db - {i}
    \<and> channel (sk_device_id conn) db' = (fst (channel (sk_device_id conn) db),
        snd (channel (sk_device_id conn) db) @ (case r of None \<Rightarrow> [] | Some e \<Rightarrow> [e]))
    \<and> approvals db' = approvals db"
  using assms(1)
proof (cases rule: dispatch_command_cases)
  case skipped
  then show ?thesis using assms(2) by (simp add: queued_ids_def)
next
  case (rejected c action outcome reason events)
  note w = rejection_work_effect [OF rejected(5)]
  have eff: "work_effect db db'"
    by (rule work_effect_trans [OF work_effect_trans [OF lock_work_effect put_work_effect(1)] w(1)])
  have cs: "commands db' = commands (put_command (rejected_form now c) db)"
    unfolding w(2) by (rule put_command_same) simp
  have "queued_ids conn db' = queued_ids conn db - {i}"
    by (rule queued_ids_put [OF rejected(2) _ _ cs]) (simp_all add: rejected_form_def denied_stale_epoch_def expired_before_dispatch_def)
  moreover have "distinct (map cmd_id (commands db'))"
    unfolding cs put_command_def using assms(2) by (simp add: dispatch_ok_def map_update_where)
  ultimately show ?thesis
    using work_effect_channel [OF eff] eff assms(2) rejected(1) by (simp add: dispatch_ok_def work_effect_def)
next
  case (dispatched d c deadline e n db1)
  have ok: "outbox_wf cfg db" "events_wf db" using assms(2) by (simp_all add: dispatch_ok_def)
  note p = persist_Inr [OF dispatched(7)]
  note act = persist_active [OF dispatched(7,6) ok(1) stream.lock_ok [OF ok(2)] lock_simps(3,5)]
  have cs: "commands db' = commands (put_command (dispatched_form now c) db)"
    unfolding dispatched(8) by (rule put_command_same) (simp add: p(9))
  have "queued_ids conn db' = queued_ids conn db - {i}"
    by (rule queued_ids_put [OF dispatched(3) _ _ cs]) simp_all
  moreover have "distinct (map cmd_id (commands db'))"
    unfolding cs put_command_def using assms(2) by (simp add: dispatch_ok_def map_update_where)
  ultimately show ?thesis
    using act(1-3) p(10) dispatched(1) assms(2) unfolding dispatched(8)
    by (simp add: dispatch_ok_def channel_push_def)
qed simp

interpretation command_dispatch: dispatcher "\<lambda>n. dispatch_command sha cfg fmt (now n) (fid n) conn"
  "queued_ids conn" "dispatch_ok cfg" "channel (sk_device_id conn)" approvals for sha cfg fmt now fid conn
  by unfold_locales (use dispatch_command_drain in blast)+

lemma dispatch_approval_drain:
  assumes "dispatch_approval cfg fmt now fid conn i db = (Inr r, db')" "dispatch_ok cfg db"
  shows "dispatch_ok cfg db' \<and> ready_ids conn db' = ready_ids conn db - {i}
    \<and> channel (sk_device_id conn) db' = (fst (channel (sk_device_id conn) db),
        snd (channel (sk_device_id conn) db) @ (case r of None \<Rightarrow> [] | Some e \<Rightarrow> [e]))
    \<and> commands db' = commands db"
  using assms(1)
proof (cases rule: dispatch_approval_cases)
  case skipped
  then show ?thesis using assms(2) by (simp add: ready_ids_def)
next
  case (dispatched d a e n db1)
  have ok: "outbox_wf cfg db" "events_wf db" "approvals_wf (approvals db)"
    using assms(2) by (simp_all add: dispatch_ok_def)
  note a = decision_readyD [OF dispatched(2)]
  note p = persist_Inr [OF dispatched(4)]
  note act = persist_active [OF dispatched(4,3) ok(1,2) refl refl]
  have as: "approvals db' = approvals (put_approval (a\<lparr>apv_decision_dispatched_at := Some now\<rparr>) db)"
    unfolding dispatched(5) by (simp add: put_approval_def p(10))
  have "approval_ok a" using ok(3) a(1) by (simp add: approvals_wf_def)
  then have "approvals_wf (approvals db')"
    unfolding as by (intro put_approval_wf ok(3)) (rule dispatched_ok [OF _ dispatched(2)])
  then show ?thesis
    using act(1-3) p(9) dispatched(1) assms(2) ready_ids_put [OF dispatched(2) as]
    unfolding dispatched(5) by (simp add: dispatch_ok_def channel_push_def)
qed simp

lemma approval_step_Inr:
  "approval_step cfg fmt now fid conn n i db = (Inr r, db', ns) \<Longrightarrow>
     dispatch_approval cfg fmt (now n) (fid n) conn i db = (Inr r, db')"
  by (simp add: approval_step_def split: prod.splits)

interpretation approval_dispatch: dispatcher "approval_step cfg fmt now fid conn"
  "ready_ids conn" "dispatch_ok cfg" "channel (sk_device_id conn)" commands for cfg fmt now fid conn
  by unfold_locales (use dispatch_approval_drain [OF approval_step_Inr] in blast)+

text \<open>The selection of the pending work contains everything that may be sent.\<close>

lemma pending_covers:
  "queued_ids conn db \<subseteq> set (fst (pending_dispatches conn db))" "ready_ids conn db \<subseteq> set (snd (pending_dispatches conn db))"
proof -
  show "queued_ids conn db \<subseteq> set (fst (pending_dispatches conn db))"
    using queued_forD by (fastforce simp: queued_ids_def pending_dispatches_def)
  show "ready_ids conn db \<subseteq> set (snd (pending_dispatches conn db))"
  proof
    fix i assume "i \<in> ready_ids conn db"
    then obtain a where a: "decision_ready conn i a db" by (auto simp: ready_ids_def)
    have "r \<notin> set NON_DISPATCHABLE_APPROVAL_REASONS" if "apv_decision_reason a = Some r" for r
      using a that by (auto simp: decision_ready_def)
    then show "i \<in> set (snd (pending_dispatches conn db))" using decision_readyD [OF a] by (auto simp: pending_dispatches_def)
  qed
qed

text \<open>C15: A pass over the pending work of a connection drains it.  If the pass ends without an error, no
  command of the device is queued any more and no decision that may be sent is left, and the frames
  that the pass returned were added to the channel of the device, in this order and nothing else.
  So every queued command leaves the queue at the next pass: it was sent, or it became expired or
  denied.\<close>

theorem dispatch_pending_drains:
  assumes "dispatch_pending sha cfg fmt now fid conn db = (None, frames, db', ns)" "dispatch_ok cfg db"
  shows "(\<forall>c \<in> set (commands db'). cmd_device_id c = sk_device_id conn \<longrightarrow> cmd_status c \<noteq> QUEUED)
    \<and> (\<forall>i a. \<not> decision_ready conn i a db')
    \<and> channel (sk_device_id conn) db' =
        (fst (channel (sk_device_id conn) db), snd (channel (sk_device_id conn) db) @ frames)
    \<and> dispatch_ok cfg db'"
proof -
  obtain cids aids where ids: "pending_dispatches conn db = (cids, aids)" by fastforce
  obtain fs1 db1 ns1 fs2 ns2 where
      r1: "dispatch_each (\<lambda>n. dispatch_command sha cfg fmt (now n) (fid n) conn) 0 cids db = (None, fs1, db1, ns1)"
      and r2: "dispatch_each (approval_step cfg fmt now fid conn) (length cids) aids db1 = (None, fs2, db', ns2)"
      and frames: "frames = fs1 @ fs2"
    using assms(1) ids by (auto simp: dispatch_pending_def split: prod.splits option.splits)
  note d1 = command_dispatch.dispatch_each_drains [OF r1 assms(2)]
  note d2 = approval_dispatch.dispatch_each_drains [OF r2 d1 [THEN conjunct1]]
  have queued: "queued_ids conn db \<subseteq> set cids" and ready: "ready_ids conn db \<subseteq> set aids"
    using pending_covers [of conn db] ids by simp_all
  have "queued_ids conn db' = queued_ids conn db1"
    using d2 by (simp add: queued_ids_def queued_for_def)
  then have none: "queued_ids conn db' = {}" using d1 queued by auto
  have "ready_ids conn db1 = ready_ids conn db"
    using d1 by (simp add: ready_ids_def decision_ready_def)
  then have "ready_ids conn db' = {}" using d2 ready by auto
  moreover have "cmd_status c \<noteq> QUEUED" if "c \<in> set (commands db')" "cmd_device_id c = sk_device_id conn" for c
  proof
    assume "cmd_status c = QUEUED"
    moreover have "scalar (\<lambda>x. cmd_id x = cmd_id c) (commands db') = Some c"
      by (rule scalar_unique [of cmd_id]) (use d2 that in \<open>auto simp: dispatch_ok_def\<close>)
    ultimately show False using none that by (auto simp: queued_ids_def queued_for_def)
  qed
  ultimately show ?thesis using d1 d2 frames by (auto simp: ready_ids_def)
qed

section \<open>Reconciliation of a replaced epoch\<close>

lemma update_where_Cons_keys:
  assumes "distinct (map key rows)" "set (c # cs) \<subseteq> set rows" "distinct (map key (c # cs))" "\<And>x. key (f x) = key x"
  shows "update_where (\<lambda>x. x \<in> set cs) f (update_where (\<lambda>x. key x = key (f c)) (\<lambda>_. f c) rows) =
    update_where (\<lambda>x. x \<in> set (c # cs)) f rows"
proof -
  have "key x = key c \<longleftrightarrow> x = c" if "x \<in> set rows" for x
    using that assms(1,2) by (auto simp: distinct_map inj_on_eq_iff)
  moreover have "f c \<notin> set cs" using assms(3,4) by (metis distinct.simps(2) image_eqI list.simps(9) set_map)
  ultimately show ?thesis by (auto simp: update_where_def assms(4))
qed

lemma put_keeps_others:
  assumes "set (c # cs) \<subseteq> set rows" "distinct (map key (c # cs))" "key c' = key c"
  shows "set cs \<subseteq> set (update_where (\<lambda>x. key x = key c') (\<lambda>_. c') rows)"
proof
  fix x assume x: "x \<in> set cs"
  then have "x \<in> set rows" "key x \<in> key ` set cs" using assms(1) by auto
  then have "x \<in> set rows" "key x \<noteq> key c'" using assms(2,3) by auto
  then show "x \<in> set (update_where (\<lambda>x. key x = key c') (\<lambda>_. c') rows)" by (auto simp: in_set_update_where)
qed

definition failed_thread :: "datetime \<Rightarrow> ustr option \<Rightarrow> thread_binding \<Rightarrow> thread_binding" where
  "failed_thread now err b = b\<lparr>thr_status := THREAD_FAILED, thr_active_turn_id := None,
     thr_last_error := err, thr_updated_at := now\<rparr>"

lemma failed_thread_twice: "failed_thread now err' (failed_thread now err b) = failed_thread now err' b"
  by (simp add: failed_thread_def)

definition thread_failure :: "datetime \<Rightarrow> thread_binding \<Rightarrow> thread_binding \<Rightarrow> bool" where
  "thread_failure now b b' \<longleftrightarrow> b' = b \<or> (thr_status b \<notin> {CLOSED, STALE} \<and> (\<exists>err. b' = failed_thread now err b))"

lemma thread_failure_trans: "thread_failure now a b \<Longrightarrow> thread_failure now b c \<Longrightarrow> thread_failure now a c"
  unfolding thread_failure_def using failed_thread_twice by metis

lemma thread_failures_trans:
  "list_all2 (thread_failure now) a b \<Longrightarrow> list_all2 (thread_failure now) b c \<Longrightarrow> list_all2 (thread_failure now) a c"
  by (rule list_all2_trans [OF thread_failure_trans])

lemma thread_failure_refl [simp]: "thread_failure now b b"
  by (simp add: thread_failure_def)

lemma repaired_failure:
  assumes "distinct (map thr_id (thread_bindings db))"
  shows "list_all2 (thread_failure now) (thread_bindings db) (repaired_bindings now c db)"
proof -
  have "list_all2 (thread_failure now) (thread_bindings db) (thread_bindings (put_binding b' db))"
    if "command_binding c db = Some b" "repair_binding_for_terminal_command b c now = Some b'" for b b'
  proof -
    have "b \<in> set (thread_bindings db)"
      using that(1) scalar_SomeD(1) [of _ "thread_bindings db" b] by (auto simp: command_binding_def split: option.splits)
    moreover have "thread_failure now b b'" "thr_id b' = thr_id b"
      using that(2) by (auto simp: repair_binding_for_terminal_command_def thread_failure_def failed_thread_def split: if_splits)
    ultimately show ?thesis
      unfolding put_binding_def using list_all2_put [OF assms, of b b' "thread_failure now"] by simp
  qed
  then show ?thesis by (auto simp: repaired_bindings_def list_all2_refl split: option.split)
qed

lemma reconcile_commands_Inr:
  assumes "reconcile_commands now cs db = Inr (es, db')" "distinct (map cmd_id (commands db))"
    and "set cs \<subseteq> set (commands db)" "distinct (map cmd_id cs)" "distinct (map thr_id (thread_bindings db))"
  shows "work_effect db db' \<and> commands db' = update_where (\<lambda>c. c \<in> set cs) (reconciled_form now) (commands db)
    \<and> list_all2 (thread_failure now) (thread_bindings db) (thread_bindings db')
    \<and> length (audit_events db') = length (audit_events db) + length cs"
  using assms
proof (induction cs arbitrary: db es)
  case Nil
  then show ?case by (simp add: list_all2_refl update_where_def)
next
  case (Cons c cs)
  let ?c = "reconciled_form now c"
  obtain action outcome reason es1 db1 es2 where
      r: "record_terminal_dispatch_rejection now ?c action outcome reason (put_command ?c db) = Inr (es1, db1)"
      and rest: "reconcile_commands now cs db1 = Inr (es2, db')"
    using Cons.prems(1) by (auto simp: Let_def split: sum.splits)
  note w = rejection_work_effect [OF r]
  have eff: "work_effect db db1" by (rule work_effect_trans [OF put_work_effect(1) w(1)])
  have cs1: "commands db1 = update_where (\<lambda>x. cmd_id x = cmd_id ?c) (\<lambda>_. ?c) (commands db)"
    unfolding w(2) by (simp add: put_command_def)
  have ids: "distinct (map cmd_id (commands db1))"
    unfolding cs1 by (rule distinct_update_where_key [OF Cons.prems(2)]) simp
  have sub: "set cs \<subseteq> set (commands db1)"
    unfolding cs1 by (rule put_keeps_others [OF Cons.prems(3,4)]) simp
  have thr: "distinct (map thr_id (thread_bindings db1))" using eff Cons.prems(5) by (simp add: work_effect_def)
  have bs: "list_all2 (thread_failure now) (thread_bindings db) (thread_bindings db1)"
    unfolding w(3) using repaired_failure [of "put_command ?c db"] Cons.prems(5) by simp
  have IH: "work_effect db1 db' \<and> commands db' = update_where (\<lambda>c. c \<in> set cs) (reconciled_form now) (commands db1)
      \<and> list_all2 (thread_failure now) (thread_bindings db1) (thread_bindings db')
      \<and> length (audit_events db') = length (audit_events db1) + length cs"
    by (rule Cons.IH [OF rest ids sub _ thr]) (use Cons.prems(4) in simp)
  have "update_where (\<lambda>c. c \<in> set cs) (reconciled_form now) (commands db1) =
      update_where (\<lambda>x. x \<in> set (c # cs)) (reconciled_form now) (commands db)"
    unfolding cs1 by (rule update_where_Cons_keys [OF Cons.prems(2-4)]) simp
  then show ?case
    using IH work_effect_trans [OF eff] thread_failures_trans [OF bs] by (simp add: w(4))
qed

lemma reconcile_threads_Inr:
  assumes "reconcile_threads now d ep bs db = Inr (es, db')" "distinct (map thr_id (thread_bindings db))"
    and "set bs \<subseteq> set (thread_bindings db)" "distinct (map thr_id bs)"
  shows "work_effect db db' \<and> commands db' = commands db
    \<and> thread_bindings db' = update_where (\<lambda>b. b \<in> set bs) (stale_thread now) (thread_bindings db)
    \<and> length (audit_events db') = length (audit_events db) + length bs"
  using assms
proof (induction bs arbitrary: db es)
  case Nil
  then show ?case by (simp add: update_where_def)
next
  case (Cons b bs)
  let ?b = "stale_thread now b"
  have key: "thr_id (stale_thread now x) = thr_id x" for x by (simp add: stale_thread_def)
  obtain es1 db1 es2 where
      r: "append_all event_append now [thread_event (dev_owner_user_id d) (dev_id d) ?b]
          (add_audit (stale_thread_audit now d ep b) (put_binding ?b db)) = Inr (es1, db1)"
      and rest: "reconcile_threads now d ep bs db1 = Inr (es2, db')"
    using Cons.prems(1) by (auto simp: Let_def split: sum.splits)
  note k = core_ofD [OF stream.append_all_keeps(1) [OF r]]
  have eff: "work_effect db db1"
    by (rule work_effect_trans [OF work_effect_trans [OF put_work_effect(2,3)] append_work_effect [OF r]])
  have bs1: "thread_bindings db1 = update_where (\<lambda>x. thr_id x = thr_id ?b) (\<lambda>_. ?b) (thread_bindings db)"
    using k(5) by (simp add: put_binding_def)
  have ids: "distinct (map thr_id (thread_bindings db1))"
    unfolding bs1 by (rule distinct_update_where_key [OF Cons.prems(2)]) simp
  have sub: "set bs \<subseteq> set (thread_bindings db1)"
    unfolding bs1 by (rule put_keeps_others [OF Cons.prems(3,4) key])
  have IH: "work_effect db1 db' \<and> commands db' = commands db1
      \<and> thread_bindings db' = update_where (\<lambda>b. b \<in> set bs) (stale_thread now) (thread_bindings db1)
      \<and> length (audit_events db') = length (audit_events db1) + length bs"
    by (rule Cons.IH [OF rest ids sub]) (use Cons.prems(4) in simp)
  have "update_where (\<lambda>b. b \<in> set bs) (stale_thread now) (thread_bindings db1) =
      update_where (\<lambda>x. x \<in> set (b # bs)) (stale_thread now) (thread_bindings db)"
    unfolding bs1 by (rule update_where_Cons_keys [OF Cons.prems(2-4) key])
  then show ?case using IH work_effect_trans [OF eff] k(6,8) by (simp add: add_audit_def)
qed

lemma not_stale [simp]:
  "\<not> stale_command d ep (reconciled_form now c)" "\<not> stale_binding d ep (stale_thread now b)"
  by (simp_all add: stale_command_def stale_binding_def stale_thread_def)

lemma reconcile_Inr:
  assumes "reconcile_stale_epoch_commands now d ep db = Inr (events, db')"
    and "distinct (map cmd_id (commands db))" "distinct (map thr_id (thread_bindings db))"
  obtains bs where "commands db' = update_where (stale_command d ep) (reconciled_form now) (commands db)"
    "list_all2 (thread_failure now) (thread_bindings db) bs"
    "thread_bindings db' = update_where (stale_binding d ep) (stale_thread now) bs"
    "length (audit_events db) + count_where (stale_command d ep) (commands db) \<le> length (audit_events db')"
    "work_effect db db'"
proof -
  let ?db1 = "snd (lock_owner_cursor (dev_owner_user_id d) db)"
  define cs where "cs = sort_key (\<lambda>c. (cmd_created_at c, cmd_id c)) (filter (stale_command d ep) (commands ?db1))"
  obtain es1 db2 es2 where r1: "reconcile_commands now cs ?db1 = Inr (es1, db2)"
    and r2: "reconcile_threads now d ep (sort_key (\<lambda>b. (thr_created_at b, thr_id b))
        (filter (stale_binding d ep) (thread_bindings db2))) db2 = Inr (es2, db')"
    using assms(1) unfolding reconcile_stale_epoch_commands_def Let_def cs_def by (auto split: sum.splits)
  have sorted_ids: "distinct (map key (sort_key ord (filter P rows)))" if "distinct (map key rows)"
    for key :: "'r \<Rightarrow> uuid" and ord :: "'r \<Rightarrow> datetime \<times> uuid" and P rows
    using that by (auto simp: distinct_map inj_on_def)
  have csP: "set cs = {c \<in> set (commands db). stale_command d ep c}" "length cs = count_where (stale_command d ep) (commands db)"
    by (simp_all add: cs_def count_where_def)
  have c: "work_effect ?db1 db2 \<and> commands db2 = update_where (\<lambda>c. c \<in> set cs) (reconciled_form now) (commands ?db1)
    \<and> list_all2 (thread_failure now) (thread_bindings ?db1) (thread_bindings db2)
    \<and> length (audit_events db2) = length (audit_events ?db1) + length cs"
    by (rule reconcile_commands_Inr [OF r1]) (use assms(2,3) sorted_ids csP(1) in \<open>auto simp: cs_def\<close>)
  have ids2: "distinct (map thr_id (thread_bindings db2))" using c assms(3) by (simp add: work_effect_def)
  have t: "work_effect db2 db' \<and> commands db' = commands db2
    \<and> thread_bindings db' = update_where (\<lambda>b. b \<in> {b \<in> set (thread_bindings db2). stale_binding d ep b})
        (stale_thread now) (thread_bindings db2)
    \<and> length (audit_events db') = length (audit_events db2) + count_where (stale_binding d ep) (thread_bindings db2)"
    using reconcile_threads_Inr [OF r2 ids2] sorted_ids [OF ids2] by (simp add: count_where_def)
  have cmds: "commands db' = update_where (stale_command d ep) (reconciled_form now) (commands db)"
    using t c csP(1) by (auto simp: update_where_def)
  have thr: "thread_bindings db' = update_where (stale_binding d ep) (stale_thread now) (thread_bindings db2)"
    using t by (auto simp: update_where_def)
  have "work_effect db db'"
    by (rule work_effect_trans [OF work_effect_trans [OF lock_work_effect c [THEN conjunct1]] t [THEN conjunct1]])
  then show thesis using that [OF cmds _ thr] c t csP(2) by simp
qed


section \<open>Sample runs\<close>

definition command_database :: database where
  "command_database = sample_database\<lparr>commands := [sample_command]\<rparr>"

lemma sample_command_more [simp]:
  "cmd_status sample_command = QUEUED" "cmd_appserver_epoch sample_command = Some (u ''epoch-0000000001'')"
  "cmd_payload sample_command = []" "cmd_method sample_command = ''model/list''"
  by (simp_all add: sample_command_def new_command_def Let_def)

lemma sample_deadline: "\<exists>deadline > 2000. cmd_expires_at sample_command = Some deadline"
  by (simp add: sample_command_def new_command_def Let_def seconds_def)

lemma command_database_wf:
  "commands_wf default_settings (commands command_database)" "outbox_wf cfg command_database"
  "events_wf command_database" "device_at 1 command_database = Some sample_device"
  "lock_active_device sample_connection command_database = Inr sample_device"
  "channel 1 command_database = (0, [])"
proof -
  show "commands_wf default_settings (commands command_database)"
    by (auto simp: commands_wf_def command_database_def ALLOWED_RPC_METHODS_def active_turn_start_def)
  have same: "outbox_wf cfg command_database = outbox_wf cfg sample_database"
      "channel 1 command_database = channel 1 sample_database"
    by (rule outbox_counters_cong; simp add: command_database_def outbox_counters_def)+
  then show "outbox_wf cfg command_database" using sample_outbox_wf(1) by simp
  show "events_wf command_database"
    using approval_database_wf(2) events_wf_cong [of command_database approval_database]
    by (simp add: command_database_def approval_database_def)
  show "device_at 1 command_database = Some sample_device"
    "lock_active_device sample_connection command_database = Inr sample_device"
    by (simp_all add: command_database_def device_at_def sample_database_def lock_active_device_def)
  show "channel 1 command_database = (0, [])"
    unfolding same(2) channel_at [OF sample_outbox_wf(2)]
    by (simp add: unacked_def sample_database_def empty_database_def)
qed

lemma sample_persist_any:
  assumes "length (dumps True (server_frame (u ''f'') 1 (u ''epoch-0000000001'') 1 0 ty (u ''t'') payload)) \<le> 262144"
    and "device_outboxes db = []"
  shows "\<exists>e db'. persist_envelope_locked default_settings (\<lambda>_. u ''t'') now (u ''f'') sample_connection sample_device
     ty payload db = Inr (1, e, db')"
  using assms by (simp add: persist_envelope_locked_def Let_def unacked_def delete_where_def del: dumps.simps)

lemma sample_dispatch:
  "\<exists>e db1. dispatch_command (\<lambda>_. u ''k'') default_settings (\<lambda>_. u ''t'') 2000 (u ''f'') sample_connection 7
     command_database = (Inr (Some e), db1, [])"
proof -
  obtain deadline where dl: "cmd_expires_at sample_command = Some deadline" "2000 < deadline"
    using sample_deadline by blast
  let ?payload = "command_payload (\<lambda>_. u ''k'') (\<lambda>_. u ''t'') sample_command deadline"
  let ?db0 = "snd (lock_owner_cursor (u ''user-1'') command_database)"
  have "length (dumps True (server_frame (u ''f'') 1 (u ''epoch-0000000001'') 1 0 ''command'' (u ''t'') ?payload)) \<le> 262144"
    using uuid_quote
    by (simp add: server_frame_def command_payload_def wire_idempotency_key_def length_quote u_def escape_plain
        int_str_def nat_str.simps)
  then obtain e db1 where p: "persist_envelope_locked default_settings (\<lambda>_. u ''t'') 2000 (u ''f'') sample_connection
      sample_device ''command'' ?payload ?db0 = Inr (1, e, db1)"
    using sample_persist_any [of "''command''" ?payload ?db0 2000]
    by (auto simp: command_database_def sample_database_def empty_database_def)
  have row: "scalar (\<lambda>c. cmd_id c = 7) (commands command_database) = Some sample_command"
    by (simp add: command_database_def)
  show ?thesis
    using dl(2) by (simp add: dispatch_command_def command_database_wf(5) row dl(1) p dispatched_form_def
        del: dumps.simps)
qed

theorem dispatch_command_atomic_witness:
  "\<exists>e db'. dispatch_command (\<lambda>_. u ''k'') default_settings (\<lambda>_. u ''t'') 2000 (u ''f'') sample_connection 7
       command_database = (Inr (Some e), db', [])
     \<and> commands db' = [dispatched_form 2000 sample_command] \<and> channel 1 db' = (0, [e])"
proof -
  have q: "queued_for sample_connection 7 sample_command command_database"
    "dispatch_ready 2000 sample_connection sample_command"
    using sample_deadline by (auto simp: queued_for_def command_database_def dispatch_ready_def)
  obtain e db' where run: "dispatch_command (\<lambda>_. u ''k'') default_settings (\<lambda>_. u ''t'') 2000 (u ''f'')
      sample_connection 7 command_database = (Inr (Some e), db', [])"
    using sample_dispatch by blast
  note T = dispatch_command_atomic [OF run command_database_wf(1-3)]
  have "commands db' = commands (put_command (dispatched_form 2000 sample_command) command_database)
      \<and> channel 1 db' = channel_push e (channel 1 command_database)"
    using T [THEN conjunct2, THEN conjunct2, THEN conjunct1, rule_format, OF _ q(1)] q(2) by auto
  then show ?thesis
    using run command_database_wf(6) by (simp add: channel_push_def put_command_def command_database_def)
qed

theorem dispatch_pending_drains_witness:
  "\<exists>e db'. dispatch_pending (\<lambda>_. u ''k'') default_settings (\<lambda>_. u ''t'') (\<lambda>_. 2000) (\<lambda>_. u ''f'') sample_connection
       command_database = (None, [e], db', [])
     \<and> (\<forall>c \<in> set (commands db'). cmd_device_id c = 1 \<longrightarrow> cmd_status c \<noteq> QUEUED) \<and> channel 1 db' = (0, [e])"
proof -
  obtain e db' where d: "dispatch_command (\<lambda>_. u ''k'') default_settings (\<lambda>_. u ''t'') 2000 (u ''f'')
      sample_connection 7 command_database = (Inr (Some e), db', [])"
    using sample_dispatch by blast
  have "pending_dispatches sample_connection command_database = ([7], [])"
    by (simp add: pending_dispatches_def command_database_def sample_database_def empty_database_def)
  then have run: "dispatch_pending (\<lambda>_. u ''k'') default_settings (\<lambda>_. u ''t'') (\<lambda>_. 2000) (\<lambda>_. u ''f'')
      sample_connection command_database = (None, [e], db', [])"
    by (simp add: dispatch_pending_def d)
  have ok: "dispatch_ok default_settings command_database"
    using command_database_wf
    by (simp add: dispatch_ok_def commands_wf_def)
      (simp add: command_database_def sample_database_def empty_database_def approvals_wf_def)
  show ?thesis
    using dispatch_pending_drains [OF run ok] run command_database_wf(6) by simp
qed



end
