(* ===== verification/Wire.thy ===== *)
theory Wire
  imports Dispatch Paths "HOL-Library.Monad_Syntax"
begin

text \<open>
  What a device may send: the wire models of \<open>protocol.py\<close> and the checks of \<open>realtime.py\<close> on a
  frame before it is applied.  A frame is decoded by the JSON parser of the validation library, which
  is an argument together with its parser of timestamps (\<open>wire_lib\<close>); a refused value is
  \<open>None\<close>.  The iterative check of the shape of a payload is proved equal to bounds on the number of
  nodes, the nesting and the texts of the value.
\<close>

section \<open>Shape of a payload\<close>

text \<open>The stack of the loop has its top at the head: \<open>stack.pop()\<close> takes the value pushed last.\<close>

fun json_nodes :: "json \<Rightarrow> nat" where
  "json_nodes (JArr xs) = Suc (sum_list (map json_nodes xs))"
| "json_nodes (JObj kvs) = Suc (sum_list (map (\<lambda>(k, v). json_nodes v) kvs))"
| "json_nodes _ = 1"

function shape_loop :: "nat \<Rightarrow> nat \<Rightarrow> nat \<Rightarrow> nat \<Rightarrow> (json \<times> nat) list \<Rightarrow> string option" where
  "shape_loop max_depth max_nodes max_chars nodes [] = None"
| "shape_loop max_depth max_nodes max_chars nodes ((current, depth) # stack) =
     (if nodes + 1 > max_nodes then Some ''JSON payload exceeds the node limit''
      else if depth > max_depth then Some ''JSON payload exceeds the nesting limit''
      else case current of
        JStr s \<Rightarrow>
          if length s > max_chars then Some ''JSON string exceeds the character limit''
          else shape_loop max_depth max_nodes max_chars (nodes + 1) stack
      | JObj kvs \<Rightarrow>
          if list_ex (\<lambda>(k, v). length k > max_chars) kvs
          then Some ''JSON object key exceeds the character limit''
          else shape_loop max_depth max_nodes max_chars (nodes + 1)
                 (rev (map (\<lambda>(k, v). (v, depth + 1)) kvs) @ stack)
      | JArr xs \<Rightarrow>
          shape_loop max_depth max_nodes max_chars (nodes + 1) (rev (map (\<lambda>v. (v, depth + 1)) xs) @ stack)
      | _ \<Rightarrow> shape_loop max_depth max_nodes max_chars (nodes + 1) stack)"
  by pat_completeness auto
termination
  by (relation "measure (\<lambda>(_, _, _, _, stack). sum_list (map (json_nodes \<circ> fst) stack))")
    (auto simp: comp_def rev_map [symmetric] case_prod_unfold)

definition validate_json_shape :: "json \<Rightarrow> nat \<Rightarrow> nat \<Rightarrow> nat \<Rightarrow> string option" where
  "validate_json_shape v max_depth max_nodes max_chars = shape_loop max_depth max_nodes max_chars 0 [(v, 1)]"

text \<open>The specification.\<close>

fun json_depth :: "json \<Rightarrow> nat" where
  "json_depth (JArr xs) = Suc (fold max (map json_depth xs) 0)"
| "json_depth (JObj kvs) = Suc (fold max (map (\<lambda>(k, v). json_depth v) kvs) 0)"
| "json_depth _ = 1"

fun json_texts :: "json \<Rightarrow> ustr list" where
  "json_texts (JStr s) = [s]"
| "json_texts (JArr xs) = concat (map json_texts xs)"
| "json_texts (JObj kvs) = concat (map (\<lambda>(k, v). k # json_texts v) kvs)"
| "json_texts _ = []"

lemma fold_max_le: "fold max xs (a::nat) \<le> n \<longleftrightarrow> a \<le> n \<and> (\<forall>x \<in> set xs. x \<le> n)"
  by (induction xs arbitrary: a) auto

lemma json_depth_le:
  "json_depth (JArr xs) \<le> n \<longleftrightarrow> 1 \<le> n \<and> (\<forall>x \<in> set xs. Suc (json_depth x) \<le> n)"
  "json_depth (JObj kvs) \<le> n \<longleftrightarrow> 1 \<le> n \<and> (\<forall>(k, v) \<in> set kvs. Suc (json_depth v) \<le> n)"
  by (cases n; auto simp: fold_max_le)+

definition shape_ok :: "nat \<Rightarrow> nat \<Rightarrow> json \<times> nat \<Rightarrow> bool" where
  "shape_ok max_depth max_chars x \<longleftrightarrow> snd x + json_depth (fst x) \<le> max_depth + 1
     \<and> (\<forall>s \<in> set (json_texts (fst x)). length s \<le> max_chars)"

definition stack_nodes :: "(json \<times> nat) list \<Rightarrow> nat" where
  "stack_nodes stack = sum_list (map (json_nodes \<circ> fst) stack)"

lemma json_nodes_pos: "1 \<le> json_nodes v"
  by (cases v) auto

lemma json_depth_pos: "1 \<le> json_depth v"
  by (cases v) auto

lemma stack_nodes_simps [simp]:
  "stack_nodes [] = 0" "stack_nodes (x # stack) = json_nodes (fst x) + stack_nodes stack"
  "stack_nodes (a @ b) = stack_nodes a + stack_nodes b"
  "stack_nodes (rev a) = stack_nodes a"
  by (simp_all add: stack_nodes_def rev_map [symmetric])

lemma shape_loop_correct:
  "shape_loop max_depth max_nodes max_chars nodes stack = None \<longleftrightarrow>
     (stack = [] \<or> nodes + stack_nodes stack \<le> max_nodes) \<and> (\<forall>x \<in> set stack. shape_ok max_depth max_chars x)"
proof (induction max_depth max_nodes max_chars nodes stack rule: shape_loop.induct)
  case (2 max_depth max_nodes max_chars nodes current depth stack)
  show ?case
  proof (cases "nodes + 1 > max_nodes \<or> depth > max_depth")
    case True
    then show ?thesis
      using json_nodes_pos [of current] json_depth_pos [of current] by (auto simp: shape_ok_def)
  next
    case False
    then have ok: "\<not> nodes + 1 > max_nodes" "\<not> depth > max_depth" by auto
    show ?thesis
    proof (cases current)
      case (JArr xs)
      have "shape_ok max_depth max_chars (JArr xs, depth) \<longleftrightarrow>
          (\<forall>x \<in> set xs. shape_ok max_depth max_chars (x, depth + 1))"
      proof -
        have "depth + json_depth (JArr xs) \<le> max_depth + 1 \<longleftrightarrow> json_depth (JArr xs) \<le> max_depth + 1 - depth"
          using ok(2) by auto
        then show ?thesis using ok(2) by (fastforce simp: shape_ok_def json_depth_le simp del: json_depth.simps)
      qed
      moreover have "stack_nodes (map (\<lambda>v. (v, depth + 1)) xs) = sum_list (map json_nodes xs)"
        by (simp add: stack_nodes_def comp_def)
      ultimately show ?thesis using ok 2(6) [OF ok JArr] JArr by auto
    next
      case (JObj kvs)
      have "shape_ok max_depth max_chars (JObj kvs, depth) \<longleftrightarrow>
          (\<forall>(k, v) \<in> set kvs. length k \<le> max_chars \<and> shape_ok max_depth max_chars (v, depth + 1))"
      proof -
        have "depth + json_depth (JObj kvs) \<le> max_depth + 1 \<longleftrightarrow> json_depth (JObj kvs) \<le> max_depth + 1 - depth"
          using ok(2) by auto
        then show ?thesis using ok(2) by (fastforce simp: shape_ok_def json_depth_le simp del: json_depth.simps)
      qed
      moreover have "stack_nodes (map (\<lambda>(k, v). (v, depth + 1)) kvs) = sum_list (map (\<lambda>(k, v). json_nodes v) kvs)"
        by (simp add: stack_nodes_def comp_def case_prod_unfold)
      ultimately show ?thesis using ok 2(7) [OF ok JObj] JObj by (auto simp: list_ex_iff not_le)
    qed (use ok 2 in \<open>auto simp: shape_ok_def\<close>)
  qed
qed simp

text \<open>C39: The iterative check of a payload accepts a value exactly if it has at most the allowed number of
  nodes, is nested at most as deep as allowed, and every text and key in it has at most the allowed
  number of characters.\<close>

theorem json_shape_exact:
  "validate_json_shape v max_depth max_nodes max_chars = None \<longleftrightarrow>
     json_nodes v \<le> max_nodes \<and> json_depth v \<le> max_depth \<and> list_all (\<lambda>s. length s \<le> max_chars) (json_texts v)"
  unfolding validate_json_shape_def shape_loop_correct by (auto simp: shape_ok_def list_all_iff)

section \<open>Text\<close>

text \<open>\<open>str.strip()\<close>: the characters for which \<open>str.isspace\<close> holds.\<close>

definition py_space :: "nat \<Rightarrow> bool" where
  "py_space c \<longleftrightarrow> 9 \<le> c \<and> c \<le> 13 \<or> 28 \<le> c \<and> c \<le> 32 \<or> c \<in> {133, 160, 5760, 8232, 8233, 8239, 8287, 12288}
     \<or> 8192 \<le> c \<and> c \<le> 8202"

definition py_strip :: "ustr \<Rightarrow> ustr" where
  "py_strip s = rev (dropWhile py_space (rev (dropWhile py_space s)))"

text \<open>\<open>value.lower().replace("-", "_")\<close> as far as the result is compared with the status names: a
  character outside ASCII has a lower-case form with a character that no status name contains.\<close>

definition normalized_status :: "ustr \<Rightarrow> ustr" where
  "normalized_status s = map (\<lambda>c. if 65 \<le> c \<and> c \<le> 90 then c + 32 else if c = 45 then 95 else c) s"

section \<open>Wire values\<close>

record wire_lib =
  wl_loads :: "ustr \<Rightarrow> json option"
  wl_decimal :: "nat \<Rightarrow> bool"
  wl_time :: "ustr \<Rightarrow> datetime option"

text \<open>\<open>wl_loads\<close> is the parser behind \<open>model_validate_json\<close>, \<open>wl_decimal\<close> the class of
  characters that \<open>\d\<close> matches, and \<open>wl_time\<close> the conversion of a timestamp text.\<close>

definition hex_char :: "nat \<Rightarrow> nat option" where
  "hex_char c =
     (if 48 \<le> c \<and> c \<le> 57 then Some (c - 48)
      else if 97 \<le> c \<and> c \<le> 102 then Some (c - 87)
      else if 65 \<le> c \<and> c \<le> 70 then Some (c - 55) else None)"

fun hex_nat :: "nat \<Rightarrow> ustr \<Rightarrow> nat option" where
  "hex_nat acc [] = Some acc"
| "hex_nat acc (c # cs) = (case hex_char c of None \<Rightarrow> None | Some d \<Rightarrow> hex_nat (16 * acc + d) cs)"

definition require_canonical_uuid :: "ustr \<Rightarrow> ustr option" where
  "require_canonical_uuid s =
     (let digits = take 8 s @ take 4 (drop 9 s) @ take 4 (drop 14 s) @ take 4 (drop 19 s) @ drop 24 s in
      if length s = 36 \<and> s ! 8 = 45 \<and> s ! 13 = 45 \<and> s ! 18 = 45 \<and> s ! 23 = 45
         \<and> list_all (\<lambda>c. hex_char c \<noteq> None) digits
      then Some digits else None)"

definition parse_uuid :: "ustr \<Rightarrow> uuid option" where
  "parse_uuid s = Option.bind (require_canonical_uuid s) (\<lambda>digits. map_option word_of_nat (hex_nat 0 digits))"

fun wire_uuid :: "json \<Rightarrow> uuid option" where
  "wire_uuid (JStr s) = parse_uuid s"
| "wire_uuid _ = None"

text \<open>\<open>_RFC3339_DATETIME.fullmatch\<close>: the fixed part, an optional fraction, and the offset.\<close>

definition digits_at :: "wire_lib \<Rightarrow> nat list \<Rightarrow> ustr \<Rightarrow> bool" where
  "digits_at lib is s \<longleftrightarrow> list_all (\<lambda>i. wl_decimal lib (s ! i)) is"

definition rfc3339_offset :: "wire_lib \<Rightarrow> ustr \<Rightarrow> bool" where
  "rfc3339_offset lib s \<longleftrightarrow> s = [90]
     \<or> length s = 6 \<and> (s ! 0 = 43 \<or> s ! 0 = 45) \<and> s ! 3 = 58 \<and> digits_at lib [1, 2, 4, 5] s"

definition rfc3339_fraction :: "wire_lib \<Rightarrow> ustr \<Rightarrow> ustr" where
  "rfc3339_fraction lib s =
     (case s of
        c # r \<Rightarrow> if c = 46 \<and> takeWhile (wl_decimal lib) r \<noteq> [] then dropWhile (wl_decimal lib) r else s
      | [] \<Rightarrow> [])"

definition require_rfc3339_datetime :: "wire_lib \<Rightarrow> ustr \<Rightarrow> bool" where
  "require_rfc3339_datetime lib s \<longleftrightarrow> 20 \<le> length s \<and> digits_at lib [0, 1, 2, 3, 5, 6, 8, 9, 11, 12, 14, 15, 17, 18] s
     \<and> s ! 4 = 45 \<and> s ! 7 = 45 \<and> s ! 10 = 84 \<and> s ! 13 = 58 \<and> s ! 16 = 58
     \<and> rfc3339_offset lib (rfc3339_fraction lib (drop 19 s))"

fun wire_datetime :: "wire_lib \<Rightarrow> json \<Rightarrow> datetime option" where
  "wire_datetime lib (JStr s) = (if require_rfc3339_datetime lib s then wl_time lib s else None)"
| "wire_datetime lib _ = None"

fun wire_text :: "nat \<Rightarrow> nat \<Rightarrow> json \<Rightarrow> ustr option" where
  "wire_text lo hi (JStr s) = (if lo \<le> length s \<and> length s \<le> hi then Some s else None)"
| "wire_text lo hi _ = None"

fun wire_sequence :: "json \<Rightarrow> nat option" where
  "wire_sequence (JInt i) = (if 0 \<le> i \<and> i \<le> int MAX_SEQUENCE then Some (nat i) else None)"
| "wire_sequence _ = None"

fun wire_literal :: "string list \<Rightarrow> json \<Rightarrow> string option" where
  "wire_literal names (JStr s) = find (\<lambda>n. u n = s) names"
| "wire_literal names _ = None"

fun wire_bool :: "json \<Rightarrow> bool option" where
  "wire_bool (JBool b) = Some b"
| "wire_bool _ = None"

fun wire_texts :: "json list \<Rightarrow> ustr list option" where
  "wire_texts [] = Some []"
| "wire_texts (JStr s # js) = map_option (Cons s) (wire_texts js)"
| "wire_texts (_ # js) = None"

fun wire_text_list :: "nat \<Rightarrow> nat \<Rightarrow> json \<Rightarrow> ustr list option" where
  "wire_text_list lo hi (JArr js) =
     (if lo \<le> length js \<and> length js \<le> hi then wire_texts js else None)"
| "wire_text_list lo hi _ = None"

text \<open>\<open>extra="forbid"\<close>, and a required field.\<close>

definition only_fields :: "string list \<Rightarrow> dict \<Rightarrow> bool" where
  "only_fields names d \<longleftrightarrow> list_all (\<lambda>(k, v). list_ex (\<lambda>n. u n = k) names) d"

definition field :: "dict \<Rightarrow> string \<Rightarrow> (json \<Rightarrow> 'a option) \<Rightarrow> 'a option" where
  "field d name f = Option.bind (dict_get d (u name)) f"

section \<open>Payloads\<close>

record hello_payload =
  hp_connector_version :: ustr
  hp_codex_version :: ustr
  hp_schema_digest :: ustr
  hp_public_key :: ustr
  hp_capabilities :: "ustr list"
  hp_workspace_roots :: "ustr list"
  hp_resumed_from_seq :: nat

record protocol_error_payload =
  pe_code :: string
  pe_message :: ustr
  pe_retryable :: bool

record command_ack_payload =
  ca_command_id :: uuid
  ca_state :: string
  ca_result :: "json option"
  ca_error :: "protocol_error_payload option"

record device_event_payload =
  de_method :: ustr
  de_params :: dict

record approval_request_payload =
  ar_approval_id :: uuid
  ar_command_id :: ustr
  ar_kind :: string
  ar_summary :: ustr
  ar_details :: dict
  ar_expires_at :: datetime

fun wire_dict :: "json \<Rightarrow> dict option" where
  "wire_dict (JObj d) = Some d"
| "wire_dict _ = None"

definition validate_hello :: "dict \<Rightarrow> hello_payload option" where
  "validate_hello d =
     (if only_fields [''connector_version'', ''codex_version'', ''schema_digest'', ''public_key'',
          ''capabilities'', ''workspace_roots'', ''resumed_from_seq''] d
      then do {
        connector \<leftarrow> field d ''connector_version'' (wire_text 1 64);
        codex \<leftarrow> field d ''codex_version'' (wire_text 1 64);
        digest \<leftarrow> field d ''schema_digest'' (wire_text 16 256);
        key \<leftarrow> field d ''public_key'' (wire_text 40 256);
        capabilities \<leftarrow> field d ''capabilities'' (wire_text_list 1 32);
        raw_roots \<leftarrow> field d ''workspace_roots'' (wire_text_list 1 32);
        resumed \<leftarrow> (case dict_get d (u ''resumed_from_seq'') of None \<Rightarrow> Some 0 | Some j \<Rightarrow> wire_sequence j);
        (if distinct capabilities \<and> set capabilities \<subseteq> set (map u ALLOWED_RPC_METHODS)
         then case canonicalize_workspace_roots raw_roots of
             Inl e \<Rightarrow> None
           | Inr roots \<Rightarrow> Some \<lparr>hp_connector_version = connector, hp_codex_version = codex,
               hp_schema_digest = digest, hp_public_key = key, hp_capabilities = capabilities,
               hp_workspace_roots = roots, hp_resumed_from_seq = resumed\<rparr>
         else None)
      } else None)"

definition validate_heartbeat :: "dict \<Rightarrow> unit option" where
  "validate_heartbeat d =
     (if only_fields [''status''] d then map_option (\<lambda>_. ()) (field d ''status'' (wire_literal [''ok'']))
      else None)"

definition validate_heartbeat_ack :: "dict \<Rightarrow> nat option" where
  "validate_heartbeat_ack d =
     (if only_fields [''received_seq''] d then field d ''received_seq'' wire_sequence else None)"

definition PROTOCOL_ERROR_CODES :: "string list" where
  "PROTOCOL_ERROR_CODES = [''invalid_envelope'', ''unsupported_version'', ''unauthorized'', ''policy_denied'',
     ''invalid_epoch'', ''expired'', ''conflict'', ''upstream_error'', ''invalid_upstream'', ''indeterminate'',
     ''internal_error'']"

definition validate_protocol_error :: "dict \<Rightarrow> protocol_error_payload option" where
  "validate_protocol_error d =
     (if only_fields [''code'', ''message'', ''retryable''] d
      then do {
        code \<leftarrow> field d ''code'' (wire_literal PROTOCOL_ERROR_CODES);
        message \<leftarrow> field d ''message'' (wire_text 1 4096);
        retryable \<leftarrow> field d ''retryable'' wire_bool;
        (if py_strip message = [] then None
         else Some \<lparr>pe_code = code, pe_message = message, pe_retryable = retryable\<rparr>)
      } else None)"

text \<open>\<open>error: CommandAckError | None\<close>.\<close>

fun validate_ack_error :: "json \<Rightarrow> protocol_error_payload option option" where
  "validate_ack_error JNull = Some None"
| "validate_ack_error (JObj d) = map_option Some (validate_protocol_error d)"
| "validate_ack_error _ = None"

definition within :: "nat option \<Rightarrow> nat \<Rightarrow> bool" where
  "within sz limit = (case sz of None \<Rightarrow> False | Some n \<Rightarrow> n \<le> limit)"

definition validate_command_ack :: "dict \<Rightarrow> command_ack_payload option" where
  "validate_command_ack d =
     (if only_fields [''command_id'', ''state'', ''result'', ''error''] d
      then do {
        i \<leftarrow> field d ''command_id'' wire_uuid;
        state \<leftarrow> field d ''state'' (wire_literal [''accepted'', ''running'', ''completed'', ''failed'', ''expired'', ''denied'']);
        error \<leftarrow> (case dict_get d (u ''error'') of None \<Rightarrow> Some None | Some j \<Rightarrow> validate_ack_error j);
        (let result = dict_get d (u ''result''); has_result = (result \<noteq> None);
             has_error = (dict_get d (u ''error'') \<noteq> None)
         in if state \<in> {''accepted'', ''running''} \<and> (has_result \<or> has_error) then None
            else if state = ''completed'' \<and> (\<not> has_result \<or> has_error) then None
            else if state \<in> {''failed'', ''expired'', ''denied''} \<and> (\<not> has_error \<or> error = None \<or> has_result) then None
            else if has_result \<and> \<not> within (ensure_ascii_json_byte_length (the result)) MAX_ENSURE_ASCII_PROJECTED_BYTES
            then None
            else Some \<lparr>ca_command_id = i, ca_state = state, ca_result = result, ca_error = error\<rparr>)
      } else None)"

definition validate_device_event :: "dict \<Rightarrow> device_event_payload option" where
  "validate_device_event d =
     (if only_fields [''method'', ''params''] d
      then do {
        name \<leftarrow> field d ''method'' (wire_text 1 128);
        params \<leftarrow> field d ''params'' wire_dict;
        (if within (ensure_ascii_json_byte_length (JObj params)) MAX_ENSURE_ASCII_PROJECTED_BYTES
         then Some \<lparr>de_method = name, de_params = params\<rparr> else None)
      } else None)"

definition validate_approval_request :: "wire_lib \<Rightarrow> dict \<Rightarrow> approval_request_payload option" where
  "validate_approval_request lib d =
     (if only_fields [''approval_id'', ''command_id'', ''kind'', ''summary'', ''details'', ''expires_at''] d
      then do {
        i \<leftarrow> field d ''approval_id'' wire_uuid;
        c \<leftarrow> field d ''command_id'' (wire_text 1 255);
        kind \<leftarrow> field d ''kind'' (wire_literal [''command'', ''file_change'', ''permission'']);
        summary \<leftarrow> field d ''summary'' (wire_text 1 512);
        details \<leftarrow> field d ''details'' wire_dict;
        expires \<leftarrow> field d ''expires_at'' (wire_datetime lib);
        Some \<lparr>ar_approval_id = i, ar_command_id = c, ar_kind = kind, ar_summary = summary,
          ar_details = details, ar_expires_at = expires\<rparr>
      } else None)"

text \<open>The payloads that only the server sends; for them only the acceptance matters.\<close>

fun wire_one :: "json \<Rightarrow> unit option" where
  "wire_one (JInt i) = (if i = 1 then Some () else None)"
| "wire_one _ = None"

fun wire_range :: "nat \<Rightarrow> nat \<Rightarrow> json \<Rightarrow> nat option" where
  "wire_range lo hi (JInt i) = (if int lo \<le> i \<and> i \<le> int hi then Some (nat i) else None)"
| "wire_range lo hi _ = None"

definition valid_hello_ack :: "dict \<Rightarrow> bool" where
  "valid_hello_ack d \<longleftrightarrow>
     only_fields [''connection_id'', ''protocol_version'', ''device_id'', ''epoch'', ''schema_digest'',
       ''received_seq'', ''heartbeat_timeout_seconds''] d
   \<and> field d ''connection_id'' wire_uuid \<noteq> None \<and> field d ''protocol_version'' wire_one \<noteq> None
   \<and> field d ''device_id'' wire_uuid \<noteq> None \<and> field d ''epoch'' (wire_text 16 128) \<noteq> None
   \<and> field d ''schema_digest'' (wire_text 16 256) \<noteq> None \<and> field d ''received_seq'' wire_sequence \<noteq> None
   \<and> field d ''heartbeat_timeout_seconds'' (wire_range 5 300) \<noteq> None"

definition valid_turn_input :: "dict \<Rightarrow> bool" where
  "valid_turn_input params =
     (case single_dict (dict_get params (u ''input'')) of
        None \<Rightarrow> False
      | Some item \<Rightarrow>
          only_fields [''type'', ''text'', ''text_elements''] item
        \<and> dict_get item (u ''type'') = Some (JStr (u ''text''))
        \<and> (case dict_get item (u ''text_elements'') of None \<Rightarrow> True | Some j \<Rightarrow> j = JArr [])
        \<and> (case dict_get item (u ''text'') of
             Some (JStr text) \<Rightarrow> py_strip text \<noteq> [] \<and> length text \<le> MAX_TEXT_CODE_POINTS
               \<and> ensure_ascii_string_content_byte_length text \<le> MAX_ENSURE_ASCII_TEXT_BYTES
           | _ \<Rightarrow> False))"

definition valid_command_payload :: "wire_lib \<Rightarrow> dict \<Rightarrow> bool" where
  "valid_command_payload lib d \<longleftrightarrow>
     only_fields [''command_id'', ''idempotency_key'', ''method'', ''params'', ''deadline_at''] d
   \<and> field d ''command_id'' wire_uuid \<noteq> None \<and> field d ''idempotency_key'' (wire_text 1 128) \<noteq> None
   \<and> field d ''deadline_at'' (wire_datetime lib) \<noteq> None
   \<and> (case (field d ''method'' (wire_literal ALLOWED_RPC_METHODS), field d ''params'' wire_dict) of
        (Some name, Some params) \<Rightarrow>
          within (ensure_ascii_json_byte_length (JObj params)) MAX_ENSURE_ASCII_PARAMS_BYTES
          \<and> (name \<in> {''turn/start'', ''turn/steer''} \<longrightarrow> valid_turn_input params)
      | _ \<Rightarrow> False)"

definition valid_approval_decision :: "wire_lib \<Rightarrow> dict \<Rightarrow> bool" where
  "valid_approval_decision lib d \<longleftrightarrow> only_fields [''approval_id'', ''decision'', ''decided_at''] d
   \<and> field d ''approval_id'' wire_uuid \<noteq> None \<and> field d ''decision'' (wire_literal [''approve'', ''deny'']) \<noteq> None
   \<and> field d ''decided_at'' (wire_datetime lib) \<noteq> None"

text \<open>\<open>WIRE_PAYLOAD_MODELS[envelope.type].model_validate(payload)\<close>.\<close>

definition ENVELOPE_TYPES :: "string list" where
  "ENVELOPE_TYPES = [''hello'', ''hello_ack'', ''heartbeat'', ''heartbeat_ack'', ''command'', ''command_ack'',
     ''event'', ''approval_request'', ''approval_decision'', ''token_refresh'', ''error'']"

definition payload_valid :: "wire_lib \<Rightarrow> string \<Rightarrow> dict \<Rightarrow> bool" where
  "payload_valid lib ty d =
     (if ty = ''hello'' then validate_hello d \<noteq> None
      else if ty = ''hello_ack'' then valid_hello_ack d
      else if ty = ''heartbeat'' then validate_heartbeat d \<noteq> None
      else if ty = ''heartbeat_ack'' then validate_heartbeat_ack d \<noteq> None
      else if ty = ''command'' then valid_command_payload lib d
      else if ty = ''command_ack'' then validate_command_ack d \<noteq> None
      else if ty = ''event'' then validate_device_event d \<noteq> None
      else if ty = ''approval_request'' then validate_approval_request lib d \<noteq> None
      else if ty = ''approval_decision'' then valid_approval_decision lib d
      else if ty = ''token_refresh'' then d = []
      else ty = ''error'' \<and> validate_protocol_error d \<noteq> None)"

section \<open>Envelopes\<close>

record control_envelope =
  env_id :: uuid
  env_device_id :: uuid
  env_epoch :: ustr
  env_seq :: nat
  env_ack :: "nat option"
  env_type :: string
  env_sent_at :: datetime
  env_payload :: dict

definition validate_ack_field :: "dict \<Rightarrow> nat option option" where
  "validate_ack_field d =
     (case dict_get d (u ''ack'') of
        None \<Rightarrow> Some None
      | Some JNull \<Rightarrow> Some None
      | Some j \<Rightarrow> map_option Some (wire_sequence j))"

definition handshake_sequence :: "string \<Rightarrow> nat \<Rightarrow> bool" where
  "handshake_sequence ty seq \<longleftrightarrow> (ty \<in> {''hello'', ''hello_ack''} \<longleftrightarrow> seq = 0)"

definition validate_envelope :: "wire_lib \<Rightarrow> json \<Rightarrow> control_envelope option" where
  "validate_envelope lib j = do {
     d \<leftarrow> wire_dict j;
     (if within (ensure_ascii_json_byte_length j) MAX_FRAME_BYTES
         \<and> only_fields [''version'', ''id'', ''device_id'', ''epoch'', ''seq'', ''ack'', ''type'', ''sent_at'', ''payload''] d
      then do {
        version \<leftarrow> field d ''version'' wire_one;
        i \<leftarrow> field d ''id'' wire_uuid;
        device \<leftarrow> field d ''device_id'' wire_uuid;
        epoch \<leftarrow> field d ''epoch'' (wire_text 16 128);
        seq \<leftarrow> field d ''seq'' wire_sequence;
        ack \<leftarrow> validate_ack_field d;
        ty \<leftarrow> field d ''type'' (wire_literal ENVELOPE_TYPES);
        sent \<leftarrow> field d ''sent_at'' (wire_datetime lib);
        payload \<leftarrow> field d ''payload'' wire_dict;
        (if handshake_sequence ty seq \<and> payload_valid lib ty payload
         then Some \<lparr>env_id = i, env_device_id = device, env_epoch = epoch, env_seq = seq, env_ack = ack,
           env_type = ty, env_sent_at = sent, env_payload = payload\<rparr>
         else None)
      } else None)
   }"

definition DEVICE_OUTBOUND_TYPES :: "string list" where
  "DEVICE_OUTBOUND_TYPES = [''hello'', ''heartbeat'', ''heartbeat_ack'', ''command_ack'', ''event'',
     ''approval_request'', ''error'']"

definition require_device_outbound :: "control_envelope \<Rightarrow> bool" where
  "require_device_outbound e \<longleftrightarrow> env_type e \<in> set DEVICE_OUTBOUND_TYPES"

text \<open>\<open>envelope.model_dump(mode="json")\<close>; \<open>fmt\<close> is the text of a timestamp.\<close>

definition envelope_dump :: "(datetime \<Rightarrow> ustr) \<Rightarrow> control_envelope \<Rightarrow> json" where
  "envelope_dump fmt e = JObj [(u ''version'', JInt 1), (u ''id'', JStr (uuid_str (env_id e))),
     (u ''device_id'', JStr (uuid_str (env_device_id e))), (u ''epoch'', JStr (env_epoch e)),
     (u ''seq'', JInt (int (env_seq e))),
     (u ''ack'', case env_ack e of None \<Rightarrow> JNull | Some n \<Rightarrow> JInt (int n)),
     (u ''type'', JStr (u (env_type e))), (u ''sent_at'', JStr (fmt (env_sent_at e))),
     (u ''payload'', JObj (env_payload e))]"

definition encoded_json_size :: "json \<Rightarrow> nat" where
  "encoded_json_size v = length (dumps True v)"

definition payload_size_error :: "settings \<Rightarrow> control_envelope \<Rightarrow> string option" where
  "payload_size_error cfg e =
     (let payload_size = encoded_json_size (JObj (env_payload e)) in
      if env_type e = ''command_ack'' then
        (case dict_get (env_payload e) (u ''result'') of
           None \<Rightarrow> None
         | Some JNull \<Rightarrow> None
         | Some result \<Rightarrow> if encoded_json_size result > device_max_result_bytes cfg
             then Some ''command result exceeds the byte limit'' else None)
      else if env_type e = ''event'' \<and> payload_size > device_max_event_bytes cfg
      then Some ''device event exceeds the byte limit''
      else if env_type e = ''approval_request'' \<and> payload_size > device_max_approval_bytes cfg
      then Some ''approval request exceeds the byte limit''
      else None)"

definition parse_device_envelope ::
  "wire_lib \<Rightarrow> (datetime \<Rightarrow> ustr) \<Rightarrow> settings \<Rightarrow> ustr \<Rightarrow> realtime_error + control_envelope" where
  "parse_device_envelope lib fmt cfg raw =
     (case utf8_length raw of
        None \<Rightarrow> Inl Wire_Validation_Error
      | Some n \<Rightarrow>
          if n > device_max_envelope_bytes cfg then Inl (Protocol_Error ''device envelope exceeds the byte limit'')
          else case Option.bind (wl_loads lib raw) (validate_envelope lib) of
            None \<Rightarrow> Inl Wire_Validation_Error
          | Some e \<Rightarrow>
              if \<not> require_device_outbound e then Inl Wire_Validation_Error
              else case validate_json_shape (envelope_dump fmt e) (device_max_json_depth cfg)
                  (device_max_json_nodes cfg) (device_max_string_chars cfg) of
                Some err \<Rightarrow> Inl (Protocol_Error err)
              | None \<Rightarrow>
                  (case payload_size_error cfg e of
                     Some err \<Rightarrow> Inl (Protocol_Error err)
                   | None \<Rightarrow> Inr e))"

text \<open>The rate limit of a device: \<open>incr\<close> is the operation of the store.\<close>

definition enforce_device_frame_rate ::
  "(ustr \<Rightarrow> nat \<Rightarrow> int \<Rightarrow> 's \<Rightarrow> int option \<times> 's) \<Rightarrow> settings \<Rightarrow> uuid \<Rightarrow> int \<Rightarrow> 's \<Rightarrow> realtime_error option \<times> 's" where
  "enforce_device_frame_rate incr cfg device_id now s =
     (case incr (u ''device-frame-rate:'' @ uuid_str device_id) (rate_limit_window_seconds cfg) now s of
        (None, s') \<Rightarrow> (Some Store_Failure, s')
      | (Some n, s') \<Rightarrow>
          (if n > int (device_frame_rate_limit cfg)
           then Some (Protocol_Error ''device frame rate limit exceeded'') else None, s'))"

section \<open>The first frame\<close>

record frozen_contract =
  fc_connector_version :: ustr
  fc_codex_version :: ustr
  fc_schema_digest :: ustr

text \<open>\<open>metadata.get(key) not in {None, "", version}\<close>; a list or a mapping is not hashable.\<close>

definition pinned_version :: "dict \<Rightarrow> string \<Rightarrow> ustr \<Rightarrow> bool option" where
  "pinned_version metadata key version =
     (case dict_get metadata (u key) of
        None \<Rightarrow> Some True
      | Some JNull \<Rightarrow> Some True
      | Some (JStr s) \<Rightarrow> Some (s = [] \<or> s = version)
      | Some (JArr xs) \<Rightarrow> None
      | Some (JObj d) \<Rightarrow> None
      | Some _ \<Rightarrow> Some False)"

definition validate_hello_contract ::
  "frozen_contract \<Rightarrow> device \<Rightarrow> control_envelope \<Rightarrow> hello_payload \<Rightarrow> realtime_error option" where
  "validate_hello_contract fc d e hello =
     (if env_ack e = None then Some (Protocol_Error ''hello must acknowledge the server receive cursor'')
      else if hp_connector_version hello \<noteq> fc_connector_version fc
      then Some (Protocol_Error ''connector version does not match the frozen contract'')
      else if hp_codex_version hello \<noteq> fc_codex_version fc
      then Some (Protocol_Error ''Codex version does not match the frozen contract'')
      else if hp_schema_digest hello \<noteq> fc_schema_digest fc
      then Some (Protocol_Error ''app-server schema digest does not match the frozen contract'')
      else if set (hp_capabilities hello) \<noteq> set (map u ALLOWED_RPC_METHODS)
      then Some (Protocol_Error ''device capabilities do not match the control allowlist'')
      else case pinned_version (dev_device_metadata d) ''connector_version'' (hp_connector_version hello) of
        None \<Rightarrow> Some Type_Failure
      | Some False \<Rightarrow> Some (Protocol_Error ''connector version changed after pairing'')
      | Some True \<Rightarrow>
          (case pinned_version (dev_device_metadata d) ''codex_version'' (hp_codex_version hello) of
             None \<Rightarrow> Some Type_Failure
           | Some False \<Rightarrow> Some (Protocol_Error ''Codex version changed after pairing'')
           | Some True \<Rightarrow> None))"

text \<open>The checks of \<open>handle_device\<close> on the first frame; \<open>canonical_key\<close> is
  \<open>canonicalize_ed25519_public_key\<close>, \<open>None\<close> its \<open>ValueError\<close>.\<close>

definition check_hello ::
  "(ustr \<Rightarrow> ustr option) \<Rightarrow> frozen_contract \<Rightarrow> device \<Rightarrow> control_envelope \<Rightarrow> realtime_error + hello_payload" where
  "check_hello canonical_key fc d e =
     (if env_device_id e \<noteq> dev_id d then Inl (Protocol_Error ''frame targets a different device'')
      else if env_type e \<noteq> ''hello'' then Inl (Protocol_Error ''hello must be the first device frame'')
      else case validate_hello (env_payload e) of
        None \<Rightarrow> Inl Wire_Validation_Error
      | Some hello \<Rightarrow>
          (case canonical_key (hp_public_key hello) of
             None \<Rightarrow> Inl Wire_Validation_Error
           | Some key \<Rightarrow>
               if key \<noteq> dev_public_key d
               then Inl (Protocol_Error ''hello public key does not match the paired device'')
               else if set (hp_workspace_roots hello) \<noteq> set (dev_workspace_roots d)
               then Inl (Protocol_Error ''hello workspace roots do not match the paired device scope'')
               else case validate_hello_contract fc d e hello of
                 Some err \<Rightarrow> Inl err
               | None \<Rightarrow> Inr hello))"

section \<open>Round trip of identifiers\<close>

lemma hex_char_digit: "d < 16 \<Longrightarrow> hex_char (hex_digit d) = Some d"
  by (auto simp: hex_char_def hex_digit_def)

lemma hex_nat_append: "hex_nat acc (a @ b) = Option.bind (hex_nat acc a) (\<lambda>n. hex_nat n b)"
  by (induction a arbitrary: acc) (auto split: option.split)

lemma hex_nat_digits: "hex_nat acc (hex_digits k n) = Some (acc * 16 ^ k + n mod 16 ^ k)"
proof (induction k arbitrary: n)
  case (Suc k)
  have "n mod 16 ^ Suc k = 16 * (n div 16 mod 16 ^ k) + n mod 16"
    by (simp add: mod_mult2_eq mult.commute)
  then show ?case using Suc by (simp add: hex_nat_append hex_char_digit algebra_simps)
qed simp

lemma hex_digits_hex: "c \<in> set (hex_digits k n) \<Longrightarrow> hex_char c \<noteq> None"
proof (induction k arbitrary: n)
  case (Suc k)
  then show ?case using hex_char_digit [of "n mod 16"] by auto
qed simp

lemma parse_uuid_str [simp]: "parse_uuid (uuid_str i) = Some i"
proof -
  define h where "h = hex_digits 32 (unat i)"
  have len: "length h = 32" by (simp add: h_def)
  have s: "uuid_str i = take 8 h @ [45] @ take 4 (drop 8 h) @ [45] @ take 4 (drop 12 h) @ [45]
      @ take 4 (drop 16 h) @ [45] @ drop 20 h"
    by (simp add: uuid_str_def h_def Let_def)
  have "take 8 (uuid_str i) @ take 4 (drop 9 (uuid_str i)) @ take 4 (drop 14 (uuid_str i))
      @ take 4 (drop 19 (uuid_str i)) @ drop 24 (uuid_str i) = h"
    by (rule hyphenated_hex [OF len s])
  moreover have "uuid_str i ! 8 = 45 \<and> uuid_str i ! 13 = 45 \<and> uuid_str i ! 18 = 45 \<and> uuid_str i ! 23 = 45"
    unfolding s using len by (simp add: nth_append)
  moreover have "list_all (\<lambda>c. hex_char c \<noteq> None) h"
    using hex_digits_hex by (auto simp: list_all_iff h_def)
  ultimately have "require_canonical_uuid (uuid_str i) = Some h" by (simp add: require_canonical_uuid_def Let_def)
  moreover have "hex_nat 0 h = Some (unat i)"
  proof -
    have "unat i < 2 ^ LENGTH(128)" by (rule unsigned_less)
    then show ?thesis by (simp add: h_def hex_nat_digits)
  qed
  ultimately show ?thesis by (simp add: parse_uuid_def)
qed

section \<open>Accepted frames\<close>

lemma find_SomeD: "find P xs = Some x \<Longrightarrow> x \<in> set xs \<and> P x"
  by (auto simp: find_Some_iff)

lemma wire_literal_Some: "wire_literal names j = Some n \<longleftrightarrow> (\<exists>s. j = JStr s \<and> find (\<lambda>n. u n = s) names = Some n)"
  by (cases j) auto

lemma wire_sequence_Some: "wire_sequence j = Some n \<longleftrightarrow> j = JInt (int n) \<and> n \<le> MAX_SEQUENCE"
  by (cases j) auto

lemma wire_text_Some: "wire_text lo hi j = Some s \<longleftrightarrow> j = JStr s \<and> lo \<le> length s \<and> length s \<le> hi"
  by (cases j) auto

lemma validate_ack_field_Some: "validate_ack_field d = Some (Some n) \<Longrightarrow> n \<le> MAX_SEQUENCE"
  by (auto simp: validate_ack_field_def split: option.splits json.splits if_splits)

lemma validate_envelope_Some:
  assumes "validate_envelope lib j = Some e"
  shows "within (ensure_ascii_json_byte_length j) MAX_FRAME_BYTES"
    "16 \<le> length (env_epoch e) \<and> length (env_epoch e) \<le> 128" "env_seq e \<le> MAX_SEQUENCE"
    "env_ack e = Some n \<Longrightarrow> n \<le> MAX_SEQUENCE" "env_type e \<in> set ENVELOPE_TYPES"
    "env_seq e = 0 \<longleftrightarrow> env_type e \<in> {''hello'', ''hello_ack''}" "payload_valid lib (env_type e) (env_payload e)"
proof -
  obtain d v i dev ep sq ak ty st pl where f: "j = JObj d"
      "within (ensure_ascii_json_byte_length j) MAX_FRAME_BYTES" "field d ''epoch'' (wire_text 16 128) = Some ep"
      "field d ''seq'' wire_sequence = Some sq" "validate_ack_field d = Some ak"
      "field d ''type'' (wire_literal ENVELOPE_TYPES) = Some ty"
      "handshake_sequence ty sq \<and> payload_valid lib ty pl"
      "e = \<lparr>env_id = i, env_device_id = dev, env_epoch = ep, env_seq = sq, env_ack = ak,
           env_type = ty, env_sent_at = st, env_payload = pl\<rparr>"
    using assms by (cases j) (auto simp: validate_envelope_def bind_eq_Some_conv split: if_splits)
  show "within (ensure_ascii_json_byte_length j) MAX_FRAME_BYTES" by (rule f(2))
  show "16 \<le> length (env_epoch e) \<and> length (env_epoch e) \<le> 128"
    using f(3,8) by (auto simp: field_def bind_eq_Some_conv wire_text_Some)
  show "env_seq e \<le> MAX_SEQUENCE" using f(4,8) by (auto simp: field_def bind_eq_Some_conv wire_sequence_Some)
  show "env_ack e = Some n \<Longrightarrow> n \<le> MAX_SEQUENCE" using f(5,8) validate_ack_field_Some by auto
  show "env_type e \<in> set ENVELOPE_TYPES"
    using f(6,8) find_SomeD by (fastforce simp: field_def bind_eq_Some_conv wire_literal_Some)
  show "env_seq e = 0 \<longleftrightarrow> env_type e \<in> {''hello'', ''hello_ack''}" "payload_valid lib (env_type e) (env_payload e)"
    using f(7,8) by (auto simp: handshake_sequence_def)
qed

lemma parse_device_envelope_Inr:
  assumes "parse_device_envelope lib fmt cfg raw = Inr e"
  obtains n j where "utf8_length raw = Some n" "n \<le> device_max_envelope_bytes cfg" "wl_loads lib raw = Some j"
    "validate_envelope lib j = Some e" "require_device_outbound e"
    "validate_json_shape (envelope_dump fmt e) (device_max_json_depth cfg) (device_max_json_nodes cfg)
       (device_max_string_chars cfg) = None" "payload_size_error cfg e = None"
  using assms
  by (auto simp: parse_device_envelope_def bind_eq_Some_conv split: option.splits if_splits)


definition sample_frame_json :: json where
  "sample_frame_json = JObj [(u ''version'', JInt 1), (u ''id'', JStr (uuid_str 5)),
     (u ''device_id'', JStr (uuid_str 1)), (u ''epoch'', JStr (u ''epoch-0000000001'')), (u ''seq'', JInt 1),
     (u ''type'', JStr (u ''heartbeat'')), (u ''sent_at'', JStr (u ''2026-01-01T00:00:00Z'')),
     (u ''payload'', JObj [(u ''status'', JStr (u ''ok''))])]"

definition sample_lib :: wire_lib where
  "sample_lib = \<lparr>wl_loads = (\<lambda>raw. if raw = u ''frame'' then Some sample_frame_json else None),
     wl_decimal = (\<lambda>c. 48 \<le> c \<and> c \<le> 57), wl_time = (\<lambda>s. Some 0)\<rparr>"

definition sample_envelope :: control_envelope where
  "sample_envelope = \<lparr>env_id = 5, env_device_id = 1, env_epoch = u ''epoch-0000000001'', env_seq = 1,
     env_ack = None, env_type = ''heartbeat'', env_sent_at = 0, env_payload = [(u ''status'', JStr (u ''ok''))]\<rparr>"

lemma sample_validate: "validate_envelope sample_lib sample_frame_json = Some sample_envelope"
proof -
  have "length (dumps True sample_frame_json) \<le> MAX_FRAME_BYTES" "all_finite sample_frame_json"
    using uuid_quote
    by (simp_all add: sample_frame_json_def length_quote u_def escape_plain int_str_def nat_str.simps MAX_FRAME_BYTES_def)
  then have "within (ensure_ascii_json_byte_length sample_frame_json) MAX_FRAME_BYTES"
    by (simp add: within_def ensure_ascii_json_byte_length_def del: dumps.simps)
  then show ?thesis
    by (simp add: validate_envelope_def sample_frame_json_def only_fields_def field_def dict_get_def
        validate_ack_field_def ENVELOPE_TYPES_def handshake_sequence_def payload_valid_def validate_heartbeat_def
        require_rfc3339_datetime_def digits_at_def rfc3339_offset_def rfc3339_fraction_def sample_lib_def u_def
        sample_envelope_def MAX_SEQUENCE_def del: dumps.simps)
qed


end
