(* ===== verification/Projection.thy ===== *)
theory Projection
  imports Wire Snapshot
begin

text \<open>
  How \<open>realtime.py\<close> projects what an app-server reports onto the thread bindings: the reading of
  loosely typed results and events, the stored snapshot of a thread, the list of threads, and the
  effect of an acknowledged command on its binding.  What the standard and third-party libraries do
  with texts, floats and hashes is an argument (\<open>frame_env\<close>), as are the identifiers that are drawn
  while a frame is handled.
\<close>

record frame_env =
  fe_lib :: wire_lib
  fe_fmt :: "datetime \<Rightarrow> ustr"
  fe_pystr :: "json \<Rightarrow> ustr"
  fe_valid_text :: "ustr \<Rightarrow> bool"
  fe_float_time :: "ustr \<Rightarrow> datetime option"
  fe_uuid :: "ustr \<Rightarrow> uuid option"
  fe_sha :: "ustr \<Rightarrow> ustr"
  fe_fresh_id :: "nat \<Rightarrow> uuid"
  fe_fresh_text :: "nat \<Rightarrow> ustr"

section \<open>Reading reported values\<close>

fun first_some :: "'a option list \<Rightarrow> 'a option" where
  "first_some [] = None"
| "first_some (None # xs) = first_some xs"
| "first_some (Some x # xs) = Some x"

definition NESTED_KEYS :: "string list" where
  "NESTED_KEYS = [''thread'', ''turn'', ''item'', ''message'']"

lemma nested_nodes:
  assumes "dict_get d k = Some v"
  shows "json_nodes v < json_nodes (JObj d)"
proof -
  have "(k, v) \<in> set d" using assms by (auto simp: dict_get_def dest: map_of_SomeD)
  then have "json_nodes v \<in> set (map (\<lambda>(k, v). json_nodes v) d)" by force
  then show ?thesis using member_le_sum_list by fastforce
qed

function extract_string :: "json \<Rightarrow> string list \<Rightarrow> ustr option" where
  "extract_string value keys =
     (case value of
        JObj d \<Rightarrow>
          (case first_string d keys of
             Some s \<Rightarrow> Some s
           | None \<Rightarrow> first_some (map (\<lambda>k. case dict_get d (u k) of
               None \<Rightarrow> None | Some nested \<Rightarrow> extract_string nested keys) NESTED_KEYS))
      | _ \<Rightarrow> None)"
  by pat_completeness auto
termination
  by (relation "measure (\<lambda>(value, keys). json_nodes value)") (auto dest: nested_nodes simp del: json_nodes.simps)

declare extract_string.simps [simp del]

definition thread_status :: "ustr option \<Rightarrow> thread_binding_status option" where
  "thread_status v =
     (case v of
        None \<Rightarrow> None
      | Some s \<Rightarrow> map_of [(u ''idle'', IDLE), (u ''running'', RUNNING), (u ''in_progress'', RUNNING),
          (u ''waiting_for_approval'', WAITING_FOR_APPROVAL), (u ''failed'', THREAD_FAILED),
          (u ''error'', THREAD_FAILED), (u ''closed'', CLOSED)] (normalized_status s))"

definition wire_thread_status :: "(json \<Rightarrow> ustr) \<Rightarrow> json option \<Rightarrow> thread_binding_status" where
  "wire_thread_status pystr v =
     (let v1 = (case v of Some (JObj d) \<Rightarrow> dict_get d (u ''type'') | _ \<Rightarrow> v);
          text = (case v1 of None \<Rightarrow> [] | Some j \<Rightarrow> if json_truthy j then json_str pystr j else []);
          normalized = normalized_status text
      in if normalized \<in> {u ''active'', u ''running'', u ''in_progress'', u ''inprogress''} then RUNNING
         else if normalized \<in> {u ''systemerror'', u ''system_error'', u ''failed'', u ''error''} then THREAD_FAILED
         else IDLE)"

text \<open>\<open>datetime.fromtimestamp(value, UTC)\<close> for an integer: the years 1 to 9999.\<close>

definition wire_timestamp :: "(ustr \<Rightarrow> datetime option) \<Rightarrow> json option \<Rightarrow> datetime \<Rightarrow> datetime" where
  "wire_timestamp float_time v fallback =
     (case v of
        Some (JInt i) \<Rightarrow> if - 62135596800 \<le> i \<and> i \<le> 253402300799 then seconds i else fallback
      | Some (JFloat t) \<Rightarrow> (case float_time t of None \<Rightarrow> fallback | Some x \<Rightarrow> x)
      | _ \<Rightarrow> fallback)"

section \<open>Snapshots\<close>

definition snapshot_failure :: "snapshot_error \<Rightarrow> realtime_error" where
  "snapshot_failure e =
     (if e = Snapshot_Type_Error then Type_Failure
      else Protocol_Error ''projected thread snapshot exceeds the byte limit'')"

definition compact_for :: "settings \<Rightarrow> ustr option \<Rightarrow> dict \<Rightarrow> realtime_error + dict" where
  "compact_for cfg required snapshot =
     map_sum snapshot_failure id
       (compact_thread_snapshot snapshot (int (device_max_result_bytes cfg)) required MAX_THREAD_SNAPSHOT_MESSAGES)"

text \<open>The items of all turns, and the messages made of them.\<close>

definition turn_items :: "json list \<Rightarrow> dict list" where
  "turn_items turns = concat (map (\<lambda>turn. case dict_get turn (u ''items'') of
       Some (JArr items) \<Rightarrow> dict_items items | _ \<Rightarrow> []) (dict_items turns))"

definition message_role :: "dict \<Rightarrow> ustr option" where
  "message_role item =
     (case dict_get item (u ''role'') of
        Some (JStr r) \<Rightarrow> Some (if r \<in> {u ''user'', u ''assistant'', u ''system''} then r else u ''assistant'')
      | Some (JArr xs) \<Rightarrow> None
      | Some (JObj d) \<Rightarrow> None
      | _ \<Rightarrow> Some (u ''assistant''))"

definition message_of :: "frame_env \<Rightarrow> datetime \<Rightarrow> nat \<Rightarrow> dict \<Rightarrow> ustr \<Rightarrow> ustr \<Rightarrow> json" where
  "message_of fe now k item role text = JObj
     [(u ''id'', JStr (case dict_get item (u ''id'') of
         None \<Rightarrow> fe_fresh_text fe k
       | Some j \<Rightarrow> if json_truthy j then json_str (fe_pystr fe) j else fe_fresh_text fe k)),
      (u ''role'', JStr role), (u ''text'', JStr text), (u ''created_at'', JStr (fe_fmt fe now))]"

fun result_messages :: "frame_env \<Rightarrow> datetime \<Rightarrow> nat \<Rightarrow> dict list \<Rightarrow> realtime_error + json list" where
  "result_messages fe now k [] = Inr []"
| "result_messages fe now k (item # items) =
     (case extract_string (JObj item) [''text'', ''content''] of
        None \<Rightarrow> result_messages fe now (k + 1) items
      | Some text \<Rightarrow>
          (case message_role item of
             None \<Rightarrow> Inl Type_Failure
           | Some role \<Rightarrow>
               map_sum id (Cons (message_of fe now k item role text)) (result_messages fe now (k + 1) items)))"

definition snapshot_from_result ::
  "frame_env \<Rightarrow> settings \<Rightarrow> datetime \<Rightarrow> dict \<Rightarrow> dict \<Rightarrow> realtime_error + dict" where
  "snapshot_from_result fe cfg now result current =
     (let thread = (case dict_get result (u ''thread'') of Some (JObj t) \<Rightarrow> t | _ \<Rightarrow> result) in
      case dict_get thread (u ''turns'') of
        Some (JArr turns) \<Rightarrow>
          (case result_messages fe now 0 (turn_items turns) of
             Inl e \<Rightarrow> Inl e
           | Inr messages \<Rightarrow> compact_for cfg None [(u ''messages'', JArr messages)])
      | _ \<Rightarrow> compact_for cfg None current)"

text \<open>\<open>str(message.get("text", "")) + delta\<close>.\<close>

definition message_text :: "(json \<Rightarrow> ustr) \<Rightarrow> dict \<Rightarrow> ustr" where
  "message_text pystr msg = (case dict_get msg (u ''text'') of None \<Rightarrow> [] | Some j \<Rightarrow> json_str pystr j)"

definition append_delta ::
  "frame_env \<Rightarrow> settings \<Rightarrow> datetime \<Rightarrow> thread_binding \<Rightarrow> dict
     \<Rightarrow> realtime_error + (thread_binding \<times> ustr \<times> ustr) option" where
  "append_delta fe cfg now b params =
     (case extract_string (JObj params) [''delta'', ''text''] of
        None \<Rightarrow> Inr None
      | Some delta \<Rightarrow>
          let item_id = (case extract_string (JObj params) [''itemId'', ''item_id'', ''id''] of
                 None \<Rightarrow> u ''assistant-current'' | Some i \<Rightarrow> i) in
     (case json_items (dict_get (thr_snapshot b) (u ''messages'')) of
        None \<Rightarrow> Inl Type_Failure
      | Some raw \<Rightarrow>
          let found = dict_items raw;
              fresh = [(u ''id'', JStr item_id), (u ''role'', JStr (u ''assistant'')), (u ''text'', JStr []),
                (u ''created_at'', JStr (fe_fmt fe now))];
              position = last_index_where (has_id item_id) found;
              messages = (case position of None \<Rightarrow> found @ [fresh] | Some i \<Rightarrow> found);
              at = (case position of None \<Rightarrow> length found | Some i \<Rightarrow> i);
              combined = message_text (fe_pystr fe) (messages ! at) @ delta
          in if length combined > device_max_string_chars cfg
             then Inl (Protocol_Error ''projected message exceeds the character limit'')
             else
               (case compact_for cfg (Some item_id) (dict_set (u ''messages'')
                   (JArr (map JObj (messages[at := dict_set (u ''text'') (JStr combined) (messages ! at)])))
                   (thr_snapshot b)) of
                  Inl e \<Rightarrow> Inl e
                | Inr snapshot \<Rightarrow> Inr (Some (b\<lparr>thr_snapshot := snapshot\<rparr>, item_id, delta)))))"

section \<open>Writing the bindings\<close>

text \<open>The objects of a transaction are written at a flush: \<open>base\<close> holds the rows as they were at the
  last one.  A row that changed without an explicit time gets the current one; the columns for remote
  identifiers hold 255 characters, and a device has a remote thread at most once.\<close>

definition stamp_binding :: "datetime \<Rightarrow> thread_binding list \<Rightarrow> thread_binding \<Rightarrow> thread_binding" where
  "stamp_binding now base b =
     (case scalar (\<lambda>x. thr_id x = thr_id b) base of
        None \<Rightarrow> b
      | Some old \<Rightarrow>
          if b \<noteq> old \<and> thr_updated_at b = thr_updated_at old then b\<lparr>thr_updated_at := now\<rparr> else b)"

definition binding_columns_ok :: "thread_binding list \<Rightarrow> thread_binding \<Rightarrow> bool" where
  "binding_columns_ok bs b \<longleftrightarrow> length (or_empty (thr_remote_thread_id b)) \<le> 255
     \<and> length (or_empty (thr_active_turn_id b)) \<le> 255
     \<and> (thr_remote_thread_id b = None \<or> \<not> exists_where (\<lambda>x. thr_id x \<noteq> thr_id b
          \<and> thr_device_id x = thr_device_id b \<and> thr_remote_thread_id x = thr_remote_thread_id b) bs)"

definition flush_bindings :: "datetime \<Rightarrow> thread_binding list \<Rightarrow> database \<Rightarrow> realtime_error + database" where
  "flush_bindings now base db =
     (let bs = map (stamp_binding now base) (thread_bindings db) in
      if list_all (\<lambda>b. b \<in> set base \<or> binding_columns_ok bs b) bs then Inr (db\<lparr>thread_bindings := bs\<rparr>)
      else Inl Database_Failure)"

definition add_binding :: "thread_binding \<Rightarrow> database \<Rightarrow> realtime_error + database" where
  "add_binding b db =
     (if thr_id b \<in> set (map thr_id (thread_bindings db)) then Inl Database_Failure
      else Inr (db\<lparr>thread_bindings := thread_bindings db @ [b]\<rparr>))"

definition projection_failure :: "capacity_error \<Rightarrow> realtime_error" where
  "projection_failure e =
     (case e of Owner_Capacity_Exceeded code \<Rightarrow> Protocol_Error code | _ \<Rightarrow> Wire_Validation_Error)"

section \<open>The list of threads\<close>

definition thread_list_candidates :: "json \<Rightarrow> json list option" where
  "thread_list_candidates result =
     (case result of JObj d \<Rightarrow> catalog_candidates_of d [''data'', ''threads'', ''items''] | _ \<Rightarrow> None)"

definition projected_title :: "json \<Rightarrow> ustr" where
  "projected_title raw =
     (let title = (case extract_string raw [''name'', ''title'', ''preview''] of
            None \<Rightarrow> u ''Managed thread'' | Some t \<Rightarrow> t);
          short = take 255 (py_strip title)
      in if short = [] then u ''Managed thread'' else short)"

definition fresh_binding ::
  "uuid \<Rightarrow> ustr \<Rightarrow> uuid \<Rightarrow> ustr \<Rightarrow> thread_binding_status \<Rightarrow> ustr \<Rightarrow> ustr \<Rightarrow> ustr \<Rightarrow> datetime \<Rightarrow> datetime
     \<Rightarrow> thread_binding" where
  "fresh_binding i owner device_id remote_id status cwd title epoch created updated =
     \<lparr>thr_id = i, thr_owner_user_id = owner, thr_device_id = device_id, thr_remote_thread_id = Some remote_id,
      thr_status = status, thr_cwd = Some cwd, thr_title = title, thr_model = [], thr_active_turn_id = None,
      thr_snapshot = [(u ''messages'', JArr [])], thr_last_error = None, thr_appserver_epoch = epoch,
      thr_last_event_sequence = 0, thr_created_at = created, thr_updated_at = updated\<rparr>"

text \<open>The usable entries: the remote identifier, the working directory and the entry.\<close>

definition listed_thread :: "device \<Rightarrow> json \<Rightarrow> (ustr \<times> ustr \<times> dict) option" where
  "listed_thread d raw =
     (case raw of
        JObj entry \<Rightarrow>
          (case (extract_string raw [''id'', ''threadId'', ''thread_id''], extract_string raw [''cwd'']) of
             (Some remote_id, Some cwd) \<Rightarrow>
               if length remote_id > 255 \<or> \<not> cwd_in_roots cwd (dev_workspace_roots d) then None
               else Some (remote_id, cwd, entry)
           | _ \<Rightarrow> None)
      | _ \<Rightarrow> None)"

text \<open>One usable entry: a new binding, an update, or nothing when a limit would be passed.  The result has
  the identifier of the binding that is to be announced, the two running counts and the rows of the
  last flush.\<close>

type_synonym projection_state = "nat \<times> nat \<times> thread_binding list \<times> database"

definition project_new ::
  "frame_env \<Rightarrow> settings \<Rightarrow> datetime \<Rightarrow> thread_binding \<Rightarrow> projection_state
     \<Rightarrow> realtime_error + uuid list \<times> projection_state" where
  "project_new fe cfg now b st =
     (case st of (visible, records, base, db) \<Rightarrow>
      if visible \<ge> bootstrap_max_threads cfg \<or> records \<ge> owner_max_thread_records cfg then Inr ([], st)
      else case ensure_thread_projection_fits (fe_fmt fe) b of
          Some (Owner_Capacity_Exceeded code) \<Rightarrow> Inr ([], st)
        | Some e \<Rightarrow> Inl (projection_failure e)
        | None \<Rightarrow>
            (case add_binding b db of
               Inl e \<Rightarrow> Inl e
             | Inr db1 \<Rightarrow>
                 (case flush_bindings now base db1 of
                    Inl e \<Rightarrow> Inl e
                  | Inr db2 \<Rightarrow> Inr ([thr_id b], visible + 1, records + 1, thread_bindings db2, db2))))"

definition project_known ::
  "frame_env \<Rightarrow> settings \<Rightarrow> thread_binding \<Rightarrow> thread_binding \<Rightarrow> projection_state
     \<Rightarrow> realtime_error + uuid list \<times> projection_state" where
  "project_known fe cfg old b st =
     (case st of (visible, records, base, db) \<Rightarrow>
      let revived = (thr_status old \<in> {CLOSED, STALE} \<and> thr_status b \<notin> {CLOSED, STALE}) in
      if revived \<and> visible \<ge> bootstrap_max_threads cfg then Inr ([], st)
      else case ensure_thread_projection_fits (fe_fmt fe) b of
          Some e \<Rightarrow> Inl (projection_failure e)
        | None \<Rightarrow> Inr ([thr_id old], if revived then visible + 1 else visible, records, base, put_binding b db))"

definition project_thread ::
  "frame_env \<Rightarrow> settings \<Rightarrow> device \<Rightarrow> ustr \<Rightarrow> ustr \<Rightarrow> datetime \<Rightarrow> uuid \<Rightarrow> json \<Rightarrow> projection_state
     \<Rightarrow> realtime_error + uuid list \<times> projection_state" where
  "project_thread fe cfg d owner epoch now new_id raw st =
     (case listed_thread d raw of
        None \<Rightarrow> Inr ([], st)
      | Some (remote_id, cwd, entry) \<Rightarrow>
          let title = projected_title raw;
              created = wire_timestamp (fe_float_time fe) (dict_get entry (u ''createdAt'')) now;
              updated = wire_timestamp (fe_float_time fe) (dict_get entry (u ''updatedAt'')) now;
              status = wire_thread_status (fe_pystr fe) (dict_get entry (u ''status''))
          in (case scalar (\<lambda>b. thr_device_id b = dev_id d \<and> thr_owner_user_id b = owner
                \<and> thr_remote_thread_id b = Some remote_id) (thread_bindings (snd (snd (snd st)))) of
                None \<Rightarrow> project_new fe cfg now
                  (fresh_binding new_id owner (dev_id d) remote_id status cwd title epoch created updated) st
              | Some old \<Rightarrow> project_known fe cfg old
                  (old\<lparr>thr_cwd := Some cwd, thr_title := title, thr_status := status,
                    thr_appserver_epoch := epoch, thr_updated_at := updated\<rparr>) st))"

fun project_threads ::
  "frame_env \<Rightarrow> settings \<Rightarrow> device \<Rightarrow> ustr \<Rightarrow> ustr \<Rightarrow> datetime \<Rightarrow> nat \<Rightarrow> json list \<Rightarrow> projection_state
     \<Rightarrow> realtime_error + uuid list \<times> projection_state" where
  "project_threads fe cfg d owner epoch now k [] st = Inr ([], st)"
| "project_threads fe cfg d owner epoch now k (raw # raws) st =
     (case project_thread fe cfg d owner epoch now (fe_fresh_id fe k) raw st of
        Inl e \<Rightarrow> Inl e
      | Inr (ids, st1) \<Rightarrow>
          map_sum id (apfst (append ids)) (project_threads fe cfg d owner epoch now (k + 1) raws st1))"

definition project_thread_list ::
  "frame_env \<Rightarrow> settings \<Rightarrow> device \<Rightarrow> ustr \<Rightarrow> ustr \<Rightarrow> json \<Rightarrow> datetime \<Rightarrow> database
     \<Rightarrow> realtime_error + uuid list \<times> thread_binding list \<times> database" where
  "project_thread_list fe cfg d owner epoch result now db =
     (case thread_list_candidates result of
        None \<Rightarrow> Inr ([], thread_bindings db, db)
      | Some candidates \<Rightarrow>
          map_sum id (apsnd (\<lambda>(visible, records, base, db1). (base, db1)))
            (project_threads fe cfg d owner epoch now 0 (take 500 candidates)
              (visible_thread_count db owner, total_thread_count db owner, thread_bindings db, db)))"

section \<open>Effect of an acknowledged command on its binding\<close>

fun running_turn :: "(json \<Rightarrow> ustr) \<Rightarrow> json list \<Rightarrow> ustr option" where
  "running_turn pystr [] = None"
| "running_turn pystr (JObj t # turns) =
     (if wire_thread_status pystr (dict_get t (u ''status'')) \<noteq> RUNNING then running_turn pystr turns
      else case extract_string (JObj t) [''id'', ''turnId'', ''turn_id''] of
        Some i \<Rightarrow> Some i
      | None \<Rightarrow> running_turn pystr turns)"
| "running_turn pystr (_ # turns) = running_turn pystr turns"

definition read_status :: "(json \<Rightarrow> ustr) \<Rightarrow> dict \<Rightarrow> thread_binding \<Rightarrow> thread_binding" where
  "read_status pystr result b =
     (let thread = (case dict_get result (u ''thread'') of Some (JObj t) \<Rightarrow> t | _ \<Rightarrow> result) in
      case dict_get thread (u ''status'') of
        None \<Rightarrow> b
      | Some s \<Rightarrow>
          let status = wire_thread_status pystr (Some s) in
          b\<lparr>thr_status := status,
            thr_active_turn_id := (if status = RUNNING
              then case dict_get thread (u ''turns'') of
                  Some (JArr turns) \<Rightarrow> running_turn pystr (rev turns)
                | _ \<Rightarrow> None
              else None)\<rparr>)"

text \<open>\<open>payload.result\<close>, with JSON null as \<open>None\<close>.\<close>

definition result_value :: "command_ack_payload \<Rightarrow> json option" where
  "result_value p = (if ca_result p = Some JNull then None else ca_result p)"

definition result_string :: "command_ack_payload \<Rightarrow> string list \<Rightarrow> ustr option" where
  "result_string p keys = (case result_value p of None \<Rightarrow> None | Some j \<Rightarrow> extract_string j keys)"

definition apply_command_to_binding ::
  "frame_env \<Rightarrow> settings \<Rightarrow> datetime \<Rightarrow> thread_binding \<Rightarrow> command \<Rightarrow> command_ack_payload \<Rightarrow> ustr
     \<Rightarrow> realtime_error + thread_binding" where
  "apply_command_to_binding fe cfg now b c p epoch =
     (if cmd_status c \<in> {FAILED, DENIED, EXPIRED}
      then Inr (b\<lparr>thr_status := THREAD_FAILED,
        thr_last_error := (if truthy (cmd_error_message c) then cmd_error_message c else map_option u (cmd_error_code c))\<rparr>)
      else if cmd_status c \<noteq> SUCCEEDED then Inr b
      else if cmd_method c = ''thread/start''
      then Inr (b\<lparr>thr_remote_thread_id := (case result_string p [''threadId'', ''thread_id'', ''id''] of
            None \<Rightarrow> thr_remote_thread_id b | Some i \<Rightarrow> Some i),
          thr_status := IDLE, thr_appserver_epoch := epoch\<rparr>)
      else if cmd_method c = ''thread/read''
      then (case result_value p of
          Some (JObj result) \<Rightarrow>
            (case snapshot_from_result fe cfg now result (thr_snapshot b) of
               Inl e \<Rightarrow> Inl e
             | Inr snapshot \<Rightarrow> Inr (read_status (fe_pystr fe) result (b\<lparr>thr_snapshot := snapshot\<rparr>)))
        | _ \<Rightarrow> Inr b)
      else if cmd_method c = ''thread/resume'' then Inr (b\<lparr>thr_status := IDLE, thr_appserver_epoch := epoch\<rparr>)
      else if cmd_method c = ''turn/start''
      then Inr (b\<lparr>thr_status := RUNNING, thr_active_turn_id := result_string p [''turnId'', ''turn_id'', ''id'']\<rparr>)
      else if cmd_method c = ''turn/interrupt'' then Inr (b\<lparr>thr_status := IDLE, thr_active_turn_id := None\<rparr>)
      else Inr b)"

end
