(* ===== verification/Frames.thy ===== *)
theory Frames
  imports Projection
begin

text \<open>
  The frames of a connected device (\<open>realtime.py\<close>): acknowledgements of commands, events, approval
  requests and error reports, the ordered intake that applies each frame exactly once, and one turn
  of the receive loop.  A frame is one transaction: an error leaves the database as it was.
\<close>

section \<open>Shared steps\<close>

definition update_device :: "uuid \<Rightarrow> (device \<Rightarrow> device) \<Rightarrow> database \<Rightarrow> database" where
  "update_device i f db = db\<lparr>devices := update_where (\<lambda>x. dev_id x = i) f (devices db)\<rparr>"

definition owned_device :: "socket_connection \<Rightarrow> database \<Rightarrow> device option" where
  "owned_device conn db = scalar (\<lambda>d. dev_id d = sk_device_id conn
     \<and> dev_owner_user_id d = sk_owner_user_id conn) (devices db)"

definition device_audit ::
  "datetime \<Rightarrow> socket_connection \<Rightarrow> string \<Rightarrow> audit_outcome \<Rightarrow> string \<Rightarrow> ustr \<Rightarrow> dict \<Rightarrow> audit_event" where
  "device_audit now conn action outcome resource_type resource_id details =
     \<lparr>aud_actor_user_id = Some (sk_owner_user_id conn), aud_actor_session_id = None,
      aud_actor_device_id = Some (sk_device_id conn), aud_action = action, aud_outcome = outcome,
      aud_resource_type = Some resource_type, aud_resource_id = Some resource_id,
      aud_request_id = None, aud_source_ip = None, aud_user_agent = None, aud_details = details,
      aud_created_at = now\<rparr>"

text \<open>The durable effect of a frame: browser events, approvals whose denial is to be dispatched, database.\<close>

type_synonym frame_result = "realtime_error + browser_event list \<times> uuid list \<times> database"

definition announce :: "datetime \<Rightarrow> event_spec list \<Rightarrow> uuid list \<Rightarrow> database \<Rightarrow> frame_result" where
  "announce now specs denied db =
     (case append_all event_append now specs db of
        Inl e \<Rightarrow> Inl (Stream_Error e)
      | Inr (events, db') \<Rightarrow> Inr (events, denied, db'))"

definition binding_events :: "socket_connection \<Rightarrow> uuid list \<Rightarrow> database \<Rightarrow> event_spec list" where
  "binding_events conn ids db =
     map (thread_event (sk_owner_user_id conn) (sk_device_id conn))
       (List.map_filter (\<lambda>i. scalar (\<lambda>b. thr_id b = i) (thread_bindings db)) ids)"

section \<open>Acknowledgement of a command\<close>

definition ack_status :: "string \<Rightarrow> command_status" where
  "ack_status state =
     (if state \<in> {''accepted'', ''running''} then ACKNOWLEDGED
      else if state = ''completed'' then SUCCEEDED
      else if state = ''failed'' then FAILED
      else if state = ''expired'' then EXPIRED
      else DENIED)"

definition refinable :: "command \<Rightarrow> command_ack_payload \<Rightarrow> bool" where
  "refinable c p \<longleftrightarrow> cmd_status c = FAILED \<and> cmd_error_code c = Some ''epoch_replaced_indeterminate''
     \<and> ca_state p \<in> {''completed'', ''failed'', ''expired'', ''denied''}"

definition refined_command :: "datetime \<Rightarrow> command_ack_payload \<Rightarrow> command \<Rightarrow> command" where
  "refined_command now p c = c\<lparr>cmd_status := ack_status (ca_state p), cmd_completed_at := Some now,
     cmd_result := result_value p, cmd_error_code := map_option pe_code (ca_error p),
     cmd_error_message := map_option pe_message (ca_error p)\<rparr>"

definition refine_audit ::
  "datetime \<Rightarrow> socket_connection \<Rightarrow> ustr \<Rightarrow> command_ack_payload \<Rightarrow> command \<Rightarrow> audit_event" where
  "refine_audit now conn epoch p c =
     device_audit now conn ''command.epoch_terminal_refine''
       (if cmd_status (refined_command now p c) = SUCCEEDED then AUDIT_SUCCEEDED else AUDIT_FAILED)
       ''command'' (uuid_str (cmd_id c))
       [(u ''epoch'', JStr epoch), (u ''state'', JStr (u (ca_state p))),
        (u ''previous_error_code'', opt_text (map_option u (cmd_error_code c)))]"

definition refine_command ::
  "datetime \<Rightarrow> socket_connection \<Rightarrow> ustr \<Rightarrow> command_ack_payload \<Rightarrow> command \<Rightarrow> database \<Rightarrow> frame_result" where
  "refine_command now conn epoch p c db =
     (if refinable c p
      then announce now [command_event (refined_command now p c)] []
        (add_audit (refine_audit now conn epoch p c) (put_command (refined_command now p c) db))
      else Inr ([], [], db))"

definition acknowledged_command :: "datetime \<Rightarrow> command_ack_payload \<Rightarrow> command \<Rightarrow> command" where
  "acknowledged_command now p c =
     (let c1 = c\<lparr>cmd_status := ack_status (ca_state p)\<rparr>;
          c2 = (if ca_state p \<in> {''accepted'', ''running''} then c1\<lparr>cmd_acknowledged_at := Some now\<rparr>
            else c1\<lparr>cmd_completed_at := Some now\<rparr>);
          c3 = c2\<lparr>cmd_result := result_value p\<rparr>
      in case ca_error p of
           None \<Rightarrow> c3
         | Some e \<Rightarrow> c3\<lparr>cmd_error_code := Some (pe_code e), cmd_error_message := Some (pe_message e)\<rparr>)"

text \<open>The result of \<open>model/list\<close> and \<open>thread/list\<close>: the identifiers of the listed bindings, the rows of the
  last flush and the database.\<close>

definition project_result ::
  "frame_env \<Rightarrow> settings \<Rightarrow> datetime \<Rightarrow> socket_connection \<Rightarrow> device \<Rightarrow> ustr \<Rightarrow> command_ack_payload \<Rightarrow> command
     \<Rightarrow> database \<Rightarrow> realtime_error + uuid list \<times> thread_binding list \<times> database" where
  "project_result fe cfg now conn d epoch p c db =
     (let result = (case result_value p of None \<Rightarrow> JNull | Some j \<Rightarrow> j);
          db1 = (if cmd_method c = ''model/list'' \<and> cmd_status c = SUCCEEDED
            then update_device (dev_id d) (\<lambda>x. x\<lparr>dev_model_catalog := bounded_model_catalog (fe_valid_text fe) result cfg,
              dev_model_catalog_updated_at := Some now\<rparr>) db
            else db)
      in if cmd_method c = ''thread/list'' \<and> cmd_status c = SUCCEEDED
         then project_thread_list fe cfg d (sk_owner_user_id conn) epoch result now db1
         else Inr ([], thread_bindings db1, db1))"

definition resume_migrates_epoch :: "command \<Rightarrow> thread_binding \<Rightarrow> bool" where
  "resume_migrates_epoch c b \<longleftrightarrow> cmd_method c = ''thread/resume'' \<and> cmd_status c = SUCCEEDED
     \<and> (case dict_get (cmd_payload c) (u ''threadId'') of
          None \<Rightarrow> thr_remote_thread_id b = None
        | Some JNull \<Rightarrow> thr_remote_thread_id b = None
        | Some (JStr s) \<Rightarrow> thr_remote_thread_id b = Some s
        | _ \<Rightarrow> False)"

definition acknowledge_binding ::
  "frame_env \<Rightarrow> settings \<Rightarrow> datetime \<Rightarrow> ustr \<Rightarrow> command_ack_payload \<Rightarrow> command \<Rightarrow> database
     \<Rightarrow> realtime_error + uuid list \<times> database" where
  "acknowledge_binding fe cfg now epoch p c db =
     (case command_binding c db of
        None \<Rightarrow> Inr ([], db)
      | Some b \<Rightarrow>
          if thr_appserver_epoch b = epoch \<or> resume_migrates_epoch c b
          then (case apply_command_to_binding fe cfg now b c p epoch of
              Inl e \<Rightarrow> Inl e
            | Inr b' \<Rightarrow>
                (case ensure_thread_projection_fits (fe_fmt fe) b' of
                   Some e \<Rightarrow> Inl (projection_failure e)
                 | None \<Rightarrow> Inr ([thr_id b], put_binding b' db)))
          else Inr ([], db))"

definition acknowledge_command ::
  "frame_env \<Rightarrow> settings \<Rightarrow> datetime \<Rightarrow> socket_connection \<Rightarrow> device \<Rightarrow> ustr \<Rightarrow> command_ack_payload \<Rightarrow> command
     \<Rightarrow> database \<Rightarrow> frame_result" where
  "acknowledge_command fe cfg now conn d epoch p c db =
     (if cmd_status c \<in> {SUCCEEDED, FAILED, DENIED, CANCELLED, EXPIRED} then Inr ([], [], db)
      else let c' = acknowledged_command now p c in
        (case project_result fe cfg now conn d epoch p c' (put_command c' db) of
           Inl e \<Rightarrow> Inl e
         | Inr (listed, base, db1) \<Rightarrow>
             (case acknowledge_binding fe cfg now epoch p c' db1 of
                Inl e \<Rightarrow> Inl e
              | Inr (changed, db2) \<Rightarrow>
                  (case flush_bindings now base db2 of
                     Inl e \<Rightarrow> Inl e
                   | Inr db3 \<Rightarrow>
                       announce now (command_event c' # binding_events conn (changed @ listed) db3) [] db3))))"

definition apply_command_ack_tx ::
  "frame_env \<Rightarrow> settings \<Rightarrow> datetime \<Rightarrow> socket_connection \<Rightarrow> control_envelope \<Rightarrow> database \<Rightarrow> frame_result" where
  "apply_command_ack_tx fe cfg now conn env db =
     (case validate_command_ack (env_payload env) of
        None \<Rightarrow> Inl Wire_Validation_Error
      | Some p \<Rightarrow>
     (case owned_device conn db of
        None \<Rightarrow> Inr ([], [], db)
      | Some d \<Rightarrow>
          let db1 = snd (lock_owner_cursor (sk_owner_user_id conn) db) in
     (case scalar (\<lambda>c. cmd_id c = ca_command_id p \<and> cmd_device_id c = sk_device_id conn
          \<and> cmd_owner_user_id c = sk_owner_user_id conn) (commands db1) of
        None \<Rightarrow> Inr ([], [], db1)
      | Some c \<Rightarrow>
          if cmd_appserver_epoch c \<noteq> Some (env_epoch env)
          then Inl (Protocol_Error ''command acknowledgement belongs to a stale epoch'')
          else if env_epoch env \<noteq> sk_epoch conn then refine_command now conn (env_epoch env) p c db1
          else acknowledge_command fe cfg now conn d (env_epoch env) p c db1)))"

section \<open>Events of the app-server\<close>

definition ALLOWED_DEVICE_EVENTS :: "string list" where
  "ALLOWED_DEVICE_EVENTS = [''thread/status/changed'', ''thread/name/updated'', ''turn/started'',
     ''turn/completed'', ''turn/plan/updated'', ''item/agentMessage/delta'', ''error'']"

text \<open>The changed binding, the type of the browser event, its data when it is not that of the thread, and
  the completed turn.\<close>

definition apply_event ::
  "frame_env \<Rightarrow> settings \<Rightarrow> datetime \<Rightarrow> device_event_payload \<Rightarrow> thread_binding
     \<Rightarrow> realtime_error + thread_binding \<times> string \<times> dict option \<times> ustr option" where
  "apply_event fe cfg now ev b =
     (let params = JObj (de_params ev); is = (\<lambda>name. de_method ev = u name) in
      if is ''thread/name/updated''
      then Inr (case extract_string params [''name'', ''title''] of
            None \<Rightarrow> b
          | Some title \<Rightarrow>
              let short = take 255 (py_strip title) in if short = [] then b else b\<lparr>thr_title := short\<rparr>,
          ''thread.updated'', None, None)
      else if is ''thread/status/changed''
      then Inr (case thread_status (extract_string params [''status'']) of
            None \<Rightarrow> b
          | Some s \<Rightarrow> b\<lparr>thr_status := s\<rparr>, ''thread.updated'', None, None)
      else if is ''turn/started''
      then Inr (b\<lparr>thr_status := RUNNING,
          thr_active_turn_id := extract_string params [''turnId'', ''turn_id'', ''id'']\<rparr>, ''thread.updated'', None, None)
      else if is ''turn/completed''
      then Inr (b\<lparr>thr_status := IDLE, thr_active_turn_id := None\<rparr>, ''turn.completed'', None,
          case extract_string params [''turnId'', ''turn_id'', ''id''] of
            None \<Rightarrow> thr_active_turn_id b
          | Some i \<Rightarrow> Some i)
      else if is ''item/agentMessage/delta''
      then (case append_delta fe cfg now b (de_params ev) of
            Inl e \<Rightarrow> Inl e
          | Inr None \<Rightarrow> Inr (b, ''thread.updated'', None, None)
          | Inr (Some (b', message_id, delta)) \<Rightarrow>
              Inr (b', ''turn.delta'', Some [(u ''thread_id'', JStr (uuid_str (thr_id b))),
                (u ''device_id'', JStr (uuid_str (thr_device_id b))), (u ''message_id'', JStr message_id),
                (u ''delta'', JStr delta)], None))
      else if is ''error''
      then Inr (b\<lparr>thr_status := THREAD_FAILED, thr_last_error := extract_string params [''message'', ''error'']\<rparr>,
          ''thread.updated'', None, None)
      else Inr (b, ''thread.updated'', None, None))"

definition event_dict :: "(datetime \<Rightarrow> ustr) \<Rightarrow> ustr \<Rightarrow> ustr option \<Rightarrow> thread_binding \<Rightarrow> dict" where
  "event_dict fmt name turn b =
     (let t = thread_summary b in
      [(u ''id'', JStr (uuid_str (thr_id b))), (u ''thread_id'', JStr (uuid_str (thr_id b))),
       (u ''device_id'', JStr (uuid_str (thr_device_id b))), (u ''title'', JStr (thr_title b)),
       (u ''cwd'', JStr (or_empty (thr_cwd b))), (u ''model'', JStr (thr_model b)),
       (u ''updated_at'', JStr (fmt (thr_updated_at b))),
       (u ''status'', JStr (u (thread_status_value (ts_status t)))), (u ''method'', JStr name)]
      @ (if truthy turn then [(u ''turn_id'', JStr (or_empty turn))] else []))"

definition event_binding :: "socket_connection \<Rightarrow> ustr \<Rightarrow> device_event_payload \<Rightarrow> database \<Rightarrow> thread_binding option" where
  "event_binding conn epoch ev db =
     (case extract_string (JObj (de_params ev)) [''threadId'', ''thread_id''] of
        None \<Rightarrow> None
      | Some remote_id \<Rightarrow> scalar (\<lambda>b. thr_device_id b = sk_device_id conn
          \<and> thr_owner_user_id b = sk_owner_user_id conn \<and> thr_remote_thread_id b = Some remote_id
          \<and> thr_appserver_epoch b = epoch) (thread_bindings db))"

definition apply_device_event_tx ::
  "frame_env \<Rightarrow> settings \<Rightarrow> datetime \<Rightarrow> socket_connection \<Rightarrow> control_envelope \<Rightarrow> database \<Rightarrow> frame_result" where
  "apply_device_event_tx fe cfg now conn env db =
     (case validate_device_event (env_payload env) of
        None \<Rightarrow> Inl Wire_Validation_Error
      | Some ev \<Rightarrow>
          if de_method ev \<notin> set (map u ALLOWED_DEVICE_EVENTS)
          then Inl (Protocol_Error ''device event method is not allowlisted'')
          else
     (case owned_device conn db of
        None \<Rightarrow> Inr ([], [], db)
      | Some d \<Rightarrow>
          let db1 = snd (lock_owner_cursor (sk_owner_user_id conn) db) in
     (case event_binding conn (env_epoch env) ev db1 of
        None \<Rightarrow> Inr ([], [], db1)
      | Some b \<Rightarrow>
     (case apply_event fe cfg now ev b of
        Inl e \<Rightarrow> Inl e
      | Inr (b1, browser_type, data, turn) \<Rightarrow>
          let b2 = b1\<lparr>thr_updated_at := now\<rparr> in
     (case ensure_thread_projection_fits (fe_fmt fe) b2 of
        Some e \<Rightarrow> Inl (projection_failure e)
      | None \<Rightarrow>
     (case flush_bindings now (thread_bindings db1) (put_binding b2 db1) of
        Inl e \<Rightarrow> Inl e
      | Inr db2 \<Rightarrow>
     (case event_append now (sk_owner_user_id conn) (sk_device_id conn) browser_type
          (EventDict (case data of None \<Rightarrow> event_dict (fe_fmt fe) (de_method ev) turn b2 | Some x \<Rightarrow> x))
          (Some (thr_id b)) (Some (env_sent_at env)) db2 of
        Inl e \<Rightarrow> Inl (Stream_Error e)
      | Inr (event, db3) \<Rightarrow> Inr ([event], [], db3))))))))"

section \<open>Approval requests\<close>

definition approval_request_hash :: "frame_env \<Rightarrow> approval_request_payload \<Rightarrow> ustr" where
  "approval_request_hash fe p =
     fe_sha fe (dumps True (sort_keys (JObj [(u ''command_id'', JStr (ar_command_id p)),
       (u ''kind'', JStr (u (ar_kind p))), (u ''summary'', JStr (ar_summary p)),
       (u ''details'', JObj (ar_details p)), (u ''expires_at'', JStr (fe_fmt fe (ar_expires_at p)))])))"

definition requested_expiry :: "settings \<Rightarrow> datetime \<Rightarrow> approval_request_payload \<Rightarrow> datetime" where
  "requested_expiry cfg now p = min (ar_expires_at p) (now + seconds (int (approval_ttl_seconds cfg)))"

definition requested_command ::
  "frame_env \<Rightarrow> socket_connection \<Rightarrow> ustr \<Rightarrow> approval_request_payload \<Rightarrow> database \<Rightarrow> command option" where
  "requested_command fe conn epoch p db =
     (case fe_uuid fe (ar_command_id p) of
        None \<Rightarrow> None
      | Some i \<Rightarrow> scalar (\<lambda>c. cmd_id c = i \<and> cmd_device_id c = sk_device_id conn
          \<and> cmd_appserver_epoch c = Some epoch) (commands db))"

text \<open>The row as it is built, and the row that is stored when its item is too large.\<close>

definition built_approval ::
  "frame_env \<Rightarrow> settings \<Rightarrow> datetime \<Rightarrow> socket_connection \<Rightarrow> ustr \<Rightarrow> approval_request_payload \<Rightarrow> command option
     \<Rightarrow> string option \<Rightarrow> approval" where
  "built_approval fe cfg now conn epoch p c denial =
     (let expiry = requested_expiry cfg now p in
      \<lparr>apv_id = ar_approval_id p, apv_owner_user_id = sk_owner_user_id conn,
       apv_device_id = sk_device_id conn, apv_command_id = map_option cmd_id c,
       apv_external_command_id = (if denial = None then Some (ar_command_id p) else None),
       apv_decided_by_session_id = None, apv_approval_kind = ar_kind p,
       apv_summary = (if denial = None then ar_summary p else u ''Approval denied''),
       apv_request = (if denial = None then ar_details p else []),
       apv_request_hash = approval_request_hash fe p,
       apv_status = (if denial = None then APPROVAL_PENDING else APPROVAL_DENIED),
       apv_appserver_epoch = epoch, apv_requested_at = now,
       apv_expires_at = (if expiry > now then expiry else now + 1),
       apv_decided_at = (if denial = None then None else Some now),
       apv_decision_dispatched_at = None, apv_decision_reason = denial\<rparr>)"

definition request_denial ::
  "settings \<Rightarrow> datetime \<Rightarrow> socket_connection \<Rightarrow> approval_request_payload \<Rightarrow> database \<Rightarrow> string option" where
  "request_denial cfg now conn p db =
     (if requested_expiry cfg now p \<le> now then Some ''expired_on_arrival_default_deny''
      else approval_capacity_denial_reason_locked cfg (sk_owner_user_id conn) (sk_device_id conn) now db)"

text \<open>The approval that is stored, with the final denial.\<close>

definition stored_approval ::
  "frame_env \<Rightarrow> settings \<Rightarrow> datetime \<Rightarrow> socket_connection \<Rightarrow> device \<Rightarrow> ustr \<Rightarrow> approval_request_payload
     \<Rightarrow> command option \<Rightarrow> database \<Rightarrow> realtime_error + approval" where
  "stored_approval fe cfg now conn d epoch p c db =
     (let denial = request_denial cfg now conn p db;
          a = built_approval fe cfg now conn epoch p c denial
      in if denial \<noteq> None then Inr a
         else case ensure_approval_projection_fits (fe_fmt fe) a d of
             None \<Rightarrow> Inr a
           | Some (Owner_Capacity_Exceeded code) \<Rightarrow> Inr (a\<lparr>apv_status := APPROVAL_DENIED,
               apv_decided_at := Some now, apv_decision_reason := Some ''approval_size_default_deny'',
               apv_external_command_id := None, apv_summary := u ''Approval denied'', apv_request := []\<rparr>)
           | Some e \<Rightarrow> Inl Wire_Validation_Error)"

definition request_audit ::
  "datetime \<Rightarrow> socket_connection \<Rightarrow> ustr \<Rightarrow> approval_request_payload \<Rightarrow> string option \<Rightarrow> audit_event" where
  "request_audit now conn epoch p denial =
     device_audit now conn ''approval.request'' (if denial = None then AUDIT_SUCCEEDED else AUDIT_DENIED)
       ''approval'' (uuid_str (ar_approval_id p))
       [(u ''kind'', JStr (u (ar_kind p))), (u ''epoch'', JStr epoch),
        (u ''default_deny_reason'', opt_text (map_option u denial))]"

text \<open>The thread of a pending request waits for the approval.\<close>

definition waiting_binding :: "ustr \<Rightarrow> command option \<Rightarrow> database \<Rightarrow> thread_binding option" where
  "waiting_binding epoch c db =
     (case Option.bind c cmd_thread_binding_id of
        None \<Rightarrow> None
      | Some i \<Rightarrow>
          (case scalar (\<lambda>b. thr_id b = i) (thread_bindings db) of
             None \<Rightarrow> None
           | Some b \<Rightarrow> if thr_appserver_epoch b = epoch then Some (b\<lparr>thr_status := WAITING_FOR_APPROVAL\<rparr>) else None))"

definition record_approval ::
  "frame_env \<Rightarrow> settings \<Rightarrow> datetime \<Rightarrow> socket_connection \<Rightarrow> device \<Rightarrow> ustr \<Rightarrow> approval_request_payload \<Rightarrow> database
     \<Rightarrow> frame_result" where
  "record_approval fe cfg now conn d epoch p db =
     (let c = requested_command fe conn epoch p db in
      case stored_approval fe cfg now conn d epoch p c db of
        Inl e \<Rightarrow> Inl e
      | Inr a \<Rightarrow>
          let denial = apv_decision_reason a;
              waiting = (if denial = None then waiting_binding epoch c db else None);
              db1 = db\<lparr>approvals := approvals db @ [a]\<rparr>;
              db2 = (case waiting of None \<Rightarrow> db1 | Some b \<Rightarrow> put_binding b db1);
              db3 = add_audit (request_audit now conn epoch p denial) db2
          in (case flush_bindings now (thread_bindings db) db3 of
                Inl e \<Rightarrow> Inl e
              | Inr db4 \<Rightarrow>
                  announce now
                    ((sk_owner_user_id conn, sk_device_id conn,
                      (if denial = None then ''approval.created'' else ''approval.resolved''),
                      (if denial = None then ApprovalItemData (approval_item_of a d)
                       else ApprovalResolvedData (apv_id a) ''deny'' denial), None)
                     # binding_events conn (case waiting of None \<Rightarrow> [] | Some b \<Rightarrow> [thr_id b]) db4)
                    (if denial = None then [] else [apv_id a]) db4))"

definition apply_approval_request_tx ::
  "frame_env \<Rightarrow> settings \<Rightarrow> datetime \<Rightarrow> socket_connection \<Rightarrow> control_envelope \<Rightarrow> database \<Rightarrow> frame_result" where
  "apply_approval_request_tx fe cfg now conn env db =
     (case validate_approval_request (fe_lib fe) (env_payload env) of
        None \<Rightarrow> Inl Wire_Validation_Error
      | Some p \<Rightarrow>
     (case owned_device conn db of
        None \<Rightarrow> Inl (Protocol_Error ''approval device is unavailable'')
      | Some d \<Rightarrow>
          let db1 = snd (lock_owner_cursor (sk_owner_user_id conn) db) in
     (case scalar (\<lambda>a. apv_id a = ar_approval_id p) (approvals db1) of
        Some a \<Rightarrow>
          if apv_device_id a \<noteq> sk_device_id conn \<or> apv_appserver_epoch a \<noteq> env_epoch env
          then Inl (Protocol_Error ''approval id was replayed across devices or epochs'')
          else if apv_request_hash a \<noteq> approval_request_hash fe p
          then Inl (Protocol_Error ''approval id was replayed with a different request'')
          else Inr ([], [], db1)
      | None \<Rightarrow>
          (case ensure_approval_record_capacity_locked cfg (sk_owner_user_id conn) (sk_device_id conn) db1 of
             Some e \<Rightarrow> Inl (projection_failure e)
           | None \<Rightarrow> record_approval fe cfg now conn d (env_epoch env) p db1))))"

section \<open>Any frame\<close>

definition protocol_error_audit ::
  "datetime \<Rightarrow> socket_connection \<Rightarrow> control_envelope \<Rightarrow> protocol_error_payload \<Rightarrow> audit_event" where
  "protocol_error_audit now conn env p =
     device_audit now conn ''device.protocol_error'' AUDIT_FAILED ''device_connection'' (sk_connection_nonce conn)
       [(u ''epoch'', JStr (env_epoch env)), (u ''code'', JStr (u (pe_code p))),
        (u ''message'', JStr (pe_message p)), (u ''retryable'', JBool (pe_retryable p))]"

definition unsupported_frame :: "control_envelope \<Rightarrow> realtime_error" where
  "unsupported_frame env =
     (if env_type env = ''hello'' then Protocol_Error ''hello is only valid as the first frame''
      else Protocol_Error (''unsupported device frame '' @ env_type env))"

definition apply_stale_device_frame_tx ::
  "frame_env \<Rightarrow> settings \<Rightarrow> datetime \<Rightarrow> socket_connection \<Rightarrow> control_envelope \<Rightarrow> database \<Rightarrow> frame_result" where
  "apply_stale_device_frame_tx fe cfg now conn env db =
     (let checked = (\<lambda>ok. if ok then Inr ([], [], db) else Inl Wire_Validation_Error) in
      if env_type env = ''command_ack'' then apply_command_ack_tx fe cfg now conn env db
      else if env_type env = ''heartbeat'' then checked (validate_heartbeat (env_payload env) \<noteq> None)
      else if env_type env = ''heartbeat_ack'' then Inr ([], [], db)
      else if env_type env = ''event''
      then (case validate_device_event (env_payload env) of
          None \<Rightarrow> Inl Wire_Validation_Error
        | Some ev \<Rightarrow>
            if de_method ev \<notin> set (map u ALLOWED_DEVICE_EVENTS)
            then Inl (Protocol_Error ''device event method is not allowlisted'')
            else Inr ([], [], db))
      else if env_type env = ''approval_request''
      then checked (validate_approval_request (fe_lib fe) (env_payload env) \<noteq> None)
      else if env_type env = ''error'' then checked (validate_protocol_error (env_payload env) \<noteq> None)
      else Inl (unsupported_frame env))"

definition apply_device_frame_tx ::
  "frame_env \<Rightarrow> settings \<Rightarrow> datetime \<Rightarrow> socket_connection \<Rightarrow> control_envelope \<Rightarrow> bool \<Rightarrow> database \<Rightarrow> frame_result" where
  "apply_device_frame_tx fe cfg now conn env stale_replay db =
     (if stale_replay then apply_stale_device_frame_tx fe cfg now conn env db
      else if env_type env = ''heartbeat''
      then (if validate_heartbeat (env_payload env) = None then Inl Wire_Validation_Error else Inr ([], [], db))
      else if env_type env = ''heartbeat_ack'' then Inr ([], [], db)
      else if env_type env = ''command_ack'' then apply_command_ack_tx fe cfg now conn env db
      else if env_type env = ''event'' then apply_device_event_tx fe cfg now conn env db
      else if env_type env = ''approval_request'' then apply_approval_request_tx fe cfg now conn env db
      else if env_type env = ''error''
      then (case validate_protocol_error (env_payload env) of
          None \<Rightarrow> Inl Wire_Validation_Error
        | Some p \<Rightarrow> Inr ([], [], add_audit (protocol_error_audit now conn env p) db))
      else Inl (unsupported_frame env))"

section \<open>What the steps keep\<close>

text \<open>A device without the columns that frames may change.\<close>

definition device_rest :: "device \<Rightarrow> device" where
  "device_rest d = d\<lparr>dev_last_event_sequence := 0, dev_model_catalog := [], dev_model_catalog_updated_at := None\<rparr>"

definition frame_keeps :: "database \<Rightarrow> database \<Rightarrow> bool" where
  "frame_keeps db db' \<longleftrightarrow> (events_wf db \<longrightarrow> events_wf db') \<and> device_outboxes db' = device_outboxes db
     \<and> device_connections db' = device_connections db \<and> control_sessions db' = control_sessions db
     \<and> device_pairings db' = device_pairings db
     \<and> map device_rest (devices db') = map device_rest (devices db)
     \<and> (distinct (map thr_id (thread_bindings db)) \<longrightarrow> distinct (map thr_id (thread_bindings db')))"

lemma frame_keeps_refl [simp]: "frame_keeps db db"
  by (simp add: frame_keeps_def)

lemma frame_keeps_trans: "frame_keeps a b \<Longrightarrow> frame_keeps b c \<Longrightarrow> frame_keeps a c"
  by (simp add: frame_keeps_def)

lemma core_rest: "devices (core_of db') = devices (core_of db) \<Longrightarrow>
    map device_rest (devices db') = map device_rest (devices db)"
  by (erule core_map_devices) (simp add: device_rest_def)

lemma work_frame_keeps: "work_effect db db' \<Longrightarrow> frame_keeps db db'"
  using core_rest [of db' db] by (simp add: work_effect_def frame_keeps_def)

definition only_bindings :: "database \<Rightarrow> database \<Rightarrow> bool" where
  "only_bindings db db' \<longleftrightarrow> (\<exists>bs. db' = db\<lparr>thread_bindings := bs\<rparr>
     \<and> (distinct (map thr_id (thread_bindings db)) \<longrightarrow> distinct (map thr_id bs)))"

lemma only_bindings_refl [simp]: "only_bindings db db"
  unfolding only_bindings_def by (rule exI [of _ "thread_bindings db"]) simp

lemma only_bindings_trans: "only_bindings a b \<Longrightarrow> only_bindings b c \<Longrightarrow> only_bindings a c"
  by (auto simp: only_bindings_def)

lemma only_bindings_put [simp]: "only_bindings db (put_binding b db)"
  unfolding only_bindings_def put_binding_def
  by (intro exI conjI, rule refl) (simp add: distinct_update_where_key)

lemma only_bindingsD:
  assumes "only_bindings db db'"
  shows "frame_keeps db db'" "commands db' = commands db" "approvals db' = approvals db"
    "devices db' = devices db"
proof -
  obtain bs where bs: "db' = db\<lparr>thread_bindings := bs\<rparr>"
      "distinct (map thr_id (thread_bindings db)) \<longrightarrow> distinct (map thr_id bs)"
    using assms by (auto simp: only_bindings_def)
  have "events_wf db' = events_wf db" unfolding bs(1) by (rule events_wf_cong) simp_all
  then show "frame_keeps db db'" using bs by (simp add: frame_keeps_def)
qed (use assms in \<open>auto simp: only_bindings_def\<close>)

lemma stamp_id [simp]: "thr_id (stamp_binding now base b) = thr_id b"
  by (simp add: stamp_binding_def split: option.split)

lemma flush_only: "flush_bindings now base db = Inr db' \<Longrightarrow> only_bindings db db'"
  by (auto simp: flush_bindings_def Let_def only_bindings_def comp_def split: if_splits)

lemma add_only: "add_binding b db = Inr db' \<Longrightarrow> only_bindings db db'"
  by (auto simp: add_binding_def only_bindings_def split: if_splits)

lemma project_thread_only:
  assumes "project_thread fe cfg d owner epoch now i raw (v, r, base, db) = Inr (ids, v', r', base', db')"
  shows "only_bindings db db'"
proof -
  have new: "only_bindings db db'" if "project_new fe cfg now b (v, r, base, db) = Inr (ids, v', r', base', db')" for b
  proof -
    have "db' = db \<or> (\<exists>db1. add_binding b db = Inr db1 \<and> flush_bindings now base db1 = Inr db')"
      using that by (auto simp: project_new_def split: if_splits option.splits capacity_error.splits sum.splits)
    then show ?thesis using add_only flush_only only_bindings_trans only_bindings_refl by metis
  qed
  have "only_bindings db db'" if "project_known fe cfg old b (v, r, base, db) = Inr (ids, v', r', base', db')" for old b
    using that by (auto simp: project_known_def Let_def split: if_splits option.splits)
  then show ?thesis
    using assms new by (auto simp: project_thread_def Let_def split: option.splits prod.splits)
qed

lemma project_threads_only:
  "project_threads fe cfg d owner epoch now k raws (v, r, base, db) = Inr (ids, v', r', base', db') \<Longrightarrow>
     only_bindings db db'"
proof (induction raws arbitrary: k v r base db ids)
  case (Cons raw raws)
  obtain ids1 v1 r1 base1 db1 where
      1: "project_thread fe cfg d owner epoch now (fe_fresh_id fe k) raw (v, r, base, db) = Inr (ids1, v1, r1, base1, db1)"
    using Cons.prems by (auto split: sum.splits)
  then obtain ids2 where
      2: "project_threads fe cfg d owner epoch now (k + 1) raws (v1, r1, base1, db1) = Inr (ids2, v', r', base', db')"
    using Cons.prems by (cases "project_threads fe cfg d owner epoch now (k + 1) raws (v1, r1, base1, db1)") auto
  show ?case using only_bindings_trans project_thread_only [OF 1] Cons.IH [OF 2] by blast
qed simp

lemma project_thread_list_only:
  assumes "project_thread_list fe cfg d owner epoch result now db = Inr (ids, base, db')"
  shows "only_bindings db db'"
proof (cases "thread_list_candidates result")
  case (Some cs)
  let ?st = "(visible_thread_count db owner, total_thread_count db owner, thread_bindings db, db)"
  obtain ids' v' r' base' db'' where
    "project_threads fe cfg d owner epoch now 0 (take 500 cs) ?st = Inr (ids', v', r', base', db'')" "db'' = db'"
    using assms Some by (cases "project_threads fe cfg d owner epoch now 0 (take 500 cs) ?st")
      (auto simp: project_thread_list_def)
  then show ?thesis using project_threads_only by blast
qed (use assms in \<open>simp add: project_thread_list_def\<close>)

lemma announce_Inr:
  assumes "announce now specs denied db = Inr (es, den, db')"
  shows "den = denied" "frame_keeps db db'" "core_of db' = core_of db" "length es = length specs"
    "commands db' = commands db" "approvals db' = approvals db" "thread_bindings db' = thread_bindings db"
proof -
  have a: "append_all event_append now specs db = Inr (es, db')" and "den = denied"
    using assms by (auto simp: announce_def split: sum.splits)
  then show "den = denied" by simp
  note k = stream.append_all_keeps [OF a]
  show "core_of db' = core_of db" "length es = length specs" by (rule k(1), rule k(3))
  show "commands db' = commands db" "approvals db' = approvals db" "thread_bindings db' = thread_bindings db"
    using core_ofD [OF k(1)] by simp_all
  show "frame_keeps db db'" by (rule work_frame_keeps [OF append_work_effect [OF a]])
qed

section \<open>Acknowledgements\<close>

lemma catalog_keeps:
  "frame_keeps db (update_device i (\<lambda>x. x\<lparr>dev_model_catalog := c, dev_model_catalog_updated_at := t\<rparr>) db)"
proof -
  let ?db = "update_device i (\<lambda>x. x\<lparr>dev_model_catalog := c, dev_model_catalog_updated_at := t\<rparr>) db"
  have same: "map g (devices ?db) = map g (devices db)"
    if "\<And>d. g (d\<lparr>dev_model_catalog := c, dev_model_catalog_updated_at := t\<rparr>) = g d" for g :: "device \<Rightarrow> 'x"
    using that by (simp add: update_device_def update_where_def)
  have "events_wf ?db = events_wf db"
    by (rule events_wf_cong) (simp_all add: update_device_def update_where_def)
  then show ?thesis
    using same [of device_rest] by (simp add: frame_keeps_def update_device_def device_rest_def)
qed

lemma update_device_simps [simp]:
  "commands (update_device i f db) = commands db" "approvals (update_device i f db) = approvals db"
  "thread_bindings (update_device i f db) = thread_bindings db"
  "device_outboxes (update_device i f db) = device_outboxes db"
  "event_logs (update_device i f db) = event_logs db"
  "event_owner_cursors (update_device i f db) = event_owner_cursors db"
  by (simp_all add: update_device_def)

lemma project_result_Inr:
  assumes "project_result fe cfg now conn d epoch p c db = Inr (ids, base, db')"
  shows "frame_keeps db db'" "commands db' = commands db" "approvals db' = approvals db"
proof -
  define result where "result = (case result_value p of None \<Rightarrow> JNull | Some j \<Rightarrow> j)"
  define db1 where "db1 = (if cmd_method c = ''model/list'' \<and> cmd_status c = SUCCEEDED
    then update_device (dev_id d) (\<lambda>x. x\<lparr>dev_model_catalog := bounded_model_catalog (fe_valid_text fe) result cfg,
      dev_model_catalog_updated_at := Some now\<rparr>) db else db)"
  have 1: "frame_keeps db db1" "commands db1 = commands db" "approvals db1 = approvals db"
    using catalog_keeps by (simp_all add: db1_def)
  have "(if cmd_method c = ''thread/list'' \<and> cmd_status c = SUCCEEDED
      then project_thread_list fe cfg d (sk_owner_user_id conn) epoch result now db1
      else Inr ([], thread_bindings db1, db1)) = Inr (ids, base, db')"
    using assms unfolding project_result_def Let_def db1_def result_def .
  then have "only_bindings db1 db'" using project_thread_list_only by (auto split: if_splits)
  note only_bindingsD [OF this]
  then show "frame_keeps db db'" "commands db' = commands db" "approvals db' = approvals db"
    using 1 frame_keeps_trans by auto
qed

lemma acknowledge_binding_only: "acknowledge_binding fe cfg now epoch p c db = Inr (ids, db') \<Longrightarrow> only_bindings db db'"
  by (auto simp: acknowledge_binding_def split: option.splits if_splits sum.splits)

lemma terminal_iff: "cmd_status c \<in> {SUCCEEDED, FAILED, DENIED, CANCELLED, EXPIRED} \<longleftrightarrow> \<not> outstanding c"
  by (cases "cmd_status c") (simp_all add: outstanding_def)

lemma put_keeps:
  "frame_keeps db (put_command c db)" "frame_keeps db (add_audit a db)"
  "frame_keeps db (snd (lock_owner_cursor owner db))"
  by (rule work_frame_keeps; simp)+

lemma acknowledge_command_Inr:
  assumes "acknowledge_command fe cfg now conn d epoch p c db = Inr (es, den, db')"
  shows "den = []" "frame_keeps db db'" "approvals db' = approvals db"
    "commands db' = (if outstanding c then commands (put_command (acknowledged_command now p c) db) else commands db)"
proof -
  let ?c = "acknowledged_command now p c"
  have "den = [] \<and> frame_keeps db db' \<and> approvals db' = approvals db
    \<and> commands db' = (if outstanding c then commands (put_command ?c db) else commands db)"
  proof (cases "outstanding c")
    case False
    then show ?thesis using assms unfolding acknowledge_command_def terminal_iff by auto
  next
    case True
    obtain ids base db1 ids2 db2 db3 where
        1: "project_result fe cfg now conn d epoch p ?c (put_command ?c db) = Inr (ids, base, db1)"
      and 2: "acknowledge_binding fe cfg now epoch p ?c db1 = Inr (ids2, db2)"
      and 3: "flush_bindings now base db2 = Inr db3"
      and 4: "announce now (command_event ?c # binding_events conn (ids2 @ ids) db3) [] db3 = Inr (es, den, db')"
      using assms True unfolding acknowledge_command_def terminal_iff Let_def by (auto split: sum.splits)
    have "only_bindings db1 db3"
      using only_bindings_trans acknowledge_binding_only [OF 2] flush_only [OF 3] by blast
    note only_bindingsD [OF this] project_result_Inr [OF 1] announce_Inr [OF 4] put_keeps(1) [of db ?c]
    then show ?thesis using True by (auto intro: frame_keeps_trans)
  qed
  then show "den = []" "frame_keeps db db'" "approvals db' = approvals db"
    "commands db' = (if outstanding c then commands (put_command ?c db) else commands db)" by blast+
qed

lemma refine_command_Inr:
  assumes "refine_command now conn epoch p c db = Inr (es, den, db')"
  shows "den = []" "frame_keeps db db'" "approvals db' = approvals db"
    "commands db' = (if refinable c p then commands (put_command (refined_command now p c) db) else commands db)"
proof -
  let ?db = "add_audit (refine_audit now conn epoch p c) (put_command (refined_command now p c) db)"
  have k: "frame_keeps db ?db" using put_keeps frame_keeps_trans by blast
  have "den = [] \<and> frame_keeps db db' \<and> approvals db' = approvals db
    \<and> commands db' = (if refinable c p then commands (put_command (refined_command now p c) db) else commands db)"
  proof (cases "refinable c p")
    case True
    then have "announce now [command_event (refined_command now p c)] [] ?db = Inr (es, den, db')"
      using assms by (simp add: refine_command_def)
    note r = announce_Inr [OF this]
    show ?thesis using True r(1,5,6) frame_keeps_trans [OF k r(2)] by simp
  next
    case False
    then show ?thesis using assms by (simp add: refine_command_def)
  qed
  then show "den = []" "frame_keeps db db'" "approvals db' = approvals db"
    "commands db' = (if refinable c p then commands (put_command (refined_command now p c) db) else commands db)"
    by blast+
qed

text \<open>The command that an acknowledgement names, and what becomes of it.\<close>

definition acknowledges :: "socket_connection \<Rightarrow> command_ack_payload \<Rightarrow> command \<Rightarrow> bool" where
  "acknowledges conn p c \<longleftrightarrow> cmd_id c = ca_command_id p \<and> cmd_device_id c = sk_device_id conn
     \<and> cmd_owner_user_id c = sk_owner_user_id conn"

definition ack_outcome ::
  "datetime \<Rightarrow> socket_connection \<Rightarrow> control_envelope \<Rightarrow> command_ack_payload \<Rightarrow> command \<Rightarrow> command" where
  "ack_outcome now conn env p c =
     (if env_epoch env = sk_epoch conn then (if outstanding c then acknowledged_command now p c else c)
      else if refinable c p then refined_command now p c else c)"

lemma ack_forms [simp]:
  "cmd_base (acknowledged_command now p c) = cmd_base c" "cmd_base (refined_command now p c) = cmd_base c"
  "cmd_status (acknowledged_command now p c) = ack_status (ca_state p)"
  "cmd_id (acknowledged_command now p c) = cmd_id c" "cmd_id (refined_command now p c) = cmd_id c"
  by (auto simp: acknowledged_command_def refined_command_def cmd_base_def Let_def split: option.split)

lemma refined_terminal: "refinable c p \<Longrightarrow> \<not> outstanding (refined_command now p c) \<and> \<not> outstanding c"
  by (auto simp: refinable_def refined_command_def outstanding_def ack_status_def)

lemma ack_outcome_evolves: "cmd_evolves c (ack_outcome now conn env p c)"
  using refined_terminal by (auto simp: ack_outcome_def cmd_evolves_def)

lemma put_command_map:
  assumes "distinct (map cmd_id cs)" "scalar P cs = Some c" "cmd_id (f c) = cmd_id c"
    and "\<And>x. P x \<Longrightarrow> cmd_id x = i"
  shows "update_where (\<lambda>x. cmd_id x = cmd_id (f c)) (\<lambda>_. f c) cs = map (\<lambda>x. if P x then f x else x) cs"
proof -
  have c: "c \<in> set cs" "P c" using scalar_SomeD [OF assms(2)] by auto
  have "(cmd_id x = cmd_id c) = P x \<and> (P x \<longrightarrow> x = c)" if "x \<in> set cs" for x
  proof -
    have "x = c" if "cmd_id x = cmd_id c"
      using assms(1) c(1) that \<open>x \<in> set cs\<close> by (metis distinct_map inj_on_eq_iff)
    then show ?thesis using assms(4) c(2) by metis
  qed
  then show ?thesis using assms(3) by (auto simp: update_where_def)
qed

lemma map_none: "scalar P xs = None \<Longrightarrow> map (\<lambda>x. if P x then f x else x) xs = xs"
  by (induction xs) (auto split: if_splits)

lemma apply_ack_keeps:
  assumes "apply_command_ack_tx fe cfg now conn env db = Inr (es, den, db')"
  shows "den = []" "frame_keeps db db'" "approvals db' = approvals db"
    "\<exists>p. validate_command_ack (env_payload env) = Some p \<and> (distinct (map cmd_id (commands db)) \<longrightarrow>
       commands db' = map (\<lambda>c. if acknowledges conn p c \<and> owned_device conn db \<noteq> None
         then ack_outcome now conn env p c else c) (commands db)
       \<and> (\<forall>c \<in> set (commands db). acknowledges conn p c \<and> owned_device conn db \<noteq> None \<longrightarrow>
            cmd_appserver_epoch c = Some (env_epoch env)))"
proof -
  obtain p where p: "validate_command_ack (env_payload env) = Some p"
    using assms by (auto simp: apply_command_ack_tx_def split: option.splits)
  let ?db1 = "snd (lock_owner_cursor (sk_owner_user_id conn) db)"
  let ?P = "acknowledges conn p"
  define goal where "goal x \<longleftrightarrow> den = [] \<and> frame_keeps db db' \<and> approvals db' = approvals db \<and> (distinct (map cmd_id (commands db)) \<longrightarrow>
      commands db' = map (\<lambda>c. if ?P c \<and> x then ack_outcome now conn env p c else c) (commands db)
      \<and> (\<forall>c \<in> set (commands db). ?P c \<and> x \<longrightarrow> cmd_appserver_epoch c = Some (env_epoch env)))" for x
  have "goal (owned_device conn db \<noteq> None)"
  proof (cases "owned_device conn db")
    case None
    then show ?thesis using assms p by (auto simp: apply_command_ack_tx_def goal_def)
  next
    case d: (Some d)
    show ?thesis
    proof (cases "scalar ?P (commands db)")
      case None
      then have "es = [] \<and> den = [] \<and> db' = ?db1"
        using assms p d by (auto simp: apply_command_ack_tx_def acknowledges_def [abs_def] Let_def)
      then show ?thesis
        using None map_none [OF None] put_keeps(3) [of db] d by (auto simp: goal_def scalar_None_iff)
    next
      case c: (Some c)
      have e: "cmd_appserver_epoch c = Some (env_epoch env)"
        and run: "(if env_epoch env \<noteq> sk_epoch conn then refine_command now conn (env_epoch env) p c ?db1
          else acknowledge_command fe cfg now conn d (env_epoch env) p c ?db1) = Inr (es, den, db')"
        using assms p d c by (auto simp: apply_command_ack_tx_def acknowledges_def [abs_def] Let_def split: if_splits)
      have r: "den = [] \<and> frame_keeps ?db1 db' \<and> approvals db' = approvals db
          \<and> (commands db' = commands (put_command (ack_outcome now conn env p c) db) \<or>
             ack_outcome now conn env p c = c \<and> commands db' = commands db)"
        using run acknowledge_command_Inr [of fe cfg now conn d "env_epoch env" p c ?db1 es den db']
          refine_command_Inr [of now conn "env_epoch env" p c ?db1 es den db']
        by (auto simp: ack_outcome_def put_command_def split: if_splits)
      have one: "commands (put_command (ack_outcome now conn env p c) db) =
            map (\<lambda>c. if ?P c then ack_outcome now conn env p c else c) (commands db)"
          "\<forall>x \<in> set (commands db). ?P x \<longrightarrow> x = c" if "distinct (map cmd_id (commands db))"
      proof -
        show "commands (put_command (ack_outcome now conn env p c) db) =
            map (\<lambda>c. if ?P c then ack_outcome now conn env p c else c) (commands db)"
          unfolding put_command_def
          by (simp, rule put_command_map [OF that c, of "ack_outcome now conn env p" "ca_command_id p"])
            (auto simp: acknowledges_def cmd_evolvesD(1) [OF ack_outcome_evolves])
        show "\<forall>x \<in> set (commands db). ?P x \<longrightarrow> x = c"
          using that scalar_SomeD [OF c] unfolding acknowledges_def by (metis distinct_map inj_on_eq_iff)
      qed
      have idle: "map (\<lambda>x. if ?P x then ack_outcome now conn env p x else x) (commands db) = commands db"
        if "distinct (map cmd_id (commands db))" "ack_outcome now conn env p c = c"
        using one(2) [OF that(1)] that(2) by (intro map_idI) auto
      show ?thesis
        using r one e d idle frame_keeps_trans [OF put_keeps(3)] unfolding goal_def by auto
    qed
  qed
  then show "den = []" "frame_keeps db db'" "approvals db' = approvals db"
    "\<exists>p. validate_command_ack (env_payload env) = Some p \<and> (distinct (map cmd_id (commands db)) \<longrightarrow>
       commands db' = map (\<lambda>c. if acknowledges conn p c \<and> owned_device conn db \<noteq> None
         then ack_outcome now conn env p c else c) (commands db)
       \<and> (\<forall>c \<in> set (commands db). acknowledges conn p c \<and> owned_device conn db \<noteq> None \<longrightarrow>
            cmd_appserver_epoch c = Some (env_epoch env)))"
    using p unfolding goal_def by auto
qed

section \<open>Events and approval requests\<close>

text \<open>Steps that also leave the commands and the approvals alone.\<close>

definition quiet :: "database \<Rightarrow> database \<Rightarrow> bool" where
  "quiet db db' \<longleftrightarrow> frame_keeps db db' \<and> commands db' = commands db \<and> approvals db' = approvals db"

lemma quiet_refl [simp]: "quiet db db"
  by (simp add: quiet_def)

lemma quiet_trans: "quiet a b \<Longrightarrow> quiet b c \<Longrightarrow> quiet a c"
  using frame_keeps_trans by (auto simp: quiet_def)

lemma quiet_steps:
  "quiet db (snd (lock_owner_cursor owner db))" "quiet db (add_audit a db)"
  "only_bindings db db' \<Longrightarrow> quiet db db'"
  "announce now specs denied db = Inr (es, den, db') \<Longrightarrow> quiet db db'"
  using put_keeps only_bindingsD announce_Inr by (auto simp: quiet_def)

lemma emit_quiet:
  assumes "event_append now owner device_id ty data tb oc db = Inr (e, db')"
  shows "quiet db db'"
proof -
  note c = stream.emit_core [OF assms]
  have "frame_keeps db db'"
    by (rule work_frame_keeps [OF work_effect_core [OF c]]) (use stream.emit_ok [OF assms] in simp_all)
  then show ?thesis using core_ofD [OF c] by (simp add: quiet_def)
qed

lemma apply_event_quiet:
  assumes "apply_device_event_tx fe cfg now conn env db = Inr (es, den, db')"
  shows "den = []" "quiet db db'"
proof -
  let ?db1 = "snd (lock_owner_cursor (sk_owner_user_id conn) db)"
  have 1: "den = [] \<and> (db' = db \<or> db' = ?db1 \<or> (\<exists>b db2 ty data tb oc e. flush_bindings now (thread_bindings ?db1) (put_binding b ?db1) = Inr db2
      \<and> event_append now (sk_owner_user_id conn) (sk_device_id conn) ty data tb oc db2 = Inr (e, db')))"
    using assms unfolding apply_device_event_tx_def Let_def
    by (auto split: option.splits if_splits sum.splits prod.splits)
  then show "den = []" by blast
  have "quiet db db'" if "flush_bindings now (thread_bindings ?db1) (put_binding b ?db1) = Inr db2"
      "event_append now (sk_owner_user_id conn) (sk_device_id conn) ty data tb oc db2 = Inr (e, db')" for b db2 ty data tb oc e
    using quiet_steps(1,3) emit_quiet [OF that(2)] flush_only [OF that(1)] only_bindings_trans [OF only_bindings_put]
      quiet_trans by meson
  then show "quiet db db'" using 1 quiet_steps(1) quiet_refl by blast
qed

lemma put_binding_opt: "only_bindings db (case x of None \<Rightarrow> db | Some b \<Rightarrow> put_binding b db)"
  by (simp split: option.split)

lemma append_approval_keeps: "frame_keeps db (db\<lparr>approvals := as\<rparr>)"
  using events_wf_cong [of "db\<lparr>approvals := as\<rparr>" db] by (simp add: frame_keeps_def)

lemma record_approval_Inr:
  assumes "record_approval fe cfg now conn d epoch p db = Inr (es, den, db')"
  obtains a where "stored_approval fe cfg now conn d epoch p (requested_command fe conn epoch p db) db = Inr a"
    "approvals db' = approvals db @ [a]" "frame_keeps db db'" "commands db' = commands db"
    "den = (if apv_decision_reason a = None then [] else [apv_id a])" "es \<noteq> []"
proof -
  let ?c = "requested_command fe conn epoch p db"
  obtain a where a: "stored_approval fe cfg now conn d epoch p ?c db = Inr a"
    using assms by (auto simp: record_approval_def Let_def split: sum.splits)
  let ?w = "if apv_decision_reason a = None then waiting_binding epoch ?c db else None"
  let ?db1 = "db\<lparr>approvals := approvals db @ [a]\<rparr>"
  let ?db2 = "case ?w of None \<Rightarrow> ?db1 | Some b \<Rightarrow> put_binding b ?db1"
  let ?db3 = "add_audit (request_audit now conn epoch p (apv_decision_reason a)) ?db2"
  obtain db4 spec specs where 4: "flush_bindings now (thread_bindings db) ?db3 = Inr db4"
      and 5: "announce now (spec # specs) (if apv_decision_reason a = None then [] else [apv_id a]) db4 = Inr (es, den, db')"
    using assms a by (auto simp: record_approval_def Let_def split: sum.splits)
  have q: "quiet ?db1 db'"
    using quiet_steps(3) [OF put_binding_opt [of ?db1 ?w]] quiet_steps(2) quiet_steps(3) [OF flush_only [OF 4]]
      quiet_steps(4) [OF 5] quiet_trans by blast
  show thesis
  proof (rule that [OF a])
    show "approvals db' = approvals db @ [a]" "commands db' = commands db" using q by (simp_all add: quiet_def)
    show "frame_keeps db db'"
      using frame_keeps_trans [OF append_approval_keeps [of db "approvals db @ [a]"]] q by (simp add: quiet_def)
    show "den = (if apv_decision_reason a = None then [] else [apv_id a])" "es \<noteq> []"
      using announce_Inr(1,4) [OF 5] by auto
  qed
qed

text \<open>The rows that are stored for a request.\<close>

lemma stored_approval_Inr:
  assumes "stored_approval fe cfg now conn d epoch p c db = Inr a"
  shows "apv_id a = ar_approval_id p" "apv_owner_user_id a = sk_owner_user_id conn"
    "apv_device_id a = sk_device_id conn" "apv_appserver_epoch a = epoch"
    "apv_request_hash a = approval_request_hash fe p" "apv_decision_dispatched_at a = None" "approval_ok a"
    "apv_status a = APPROVAL_PENDING \<and> apv_decision_reason a = None \<and> apv_request a = ar_details p
       \<and> apv_summary a = ar_summary p \<and> request_denial cfg now conn p db = None
       \<and> apv_expires_at a = requested_expiry cfg now p
     \<or> apv_status a = APPROVAL_DENIED \<and> apv_request a = [] \<and> apv_summary a = u ''Approval denied''
       \<and> apv_external_command_id a = None
       \<and> (\<exists>r. apv_decision_reason a = Some r \<and> (request_denial cfg now conn p db = Some r
            \<or> request_denial cfg now conn p db = None \<and> r = ''approval_size_default_deny''))"
proof -
  have expiry: "requested_expiry cfg now p > now" if "request_denial cfg now conn p db = None"
    using that by (auto simp: request_denial_def split: if_splits)
  note u = assms [unfolded stored_approval_def Let_def]
  show "apv_id a = ar_approval_id p" "apv_owner_user_id a = sk_owner_user_id conn"
    "apv_device_id a = sk_device_id conn" "apv_appserver_epoch a = epoch"
    "apv_request_hash a = approval_request_hash fe p" "apv_decision_dispatched_at a = None" "approval_ok a"
    using u by (auto simp: built_approval_def Let_def approval_ok_def split: if_splits option.splits capacity_error.splits)
  show "apv_status a = APPROVAL_PENDING \<and> apv_decision_reason a = None \<and> apv_request a = ar_details p
       \<and> apv_summary a = ar_summary p \<and> request_denial cfg now conn p db = None
       \<and> apv_expires_at a = requested_expiry cfg now p
     \<or> apv_status a = APPROVAL_DENIED \<and> apv_request a = [] \<and> apv_summary a = u ''Approval denied''
       \<and> apv_external_command_id a = None
       \<and> (\<exists>r. apv_decision_reason a = Some r \<and> (request_denial cfg now conn p db = Some r
            \<or> request_denial cfg now conn p db = None \<and> r = ''approval_size_default_deny''))"
    using u expiry by (auto simp: built_approval_def Let_def split: if_splits option.splits capacity_error.splits)
qed

definition pending_on :: "datetime \<Rightarrow> uuid \<Rightarrow> approval list \<Rightarrow> nat" where
  "pending_on now i as = count_where (\<lambda>a. apv_device_id a = i \<and> apv_status a = APPROVAL_PENDING
     \<and> apv_expires_at a > now) as"

lemma count_where_append: "count_where P (xs @ ys) = count_where P xs + count_where P ys"
  by (induction xs) auto

lemma scalar_absent: "scalar (\<lambda>a. f a = i) xs = None \<longleftrightarrow> i \<notin> set (map f xs)"
  by (induction xs) auto

lemma request_none: "request_denial cfg now conn p db = None \<Longrightarrow>
    now < requested_expiry cfg now p \<and> pending_on now (sk_device_id conn) (approvals db) < device_max_pending_approvals cfg"
  by (auto simp: request_denial_def approval_capacity_denial_reason_locked_def pending_on_def split: if_splits)

lemma approval_request_Inr:
  assumes "apply_approval_request_tx fe cfg now conn env db = Inr (es, den, db')"
  obtains (replayed) p a where "validate_approval_request (fe_lib fe) (env_payload env) = Some p"
      "a \<in> set (approvals db)" "apv_id a = ar_approval_id p" "apv_device_id a = sk_device_id conn"
      "apv_appserver_epoch a = env_epoch env" "apv_request_hash a = approval_request_hash fe p"
      "es = []" "den = []" "quiet db db'"
  | (stored) p d a db1 where "validate_approval_request (fe_lib fe) (env_payload env) = Some p"
      "owned_device conn db = Some d" "approvals db1 = approvals db" "commands db1 = commands db"
      "ar_approval_id p \<notin> set (map apv_id (approvals db))"
      "stored_approval fe cfg now conn d (env_epoch env) p (requested_command fe conn (env_epoch env) p db1) db1 = Inr a"
      "approvals db' = approvals db @ [a]" "frame_keeps db db'" "commands db' = commands db"
      "den = (if apv_decision_reason a = None then [] else [apv_id a])" "es \<noteq> []"
proof -
  let ?db1 = "snd (lock_owner_cursor (sk_owner_user_id conn) db)"
  obtain p d where p: "validate_approval_request (fe_lib fe) (env_payload env) = Some p"
      and d: "owned_device conn db = Some d"
    using assms by (auto simp: apply_approval_request_tx_def split: option.splits)
  show thesis
  proof (cases "scalar (\<lambda>a. apv_id a = ar_approval_id p) (approvals db)")
    case (Some a)
    then have "apv_device_id a = sk_device_id conn \<and> apv_appserver_epoch a = env_epoch env
        \<and> apv_request_hash a = approval_request_hash fe p \<and> es = [] \<and> den = [] \<and> db' = ?db1"
      using assms p d by (auto simp: apply_approval_request_tx_def Let_def split: if_splits)
    then show ?thesis using replayed [OF p] scalar_SomeD [OF Some] quiet_steps(1) by blast
  next
    case None
    have "record_approval fe cfg now conn d (env_epoch env) p ?db1 = Inr (es, den, db')"
      using assms p d None by (auto simp: apply_approval_request_tx_def Let_def split: option.splits)
    then show ?thesis
    proof (rule record_approval_Inr)
      fix a
      assume r: "stored_approval fe cfg now conn d (env_epoch env) p
            (requested_command fe conn (env_epoch env) p ?db1) ?db1 = Inr a"
          "approvals db' = approvals ?db1 @ [a]" "frame_keeps ?db1 db'" "commands db' = commands ?db1"
          "den = (if apv_decision_reason a = None then [] else [apv_id a])" "es \<noteq> []"
      show ?thesis
        by (rule stored [OF p d _ _ _ r(1)])
          (use r None frame_keeps_trans [OF put_keeps(3) r(3)] in \<open>auto simp: scalar_absent\<close>)
    qed
  qed
qed

lemma approval_request_wf:
  assumes "apply_approval_request_tx fe cfg now conn env db = Inr (es, den, db')"
  shows "frame_keeps db db'" "commands db' = commands db"
    "approvals_wf (approvals db) \<Longrightarrow> approvals_wf (approvals db')"
    "\<exists>new. approvals db' = approvals db @ new"
  by (rule approval_request_Inr [OF assms];
      force simp: quiet_def approvals_wf_def stored_approval_Inr)+


text \<open>C16: An acknowledgement that is accepted changes exactly the command that it names, if this is a command of
  the device and of the owner of the connection; such a command was issued in the epoch of the frame.
  In the current epoch an unfinished command takes the reported state, and a finished one never
  changes again.  A frame of a replaced epoch changes a command only if its outcome was recorded as
  indeterminate when the epoch was replaced, and only to a final state.  In all cases the quotas of the
  command table hold, a finished command does not become unfinished, no approval changes and nothing
  is put into an outbox.\<close>

theorem command_ack_exact:
  assumes "apply_command_ack_tx fe cfg now conn env db = Inr (es, den, db')"
    and "commands_wf cfg (commands db)" "owned_device conn db = Some d"
  shows "(\<exists>p. validate_command_ack (env_payload env) = Some p
      \<and> commands db' = map (\<lambda>c. if acknowledges conn p c then ack_outcome now conn env p c else c) (commands db)
      \<and> (\<forall>c \<in> set (commands db). acknowledges conn p c \<longrightarrow> cmd_appserver_epoch c = Some (env_epoch env)
          \<and> (outstanding c \<and> env_epoch env = sk_epoch conn \<longrightarrow>
               cmd_status (ack_outcome now conn env p c) = ack_status (ca_state p))
          \<and> (\<not> outstanding c \<longrightarrow> \<not> outstanding (ack_outcome now conn env p c))
          \<and> (\<not> outstanding c \<and> ack_outcome now conn env p c \<noteq> c \<longrightarrow> env_epoch env \<noteq> sk_epoch conn
               \<and> cmd_error_code c = Some ''epoch_replaced_indeterminate'')))
    \<and> commands_wf cfg (commands db') \<and> approvals db' = approvals db \<and> den = []
    \<and> device_outboxes db' = device_outboxes db"
proof -
  have distinct: "distinct (map cmd_id (commands db))" using assms(2) by (simp add: commands_wf_def)
  note k = apply_ack_keeps [OF assms(1)]
  obtain p where p: "validate_command_ack (env_payload env) = Some p"
      "commands db' = map (\<lambda>c. if acknowledges conn p c then ack_outcome now conn env p c else c) (commands db)"
      "\<And>c. c \<in> set (commands db) \<Longrightarrow> acknowledges conn p c \<Longrightarrow> cmd_appserver_epoch c = Some (env_epoch env)"
    using k(4) distinct assms(3) by auto
  have "commands_wf cfg (commands db')"
    by (rule commands_evolve_wf [OF _ assms(2)])
      (simp add: p(2) list_all2_map2 list_all2_same ack_outcome_evolves)
  moreover have "cmd_status (ack_outcome now conn env p c) = ack_status (ca_state p)"
    if "outstanding c" "env_epoch env = sk_epoch conn" for c
    using that by (simp add: ack_outcome_def)
  moreover have "\<not> outstanding (ack_outcome now conn env p c)" if "\<not> outstanding c" for c
    using that ack_outcome_evolves [of c now conn env p] by (auto simp: cmd_evolves_def)
  moreover have "env_epoch env \<noteq> sk_epoch conn \<and> cmd_error_code c = Some ''epoch_replaced_indeterminate''"
    if "\<not> outstanding c" "ack_outcome now conn env p c \<noteq> c" for c
    using that by (auto simp: ack_outcome_def refinable_def split: if_splits)
  ultimately show ?thesis using p k(1-3) unfolding frame_keeps_def by blast
qed

section \<open>Sample frames\<close>

definition sample_env :: frame_env where
  "sample_env = \<lparr>fe_lib = sample_lib, fe_fmt = (\<lambda>_. u ''t''), fe_pystr = (\<lambda>_. []), fe_valid_text = (\<lambda>_. True),
     fe_float_time = (\<lambda>_. None), fe_uuid = parse_uuid, fe_sha = id, fe_fresh_id = (\<lambda>n. of_nat n + 1000),
     fe_fresh_text = (\<lambda>_. u ''fresh'')\<rparr>"

definition sample_ack_frame :: control_envelope where
  "sample_ack_frame = sample_envelope\<lparr>env_type := ''command_ack'',
     env_payload := [(u ''command_id'', JStr (uuid_str 7)), (u ''state'', JStr (u ''running''))]\<rparr>"

lemma sample_ack_run:
  "\<exists>es den db'. apply_command_ack_tx sample_env default_settings 2000 sample_connection sample_ack_frame command_database
     = Inr (es, den, db')"
proof -
  have v: "validate_command_ack (env_payload sample_ack_frame) =
      Some \<lparr>ca_command_id = 7, ca_state = ''running'', ca_result = None, ca_error = None\<rparr>"
    by (simp add: validate_command_ack_def sample_ack_frame_def only_fields_def field_def dict_get_def u_def Let_def)
  have e: "env_epoch sample_ack_frame = u ''epoch-0000000001''"
    by (simp add: sample_ack_frame_def sample_envelope_def)
  show ?thesis
    by (simp add: apply_command_ack_tx_def v e owned_device_def command_database_def sample_database_def empty_database_def
        acknowledge_command_def project_result_def acknowledged_command_def
        result_value_def ack_status_def acknowledge_binding_def command_binding_def flush_bindings_def
        put_command_def announce_def binding_events_def command_event_def List.map_filter_def sample_run_simps Let_def)
qed

theorem command_ack_exact_witness:
  "\<exists>es den db'. apply_command_ack_tx sample_env default_settings 2000 sample_connection sample_ack_frame command_database
       = Inr (es, den, db')
     \<and> map cmd_status (commands db') = [ACKNOWLEDGED] \<and> commands_wf default_settings (commands db')"
proof -
  obtain es den db' where run: "apply_command_ack_tx sample_env default_settings 2000 sample_connection
      sample_ack_frame command_database = Inr (es, den, db')"
    using sample_ack_run by blast
  have d: "owned_device sample_connection command_database = Some sample_device"
    by (simp add: owned_device_def command_database_def sample_database_def)
  obtain p where p: "validate_command_ack (env_payload sample_ack_frame) = Some p"
      "commands db' = map (\<lambda>c. if acknowledges sample_connection p c
         then ack_outcome 2000 sample_connection sample_ack_frame p c else c) (commands command_database)"
      "commands_wf default_settings (commands db')"
    using command_ack_exact [OF run command_database_wf(1) d] by blast
  have "ca_command_id p = 7 \<and> ca_state p = ''running''"
    using p(1) by (auto simp: validate_command_ack_def sample_ack_frame_def only_fields_def field_def dict_get_def u_def Let_def)
  then have "map cmd_status (commands db') = [ACKNOWLEDGED]"
    by (simp add: p(2) command_database_def acknowledges_def ack_outcome_def sample_ack_frame_def sample_envelope_def
        outstanding_def ack_status_def)
  then show ?thesis using run p(3) by auto
qed

definition sample_request_frame :: control_envelope where
  "sample_request_frame = sample_envelope\<lparr>env_type := ''approval_request'',
     env_payload := [(u ''approval_id'', JStr (uuid_str 9)), (u ''command_id'', JStr (u ''cmd'')),
       (u ''kind'', JStr (u ''command'')), (u ''summary'', JStr (u ''run it'')), (u ''details'', JObj []),
       (u ''expires_at'', JStr (u ''2026-01-01T00:00:00Z''))]\<rparr>"

lemma sample_request_run:
  "\<exists>es den db'. apply_approval_request_tx sample_env default_settings (- 5) sample_connection sample_request_frame sample_database
     = Inr (es, den, db')"
proof -
  let ?p = "\<lparr>ar_approval_id = 9, ar_command_id = u ''cmd'', ar_kind = ''command'', ar_summary = u ''run it'',
      ar_details = [], ar_expires_at = 0\<rparr>"
  have v: "validate_approval_request (fe_lib sample_env) (env_payload sample_request_frame) = Some ?p"
    by (simp add: validate_approval_request_def sample_request_frame_def sample_env_def sample_lib_def only_fields_def
        field_def dict_get_def require_rfc3339_datetime_def digits_at_def rfc3339_offset_def rfc3339_fraction_def u_def)
  have e: "env_epoch sample_request_frame = u ''epoch-0000000001''"
    by (simp add: sample_request_frame_def sample_envelope_def)
  let ?a = "built_approval sample_env default_settings (- 5) sample_connection (u ''epoch-0000000001'') ?p None None"
  have fits: "ensure_approval_projection_fits (fe_fmt sample_env) ?a sample_device = None"
    using uuid_quote
    by (simp add: ensure_approval_projection_fits_def approval_item_valid_def approval_item_of_def built_approval_def
        ensure_fits_None approval_json_def length_quote u_def escape_plain sample_env_def BOOTSTRAP_APPROVAL_ITEM_MAX_BYTES_def Let_def)
  have d: "owned_device sample_connection sample_database = Some sample_device"
    by (simp add: owned_device_def sample_database_def)
  let ?db = "snd (lock_owner_cursor (u ''user-1'') sample_database)"
  have "requested_command sample_env sample_connection (u ''epoch-0000000001'') ?p ?db = None"
    by (simp add: requested_command_def sample_database_def empty_database_def split: option.split)
  moreover have "request_denial default_settings (- 5) sample_connection ?p ?db = None"
    by (simp add: request_denial_def requested_expiry_def approval_capacity_denial_reason_locked_def seconds_def
        active_pending_approval_count_def sample_database_def empty_database_def)
  ultimately have "stored_approval sample_env default_settings (- 5) sample_connection sample_device
      (u ''epoch-0000000001'') ?p (requested_command sample_env sample_connection (u ''epoch-0000000001'') ?p ?db) ?db = Inr ?a"
    using fits by (simp add: stored_approval_def Let_def)
  then have "\<exists>es den db'. record_approval sample_env default_settings (- 5) sample_connection sample_device
      (u ''epoch-0000000001'') ?p ?db = Inr (es, den, db')"
    by (simp add: record_approval_def Let_def built_approval_def waiting_binding_def flush_bindings_def announce_def
        binding_events_def List.map_filter_def sample_run_simps sample_database_def empty_database_def
        requested_command_def split: option.split)
  moreover have "approvals sample_database = []" by (simp add: sample_database_def empty_database_def)
  ultimately show ?thesis
    by (simp add: apply_approval_request_tx_def v e d ensure_approval_record_capacity_locked_def)
qed


end
