(* ===== verification/Intake.thy ===== *)
theory Intake
  imports Frames
begin

text \<open>
  The ordered intake of the frames of a device (\<open>realtime.py\<close>): the transaction that applies a frame, the
  detection of duplicates and gaps, and one turn of the receive loop.
\<close>

section \<open>Ordered intake\<close>

definition duplicate_reply :: "device \<Rightarrow> nat \<Rightarrow> database \<Rightarrow> ustr option" where
  "duplicate_reply d seq db =
     map_option obx_encoded_envelope (scalar (\<lambda>_. True) (sort_key obx_sequence
       (filter (\<lambda>x. obx_device_id x = dev_id d \<and> obx_ack_sequence x \<ge> seq) (device_outboxes db))))"

definition touch_connection :: "datetime \<Rightarrow> socket_connection \<Rightarrow> nat \<Rightarrow> nat \<Rightarrow> database \<Rightarrow> database" where
  "touch_connection now conn received acked db =
     update_connection (sk_connection_nonce conn) (\<lambda>c. c\<lparr>con_last_heartbeat_at := now,
       con_last_device_sequence := received, con_last_server_acked_sequence := acked\<rparr>) db"

definition record_ack :: "device \<Rightarrow> nat option \<Rightarrow> datetime \<Rightarrow> database \<Rightarrow> device \<times> database" where
  "record_ack d ack now db = (case ack of None \<Rightarrow> (d, db) | Some n \<Rightarrow> apply_ack d n now db)"

definition finish_frame :: "datetime \<Rightarrow> socket_connection \<Rightarrow> device \<Rightarrow> nat \<Rightarrow> database \<Rightarrow> database" where
  "finish_frame now conn d received db =
     touch_connection now conn received (dev_last_server_acked_sequence d)
       (update_device (dev_id d) (\<lambda>x. x\<lparr>dev_last_device_sequence := received, dev_last_seen_at := Some now\<rparr>) db)"

text \<open>The transaction of a frame: the stored answer to a duplicate (\<open>None\<close> if the frame is applied), the events,
  the denied approvals and the database.\<close>

definition accept_frame ::
  "frame_env \<Rightarrow> settings \<Rightarrow> datetime \<Rightarrow> socket_connection \<Rightarrow> control_envelope \<Rightarrow> database
     \<Rightarrow> realtime_error + ustr option \<times> browser_event list \<times> uuid list \<times> database" where
  "accept_frame fe cfg now conn env db =
     (if env_device_id env \<noteq> sk_device_id conn then Inl (Protocol_Error ''frame targets a different device'')
      else case device_at (sk_device_id conn) db of
        None \<Rightarrow> Inl (Stale_Connection ''connection is no longer active'')
      | Some d \<Rightarrow>
          if dev_active_connection_nonce d \<noteq> Some (sk_connection_nonce conn) \<or> dev_active_epoch d \<noteq> Some (sk_epoch conn)
          then Inl (Stale_Connection ''connection is no longer active'')
          else if (case env_ack env of None \<Rightarrow> False | Some n \<Rightarrow> n > dev_last_server_sequence d)
          then Inl (Protocol_Error ''acknowledgement exceeds the last server sequence'')
          else
     (case record_ack d (env_ack env) now db of (d1, db1) \<Rightarrow>
        if env_seq env \<le> dev_last_device_sequence d
        then (case duplicate_reply d (env_seq env) db of
            None \<Rightarrow> Inl (Protocol_Error ''duplicate frame is already applied'')
          | Some r \<Rightarrow> Inr (Some r, [], [], finish_frame now conn d1 (dev_last_device_sequence d) db1))
        else if env_seq env \<noteq> dev_last_device_sequence d + 1
        then Inl (Sequence_Gap (env_seq env) (dev_last_device_sequence d))
        else (case apply_device_frame_tx fe cfg now conn env (env_epoch env \<noteq> sk_epoch conn) db1 of
            Inl e \<Rightarrow> Inl e
          | Inr (events, denied, db2) \<Rightarrow> Inr (None, events, denied, finish_frame now conn d1 (env_seq env) db2))))"

text \<open>After the commit the registry entry is refreshed (\<open>refreshed\<close> is the answer of the store) and the
  events are published.\<close>

definition process_device_frame ::
  "frame_env \<Rightarrow> settings \<Rightarrow> datetime \<Rightarrow> bool \<Rightarrow> socket_connection \<Rightarrow> control_envelope \<Rightarrow> database
     \<Rightarrow> (realtime_error + bool \<times> bool \<times> ustr option) \<times> socket_connection \<times> database \<times> notice list" where
  "process_device_frame fe cfg now refreshed conn env db =
     (case accept_frame fe cfg now conn env db of
        Inl e \<Rightarrow> (Inl e, conn, db, [])
      | Inr (reply, events, denied, db1) \<Rightarrow>
          let conn1 = conn\<lparr>sk_received_sequence := max (sk_received_sequence conn) (env_seq env)\<rparr> in
          if \<not> refreshed then (Inl (Stale_Connection ''connection registry ownership was lost''), conn1, db1, [])
          else (Inr (reply \<noteq> None, env_epoch env \<noteq> sk_epoch conn, reply), conn1, db1,
            map (Publish_Event (sk_owner_user_id conn)) events @ map (Wake_Approval (sk_device_id conn)) denied))"

text \<open>One turn of the receive loop.  \<open>limited\<close> is the answer of the rate limiter; the clock and the fresh
  identifiers are numbered by use.  The result has the frames that are sent, in order.\<close>

definition send_if_active :: "socket_connection \<Rightarrow> ustr list \<Rightarrow> database \<Rightarrow> realtime_error + ustr list" where
  "send_if_active conn frames db = map_sum id (\<lambda>d. frames) (lock_active_device conn db)"

definition answer_frame ::
  "settings \<Rightarrow> (datetime \<Rightarrow> ustr) \<Rightarrow> datetime \<Rightarrow> ustr \<Rightarrow> socket_connection \<Rightarrow> nat \<Rightarrow> ustr option \<Rightarrow> database
     \<Rightarrow> (realtime_error + ustr list) \<times> database" where
  "answer_frame cfg fmt now frame_id conn seq reply db =
     (case reply of
        Some r \<Rightarrow> (send_if_active conn [r] db, db)
      | None \<Rightarrow>
          (case send_envelope cfg fmt now frame_id conn ''heartbeat_ack'' [(u ''received_seq'', JInt (int seq))] db of
             (r, db1) \<Rightarrow> (map_sum id (\<lambda>e. [e]) r, db1)))"

definition receive_frame ::
  "frame_env \<Rightarrow> settings \<Rightarrow> (nat \<Rightarrow> datetime) \<Rightarrow> (nat \<Rightarrow> ustr) \<Rightarrow> realtime_error option \<Rightarrow> bool
     \<Rightarrow> socket_connection \<Rightarrow> ustr \<Rightarrow> database
     \<Rightarrow> realtime_error option \<times> ustr list \<times> socket_connection \<times> database \<times> notice list" where
  "receive_frame fe cfg now fid limited refreshed conn raw db =
     (case limited of
        Some e \<Rightarrow> (Some e, [], conn, db, [])
      | None \<Rightarrow>
     (case parse_device_envelope (fe_lib fe) (fe_fmt fe) cfg raw of
        Inl e \<Rightarrow> (Some e, [], conn, db, [])
      | Inr env \<Rightarrow>
          if env_type env = ''hello''
          then (Some (Protocol_Error ''hello is only valid as the first frame''), [], conn, db, [])
          else
     (case process_device_frame fe cfg (now 0) refreshed conn env db of
        (Inl e, conn1, db1, ns) \<Rightarrow> (Some e, [], conn1, db1, ns)
      | (Inr (duplicate, stale_replay, reply), conn1, db1, ns) \<Rightarrow>
     (case answer_frame cfg (fe_fmt fe) (now 1) (fid 1) conn1 (env_seq env) reply db1 of
        (Inl e, db2) \<Rightarrow> (Some e, [], conn1, db2, ns)
      | (Inr frames, db2) \<Rightarrow>
          if \<not> stale_replay \<and> env_type env = ''heartbeat''
          then (case dispatch_pending (fe_sha fe) cfg (fe_fmt fe) (\<lambda>n. now (n + 2)) (\<lambda>n. fid (n + 2)) conn1 db2 of
              (err, frames', db3, ns') \<Rightarrow> (err, frames @ frames', conn1, db3, ns @ ns'))
          else (None, frames, conn1, db2, ns)))))"

section \<open>What a frame changes\<close>

definition frame_effect :: "database \<Rightarrow> database \<Rightarrow> bool" where
  "frame_effect db db' \<longleftrightarrow> frame_keeps db db'
     \<and> (distinct (map cmd_id (commands db)) \<longrightarrow> list_all2 cmd_evolves (commands db) (commands db'))
     \<and> (approvals_wf (approvals db) \<longrightarrow> approvals_wf (approvals db'))
     \<and> (\<exists>new. approvals db' = approvals db @ new)"

lemma quiet_effect: "quiet db db' \<Longrightarrow> frame_effect db db'"
  by (auto simp: quiet_def frame_effect_def list_all2_refl)

lemma ack_effect:
  assumes "apply_command_ack_tx fe cfg now conn env db = Inr (es, den, db')"
  shows "frame_effect db db'"
  using apply_ack_keeps [OF assms]
  by (auto simp: frame_effect_def list_all2_map2 list_all2_same ack_outcome_evolves)

lemma request_effect:
  assumes "apply_approval_request_tx fe cfg now conn env db = Inr (es, den, db')"
  shows "frame_effect db db'"
  using approval_request_wf [OF assms] by (simp add: frame_effect_def list_all2_refl)

lemma stale_frame_effect:
  assumes "apply_stale_device_frame_tx fe cfg now conn env db = Inr (es, den, db')"
  shows "frame_effect db db'"
proof -
  have "apply_command_ack_tx fe cfg now conn env db = Inr (es, den, db') \<or> db' = db"
    using assms by (auto simp: apply_stale_device_frame_tx_def Let_def split: if_splits option.splits)
  then show ?thesis using ack_effect quiet_effect [OF quiet_refl] by blast
qed

lemma device_frame_effect:
  assumes "apply_device_frame_tx fe cfg now conn env stale db = Inr (es, den, db')"
  shows "frame_effect db db'"
proof -
  have "apply_stale_device_frame_tx fe cfg now conn env db = Inr (es, den, db')
      \<or> apply_command_ack_tx fe cfg now conn env db = Inr (es, den, db')
      \<or> apply_device_event_tx fe cfg now conn env db = Inr (es, den, db')
      \<or> apply_approval_request_tx fe cfg now conn env db = Inr (es, den, db')
      \<or> db' = db \<or> (\<exists>a. db' = add_audit a db)"
    using assms by (auto simp: apply_device_frame_tx_def split: if_splits option.splits)
  then show ?thesis
  proof (elim disjE exE)
    fix a assume "db' = add_audit a db"
    then show ?thesis using quiet_effect [OF quiet_steps(2)] by simp
  qed (auto intro: stale_frame_effect ack_effect request_effect quiet_effect apply_event_quiet(2))
qed

lemma accept_frame_cases:
  assumes "accept_frame fe cfg now conn env db = Inr (reply, es, den, db')"
  obtains (duplicate) d d1 db1 r where "device_at (sk_device_id conn) db = Some d" "env_device_id env = sk_device_id conn"
      "\<And>n. env_ack env = Some n \<Longrightarrow> n \<le> dev_last_server_sequence d" "record_ack d (env_ack env) now db = (d1, db1)"
      "env_seq env \<le> dev_last_device_sequence d" "reply = Some r" "es = []" "den = []"
      "db' = finish_frame now conn d1 (dev_last_device_sequence d) db1"
  | (applied) d d1 db1 db2 where "device_at (sk_device_id conn) db = Some d" "env_device_id env = sk_device_id conn"
      "\<And>n. env_ack env = Some n \<Longrightarrow> n \<le> dev_last_server_sequence d" "record_ack d (env_ack env) now db = (d1, db1)"
      "env_seq env = dev_last_device_sequence d + 1" "reply = None"
      "apply_device_frame_tx fe cfg now conn env (env_epoch env \<noteq> sk_epoch conn) db1 = Inr (es, den, db2)"
      "db' = finish_frame now conn d1 (env_seq env) db2"
proof -
  note A = assms [unfolded accept_frame_def]
  obtain d where d: "device_at (sk_device_id conn) db = Some d" "env_device_id env = sk_device_id conn"
    using A by (auto split: if_splits option.splits)
  have n: "n \<le> dev_last_server_sequence d" if "env_ack env = Some n" for n
    using A d that by (auto split: if_splits)
  obtain d1 db1 where r: "record_ack d (env_ack env) now db = (d1, db1)" by (cases "record_ack d (env_ack env) now db")
  show thesis
  proof (cases "env_seq env \<le> dev_last_device_sequence d")
    case True
    obtain a where a: "duplicate_reply d (env_seq env) db = Some a"
      using True A d r by (cases "duplicate_reply d (env_seq env) db") (auto split: if_splits)
    then have "reply = Some a" "es = []" "den = []" "db' = finish_frame now conn d1 (dev_last_device_sequence d) db1"
      using True A d r by (auto split: if_splits)
    then show ?thesis using duplicate [OF d n r True] by blast
  next
    case False
    then obtain db2 where "env_seq env = dev_last_device_sequence d + 1" "reply = None"
        "apply_device_frame_tx fe cfg now conn env (env_epoch env \<noteq> sk_epoch conn) db1 = Inr (es, den, db2)"
        "db' = finish_frame now conn d1 (env_seq env) db2"
      using A d r by (auto split: if_splits option.splits sum.splits)
    then show ?thesis using applied [OF d n r] by blast
  qed
qed

section \<open>The receive cursor\<close>

definition received :: "uuid \<Rightarrow> database \<Rightarrow> nat option" where
  "received i db = map_option dev_last_device_sequence (device_at i db)"

lemma device_at_update:
  assumes "\<And>d. dev_id (f d) = dev_id d"
  shows "device_at j (update_device i f db) = (if j = i then map_option f (device_at j db) else device_at j db)"
proof -
  have "scalar (\<lambda>x. dev_id x = j) (update_where (\<lambda>x. dev_id x = i) f ds) =
      (if j = i then map_option f (scalar (\<lambda>x. dev_id x = j) ds) else scalar (\<lambda>x. dev_id x = j) ds)" for ds
    by (induction ds) (auto simp: assms)
  then show ?thesis by (simp add: device_at_def update_device_def)
qed

lemma keeps_device_at:
  assumes "frame_keeps db db'"
  shows "map_option device_rest (device_at i db') = map_option device_rest (device_at i db)"
proof -
  have "map_option device_rest (device_at i x) = scalar (\<lambda>d. dev_id d = i) (map device_rest (devices x))" for x
    by (simp add: scalar_map device_at_def device_rest_def)
  then show ?thesis using assms by (simp add: frame_keeps_def)
qed

lemma keeps_received:
  assumes "frame_keeps db db'"
  shows "received i db' = received i db"
proof -
  have "received i x = map_option dev_last_device_sequence (map_option device_rest (device_at i x))" for x
    by (simp add: received_def option.map_comp comp_def device_rest_def)
  then show ?thesis using keeps_device_at [OF assms] by simp
qed

lemma put_device_received:
  assumes "device_at (dev_id d) db = Some d0" "dev_last_device_sequence d = dev_last_device_sequence d0"
  shows "received j (put_device d db) = received j db"
  using device_at_put [of d db j] assms by (auto simp: received_def)

lemma record_ack_received:
  assumes "device_at i db = Some d" "dev_id d = i" "record_ack d ack now db = (d1, db1)"
  shows "received j db1 = received j db" "dev_id d1 = i" "dev_last_device_sequence d1 = dev_last_device_sequence d"
proof -
  have "received j (ack_outbox_locked i n now x) = received j x" for n x
    by (simp add: received_def device_at_cong [OF ack_outbox_rows(3)])
  then show "received j db1 = received j db" "dev_id d1 = i" "dev_last_device_sequence d1 = dev_last_device_sequence d"
    using assms put_device_received [of "d\<lparr>dev_last_server_acked_sequence := _\<rparr>" db d j]
    by (auto simp: record_ack_def apply_ack_def Let_def split: option.splits if_splits)
qed

lemma finish_received:
  assumes "received (dev_id d) db \<noteq> None"
  shows "received j (finish_frame now conn d n db) = (if j = dev_id d then Some n else received j db)"
proof -
  let ?f = "\<lambda>x. x\<lparr>dev_last_device_sequence := n, dev_last_seen_at := Some now\<rparr>"
  have "device_at j (touch_connection now conn n m x) = device_at j x" for m x
    by (rule device_at_cong) (simp add: touch_connection_def)
  then show ?thesis
    using assms device_at_update [of ?f j "dev_id d" db]
    by (auto simp: received_def finish_frame_def)
qed

lemma device_at_id: "device_at i db = Some d \<Longrightarrow> dev_id d = i"
  using scalar_SomeD by (force simp: device_at_def)

lemma accept_frame_received:
  assumes "accept_frame fe cfg now conn env db = Inr (reply, es, den, db')"
  obtains n where "received (sk_device_id conn) db = Some n"
    "reply = None \<Longrightarrow> env_seq env = n + 1" "reply \<noteq> None \<Longrightarrow> env_seq env \<le> n"
    "received (sk_device_id conn) db' = Some (if reply = None then env_seq env else n)"
    "\<And>j. j \<noteq> sk_device_id conn \<Longrightarrow> received j db' = received j db"
  using assms
proof (cases rule: accept_frame_cases)
  case (duplicate d d1 db1 r)
  note r = record_ack_received [OF duplicate(1) device_at_id [OF duplicate(1)] duplicate(4)]
  have n: "received (sk_device_id conn) db = Some (dev_last_device_sequence d)" using duplicate(1) by (simp add: received_def)
  have "received (dev_id d1) db1 \<noteq> None" using r n by simp
  note f = finish_received [OF this]
  show ?thesis by (rule that [OF n]) (use duplicate f r in simp_all)
next
  case (applied d d1 db1 db2)
  note r = record_ack_received [OF applied(1) device_at_id [OF applied(1)] applied(4)]
  have n: "received (sk_device_id conn) db = Some (dev_last_device_sequence d)" using applied(1) by (simp add: received_def)
  have "frame_keeps db1 db2" using device_frame_effect [OF applied(7)] by (simp add: frame_effect_def)
  then have k: "received j db2 = received j db" for j using keeps_received r(1) by simp
  have "received (dev_id d1) db2 \<noteq> None" using r(2) n k by simp
  note f = finish_received [OF this]
  show ?thesis by (rule that [OF n]) (use applied f r k in simp_all)
qed

lemma ack_tables [simp]:
  "commands (ack_outbox_locked i n now db) = commands db" "approvals (ack_outbox_locked i n now db) = approvals db"
  "thread_bindings (ack_outbox_locked i n now db) = thread_bindings db"
  "event_logs (ack_outbox_locked i n now db) = event_logs db"
  "event_owner_cursors (ack_outbox_locked i n now db) = event_owner_cursors db"
  "event_logs (put_device d db) = event_logs db" "event_owner_cursors (put_device d db) = event_owner_cursors db"
  by (simp_all add: ack_outbox_locked_def Let_def put_device_def)

lemma record_ack_tables:
  assumes "record_ack d ack now db = (d1, db1)"
  shows "commands db1 = commands db" "approvals db1 = approvals db" "thread_bindings db1 = thread_bindings db"
    "event_logs db1 = event_logs db" "event_owner_cursors db1 = event_owner_cursors db"
  using assms by (auto simp: record_ack_def apply_ack_def Let_def split: option.splits if_splits)

lemma finish_tables [simp]:
  "commands (finish_frame now conn d n db) = commands db" "approvals (finish_frame now conn d n db) = approvals db"
  "thread_bindings (finish_frame now conn d n db) = thread_bindings db"
  "event_logs (finish_frame now conn d n db) = event_logs db"
  "event_owner_cursors (finish_frame now conn d n db) = event_owner_cursors db"
  "device_outboxes (finish_frame now conn d n db) = device_outboxes db"
  by (simp_all add: finish_frame_def touch_connection_def update_device_def update_connection_def)

lemma duplicate_tables:
  assumes "accept_frame fe cfg now conn env db = Inr (Some r, es, den, db')"
  shows "es = []" "den = []" "commands db' = commands db" "approvals db' = approvals db"
    "thread_bindings db' = thread_bindings db" "event_logs db' = event_logs db"
  using assms by (cases rule: accept_frame_cases; simp add: record_ack_tables)+

section \<open>Runs of frames\<close>

text \<open>A receiver with a cursor: a frame is applied only if it is the next one.\<close>

locale ordered_intake =
  fixes cursor :: "'s \<Rightarrow> nat option"
    and seq :: "'f \<Rightarrow> nat"
    and applied :: "'f \<Rightarrow> 's \<Rightarrow> 's \<Rightarrow> bool"
    and duplicate :: "nat \<Rightarrow> 's \<Rightarrow> 's \<Rightarrow> bool"
    and other :: "'s \<Rightarrow> 's \<Rightarrow> bool"
  assumes applied_cursor: "applied f s s' \<Longrightarrow> cursor s = Some n \<Longrightarrow> seq f = n + 1 \<and> cursor s' = Some (n + 1)"
    and duplicate_cursor: "duplicate m s s' \<Longrightarrow> cursor s' = cursor s"
    and other_cursor: "other s s' \<Longrightarrow> cursor s' = cursor s"
begin

lemma run_order:
  assumes "channel_run applied duplicate other fs s s'" "cursor s = Some n"
  shows "cursor s' = Some (n + length fs) \<and> map seq fs = [n + 1..<n + length fs + 1]"
  using assms
proof (induction rule: channel_run.induct)
  case (run_push fs s s' f s'')
  then show ?case using applied_cursor [OF run_push.hyps(2)] by simp
qed (auto simp: duplicate_cursor other_cursor)

end

definition frame_applied :: "uuid \<Rightarrow> control_envelope \<Rightarrow> database \<Rightarrow> database \<Rightarrow> bool" where
  "frame_applied i env db db' \<longleftrightarrow> (\<exists>fe cfg now conn es den. sk_device_id conn = i
     \<and> accept_frame fe cfg now conn env db = Inr (None, es, den, db'))"

definition frame_duplicate :: "uuid \<Rightarrow> nat \<Rightarrow> database \<Rightarrow> database \<Rightarrow> bool" where
  "frame_duplicate i n db db' \<longleftrightarrow> (\<exists>fe cfg now conn env r es den. sk_device_id conn = i \<and> env_seq env = n
     \<and> accept_frame fe cfg now conn env db = Inr (Some r, es, den, db'))"

definition intake_other :: "uuid \<Rightarrow> database \<Rightarrow> database \<Rightarrow> bool" where
  "intake_other i db db' \<longleftrightarrow> received i db' = received i db"

interpretation intake: ordered_intake "received i" env_seq "frame_applied i" "frame_duplicate i" "intake_other i" for i
proof unfold_locales
  fix f db db' n assume "frame_applied i f db db'" "received i db = Some n"
  then show "env_seq f = n + 1 \<and> received i db' = Some (n + 1)"
    unfolding frame_applied_def by (auto elim!: accept_frame_received)
next
  fix m db db' assume "frame_duplicate i m db db'"
  then show "received i db' = received i db"
    unfolding frame_duplicate_def by (auto elim!: accept_frame_received)
qed (simp add: intake_other_def)

text \<open>C2: The frames of a device are applied exactly once and in the order of their sequence numbers.  Let any
  sequence of steps run: frames of the device on any connections (each is applied or answered as a
  duplicate), frames of other devices, and any other operation that leaves the receive cursor of the device
  alone.  Then the applied frames have consecutive sequence numbers from the first cursor on,
  without a gap or a repetition, and the cursor is the last of them.  A frame with a number up to the cursor
  that is accepted afterwards is a duplicate: it is answered with a stored frame and changes no
  command, approval, thread or event.\<close>

theorem frames_applied_once:
  assumes "channel_run (frame_applied i) (frame_duplicate i) (intake_other i) frames db db'"
    and "received i db = Some n"
  shows "received i db' = Some (n + length frames) \<and> map env_seq frames = [n + 1..<n + length frames + 1]
    \<and> (\<forall>fe cfg now conn env reply es den db''. sk_device_id conn = i \<and> env_seq env \<le> n + length frames
         \<and> accept_frame fe cfg now conn env db' = Inr (reply, es, den, db'') \<longrightarrow>
         reply \<noteq> None \<and> es = [] \<and> den = [] \<and> commands db'' = commands db' \<and> approvals db'' = approvals db'
         \<and> thread_bindings db'' = thread_bindings db' \<and> event_logs db'' = event_logs db')"
proof -
  have run: "received i db' = Some (n + length frames)" "map env_seq frames = [n + 1..<n + length frames + 1]"
    using intake.run_order [OF assms] by blast+
  have "reply \<noteq> None" if "sk_device_id conn = i" "env_seq env \<le> n + length frames"
      "accept_frame fe cfg now conn env db' = Inr (reply, es, den, db'')" for fe cfg now conn env reply es den db''
    using that(3) by (rule accept_frame_received) (use that(1,2) run(1) in auto)
  then show ?thesis using run duplicate_tables by (metis not_None_eq)
qed

section \<open>The invariant of the tables\<close>

text \<open>Consistency of the tables that the control plane writes.\<close>

definition control_ok :: "settings \<Rightarrow> database \<Rightarrow> bool" where
  "control_ok cfg db \<longleftrightarrow> commands_wf cfg (commands db) \<and> approvals_wf (approvals db) \<and> events_wf db \<and> outbox_wf cfg db
     \<and> distinct (map thr_id (thread_bindings db))"

lemma put_device_events:
  assumes "device_at (dev_id d) db = Some d0" "distinct (map dev_id (devices db))"
    and "dev_last_event_sequence d = dev_last_event_sequence d0"
  shows "events_wf (put_device d db) = events_wf db"
proof (rule events_wf_cong)
  have d0: "d0 \<in> set (devices db)" "dev_id d0 = dev_id d" using assms(1) device_at_Some [OF assms(2)] by auto
  have "x = d0" if "x \<in> set (devices db)" "dev_id x = dev_id d" for x
    using that d0 assms(2) by (metis distinct_map inj_on_eq_iff)
  then show "map (\<lambda>d. (dev_id d, dev_last_event_sequence d)) (devices (put_device d db)) =
      map (\<lambda>d. (dev_id d, dev_last_event_sequence d)) (devices db)"
    using assms(3) by (auto simp: put_device_def update_where_def)
qed simp_all

lemma record_ack_ok:
  assumes "control_ok cfg db" "device_at i db = Some d" "\<And>n. ack = Some n \<Longrightarrow> n \<le> dev_last_server_sequence d"
    and "record_ack d ack now db = (d1, db1)"
  shows "control_ok cfg db1"
proof (cases ack)
  case None
  then show ?thesis using assms by (simp add: record_ack_def)
next
  case (Some n)
  have wf: "outbox_wf cfg db" using assms(1) by (simp add: control_ok_def)
  have a: "apply_ack d n now db = (d1, db1)" using assms(4) Some by (simp add: record_ack_def)
  have "outbox_wf cfg db1" by (rule apply_ack_refines(1) [OF wf assms(2) assms(3) [OF Some] a])
  moreover have "events_wf db1 = events_wf db"
  proof (cases "n > dev_last_server_acked_sequence d")
    case True
    let ?d = "d\<lparr>dev_last_server_acked_sequence := n\<rparr>"
    have "events_wf db1 = events_wf (put_device ?d db)"
      using a True ack_outbox_rows(3) by (intro events_wf_cong) (auto simp: apply_ack_def Let_def)
    also have "\<dots> = events_wf db"
      using assms(2) device_at_id wf by (intro put_device_events [of _ _ d]) auto
    finally show ?thesis .
  qed (use a in \<open>simp add: apply_ack_def\<close>)
  ultimately show ?thesis using assms(1) record_ack_tables [OF assms(4)] by (simp add: control_ok_def)
qed

lemma keeps_outbox:
  assumes "frame_keeps db db'"
  shows "outbox_wf cfg db' = outbox_wf cfg db" "channel i db' = channel i db"
proof -
  have "outbox_counters x = map (\<lambda>d. (dev_id d, dev_last_server_acked_sequence d, dev_last_server_sequence d))
      (map device_rest (devices x))" for x
    by (simp add: outbox_counters_def device_rest_def)
  then have "outbox_counters db' = outbox_counters db" using assms by (simp add: frame_keeps_def del: map_map)
  then show "outbox_wf cfg db' = outbox_wf cfg db" "channel i db' = channel i db"
    using outbox_counters_cong assms unfolding frame_keeps_def by blast+
qed

lemma frame_effect_ok:
  assumes "control_ok cfg db" "frame_effect db db'"
  shows "control_ok cfg db'"
  using assms keeps_outbox(1) [of db db' cfg] commands_evolve_wf [of "commands db" "commands db'" cfg]
  by (auto simp: control_ok_def frame_effect_def frame_keeps_def commands_wf_def [of cfg "commands db"])

lemma finish_ok [simp]: "control_ok cfg (finish_frame now conn d n db) = control_ok cfg db"
proof -
  let ?db = "finish_frame now conn d n db"
  have dv: "devices ?db = update_where (\<lambda>x. dev_id x = dev_id d)
      (\<lambda>x. x\<lparr>dev_last_device_sequence := n, dev_last_seen_at := Some now\<rparr>) (devices db)"
    by (simp add: finish_frame_def touch_connection_def update_device_def)
  have "events_wf ?db = events_wf db" by (rule events_wf_cong) (simp_all add: dv update_where_def)
  moreover have "outbox_wf cfg ?db = outbox_wf cfg db"
    by (rule outbox_counters_cong(1)) (simp_all add: outbox_counters_def dv update_where_def)
  ultimately show ?thesis by (simp add: control_ok_def)
qed

lemma accept_frame_ok:
  assumes "control_ok cfg db" "accept_frame fe cfg' now conn env db = Inr (reply, es, den, db')"
  shows "control_ok cfg db'"
  using assms(2)
proof (cases rule: accept_frame_cases)
  case (duplicate d d1 db1 r)
  then show ?thesis using record_ack_ok [OF assms(1) duplicate(1,3,4)] by simp
next
  case (applied d d1 db1 db2)
  then show ?thesis
    using record_ack_ok [OF assms(1) applied(1,3,4)] frame_effect_ok [OF _ device_frame_effect [OF applied(7)]] by simp
qed

lemma process_frame_ok:
  "control_ok cfg db \<Longrightarrow> process_device_frame fe cfg' now refreshed conn env db = (res, conn', db', ns) \<Longrightarrow> control_ok cfg db'"
  using accept_frame_ok by (auto simp: process_device_frame_def Let_def split: sum.splits if_splits)

section \<open>A sample frame\<close>

lemma sample_accept:
  "\<exists>db'. accept_frame sample_env default_settings 5 sample_connection sample_envelope sample_database = Inr (None, [], [], db')"
proof -
  have "validate_heartbeat (env_payload sample_envelope) \<noteq> None"
    by (simp add: validate_heartbeat_def sample_envelope_def only_fields_def field_def dict_get_def u_def)
  then have "apply_device_frame_tx sample_env default_settings 5 sample_connection sample_envelope False sample_database
      = Inr ([], [], sample_database)"
    by (simp add: apply_device_frame_tx_def sample_envelope_def)
  then show ?thesis
    by (simp add: accept_frame_def sample_outbox_wf(2) record_ack_def sample_envelope_def)
qed

theorem frames_applied_once_witness:
  "\<exists>db'. frame_applied 1 sample_envelope sample_database db' \<and> received 1 sample_database = Some 0
     \<and> received 1 db' = Some 1"
proof -
  obtain db' where a: "accept_frame sample_env default_settings 5 sample_connection sample_envelope sample_database
      = Inr (None, [], [], db')"
    using sample_accept by blast
  then have f: "frame_applied 1 sample_envelope sample_database db'"
    unfolding frame_applied_def using sample_connection_sel(1) by blast
  have run: "channel_run (frame_applied 1) (frame_duplicate 1) (intake_other 1) ([] @ [sample_envelope]) sample_database db'"
    by (rule run_push) (rule run_none, rule f)
  have n: "received 1 sample_database = Some 0" by (simp add: received_def sample_outbox_wf(2))
  show ?thesis using frames_applied_once [OF run n] f n by auto
qed

end
