(* ===== verification/Connection.thy ===== *)
theory Connection
  imports Intake
begin

text \<open>
  The life of a device connection (\<open>realtime.py\<close>): the opening that replaces older connections, the
  activation that closes the work of older epochs, the messages of the dispatch channel, and the
  end.  The answers of the key-value store during these steps are an argument (\<open>store_run\<close>);
  the registry of live sockets of the process is the map \<open>hub\<close>.
\<close>

section \<open>Operations\<close>

text \<open>Whether the store accepted the registry entry, the entry was still owned at the registration, the notice
  to the replaced connections and the events were published, and the entry was removed at the end
  (a \<open>False\<close> of the others than \<open>sr_owned\<close> is an exception of the store).\<close>

record store_run =
  sr_set :: bool
  sr_owned :: bool
  sr_kick :: bool
  sr_publish :: bool
  sr_delete :: bool

record connect_info =
  ci_nonce :: ustr
  ci_row_id :: uuid
  ci_instance_id :: ustr
  ci_remote_address :: "ustr option"
  ci_user_agent :: ustr

type_synonym hub = "uuid \<Rightarrow> socket_connection option"

definition registry_text :: "connect_info \<Rightarrow> ustr \<Rightarrow> ustr" where
  "registry_text ci epoch = dumps True (JObj [(u ''connection_nonce'', JStr (ci_nonce ci)),
     (u ''epoch'', JStr epoch), (u ''instance_id'', JStr (ci_instance_id ci))])"

definition connected_on :: "uuid \<Rightarrow> device_connection \<Rightarrow> bool" where
  "connected_on i c \<longleftrightarrow> con_device_id c = i \<and> con_status c = CONNECTED"

definition closed_connection :: "datetime \<Rightarrow> string \<Rightarrow> device_connection \<Rightarrow> device_connection" where
  "closed_connection now reason c = c\<lparr>con_status := DISCONNECTED, con_disconnected_at := Some now,
     con_closed_reason := Some reason\<rparr>"

definition replace_connections :: "datetime \<Rightarrow> uuid \<Rightarrow> database \<Rightarrow> database" where
  "replace_connections now i db = db\<lparr>device_connections :=
     update_where (connected_on i) (closed_connection now ''replaced'') (device_connections db)\<rparr>"

definition connection_count :: "uuid \<Rightarrow> database \<Rightarrow> nat" where
  "connection_count i db = count_where (\<lambda>c. con_device_id c = i) (device_connections db)"

text \<open>The oldest closed rows make room for a new one; a row without a time comes last.\<close>

definition prune_connections :: "settings \<Rightarrow> uuid \<Rightarrow> database \<Rightarrow> realtime_error + database" where
  "prune_connections cfg i db =
     (if connection_count i db \<ge> device_max_connection_records cfg
      then
        let surplus = connection_count i db - device_max_connection_records cfg + 1;
            stale = map con_id (take surplus (sort_key
              (\<lambda>c. (con_disconnected_at c = None, the_time (con_disconnected_at c), con_id c))
              (filter (\<lambda>c. con_device_id c = i \<and> con_status c = DISCONNECTED) (device_connections db))));
            db1 = db\<lparr>device_connections := delete_where (\<lambda>c. con_id c \<in> set stale) (device_connections db)\<rparr>
        in if connection_count i db1 \<ge> device_max_connection_records cfg
           then Inl (Protocol_Error ''device connection record limit reached'') else Inr db1
      else Inr db)"

definition hello_metadata :: "hello_payload \<Rightarrow> dict \<Rightarrow> dict" where
  "hello_metadata hello md =
     dict_set (u ''capabilities'') (JArr (map JStr (hp_capabilities hello)))
       (dict_set (u ''schema_digest'') (JStr (hp_schema_digest hello))
         (dict_set (u ''codex_version'') (JStr (hp_codex_version hello))
           (dict_set (u ''connector_version'') (JStr (hp_connector_version hello)) md)))"

definition connected_device :: "datetime \<Rightarrow> connect_info \<Rightarrow> ustr \<Rightarrow> hello_payload \<Rightarrow> device \<Rightarrow> device" where
  "connected_device now ci epoch hello d = d\<lparr>dev_active_epoch := Some epoch,
     dev_active_connection_nonce := Some (ci_nonce ci), dev_last_seen_at := Some now,
     dev_device_metadata := hello_metadata hello (dev_device_metadata d)\<rparr>"

definition new_connection ::
  "datetime \<Rightarrow> connect_info \<Rightarrow> ustr \<Rightarrow> hello_payload \<Rightarrow> device \<Rightarrow> device_connection" where
  "new_connection now ci epoch hello d =
     \<lparr>con_id = ci_row_id ci, con_device_id = dev_id d, con_connection_nonce = ci_nonce ci,
      con_status = CONNECTED, con_appserver_epoch = Some epoch, con_connected_at = now,
      con_last_heartbeat_at = now, con_disconnected_at = None, con_remote_address = ci_remote_address ci,
      con_connector_version = Some (hp_connector_version hello), con_codex_version = Some (hp_codex_version hello),
      con_connection_metadata = [(u ''schema_digest'', JStr (hp_schema_digest hello)),
        (u ''capabilities'', JArr (map JStr (hp_capabilities hello))), (u ''instance_id'', JStr (ci_instance_id ci))],
      con_last_device_sequence = dev_last_device_sequence d, con_last_server_sequence = dev_last_server_sequence d,
      con_last_server_acked_sequence = dev_last_server_acked_sequence d, con_closed_reason = None\<rparr>"

definition connect_audit :: "datetime \<Rightarrow> connect_info \<Rightarrow> ustr \<Rightarrow> device \<Rightarrow> audit_event" where
  "connect_audit now ci epoch d =
     \<lparr>aud_actor_user_id = Some (dev_owner_user_id d), aud_actor_session_id = None,
      aud_actor_device_id = Some (dev_id d), aud_action = ''device.connect'', aud_outcome = AUDIT_SUCCEEDED,
      aud_resource_type = Some ''device_connection'', aud_resource_id = Some (ci_nonce ci), aud_request_id = None,
      aud_source_ip = ci_remote_address ci,
      aud_user_agent = (if ci_user_agent ci = [] then None else Some (take 512 (ci_user_agent ci))),
      aud_details = [(u ''epoch'', JStr epoch)], aud_created_at = now\<rparr>"

definition opened_socket :: "connect_info \<Rightarrow> ustr \<Rightarrow> device \<Rightarrow> socket_connection" where
  "opened_socket ci epoch d = \<lparr>sk_device_id = dev_id d, sk_owner_user_id = dev_owner_user_id d,
     sk_connection_nonce = ci_nonce ci, sk_epoch = epoch, sk_registry_value = registry_text ci epoch,
     sk_received_sequence = dev_last_device_sequence d\<rparr>"

text \<open>The first transaction: the new connection, the nonces of the replaced ones and the database.\<close>

definition open_connection ::
  "settings \<Rightarrow> datetime \<Rightarrow> connect_info \<Rightarrow> bool \<Rightarrow> uuid \<Rightarrow> control_envelope \<Rightarrow> hello_payload \<Rightarrow> database
     \<Rightarrow> realtime_error + socket_connection \<times> ustr list \<times> database" where
  "open_connection cfg now ci stored i env hello db =
     (case device_at i db of
        None \<Rightarrow> Inl (Protocol_Error ''device is not active'')
      | Some d \<Rightarrow>
          if dev_status d \<noteq> ACTIVE then Inl (Protocol_Error ''device is not active'')
          else case env_ack env of
            None \<Rightarrow> Inl (Protocol_Error ''hello acknowledgement exceeds the server sequence'')
          | Some ack \<Rightarrow>
              if ack > dev_last_server_sequence d
              then Inl (Protocol_Error ''hello acknowledgement exceeds the server sequence'')
              else if hp_resumed_from_seq hello > dev_last_device_sequence d
              then Inl (Protocol_Error ''hello resume cursor exceeds the server receive cursor'')
              else
     (case apply_ack d ack now db of (d1, db1) \<Rightarrow>
     (case prune_connections cfg i (replace_connections now i db1) of
        Inl e \<Rightarrow> Inl e
      | Inr db2 \<Rightarrow>
          if \<not> stored then Inl Store_Failure
          else if ci_nonce ci \<in> set (map con_connection_nonce (device_connections db2)) then Inl Database_Failure
          else
            let d2 = connected_device now ci (env_epoch env) hello d1;
                db3 = put_device d2 db2;
                db4 = db3\<lparr>device_connections := device_connections db3 @ [new_connection now ci (env_epoch env) hello d2]\<rparr>
            in Inr (opened_socket ci (env_epoch env) d2,
                 map con_connection_nonce (filter (connected_on i) (device_connections db1)),
                 add_audit (connect_audit now ci (env_epoch env) d2) db4))))"

definition device_event :: "(json \<Rightarrow> ustr) \<Rightarrow> string \<Rightarrow> device \<Rightarrow> event_spec" where
  "device_event pystr status d =
     (dev_owner_user_id d, dev_id d, ''device.updated'', DeviceData (summary_of pystr status d), None)"

text \<open>The second transaction.\<close>

definition activate_connection ::
  "(json \<Rightarrow> ustr) \<Rightarrow> datetime \<Rightarrow> socket_connection \<Rightarrow> database \<Rightarrow> realtime_error + browser_event list \<times> database" where
  "activate_connection pystr now conn db =
     (case device_at (sk_device_id conn) db of
        None \<Rightarrow> Inl (Stale_Connection ''connection was replaced during activation'')
      | Some d \<Rightarrow>
          if dev_active_connection_nonce d \<noteq> Some (sk_connection_nonce conn) \<or> dev_active_epoch d \<noteq> Some (sk_epoch conn)
          then Inl (Stale_Connection ''connection was replaced during activation'')
          else
     (case reconcile_stale_epoch_commands now d (sk_epoch conn) db of
        Inl e \<Rightarrow> Inl (Stream_Error e)
      | Inr (es1, db1) \<Rightarrow>
     (case deny_stale_epoch now d (sk_epoch conn) db1 of
        Inl e \<Rightarrow> Inl (Stream_Error e)
      | Inr (es2, db2) \<Rightarrow>
     (case append_all event_append now [device_event pystr ''online'' d] db2 of
        Inl e \<Rightarrow> Inl (Stream_Error e)
      | Inr (es3, db3) \<Rightarrow> Inr (es1 @ es2 @ es3, db3)))))"

definition hub_register :: "socket_connection \<Rightarrow> bool \<Rightarrow> hub \<Rightarrow> realtime_error + hub" where
  "hub_register conn owned hub =
     (if \<not> owned then Inl (Stale_Connection ''connection registry ownership was lost before activation'')
      else Inr (hub(sk_device_id conn \<mapsto> conn)))"

definition hub_unregister :: "socket_connection \<Rightarrow> hub \<Rightarrow> hub" where
  "hub_unregister conn hub =
     (case hub (sk_device_id conn) of
        None \<Rightarrow> hub
      | Some current \<Rightarrow>
          if sk_connection_nonce current = sk_connection_nonce conn then hub(sk_device_id conn := None) else hub)"

definition close_row :: "datetime \<Rightarrow> string \<Rightarrow> socket_connection \<Rightarrow> database \<Rightarrow> database" where
  "close_row now reason conn db =
     update_connection (sk_connection_nonce conn)
       (\<lambda>c. if con_status c = CONNECTED then closed_connection now reason c else c) db"

definition end_connection ::
  "(json \<Rightarrow> ustr) \<Rightarrow> datetime \<Rightarrow> bool \<Rightarrow> socket_connection \<Rightarrow> string \<Rightarrow> hub \<Rightarrow> database
     \<Rightarrow> realtime_error option \<times> hub \<times> database \<times> notice list" where
  "end_connection pystr now deleted conn reason hub db =
     (let hub1 = hub_unregister conn hub; db1 = close_row now reason conn db in
      if \<not> deleted then (Some Store_Failure, hub1, db, [])
      else case device_at (sk_device_id conn) db of
        None \<Rightarrow> (None, hub1, db1, [])
      | Some d \<Rightarrow>
          if dev_active_connection_nonce d \<noteq> Some (sk_connection_nonce conn) then (None, hub1, db1, [])
          else
            let d1 = d\<lparr>dev_active_connection_nonce := None\<rparr> in
     (case deny_disconnected now d1 (put_device d1 db1) of
        Inl e \<Rightarrow> (Some (Stream_Error e), hub1, db, [])
      | Inr (es1, db2) \<Rightarrow>
     (case append_all event_append now [device_event pystr ''offline'' d1] db2 of
        Inl e \<Rightarrow> (Some (Stream_Error e), hub1, db, [])
      | Inr (es2, db3) \<Rightarrow> (None, hub1, db3, map (Publish_Event (sk_owner_user_id conn)) (es1 @ es2)))))"

text \<open>A failure after the first transaction ends the new connection again; an error of that cleanup is
  dropped.\<close>

definition abort_activation ::
  "(json \<Rightarrow> ustr) \<Rightarrow> datetime \<Rightarrow> store_run \<Rightarrow> socket_connection \<Rightarrow> realtime_error \<Rightarrow> hub \<Rightarrow> database \<Rightarrow> notice list
     \<Rightarrow> (realtime_error + socket_connection) \<times> hub \<times> database \<times> notice list" where
  "abort_activation pystr now sr conn e hub db ns =
     (case end_connection pystr now (sr_delete sr) conn ''activation_failed'' hub db of
        (err, hub', db', ns') \<Rightarrow> (Inl e, hub', db', ns @ ns'))"

definition begin_connection ::
  "(json \<Rightarrow> ustr) \<Rightarrow> settings \<Rightarrow> datetime \<Rightarrow> connect_info \<Rightarrow> store_run \<Rightarrow> uuid \<Rightarrow> control_envelope \<Rightarrow> hello_payload
     \<Rightarrow> hub \<Rightarrow> database \<Rightarrow> (realtime_error + socket_connection) \<times> hub \<times> database \<times> notice list" where
  "begin_connection pystr cfg now ci sr i env hello hub db =
     (case open_connection cfg now ci (sr_set sr) i env hello db of
        Inl e \<Rightarrow> (Inl e, hub, db, [])
      | Inr (conn, replaced, db1) \<Rightarrow>
     (case hub_register conn (sr_owned sr) hub of
        Inl e \<Rightarrow> abort_activation pystr now sr conn e hub db1 []
      | Inr hub1 \<Rightarrow>
          if \<not> sr_kick sr then abort_activation pystr now sr conn Store_Failure hub1 db1 []
          else
     (case activate_connection pystr now conn db1 of
        Inl e \<Rightarrow> abort_activation pystr now sr conn e hub1 db1 [Kick_Connections i replaced]
      | Inr (events, db2) \<Rightarrow>
          if \<not> sr_publish sr
          then abort_activation pystr now sr conn Store_Failure hub1 db2 [Kick_Connections i replaced]
          else (Inr conn, hub1, db2,
            Kick_Connections i replaced # map (Publish_Event (sk_owner_user_id conn)) events))))"

text \<open>The start of a session after \<open>begin_connection\<close>: the frames that are sent, in order.  \<open>refreshed\<close> is
  the answer of the store to the refresh of the registry entry.\<close>

definition start_session ::
  "frame_env \<Rightarrow> settings \<Rightarrow> (nat \<Rightarrow> datetime) \<Rightarrow> (nat \<Rightarrow> ustr) \<Rightarrow> bool \<Rightarrow> socket_connection \<Rightarrow> hello_payload \<Rightarrow> database
     \<Rightarrow> realtime_error option \<times> ustr list \<times> database \<times> notice list" where
  "start_session fe cfg now fid refreshed conn hello db =
     (case send_if_active conn [hello_ack_frame cfg (fe_fmt fe) (now 0) (fid 0) conn (hp_schema_digest hello)] db of
        Inl e \<Rightarrow> (Some e, [], db, [])
      | Inr acks \<Rightarrow>
          if \<not> refreshed then (Some (Stale_Connection ''connection registry ownership was lost''), acks, db, [])
          else
     (case replay_outbox cfg conn db of
        Inl e \<Rightarrow> (Some e, acks, db, [])
      | Inr frames \<Rightarrow>
     (case dispatch_pending (fe_sha fe) cfg (fe_fmt fe) (\<lambda>n. now (n + 1)) (\<lambda>n. fid (n + 1)) conn db of
        (err, frames', db1, ns) \<Rightarrow> (err, acks @ frames @ frames', db1, ns))))"

text \<open>The reason that is recorded when an error ends a connection.\<close>

fun close_reason :: "realtime_error \<Rightarrow> string" where
  "close_reason (Stale_Connection t) = ''connection_replaced''"
| "close_reason (Protocol_Error t) = ''protocol_error''"
| "close_reason (Sequence_Gap a b) = ''protocol_error''"
| "close_reason Wire_Validation_Error = ''protocol_error''"
| "close_reason (Stream_Error Event_Device_Ownership_Mismatch) = ''protocol_error''"
| "close_reason _ = ''websocket_closed''"

text \<open>One message of the dispatch channel of a device: whether the connection closes, the frame that is sent,
  the database and the publications.  A message that is not JSON or has no usable identifier is skipped.\<close>

definition message_uuid :: "frame_env \<Rightarrow> dict \<Rightarrow> string \<Rightarrow> uuid option" where
  "message_uuid fe m key =
     fe_uuid fe (case dict_get m (u key) of None \<Rightarrow> u ''None'' | Some j \<Rightarrow> json_str (fe_pystr fe) j)"

fun json_texts_of :: "json list \<Rightarrow> ustr list option" where
  "json_texts_of [] = Some []"
| "json_texts_of (JStr s # js) = map_option (Cons s) (json_texts_of js)"
| "json_texts_of (_ # js) = None"

definition kicks :: "ustr \<Rightarrow> dict \<Rightarrow> bool" where
  "kicks nonce m =
     (case dict_get m (u ''replaced_connection_nonces'') of
        Some (JArr js) \<Rightarrow> (case json_texts_of js of None \<Rightarrow> False | Some ns \<Rightarrow> nonce \<in> set ns)
      | _ \<Rightarrow> False)"

definition dispatch_message ::
  "frame_env \<Rightarrow> settings \<Rightarrow> datetime \<Rightarrow> ustr \<Rightarrow> socket_connection \<Rightarrow> ustr \<Rightarrow> database
     \<Rightarrow> (realtime_error + bool \<times> ustr option) \<times> database \<times> notice list" where
  "dispatch_message fe cfg now frame_id conn raw db =
     (case wl_loads (fe_lib fe) raw of
        None \<Rightarrow> (Inr (False, None), db, [])
      | Some (JObj m) \<Rightarrow>
          if dict_get m (u ''kind'') = Some (JStr (u ''kick''))
          then (Inr (kicks (sk_connection_nonce conn) m, None), db, [])
          else if dict_get m (u ''kind'') = Some (JStr (u ''command''))
          then (case message_uuid fe m ''command_id'' of
              None \<Rightarrow> (Inr (False, None), db, [])
            | Some i \<Rightarrow>
                (case dispatch_command (fe_sha fe) cfg (fe_fmt fe) now frame_id conn i db of
                   (r, db1, ns) \<Rightarrow> (map_sum id (Pair False) r, db1, ns)))
          else if dict_get m (u ''kind'') = Some (JStr (u ''approval''))
          then (case message_uuid fe m ''approval_id'' of
              None \<Rightarrow> (Inr (False, None), db, [])
            | Some i \<Rightarrow>
                (case dispatch_approval cfg (fe_fmt fe) now frame_id conn i db of
                   (r, db1) \<Rightarrow> (map_sum id (Pair False) r, db1, [])))
          else (Inr (False, None), db, [])
      | Some _ \<Rightarrow> (Inl Type_Failure, db, []))"

section \<open>What the steps keep\<close>

lemma control_ok_ids: "control_ok cfg db \<Longrightarrow> distinct (map dev_id (devices db))"
  using outbox_wf_ids by (auto simp: control_ok_def)

lemma connections_ok [simp]: "control_ok cfg (db\<lparr>device_connections := cs\<rparr>) = control_ok cfg db"
  using events_wf_cong [of "db\<lparr>device_connections := cs\<rparr>" db]
    outbox_counters_cong(1) [of "db\<lparr>device_connections := cs\<rparr>" db cfg]
  by (simp add: control_ok_def outbox_counters_def)

lemma audit_ok [simp]: "control_ok cfg (add_audit a db) = control_ok cfg db"
  using outbox_counters_cong(1) [of "add_audit a db" db cfg] by (simp add: control_ok_def outbox_counters_def)

lemma put_device_ok:
  assumes "control_ok cfg db" "device_at (dev_id d) db = Some d0"
    and "dev_last_event_sequence d = dev_last_event_sequence d0"
    and "dev_last_server_acked_sequence d = dev_last_server_acked_sequence d0"
    and "dev_last_server_sequence d = dev_last_server_sequence d0"
  shows "control_ok cfg (put_device d db)"
proof -
  have d0: "d0 \<in> set (devices db)" "dev_id d0 = dev_id d"
    using assms(2) device_at_Some [OF control_ok_ids [OF assms(1)]] by auto
  have "x = d0" if "x \<in> set (devices db)" "dev_id x = dev_id d" for x
    using that d0 control_ok_ids [OF assms(1)] by (metis distinct_map inj_on_eq_iff)
  then have "outbox_counters (put_device d db) = outbox_counters db"
    using assms(4,5) by (auto simp: outbox_counters_def put_device_def update_where_def)
  then have "outbox_wf cfg (put_device d db) = outbox_wf cfg db" by (intro outbox_counters_cong(1)) simp_all
  then show ?thesis
    using assms(1) put_device_events [OF assms(2) control_ok_ids [OF assms(1)] assms(3)] by (simp add: control_ok_def)
qed

lemma work_effect_ok:
  "control_ok cfg db \<Longrightarrow> work_effect db db' \<Longrightarrow> commands_wf cfg (commands db') \<Longrightarrow> control_ok cfg db'"
  using work_effect_channel(1) [of db db' cfg] by (simp add: control_ok_def work_effect_def)

lemma approval_effect_ok:
  "control_ok cfg db \<Longrightarrow> approval_effect db db' \<Longrightarrow> control_ok cfg db'"
  using outbox_counters_cong(1) [of db' db cfg] core_counters [of db' db]
  by (simp add: control_ok_def approval_effect_def)

lemma append_ok:
  assumes "control_ok cfg db" "append_all event_append now specs db = Inr (es, db')"
  shows "control_ok cfg db'"
  using work_effect_ok [OF assms(1) append_work_effect [OF assms(2)]] assms(1)
    core_ofD(6) [OF stream.append_all_keeps(1) [OF assms(2)]] by (simp add: control_ok_def)

text \<open>The columns of a device that decide which connection is active.\<close>

definition active_on :: "uuid \<Rightarrow> database \<Rightarrow> (device_status \<times> ustr option \<times> ustr option) option" where
  "active_on i db = map_option (\<lambda>d. (dev_status d, dev_active_connection_nonce d, dev_active_epoch d)) (device_at i db)"

lemma lock_active_iff:
  "(\<exists>d. lock_active_device conn db = Inr d) \<longleftrightarrow>
     active_on (sk_device_id conn) db = Some (ACTIVE, Some (sk_connection_nonce conn), Some (sk_epoch conn))"
  by (auto simp: lock_active_device_def active_on_def device_at_def split: option.splits if_splits)

lemma core_active:
  assumes "devices (core_of db') = devices (core_of db)"
  shows "active_on i db' = active_on i db"
proof -
  have "active_on i x = map_option (\<lambda>d. (dev_status d, dev_active_connection_nonce d, dev_active_epoch d))
      (scalar (\<lambda>d. dev_id d = i) (map device_rest (devices x)))" for x
    by (simp add: active_on_def device_at_def scalar_map option.map_comp comp_def device_rest_def)
  then show ?thesis using core_rest [OF assms] by simp
qed

lemma active_put:
  "device_at (dev_id d) db \<noteq> None \<Longrightarrow> active_on j (put_device d db) =
     (if j = dev_id d then Some (dev_status d, dev_active_connection_nonce d, dev_active_epoch d) else active_on j db)"
  by (simp add: active_on_def device_at_put)

section \<open>Opening\<close>

definition only_connections :: "database \<Rightarrow> database \<Rightarrow> bool" where
  "only_connections db db' \<longleftrightarrow> (\<exists>cs. db' = db\<lparr>device_connections := cs\<rparr>)"

lemma closed_not_connected [simp]: "\<not> connected_on i (closed_connection now reason c)"
  by (simp add: connected_on_def closed_connection_def)

lemma replaced_none: "filter (connected_on i) (device_connections (replace_connections now i db)) = []"
proof -
  have "filter P (update_where P f xs) = []" if "\<And>x. \<not> P (f x)" for P f and xs :: "device_connection list"
    using that by (induction xs) auto
  then show ?thesis by (simp add: replace_connections_def)
qed

lemma prune_Inr:
  assumes "prune_connections cfg i db = Inr db'"
  shows "only_connections db db'" "set (device_connections db') \<subseteq> set (device_connections db)"
    "connection_count i db' < device_max_connection_records cfg"
proof -
  show "only_connections db db'"
    using assms exI [of "\<lambda>cs. db = db\<lparr>device_connections := cs\<rparr>" "device_connections db"]
    by (auto simp: prune_connections_def only_connections_def Let_def split: if_splits)
  show "set (device_connections db') \<subseteq> set (device_connections db)"
    using assms by (auto simp: prune_connections_def Let_def split: if_splits)
  show "connection_count i db' < device_max_connection_records cfg"
    using assms by (auto simp: prune_connections_def Let_def not_le split: if_splits)
qed

lemma open_connection_Inr:
  assumes "open_connection cfg now ci stored i env hello db = Inr (conn, replaced, db')" "control_ok cfg db"
  shows "control_ok cfg db'" "sk_device_id conn = i" "sk_connection_nonce conn = ci_nonce ci" "sk_epoch conn = env_epoch env"
    "active_on i db' = Some (ACTIVE, Some (ci_nonce ci), Some (env_epoch env))"
    "map con_connection_nonce (filter (connected_on i) (device_connections db')) = [ci_nonce ci]"
    "connection_count i db' \<le> device_max_connection_records cfg"
    "commands db' = commands db" "approvals db' = approvals db" "thread_bindings db' = thread_bindings db"
    "\<And>ack. env_ack env = Some ack \<Longrightarrow> channel i db' = channel_ack ack (channel i db)"
    "\<exists>d. device_at i db' = Some d \<and> dev_owner_user_id d = sk_owner_user_id conn"
proof -
  obtain d ack where d: "device_at i db = Some d" "dev_status d = ACTIVE" "env_ack env = Some ack"
      "ack \<le> dev_last_server_sequence d"
    using assms(1) by (auto simp: open_connection_def split: option.splits if_splits)
  obtain d1 db1 where a: "apply_ack d ack now db = (d1, db1)" by (cases "apply_ack d ack now db")
  obtain db2 where p: "prune_connections cfg i (replace_connections now i db1) = Inr db2"
    using assms(1) d a by (auto simp: open_connection_def split: sum.splits if_splits)
  define d2 where "d2 = connected_device now ci (env_epoch env) hello d1"
  define db3 where "db3 = put_device d2 db2"
  have r: "conn = opened_socket ci (env_epoch env) d2"
      "db' = add_audit (connect_audit now ci (env_epoch env) d2)
         (db3\<lparr>device_connections := device_connections db3 @ [new_connection now ci (env_epoch env) hello d2]\<rparr>)"
    using assms(1) d a p by (auto simp: open_connection_def Let_def db3_def d2_def split: if_splits)
  have wf: "outbox_wf cfg db" using assms(2) by (simp add: control_ok_def)
  note ar = apply_ack_refines [OF wf d(1,4) a]
  have ok1: "control_ok cfg db1"
    by (rule record_ack_ok [OF assms(2) d(1), of "Some ack" now d1]) (use d(4) a in \<open>simp_all add: record_ack_def\<close>)
  obtain cs where cs: "db2 = db1\<lparr>device_connections := cs\<rparr>"
    using prune_Inr(1) [OF p] by (auto simp: only_connections_def replace_connections_def)
  have ok2: "control_ok cfg db2" using ok1 by (simp add: cs)
  have i: "dev_id d1 = i" "dev_id d2 = i" using device_at_id [OF ar(4)] by (simp_all add: d2_def connected_device_def)
  have at2: "device_at (dev_id d2) db2 = Some d1" using ar(4) i by (simp add: cs device_at_def)
  have ok3: "control_ok cfg db3"
    unfolding db3_def by (rule put_device_ok [OF ok2 at2]) (simp_all add: d2_def connected_device_def)
  then show "control_ok cfg db'" by (simp add: r(2))
  show "sk_device_id conn = i" "sk_connection_nonce conn = ci_nonce ci" "sk_epoch conn = env_epoch env"
    using i by (simp_all add: r(1) opened_socket_def)
  have "active_on i db' = active_on i db3" by (simp add: active_on_def device_at_def r(2))
  also have "\<dots> = Some (dev_status d2, dev_active_connection_nonce d2, dev_active_epoch d2)"
    using active_put [of d2 db2 i] at2 i by (simp add: db3_def)
  finally show "active_on i db' = Some (ACTIVE, Some (ci_nonce ci), Some (env_epoch env))"
    using d(2) ar(5) by (simp add: d2_def connected_device_def)
  show "commands db' = commands db" "approvals db' = approvals db" "thread_bindings db' = thread_bindings db"
    using record_ack_tables [of d "Some ack" now db d1 db1] a by (simp_all add: r(2) db3_def cs record_ack_def)
  let ?new = "new_connection now ci (env_epoch env) hello d2"
  have rows: "device_connections db' = device_connections db2 @ [?new]" by (simp add: r(2) db3_def)
  have "connected_on i ?new" "con_connection_nonce ?new = ci_nonce ci"
    using i by (simp_all add: new_connection_def connected_on_def)
  moreover have "filter (connected_on i) (device_connections db2) = []"
    using replaced_none [of i now db1] prune_Inr(2) [OF p] unfolding filter_empty_conv by blast
  ultimately show "map con_connection_nonce (filter (connected_on i) (device_connections db')) = [ci_nonce ci]"
    by (simp add: rows)
  show "connection_count i db' \<le> device_max_connection_records cfg"
    using prune_Inr(3) [OF p] by (simp add: connection_count_def rows count_where_append)
  have "device_at i db' = device_at i db3" by (simp add: device_at_def r(2))
  then have at: "device_at i db' = Some d2" using device_at_put [of d2 db2 i] at2 i by (simp add: db3_def)
  then show "\<exists>d. device_at i db' = Some d \<and> dev_owner_user_id d = sk_owner_user_id conn"
    by (simp add: r(1) opened_socket_def)
  note at
  moreover have "unacked i db' = unacked i db1" by (rule unacked_cong) (simp add: r(2) db3_def cs)
  ultimately have "channel i db' = channel i db1"
    using channel_at [OF ar(4)] by (simp add: channel_at d2_def connected_device_def)
  then show "channel i db' = channel_ack ack' (channel i db)" if "env_ack env = Some ack'" for ack'
    using that d(3) ar(2) by simp
qed

section \<open>Activation and end\<close>

lemma activate_Inr:
  assumes "activate_connection pystr now conn db = Inr (es, db')" "control_ok cfg db"
  obtains d where "control_ok cfg db'" "active_on j db' = active_on j db" "channel j db' = channel j db"
    "device_connections db' = device_connections db" "device_at (sk_device_id conn) db = Some d"
    "commands db' = update_where (stale_command d (sk_epoch conn)) (reconciled_form now) (commands db)"
    "approvals db' = update_where (undispatched d (Some (sk_epoch conn)))
       (denied_form now ''stale_epoch_default_deny'') (approvals db)"
proof -
  obtain d es1 db1 es2 db2 es3 where d: "device_at (sk_device_id conn) db = Some d"
      and 1: "reconcile_stale_epoch_commands now d (sk_epoch conn) db = Inr (es1, db1)"
      and 2: "deny_stale_epoch now d (sk_epoch conn) db1 = Inr (es2, db2)"
      and 3: "append_all event_append now [device_event pystr ''online'' d] db2 = Inr (es3, db')"
    using assms(1) by (auto simp: activate_connection_def split: option.splits if_splits sum.splits)
  have ids: "distinct (map cmd_id (commands db))" "distinct (map thr_id (thread_bindings db))"
    using assms(2) by (simp_all add: control_ok_def commands_wf_def)
  obtain bs where r: "commands db1 = update_where (stale_command d (sk_epoch conn)) (reconciled_form now) (commands db)"
      "work_effect db db1"
    using reconcile_Inr [OF 1 ids] by metis
  have "commands_progress (commands db) (commands db1)"
    unfolding r(1) commands_progress_def update_where_def list_all2_map2
    by (rule list_all2_refl) (simp add: stale_command_def dispatch_progress(3))
  then have ok1: "control_ok cfg db1"
    using work_effect_ok [OF assms(2) r(2)] commands_progress_wf assms(2) by (simp add: control_ok_def)
  note u = deny_undispatched_Inr [OF 2 [unfolded deny_stale_epoch_def]]
  note k = core_ofD [OF stream.append_all_keeps(1) [OF 3]] append_work_effect [OF 3]
  have ok3: "control_ok cfg db'" by (rule append_ok [OF approval_effect_ok [OF ok1 u(2)] 3])
  have dev: "devices (core_of db') = devices (core_of db)"
    using r(2) u(2) k(9) by (simp add: work_effect_def approval_effect_def)
  have ob: "device_outboxes db' = device_outboxes db" "device_connections db' = device_connections db"
    using r(2) u(2) k(9) by (simp_all add: work_effect_def approval_effect_def)
  show thesis
  proof (rule that [OF ok3 core_active [OF dev] outbox_counters_cong(2) [OF ob(1) core_counters [OF dev]] ob(2) d])
    show "commands db' = update_where (stale_command d (sk_epoch conn)) (reconciled_form now) (commands db)"
      using r(1) u(2) k(6) by (simp add: approval_effect_def)
    show "approvals db' = update_where (undispatched d (Some (sk_epoch conn)))
        (denied_form now ''stale_epoch_default_deny'') (approvals db)"
      using r(2) u(1) k(7) by (simp add: work_effect_def)
  qed
qed

lemma close_row_simps [simp]:
  "devices (close_row now reason conn db) = devices db" "device_outboxes (close_row now reason conn db) = device_outboxes db"
  "commands (close_row now reason conn db) = commands db" "approvals (close_row now reason conn db) = approvals db"
  "control_ok cfg (close_row now reason conn db) = control_ok cfg db"
  by (simp_all add: close_row_def update_connection_def)

lemma end_connection_ok:
  assumes "end_connection pystr now deleted conn reason hub db = (err, hub', db', ns)" "control_ok cfg db"
  shows "control_ok cfg db'" "hub' = hub_unregister conn hub"
    "active_on j db' = active_on j db \<or> j = sk_device_id conn
       \<and> (\<exists>d. device_at j db = Some d \<and> dev_active_connection_nonce d = Some (sk_connection_nonce conn))"
    "device_connections db' = device_connections db \<or> device_connections db' = device_connections (close_row now reason conn db)"
proof -
  let ?db1 = "close_row now reason conn db"
  define goal where "goal \<longleftrightarrow> control_ok cfg db' \<and> (active_on j db' = active_on j db \<or> j = sk_device_id conn
       \<and> (\<exists>d. device_at j db = Some d \<and> dev_active_connection_nonce d = Some (sk_connection_nonce conn)))
     \<and> (device_connections db' = device_connections db \<or> device_connections db' = device_connections ?db1)"
  have same: "device_at j ?db1 = device_at j db" for j by (simp add: device_at_def)
  consider "db' = db" | "db' = ?db1"
    | d es1 db2 es2 where "device_at (sk_device_id conn) db = Some d"
      "dev_active_connection_nonce d = Some (sk_connection_nonce conn)"
      "deny_disconnected now (d\<lparr>dev_active_connection_nonce := None\<rparr>)
         (put_device (d\<lparr>dev_active_connection_nonce := None\<rparr>) ?db1) = Inr (es1, db2)"
      "append_all event_append now [device_event pystr ''offline'' (d\<lparr>dev_active_connection_nonce := None\<rparr>)] db2
         = Inr (es2, db')"
    using assms(1) by (auto simp: end_connection_def Let_def split: option.splits if_splits sum.splits)
  then have goal
  proof cases
    case (3 d es1 db2 es2)
    let ?d = "d\<lparr>dev_active_connection_nonce := None\<rparr>"
    have i: "dev_id ?d = sk_device_id conn" using device_at_id [OF 3(1)] by simp
    have at: "device_at (dev_id ?d) ?db1 = Some d" using 3(1) same i by simp
    have ok: "control_ok cfg (put_device ?d ?db1)" by (rule put_device_ok [OF _ at]) (use assms(2) in simp_all)
    note u = deny_undispatched_Inr [OF 3(3) [unfolded deny_disconnected_def]]
    note k = append_work_effect [OF 3(4)]
    have "devices (core_of db') = devices (core_of (put_device ?d ?db1))"
      using u(2) k by (simp add: work_effect_def approval_effect_def)
    then have "active_on j db' = active_on j (put_device ?d ?db1)" by (rule core_active)
    moreover have "active_on j (put_device ?d ?db1) = active_on j db" if "j \<noteq> sk_device_id conn"
      using active_put [of ?d ?db1 j] at that i by (simp add: active_on_def same)
    moreover have "device_connections db' = device_connections ?db1"
      using u(2) k by (simp add: work_effect_def approval_effect_def)
    moreover have "control_ok cfg db'" by (rule append_ok [OF approval_effect_ok [OF ok u(2)] 3(4)])
    ultimately show ?thesis using 3(1,2) unfolding goal_def by (cases "j = sk_device_id conn") auto
  qed (use assms(2) in \<open>auto simp: goal_def active_on_def same\<close>)
  then show "control_ok cfg db'" "active_on j db' = active_on j db \<or> j = sk_device_id conn
       \<and> (\<exists>d. device_at j db = Some d \<and> dev_active_connection_nonce d = Some (sk_connection_nonce conn))"
    "device_connections db' = device_connections db \<or> device_connections db' = device_connections ?db1"
    unfolding goal_def by blast+
  show "hub' = hub_unregister conn hub"
    using assms(1) by (auto simp: end_connection_def Let_def split: option.splits if_splits sum.splits)
qed

lemma begin_connection_cases:
  assumes "begin_connection pystr cfg now ci sr i env hello hub db = (res, hub', db', ns)"
  obtains (refused) e where "res = Inl e" "hub' = hub" "db' = db"
  | (aborted) e conn replaced db1 db2 hub1 where "res = Inl e"
      "open_connection cfg now ci (sr_set sr) i env hello db = Inr (conn, replaced, db1)"
      "db2 = db1 \<or> (\<exists>es. activate_connection pystr now conn db1 = Inr (es, db2))"
      "\<exists>err ns'. end_connection pystr now (sr_delete sr) conn ''activation_failed'' hub1 db2 = (err, hub', db', ns')"
  | (begun) conn replaced db1 es where "res = Inr conn"
      "open_connection cfg now ci (sr_set sr) i env hello db = Inr (conn, replaced, db1)"
      "activate_connection pystr now conn db1 = Inr (es, db')" "hub' = hub(sk_device_id conn \<mapsto> conn)"
proof (cases "open_connection cfg now ci (sr_set sr) i env hello db")
  case (Inl e)
  then show ?thesis using assms refused by (auto simp: begin_connection_def)
next
  case (Inr r)
  obtain conn replaced db1 where o: "open_connection cfg now ci (sr_set sr) i env hello db = Inr (conn, replaced, db1)"
    using Inr by (cases r) auto
  have abort: thesis if "abort_activation pystr now sr conn e hub1 db2 ns1 = (res, hub', db', ns)"
      "db2 = db1 \<or> (\<exists>es. activate_connection pystr now conn db1 = Inr (es, db2))" for e hub1 db2 ns1
    using that(1) aborted [OF _ o that(2), of e hub1] by (auto simp: abort_activation_def split: prod.splits)
  show ?thesis
  proof (cases "sr_owned sr \<and> sr_kick sr")
    case False
    then show ?thesis
      using assms o abort by (auto simp: begin_connection_def hub_register_def split: if_splits)
  next
    case True
    show ?thesis
    proof (cases "activate_connection pystr now conn db1")
      case (Inl e)
      then show ?thesis using assms o True abort by (auto simp: begin_connection_def hub_register_def)
    next
      case (Inr x)
      then show ?thesis
        using assms o True abort begun [OF _ o] by (cases x) (auto simp: begin_connection_def hub_register_def split: if_splits)
    qed
  qed
qed

lemma begin_connection_ok:
  assumes "begin_connection pystr cfg now ci sr i env hello hub db = (res, hub', db', ns)" "control_ok cfg db"
  shows "control_ok cfg db'"
  using assms(1)
proof (cases rule: begin_connection_cases)
  case (refused e)
  then show ?thesis using assms(2) by simp
next
  case (aborted e conn replaced db1 db2 hub1)
  have "control_ok cfg db1" by (rule open_connection_Inr(1) [OF aborted(2) assms(2)])
  then have "control_ok cfg db2" using aborted(3) activate_Inr by metis
  then show ?thesis using aborted(4) end_connection_ok(1) by blast
next
  case (begun conn replaced db1 es)
  have "control_ok cfg db1" by (rule open_connection_Inr(1) [OF begun(2) assms(2)])
  then show ?thesis using activate_Inr [OF begun(3)] by metis
qed

lemma fenced_frame:
  assumes "active_on (sk_device_id old) db = Some (s, Some n, e)" "sk_connection_nonce old \<noteq> n"
  shows "lock_active_device old db \<noteq> Inr d" "\<exists>e. accept_frame fe cfg now old env db = Inl e"
proof -
  show "lock_active_device old db \<noteq> Inr d" using assms lock_active_iff [of old db] by auto
  obtain d' where "device_at (sk_device_id old) db = Some d'" "dev_active_connection_nonce d' = Some n"
    using assms(1) by (auto simp: active_on_def)
  then show "\<exists>e. accept_frame fe cfg now old env db = Inl e" using assms(2) by (auto simp: accept_frame_def)
qed

lemma connected_close_row:
  assumes "map con_connection_nonce (filter (connected_on i) (device_connections db)) = [n]"
    and "sk_connection_nonce old \<noteq> n"
  shows "map con_connection_nonce (filter (connected_on i) (device_connections (close_row now reason old db))) = [n]"
proof -
  let ?f = "\<lambda>c. if con_status c = CONNECTED then closed_connection now reason c else c"
  have "filter (connected_on i) (update_where (\<lambda>x. con_connection_nonce x = sk_connection_nonce old) ?f cs) =
      filter (\<lambda>c. con_connection_nonce c \<noteq> sk_connection_nonce old) (filter (connected_on i) cs)" for cs
    by (induction cs) (auto simp: connected_on_def closed_connection_def)
  then have "map con_connection_nonce (filter (connected_on i) (device_connections (close_row now reason old db))) =
      filter (\<lambda>x. x \<noteq> sk_connection_nonce old) (map con_connection_nonce (filter (connected_on i) (device_connections db)))"
    by (simp add: close_row_def update_connection_def filter_map comp_def)
  then show ?thesis using assms by simp
qed

text \<open>C6: A new connection takes over from the older ones completely.  When the opening succeeds, the new
  connection is the only open one of the device, in the table, in the registry of the process and for
  every later check, and the records stay within their limit; no command of another epoch is left
  outstanding.  An older connection of the device is fenced: none of its frames is accepted and it
  cannot lock the device for a dispatch; and its late end changes nothing of this, the new connection
  stays registered, active and open.  All tables stay consistent.\<close>

theorem connection_takeover:
  assumes "begin_connection pystr cfg now ci sr i env hello hub db = (Inr conn, hub', db', ns)" "control_ok cfg db"
  shows "control_ok cfg db' \<and> sk_device_id conn = i \<and> sk_connection_nonce conn = ci_nonce ci
    \<and> sk_epoch conn = env_epoch env \<and> hub' i = Some conn \<and> (\<exists>d. lock_active_device conn db' = Inr d)
    \<and> map con_connection_nonce (filter (connected_on i) (device_connections db')) = [ci_nonce ci]
    \<and> connection_count i db' \<le> device_max_connection_records cfg
    \<and> (\<forall>c \<in> set (commands db'). cmd_device_id c = i \<and> cmd_owner_user_id c = sk_owner_user_id conn \<and> outstanding c \<longrightarrow>
         (\<forall>e. cmd_appserver_epoch c = Some e \<longrightarrow> e = env_epoch env))
    \<and> (\<forall>old. sk_device_id old = i \<and> sk_connection_nonce old \<noteq> ci_nonce ci \<longrightarrow>
         (\<forall>d. lock_active_device old db' \<noteq> Inr d)
       \<and> (\<forall>fe t f. \<exists>e. accept_frame fe cfg t old f db' = Inl e)
       \<and> (\<forall>t deleted reason err hub'' db'' ns'.
            end_connection pystr t deleted old reason hub' db' = (err, hub'', db'', ns') \<longrightarrow>
            hub'' i = Some conn \<and> (\<exists>d. lock_active_device conn db'' = Inr d)
          \<and> map con_connection_nonce (filter (connected_on i) (device_connections db'')) = [ci_nonce ci]))"
proof -
  obtain replaced db1 es where o: "open_connection cfg now ci (sr_set sr) i env hello db = Inr (conn, replaced, db1)"
      and a: "activate_connection pystr now conn db1 = Inr (es, db')" and h: "hub' = hub(sk_device_id conn \<mapsto> conn)"
    using assms(1) by (cases rule: begin_connection_cases) auto
  note O = open_connection_Inr [OF o assms(2)]
  obtain d where A: "control_ok cfg db'" "active_on i db' = active_on i db1"
      "device_connections db' = device_connections db1" "device_at i db1 = Some d"
      "commands db' = update_where (stale_command d (env_epoch env)) (reconciled_form now) (commands db1)"
    using activate_Inr [OF a O(1), of i] O(2,4) by metis
  have d: "dev_id d = i" "dev_owner_user_id d = sk_owner_user_id conn"
    using device_at_id [OF A(4)] O(12) A(4) by auto
  have act: "active_on i db' = Some (ACTIVE, Some (ci_nonce ci), Some (env_epoch env))" using A(2) O(5) by simp
  have rows: "map con_connection_nonce (filter (connected_on i) (device_connections db')) = [ci_nonce ci]"
    using A(3) O(6) by simp
  have lock: "\<exists>d. lock_active_device conn x = Inr d" if "active_on i x = active_on i db'" for x
    using lock_active_iff [of conn x] that act O(2-4) by simp
  have "e = env_epoch env" if "c \<in> set (commands db')" "cmd_device_id c = i" "cmd_owner_user_id c = sk_owner_user_id conn"
      "outstanding c" "cmd_appserver_epoch c = Some e" for c e
  proof -
    have "\<not> stale_command d (env_epoch env) c"
      using that(1) unfolding A(5) in_set_update_where by (metis not_stale(1))
    then show ?thesis using that(2-5) d by (auto simp: stale_command_def)
  qed
  moreover have "hub'' i = Some conn \<and> (\<exists>d. lock_active_device conn db'' = Inr d)
      \<and> map con_connection_nonce (filter (connected_on i) (device_connections db'')) = [ci_nonce ci]"
    if old: "sk_device_id old = i" "sk_connection_nonce old \<noteq> ci_nonce ci"
      and e: "end_connection pystr t deleted old reason hub' db' = (err, hub'', db'', ns')"
    for old t deleted reason err hub'' db'' ns'
  proof -
    note E = end_connection_ok [OF e A(1)]
    have "active_on i db'' = active_on i db'" using E(3) [of i] act old(2) by (auto simp: active_on_def)
    moreover have "hub'' i = Some conn" using E(2) h old O(2,3) by (simp add: hub_unregister_def)
    moreover have "map con_connection_nonce (filter (connected_on i) (device_connections db'')) = [ci_nonce ci]"
      using E(4) rows connected_close_row [OF rows old(2)] by auto
    ultimately show ?thesis using lock by blast
  qed
  moreover have "(\<forall>d. lock_active_device old db' \<noteq> Inr d) \<and> (\<forall>fe t f. \<exists>e. accept_frame fe cfg t old f db' = Inl e)"
    if "sk_device_id old = i" "sk_connection_nonce old \<noteq> ci_nonce ci" for old
    using fenced_frame [of old db'] act that by simp
  moreover have "connection_count i db' \<le> device_max_connection_records cfg"
    using O(7) A(3) by (simp add: connection_count_def)
  moreover have "hub' i = Some conn" using h O(2) by simp
  ultimately show ?thesis using A(1) O(2,3,4) rows lock [OF refl] by blast
qed

section \<open>A sample connection\<close>

definition sample_hello :: hello_payload where
  "sample_hello = \<lparr>hp_connector_version = u ''1'', hp_codex_version = u ''1'', hp_schema_digest = u ''d'',
     hp_public_key = u ''key'', hp_capabilities = [], hp_workspace_roots = [u ''/work''], hp_resumed_from_seq = 0\<rparr>"

definition sample_connect :: connect_info where
  "sample_connect = \<lparr>ci_nonce = u ''nonce-2'', ci_row_id = 77, ci_instance_id = u ''instance'',
     ci_remote_address = None, ci_user_agent = []\<rparr>"

definition sample_store :: store_run where
  "sample_store = \<lparr>sr_set = True, sr_owned = True, sr_kick = True, sr_publish = True, sr_delete = True\<rparr>"

definition sample_hello_frame :: control_envelope where
  "sample_hello_frame = sample_envelope\<lparr>env_type := ''hello'', env_epoch := u ''epoch-0000000002'', env_ack := Some 0\<rparr>"

lemma sample_control_ok: "control_ok default_settings sample_database"
proof -
  have "events_wf sample_database"
    using approval_database_wf(2) events_wf_cong [of sample_database approval_database]
    by (simp add: approval_database_def)
  then show ?thesis
    using sample_outbox_wf(1) sample_commands_wf
    by (simp add: control_ok_def approvals_wf_def sample_database_def empty_database_def)
qed

lemma sample_begin:
  "\<exists>conn hub' db' ns. begin_connection (\<lambda>_. []) default_settings 5 sample_connect sample_store 1 sample_hello_frame
     sample_hello (\<lambda>_. None) sample_database = (Inr conn, hub', db', ns)"
  by (simp add: begin_connection_def open_connection_def sample_outbox_wf(2) sample_hello_frame_def sample_hello_def
      sample_store_def sample_connect_def apply_ack_def prune_connections_def replace_connections_def connection_count_def
      sample_database_def empty_database_def hub_register_def activate_connection_def opened_socket_def
      connected_device_def put_device_def device_at_def reconcile_stale_epoch_commands_def deny_stale_epoch_def
      deny_undispatched_def device_event_def sample_run_simps Let_def default_settings_def
      del: dumps.simps)

lemma sample_nonces: "u ''nonce-1'' \<noteq> ci_nonce sample_connect"
  by (simp add: sample_connect_def u_def)

theorem connection_takeover_witness:
  "\<exists>conn hub' db' ns. begin_connection (\<lambda>_. []) default_settings 5 sample_connect sample_store 1 sample_hello_frame
       sample_hello (\<lambda>_. None) sample_database = (Inr conn, hub', db', ns)
     \<and> sk_connection_nonce conn = u ''nonce-2'' \<and> (\<exists>d. lock_active_device conn db' = Inr d)
     \<and> (\<forall>d. lock_active_device sample_connection db' \<noteq> Inr d)"
proof -
  obtain conn hub' db' ns where run: "begin_connection (\<lambda>_. []) default_settings 5 sample_connect sample_store 1
      sample_hello_frame sample_hello (\<lambda>_. None) sample_database = (Inr conn, hub', db', ns)"
    using sample_begin by blast
  note T = connection_takeover [OF run sample_control_ok]
  have "sk_connection_nonce conn = u ''nonce-2''" "\<exists>d. lock_active_device conn db' = Inr d"
    using T by (simp_all add: sample_connect_def)
  moreover have "\<forall>old. sk_device_id old = 1 \<and> sk_connection_nonce old \<noteq> ci_nonce sample_connect \<longrightarrow>
      (\<forall>d. lock_active_device old db' \<noteq> Inr d)"
    using T by blast
  then have "\<forall>d. lock_active_device sample_connection db' \<noteq> Inr d"
    by (metis sample_connection_sel(1,3) sample_nonces)
  ultimately show ?thesis using run by auto
qed

end
