(* ===== verification/Retention.thy ===== *)
theory Retention
  imports Connection
begin

text \<open>
  The retention service of \<open>retention.py\<close>: eight bounded deletions, one per table, each in its own
  transaction.  The foreign keys of \<open>models.py\<close> with \<open>ON DELETE SET NULL\<close> on a session are written out;
  for all other tables \<open>foreign_keys\<close> states what the database enforces, and the property of this
  theory shows that no deletion of the service can meet such a key.  An audit row has its position
  in the append-only table as its identifier.
\<close>

section \<open>Batches\<close>

text \<open>\<open>_delete_batch\<close>: at most \<open>limit\<close> rows that match, oldest first.\<close>

definition delete_batch ::
  "nat \<Rightarrow> ('r \<Rightarrow> bool) \<Rightarrow> ('r \<Rightarrow> datetime) \<Rightarrow> ('r \<Rightarrow> 'k::linorder) \<Rightarrow> 'r list \<Rightarrow> nat \<times> 'r list" where
  "delete_batch limit predicate order_column id_column rows =
     (let candidate_ids = map id_column
            (select_ordered predicate (\<lambda>r. (order_column r, id_column r)) limit rows) in
      if candidate_ids = [] then (0, rows)
      else (length candidate_ids, delete_where (\<lambda>r. id_column r \<in> set candidate_ids \<and> predicate r) rows))"

definition days_before :: "datetime \<Rightarrow> nat \<Rightarrow> datetime" where
  "days_before now n = now - days (int n)"

definition TERMINAL_COMMAND_STATUSES :: "command_status list" where
  "TERMINAL_COMMAND_STATUSES = [SUCCEEDED, FAILED, DENIED, CANCELLED, EXPIRED]"

definition TERMINAL_APPROVAL_STATUSES :: "approval_status list" where
  "TERMINAL_APPROVAL_STATUSES = [APPROVED, APPROVAL_DENIED, APPROVAL_EXPIRED, APPROVAL_CANCELLED]"

definition TERMINAL_THREAD_STATUSES :: "thread_binding_status list" where
  "TERMINAL_THREAD_STATUSES = [CLOSED, STALE]"

text \<open>A nullable column compared with a bound: \<open>NULL\<close> does not match.\<close>

definition at_most :: "datetime option \<Rightarrow> datetime \<Rightarrow> bool" where
  "at_most t bound = (case t of None \<Rightarrow> False | Some x \<Rightarrow> x \<le> bound)"

definition unacknowledged_frames :: "uuid \<Rightarrow> database \<Rightarrow> bool" where
  "unacknowledged_frames device_id db =
     exists_where (\<lambda>x. obx_device_id x = device_id \<and> obx_acked_at x = None) (device_outboxes db)"

section \<open>One deletion per table\<close>

definition session_terminal :: "settings \<Rightarrow> datetime \<Rightarrow> control_session \<Rightarrow> bool" where
  "session_terminal cfg now s =
     (let cutoff = days_before now (session_record_retention_days cfg) in
      ses_expires_at s \<le> cutoff \<and> (ses_revoked_at s = None \<or> at_most (ses_revoked_at s) cutoff))"

text \<open>\<open>ON DELETE SET NULL\<close> of \<open>claimed_by_session_id\<close> and \<open>decided_by_session_id\<close>.\<close>

definition forget_claim :: "(uuid \<Rightarrow> bool) \<Rightarrow> device_pairing \<Rightarrow> device_pairing" where
  "forget_claim kept p =
     (case pair_claimed_by_session_id p of
        None \<Rightarrow> p
      | Some i \<Rightarrow> if kept i then p else p\<lparr>pair_claimed_by_session_id := None\<rparr>)"

definition forget_decider :: "(uuid \<Rightarrow> bool) \<Rightarrow> approval \<Rightarrow> approval" where
  "forget_decider kept a =
     (case apv_decided_by_session_id a of
        None \<Rightarrow> a
      | Some i \<Rightarrow> if kept i then a else a\<lparr>apv_decided_by_session_id := None\<rparr>)"

definition put_sessions :: "control_session list \<Rightarrow> database \<Rightarrow> database" where
  "put_sessions rows db =
     (let kept = (\<lambda>i. i \<in> ses_id ` set rows) in
      db\<lparr>control_sessions := rows, device_pairings := map (forget_claim kept) (device_pairings db),
         approvals := map (forget_decider kept) (approvals db)\<rparr>)"

definition delete_control_sessions :: "settings \<Rightarrow> datetime \<Rightarrow> database \<Rightarrow> nat \<times> database" where
  "delete_control_sessions cfg now db =
     (case delete_batch (retention_sweep_batch_size cfg) (session_terminal cfg now) ses_expires_at ses_id
             (control_sessions db) of
        (n, rows) \<Rightarrow> (n, if n = 0 then db else put_sessions rows db))"

definition pairing_terminal :: "settings \<Rightarrow> datetime \<Rightarrow> device_pairing \<Rightarrow> bool" where
  "pairing_terminal cfg now p \<longleftrightarrow>
     pair_expires_at p \<le> days_before now (device_pairing_retention_days cfg)
   \<and> pair_status p \<in> {PAIRING_COMPLETED, PAIRING_EXPIRED, PAIRING_CANCELLED}"

definition delete_device_pairings :: "settings \<Rightarrow> datetime \<Rightarrow> database \<Rightarrow> nat \<times> database" where
  "delete_device_pairings cfg now db =
     (case delete_batch (retention_sweep_batch_size cfg) (pairing_terminal cfg now) pair_expires_at pair_id
             (device_pairings db) of
        (n, rows) \<Rightarrow> (n, db\<lparr>device_pairings := rows\<rparr>))"

definition safely_delivered :: "approval \<Rightarrow> bool" where
  "safely_delivered a \<longleftrightarrow>
     apv_decision_dispatched_at a \<noteq> None
   \<or> apv_status a = APPROVAL_DENIED
     \<and> (case apv_decision_reason a of None \<Rightarrow> False | Some r \<Rightarrow> r \<in> set NON_DISPATCHABLE_APPROVAL_REASONS)
   \<or> apv_status a \<in> {APPROVAL_EXPIRED, APPROVAL_CANCELLED}"

definition approval_terminal :: "settings \<Rightarrow> datetime \<Rightarrow> database \<Rightarrow> approval \<Rightarrow> bool" where
  "approval_terminal cfg now db a \<longleftrightarrow>
     apv_status a \<in> set TERMINAL_APPROVAL_STATUSES
   \<and> at_most (apv_decided_at a) (days_before now (approval_record_retention_days cfg))
   \<and> safely_delivered a \<and> \<not> unacknowledged_frames (apv_device_id a) db"

definition delete_approvals :: "settings \<Rightarrow> datetime \<Rightarrow> database \<Rightarrow> nat \<times> database" where
  "delete_approvals cfg now db =
     (case delete_batch (retention_sweep_batch_size cfg) (approval_terminal cfg now db)
             (\<lambda>a. the_time (apv_decided_at a)) apv_id (approvals db) of
        (n, rows) \<Rightarrow> (n, db\<lparr>approvals := rows\<rparr>))"

definition command_terminal :: "settings \<Rightarrow> datetime \<Rightarrow> database \<Rightarrow> command \<Rightarrow> bool" where
  "command_terminal cfg now db c \<longleftrightarrow>
     cmd_status c \<in> set TERMINAL_COMMAND_STATUSES
   \<and> at_most (cmd_completed_at c) (days_before now (command_record_retention_days cfg))
   \<and> \<not> exists_where (\<lambda>a. apv_command_id a = Some (cmd_id c)) (approvals db)
   \<and> \<not> unacknowledged_frames (cmd_device_id c) db"

definition delete_commands :: "settings \<Rightarrow> datetime \<Rightarrow> database \<Rightarrow> nat \<times> database" where
  "delete_commands cfg now db =
     (case delete_batch (retention_sweep_batch_size cfg) (command_terminal cfg now db)
             (\<lambda>c. the_time (cmd_completed_at c)) cmd_id (commands db) of
        (n, rows) \<Rightarrow> (n, db\<lparr>commands := rows\<rparr>))"

definition connection_terminal :: "settings \<Rightarrow> datetime \<Rightarrow> device_connection \<Rightarrow> bool" where
  "connection_terminal cfg now c \<longleftrightarrow>
     con_status c = DISCONNECTED
   \<and> at_most (con_disconnected_at c) (days_before now (device_connection_retention_days cfg))"

definition delete_device_connections :: "settings \<Rightarrow> datetime \<Rightarrow> database \<Rightarrow> nat \<times> database" where
  "delete_device_connections cfg now db =
     (case delete_batch (retention_sweep_batch_size cfg) (connection_terminal cfg now)
             (\<lambda>c. the_time (con_disconnected_at c)) con_id (device_connections db) of
        (n, rows) \<Rightarrow> (n, db\<lparr>device_connections := rows\<rparr>))"

definition unresolved_approval :: "uuid \<Rightarrow> approval \<Rightarrow> bool" where
  "unresolved_approval device_id a \<longleftrightarrow>
     apv_device_id a = device_id
   \<and> (apv_status a = APPROVAL_PENDING
      \<or> apv_status a \<in> {APPROVED, APPROVAL_DENIED} \<and> apv_decision_dispatched_at a = None
        \<and> (case apv_decision_reason a of None \<Rightarrow> True | Some r \<Rightarrow> r \<notin> set NON_DISPATCHABLE_APPROVAL_REASONS))"

definition thread_terminal :: "settings \<Rightarrow> datetime \<Rightarrow> database \<Rightarrow> thread_binding \<Rightarrow> bool" where
  "thread_terminal cfg now db b \<longleftrightarrow>
     thr_status b \<in> set TERMINAL_THREAD_STATUSES \<and> thr_active_turn_id b = None
   \<and> thr_updated_at b \<le> days_before now (thread_binding_retention_days cfg)
   \<and> \<not> exists_where (\<lambda>c. cmd_thread_binding_id c = Some (thr_id b)) (commands db)
   \<and> \<not> exists_where (\<lambda>r. evl_thread_binding_id r = Some (thr_id b)) (event_logs db)
   \<and> \<not> unacknowledged_frames (thr_device_id b) db
   \<and> \<not> exists_where (unresolved_approval (thr_device_id b)) (approvals db)"

definition delete_thread_bindings :: "settings \<Rightarrow> datetime \<Rightarrow> database \<Rightarrow> nat \<times> database" where
  "delete_thread_bindings cfg now db =
     (case delete_batch (retention_sweep_batch_size cfg) (thread_terminal cfg now db) thr_updated_at thr_id
             (thread_bindings db) of
        (n, rows) \<Rightarrow> (n, db\<lparr>thread_bindings := rows\<rparr>))"

definition device_terminal :: "settings \<Rightarrow> datetime \<Rightarrow> database \<Rightarrow> device \<Rightarrow> bool" where
  "device_terminal cfg now db d \<longleftrightarrow>
     dev_status d = REVOKED
   \<and> at_most (dev_revoked_at d) (days_before now (revoked_device_retention_days cfg))
   \<and> dev_refresh_credential_hash d = None \<and> dev_active_epoch d = None \<and> dev_active_connection_nonce d = None
   \<and> dev_last_server_acked_sequence d = dev_last_server_sequence d
   \<and> \<not> exists_where (\<lambda>p. pair_device_id p = Some (dev_id d)) (device_pairings db)
   \<and> \<not> exists_where (\<lambda>c. con_device_id c = dev_id d) (device_connections db)
   \<and> \<not> exists_where (\<lambda>b. thr_device_id b = dev_id d) (thread_bindings db)
   \<and> \<not> exists_where (\<lambda>c. cmd_device_id c = dev_id d) (commands db)
   \<and> \<not> exists_where (\<lambda>a. apv_device_id a = dev_id d) (approvals db)
   \<and> \<not> exists_where (\<lambda>r. evl_device_id r = dev_id d) (event_logs db)
   \<and> \<not> exists_where (\<lambda>x. obx_device_id x = dev_id d) (device_outboxes db)"

definition delete_devices :: "settings \<Rightarrow> datetime \<Rightarrow> database \<Rightarrow> nat \<times> database" where
  "delete_devices cfg now db =
     (case delete_batch (retention_sweep_batch_size cfg) (device_terminal cfg now db)
             (\<lambda>d. the_time (dev_revoked_at d)) dev_id (devices db) of
        (n, rows) \<Rightarrow> (n, db\<lparr>devices := rows\<rparr>))"

definition delete_audit_events :: "settings \<Rightarrow> datetime \<Rightarrow> database \<Rightarrow> nat \<times> database" where
  "delete_audit_events cfg now db =
     (case delete_batch (retention_sweep_batch_size cfg)
             (\<lambda>(i, a). aud_created_at a \<le> days_before now (audit_event_retention_days cfg))
             (\<lambda>(i, a). aud_created_at a) fst (enumerate 0 (audit_events db)) of
        (n, rows) \<Rightarrow> (n, db\<lparr>audit_events := map snd rows\<rparr>))"

record retention_sweep_result =
  rs_control_sessions :: nat
  rs_device_pairings :: nat
  rs_approvals :: nat
  rs_commands :: nat
  rs_device_connections :: nat
  rs_thread_bindings :: nat
  rs_devices :: nat
  rs_audit_events :: nat

definition retention_total :: "retention_sweep_result \<Rightarrow> nat" where
  "retention_total r =
     rs_control_sessions r + rs_device_pairings r + rs_approvals r + rs_commands r
   + rs_device_connections r + rs_thread_bindings r + rs_devices r + rs_audit_events r"

definition retention_sweep :: "settings \<Rightarrow> datetime \<Rightarrow> database \<Rightarrow> retention_sweep_result \<times> database" where
  "retention_sweep cfg now db =
     (case delete_control_sessions cfg now db of (n1, db1) \<Rightarrow>
      case delete_device_pairings cfg now db1 of (n2, db2) \<Rightarrow>
      case delete_approvals cfg now db2 of (n3, db3) \<Rightarrow>
      case delete_commands cfg now db3 of (n4, db4) \<Rightarrow>
      case delete_device_connections cfg now db4 of (n5, db5) \<Rightarrow>
      case delete_thread_bindings cfg now db5 of (n6, db6) \<Rightarrow>
      case delete_devices cfg now db6 of (n7, db7) \<Rightarrow>
      case delete_audit_events cfg now db7 of (n8, db8) \<Rightarrow>
        (\<lparr>rs_control_sessions = n1, rs_device_pairings = n2, rs_approvals = n3, rs_commands = n4,
          rs_device_connections = n5, rs_thread_bindings = n6, rs_devices = n7, rs_audit_events = n8\<rparr>, db8))"

section \<open>What a batch removes\<close>

text \<open>Only matching rows are missing; the others keep their order.\<close>

definition only_deleted :: "('r \<Rightarrow> bool) \<Rightarrow> 'r list \<Rightarrow> 'r list \<Rightarrow> bool" where
  "only_deleted P rows rows' \<longleftrightarrow> subseq rows' rows \<and> filter (\<lambda>r. \<not> P r) rows' = filter (\<lambda>r. \<not> P r) rows"

lemma only_deleted_refl [simp]: "only_deleted P rows rows"
  by (simp add: only_deleted_def)

lemma only_deletedD:
  assumes "only_deleted P rows rows'"
  shows "set rows' \<subseteq> set rows" "r \<in> set rows \<Longrightarrow> \<not> P r \<Longrightarrow> r \<in> set rows'"
    "distinct (map key rows) \<Longrightarrow> distinct (map key rows')" "count_where Q rows' \<le> count_where Q rows"
proof -
  have sub: "subseq rows' rows" and rest: "filter (\<lambda>r. \<not> P r) rows' = filter (\<lambda>r. \<not> P r) rows"
    using assms by (auto simp: only_deleted_def)
  show "set rows' \<subseteq> set rows" using sub by (metis subseq_conv_nths set_nths_subset)
  show "r \<in> set rows'" if "r \<in> set rows" "\<not> P r"
    using arg_cong [OF rest, of set] that by auto
  show "distinct (map key rows')" if "distinct (map key rows)"
    using subseq_map [OF sub, of key] that by (metis subseq_conv_nths distinct_nthsI)
  have "subseq (filter Q rows') (filter Q rows)" using sub by (rule subseq_filter)
  then show "count_where Q rows' \<le> count_where Q rows" unfolding count_where_def by (rule list_emb_length)
qed

lemma only_deleted_mono:
  assumes "only_deleted P rows rows'" "\<And>r. r \<in> set rows \<Longrightarrow> P r \<Longrightarrow> Q r"
  shows "only_deleted Q rows rows'"
proof -
  have twice: "filter (\<lambda>r. \<not> Q r) xs = filter (\<lambda>r. \<not> Q r) (filter (\<lambda>r. \<not> P r) xs)" if "set xs \<subseteq> set rows" for xs
    using that assms(2) by (induction xs) auto
  have "filter (\<lambda>r. \<not> Q r) rows' = filter (\<lambda>r. \<not> Q r) rows"
    using assms(1) twice [OF only_deletedD(1) [OF assms(1)]] twice [OF subset_refl] by (simp add: only_deleted_def)
  then show ?thesis using assms(1) by (simp add: only_deleted_def)
qed

lemma only_deleted_filter:
  assumes "\<And>r. r \<in> set rows \<Longrightarrow> gone r \<Longrightarrow> P r"
  shows "only_deleted P rows (filter (\<lambda>r. \<not> gone r) rows)"
  using assms unfolding only_deleted_def by (induction rows) auto

lemma only_deleted_map:
  "only_deleted (\<lambda>x. P (f x)) rows rows' \<Longrightarrow> only_deleted P (map f rows) (map f rows')"
  by (simp add: only_deleted_def subseq_map filter_map comp_def)

text \<open>A reference to a row that no deleted row can have stays valid.\<close>

lemma only_deleted_key:
  assumes "only_deleted P rows rows'" "i \<in> key ` set rows" "\<And>r. r \<in> set rows \<Longrightarrow> P r \<Longrightarrow> key r \<noteq> i"
  shows "i \<in> key ` set rows'"
  using assms only_deletedD(2) [OF assms(1)] by blast

lemma delete_batch_result:
  assumes "delete_batch n P ord idn rows = (k, rows')" "distinct (map idn rows)"
  shows "only_deleted P rows rows'" "k \<le> n" "length rows' + k = length rows"
    "k < n \<Longrightarrow> r \<in> set rows' \<Longrightarrow> \<not> P r"
    "v \<in> set rows \<Longrightarrow> v \<notin> set rows' \<Longrightarrow> r \<in> set rows' \<Longrightarrow> P r \<Longrightarrow> (ord v, idn v) \<le> (ord r, idn r)"
proof -
  let ?key = "\<lambda>r. (ord r, idn r)"
  define vs where "vs = select_ordered P ?key n rows"
  have vs: "set vs \<subseteq> {r \<in> set rows. P r}" unfolding vs_def by (rule set_select_ordered)
  have same: "idn r \<in> idn ` set vs \<longleftrightarrow> r \<in> set vs" if "r \<in> set rows" for r
    using that vs assms(2) by (auto simp: distinct_map dest: inj_onD)
  have "rows' = filter (\<lambda>r. r \<notin> set vs) rows \<and> k = length vs"
  proof (cases "vs = []")
    case True
    then show ?thesis using assms(1) by (simp add: delete_batch_def Let_def vs_def [symmetric])
  next
    case False
    then have "rows' = delete_where (\<lambda>r. idn r \<in> idn ` set vs \<and> P r) rows" "k = length vs"
      using assms(1) by (auto simp: delete_batch_def Let_def vs_def [symmetric])
    moreover have "filter (\<lambda>r. \<not> (idn r \<in> idn ` set vs \<and> P r)) rows = filter (\<lambda>r. r \<notin> set vs) rows"
      by (rule filter_cong) (use same vs in auto)
    ultimately show ?thesis by (simp add: delete_where_def)
  qed
  then have rows': "rows' = filter (\<lambda>r. r \<notin> set vs) rows" and k: "k = length vs" by auto
  show "only_deleted P rows rows'" unfolding rows' by (rule only_deleted_filter) (use vs in auto)
  show "k \<le> n" unfolding k vs_def by (rule length_select_ordered)
  have "distinct rows" using assms(2) by (simp add: distinct_map)
  then have "distinct vs" by (simp add: vs_def select_ordered_def)
  moreover have "set (filter (\<lambda>r. r \<in> set vs) rows) = set vs" using vs by auto
  ultimately have "length (filter (\<lambda>r. r \<in> set vs) rows) = length vs"
    using \<open>distinct rows\<close> by (metis distinct_card distinct_filter)
  then show "length rows' + k = length rows"
    using sum_length_filter_compl [of "\<lambda>r. r \<in> set vs" rows] by (simp add: rows' k)
  show "\<not> P r" if "k < n" "r \<in> set rows'"
  proof -
    have "length (filter P rows) < n"
      using that(1) unfolding k vs_def select_ordered_def by simp
    then have "set vs = {r \<in> set rows. P r}" unfolding vs_def by (intro set_select_ordered_all) (simp add: count_where_def)
    then show ?thesis using that(2) by (auto simp: rows')
  qed
  show "?key v \<le> ?key r" if "v \<in> set rows" "v \<notin> set rows'" "r \<in> set rows'" "P r"
  proof -
    let ?s = "sort_key ?key (filter P rows)"
    have "v \<in> set (take n ?s)" using that(1,2) by (simp add: rows' vs_def select_ordered_def)
    moreover have "r \<in> set (drop n ?s)"
    proof -
      have "r \<in> set ?s" using that(3,4) rows' by auto
      then have "r \<in> set (take n ?s) \<union> set (drop n ?s)" by (metis append_take_drop_id set_append)
      then show ?thesis using that(3) by (auto simp: rows' vs_def select_ordered_def)
    qed
    moreover have "sorted (map ?key (take n ?s @ drop n ?s))" by simp
    ultimately show ?thesis unfolding map_append sorted_append by auto
  qed
qed

section \<open>Foreign keys\<close>

text \<open>What the foreign keys of \<open>models.py\<close> demand of the rows.\<close>

definition foreign_keys :: "database \<Rightarrow> bool" where
  "foreign_keys db \<longleftrightarrow>
     (\<forall>p \<in> set (device_pairings db). set_option (pair_claimed_by_session_id p) \<subseteq> ses_id ` set (control_sessions db)
        \<and> set_option (pair_device_id p) \<subseteq> dev_id ` set (devices db))
   \<and> (\<forall>c \<in> set (device_connections db). con_device_id c \<in> dev_id ` set (devices db))
   \<and> (\<forall>x \<in> set (device_outboxes db). obx_device_id x \<in> dev_id ` set (devices db))
   \<and> (\<forall>b \<in> set (thread_bindings db). thr_device_id b \<in> dev_id ` set (devices db))
   \<and> (\<forall>c \<in> set (commands db). cmd_device_id c \<in> dev_id ` set (devices db)
        \<and> set_option (cmd_thread_binding_id c) \<subseteq> thr_id ` set (thread_bindings db))
   \<and> (\<forall>a \<in> set (approvals db). apv_device_id a \<in> dev_id ` set (devices db)
        \<and> set_option (apv_command_id a) \<subseteq> cmd_id ` set (commands db)
        \<and> set_option (apv_decided_by_session_id a) \<subseteq> ses_id ` set (control_sessions db))
   \<and> (\<forall>r \<in> set (event_logs db). evl_device_id r \<in> dev_id ` set (devices db)
        \<and> set_option (evl_thread_binding_id r) \<subseteq> thr_id ` set (thread_bindings db))"

text \<open>The primary keys that \<open>control_ok\<close> does not cover.\<close>

definition row_ids :: "database \<Rightarrow> bool" where
  "row_ids db \<longleftrightarrow> distinct (map ses_id (control_sessions db)) \<and> distinct (map pair_id (device_pairings db))
     \<and> distinct (map con_id (device_connections db))"

lemma forget_simps [simp]:
  "pair_id (forget_claim kept p) = pair_id p" "pair_status (forget_claim kept p) = pair_status p"
  "pair_expires_at (forget_claim kept p) = pair_expires_at p" "pair_device_id (forget_claim kept p) = pair_device_id p"
  "set_option (pair_claimed_by_session_id (forget_claim kept p)) =
     {i \<in> set_option (pair_claimed_by_session_id p). kept i}"
  "apv_id (forget_decider kept a) = apv_id a" "apv_status (forget_decider kept a) = apv_status a"
  "apv_device_id (forget_decider kept a) = apv_device_id a" "apv_command_id (forget_decider kept a) = apv_command_id a"
  "apv_decided_at (forget_decider kept a) = apv_decided_at a"
  "apv_decision_reason (forget_decider kept a) = apv_decision_reason a"
  "apv_decision_dispatched_at (forget_decider kept a) = apv_decision_dispatched_at a"
  "apv_request (forget_decider kept a) = apv_request a"
  "set_option (apv_decided_by_session_id (forget_decider kept a)) =
     {i \<in> set_option (apv_decided_by_session_id a). kept i}"
  by (auto simp: forget_claim_def forget_decider_def split: option.splits)

lemma forget_decider_ok [simp]: "approval_ok (forget_decider kept a) = approval_ok a"
  unfolding approval_ok_def forget_simps ..

lemma forget_decider_wf: "approvals_wf as \<Longrightarrow> approvals_wf (map (forget_decider kept) as)"
  by (simp add: approvals_wf_def comp_def)

lemma commands_deleted_wf:
  assumes "commands_wf cfg cs" "only_deleted P cs cs'"
  shows "commands_wf cfg cs'"
proof -
  note D = only_deletedD [OF assms(2)]
  have le: "count_where Q cs' \<le> n" if "count_where Q cs \<le> n" for Q n using D(4) that by (rule order_trans)
  show ?thesis using assms(1) le D(1) D(3) [of cmd_id] D(3) [of command_key] by (simp add: commands_wf_def subset_iff)
qed

lemma approvals_deleted_wf:
  assumes "approvals_wf as" "only_deleted P as as'"
  shows "approvals_wf as'"
  using assms(1) only_deletedD(1,3) [OF assms(2)] by (auto simp: approvals_wf_def)

lemma control_ok_tables:
  assumes "control_ok cfg db" "commands_wf cfg (commands db')" "approvals_wf (approvals db')"
    and "distinct (map thr_id (thread_bindings db'))" "event_logs db' = event_logs db"
    and "event_owner_cursors db' = event_owner_cursors db" "devices db' = devices db"
    and "device_outboxes db' = device_outboxes db"
  shows "control_ok cfg db'"
  using assms events_wf_cong [of db' db] outbox_counters_cong(1) [of db' db cfg]
  by (simp add: control_ok_def outbox_counters_def)

lemma devices_deleted_ok:
  assumes "control_ok cfg db" "only_deleted P (devices db) ds"
    and "\<And>d. d \<in> set (devices db) \<Longrightarrow> P d \<Longrightarrow> \<forall>r \<in> set (event_logs db). evl_device_id r \<noteq> dev_id d"
  shows "control_ok cfg (db\<lparr>devices := ds\<rparr>)"
proof -
  note D = only_deletedD [OF assms(2)]
  have w: "events_wf db" "outbox_wf cfg db" using assms(1) by (simp_all add: control_ok_def)
  have same: "stream_min o' (db\<lparr>devices := ds\<rparr>) = stream_min o' db"
    "stream_last o' (db\<lparr>devices := ds\<rparr>) = stream_last o' db" for o'
    by (simp_all add: stream_min_def stream_last_def cursor_row_def)
  have dev: "\<exists>d \<in> set ds. dev_id d = evl_device_id r \<and> evl_sequence r \<le> dev_last_event_sequence d"
    if "r \<in> set (event_logs db)" for r
    using wf_device_sequence [OF w(1) that] assms(3) D(2) that by metis
  have "events_wf (db\<lparr>devices := ds\<rparr>)"
    using w(1) dev D(3) [of dev_id] unfolding events_wf_def same by simp
  moreover have "device_outbox_ok cfg (db\<lparr>devices := ds\<rparr>) d = device_outbox_ok cfg db d" for d
    by (simp add: device_outbox_ok_def unacked_def)
  then have "outbox_wf cfg (db\<lparr>devices := ds\<rparr>)"
    using w(2) D(1) D(3) [of dev_id] unfolding outbox_wf_def by auto
  ultimately show ?thesis using assms(1) by (simp add: control_ok_def)
qed

section \<open>What each deletion keeps\<close>

text \<open>\<open>stored\<close> collects everything that every deletion preserves.\<close>

definition stored :: "settings \<Rightarrow> database \<Rightarrow> bool" where
  "stored cfg db \<longleftrightarrow> control_ok cfg db \<and> foreign_keys db \<and> row_ids db"

lemma storedD:
  assumes "stored cfg db"
  shows "control_ok cfg db" "foreign_keys db" "distinct (map ses_id (control_sessions db))"
    "distinct (map pair_id (device_pairings db))" "distinct (map con_id (device_connections db))"
    "distinct (map apv_id (approvals db))" "distinct (map cmd_id (commands db))"
    "distinct (map thr_id (thread_bindings db))" "distinct (map dev_id (devices db))"
  using assms control_ok_ids [of cfg db]
  by (simp_all add: stored_def row_ids_def control_ok_def approvals_wf_def commands_wf_def)

lemma sessions_step:
  assumes "delete_control_sessions cfg now db = (n, db')" "stored cfg db"
  obtains kept where "stored cfg db'" "n \<le> retention_sweep_batch_size cfg"
    "only_deleted (session_terminal cfg now) (control_sessions db) (control_sessions db')"
    "\<forall>i \<in> ses_id ` set (control_sessions db'). kept i"
    "db' = db\<lparr>control_sessions := control_sessions db', device_pairings := map (forget_claim kept) (device_pairings db),
       approvals := map (forget_decider kept) (approvals db)\<rparr>"
proof -
  note S = storedD [OF assms(2)]
  obtain rows where b: "delete_batch (retention_sweep_batch_size cfg) (session_terminal cfg now) ses_expires_at ses_id
      (control_sessions db) = (n, rows)" and db': "db' = (if n = 0 then db else put_sessions rows db)"
    using assms(1) by (auto simp: delete_control_sessions_def split: prod.splits)
  note B = delete_batch_result [OF b S(3)]
  show thesis
  proof (cases "n = 0")
    case True
    have id: "forget_claim (\<lambda>_. True) = id" "forget_decider (\<lambda>_. True) = id"
      by (auto simp: forget_claim_def forget_decider_def fun_eq_iff split: option.splits)
    show thesis by (rule that [of "\<lambda>_. True"]) (use True db' assms(2) in \<open>simp_all add: id\<close>)
  next
    case False
    let ?kept = "\<lambda>i. i \<in> ses_id ` set rows"
    have eq: "db' = db\<lparr>control_sessions := rows, device_pairings := map (forget_claim ?kept) (device_pairings db),
        approvals := map (forget_decider ?kept) (approvals db)\<rparr>"
      using False db' by (simp add: put_sessions_def Let_def)
    have "control_ok cfg db'"
      by (rule control_ok_tables [OF S(1)])
        (use S(1) forget_decider_wf in \<open>simp_all add: eq control_ok_def\<close>)
    moreover have "foreign_keys db'" using S(2) unfolding foreign_keys_def eq by auto
    moreover have "row_ids db'"
      using S(4,5) only_deletedD(3) [OF B(1) S(3)] by (simp add: row_ids_def eq comp_def)
    ultimately have "stored cfg db'" by (simp add: stored_def)
    then show thesis by (rule that [of ?kept]) (use B(1,2) eq in simp_all)
  qed
qed

lemma pairings_step:
  assumes "delete_device_pairings cfg now db = (n, db')" "stored cfg db"
  shows "stored cfg db'" "n \<le> retention_sweep_batch_size cfg"
    "only_deleted (pairing_terminal cfg now) (device_pairings db) (device_pairings db')" "db' = db\<lparr>device_pairings := device_pairings db'\<rparr>"
proof -
  note S = storedD [OF assms(2)]
  obtain rows where b: "delete_batch (retention_sweep_batch_size cfg) (pairing_terminal cfg now)
      pair_expires_at pair_id (device_pairings db) = (n, rows)" and eq: "db' = db\<lparr>device_pairings := rows\<rparr>"
    using assms(1) by (auto simp: delete_device_pairings_def split: prod.splits)
  note B = delete_batch_result [OF b S(4)]
  have "control_ok cfg db'"
    by (rule control_ok_tables [OF S(1)]) (use S(1) in \<open>simp_all add: eq control_ok_def\<close>)
  moreover have "foreign_keys db'" using S(2) only_deletedD(1) [OF B(1)] unfolding foreign_keys_def eq by auto
  ultimately show "stored cfg db'"
    using S(3-5) only_deletedD(3) [OF B(1) S(4)] by (simp add: stored_def row_ids_def eq)
  show "n \<le> retention_sweep_batch_size cfg" by (rule B(2))
  show "only_deleted (pairing_terminal cfg now) (device_pairings db) (device_pairings db')" using B(1) by (simp add: eq)
  show "db' = db\<lparr>device_pairings := device_pairings db'\<rparr>" by (simp add: eq)
qed

lemma approvals_step:
  assumes "delete_approvals cfg now db = (n, db')" "stored cfg db"
  shows "stored cfg db'" "n \<le> retention_sweep_batch_size cfg"
    "only_deleted (approval_terminal cfg now db) (approvals db) (approvals db')" "db' = db\<lparr>approvals := approvals db'\<rparr>"
proof -
  note S = storedD [OF assms(2)]
  obtain rows where b: "delete_batch (retention_sweep_batch_size cfg) (approval_terminal cfg now db)
      (\<lambda>a. the_time (apv_decided_at a)) apv_id (approvals db) = (n, rows)" and eq: "db' = db\<lparr>approvals := rows\<rparr>"
    using assms(1) by (auto simp: delete_approvals_def split: prod.splits)
  note B = delete_batch_result [OF b S(6)]
  have "control_ok cfg db'"
    by (rule control_ok_tables [OF S(1)]) (use S(1) approvals_deleted_wf [OF _ B(1)] in \<open>simp_all add: eq control_ok_def\<close>)
  moreover have "foreign_keys db'" using S(2) only_deletedD(1) [OF B(1)] unfolding foreign_keys_def eq by auto
  ultimately show "stored cfg db'"
    using S(3-5) by (simp add: stored_def row_ids_def eq)
  show "n \<le> retention_sweep_batch_size cfg" by (rule B(2))
  show "only_deleted (approval_terminal cfg now db) (approvals db) (approvals db')" using B(1) by (simp add: eq)
  show "db' = db\<lparr>approvals := approvals db'\<rparr>" by (simp add: eq)
qed

lemma commands_step:
  assumes "delete_commands cfg now db = (n, db')" "stored cfg db"
  shows "stored cfg db'" "n \<le> retention_sweep_batch_size cfg"
    "only_deleted (command_terminal cfg now db) (commands db) (commands db')" "db' = db\<lparr>commands := commands db'\<rparr>"
proof -
  note S = storedD [OF assms(2)]
  obtain rows where b: "delete_batch (retention_sweep_batch_size cfg) (command_terminal cfg now db)
      (\<lambda>c. the_time (cmd_completed_at c)) cmd_id (commands db) = (n, rows)" and eq: "db' = db\<lparr>commands := rows\<rparr>"
    using assms(1) by (auto simp: delete_commands_def split: prod.splits)
  note B = delete_batch_result [OF b S(7)]
  have "i \<in> cmd_id ` set rows" if "i \<in> cmd_id ` set (commands db)" "a \<in> set (approvals db)" "apv_command_id a = Some i" for i a
    by (rule only_deleted_key [OF B(1) that(1)]) (use that(2,3) in \<open>auto simp: command_terminal_def\<close>)
  then have "foreign_keys db'" using S(2) only_deletedD(1) [OF B(1)] unfolding foreign_keys_def eq by (simp add: subset_iff) blast
  moreover have "control_ok cfg db'"
    by (rule control_ok_tables [OF S(1)]) (use S(1) commands_deleted_wf [OF _ B(1)] in \<open>simp_all add: eq control_ok_def\<close>)
  ultimately show "stored cfg db'"
    using S(3-5) by (simp add: stored_def row_ids_def eq)
  show "n \<le> retention_sweep_batch_size cfg" by (rule B(2))
  show "only_deleted (command_terminal cfg now db) (commands db) (commands db')" using B(1) by (simp add: eq)
  show "db' = db\<lparr>commands := commands db'\<rparr>" by (simp add: eq)
qed

lemma connections_step:
  assumes "delete_device_connections cfg now db = (n, db')" "stored cfg db"
  shows "stored cfg db'" "n \<le> retention_sweep_batch_size cfg"
    "only_deleted (connection_terminal cfg now) (device_connections db) (device_connections db')" "db' = db\<lparr>device_connections := device_connections db'\<rparr>"
proof -
  note S = storedD [OF assms(2)]
  obtain rows where b: "delete_batch (retention_sweep_batch_size cfg) (connection_terminal cfg now)
      (\<lambda>c. the_time (con_disconnected_at c)) con_id (device_connections db) = (n, rows)" and eq: "db' = db\<lparr>device_connections := rows\<rparr>"
    using assms(1) by (auto simp: delete_device_connections_def split: prod.splits)
  note B = delete_batch_result [OF b S(5)]
  have "control_ok cfg db'"
    by (rule control_ok_tables [OF S(1)]) (use S(1) in \<open>simp_all add: eq control_ok_def\<close>)
  moreover have "foreign_keys db'" using S(2) only_deletedD(1) [OF B(1)] unfolding foreign_keys_def eq by auto
  ultimately show "stored cfg db'"
    using S(3-5) only_deletedD(3) [OF B(1) S(5)] by (simp add: stored_def row_ids_def eq)
  show "n \<le> retention_sweep_batch_size cfg" by (rule B(2))
  show "only_deleted (connection_terminal cfg now) (device_connections db) (device_connections db')" using B(1) by (simp add: eq)
  show "db' = db\<lparr>device_connections := device_connections db'\<rparr>" by (simp add: eq)
qed

lemma threads_step:
  assumes "delete_thread_bindings cfg now db = (n, db')" "stored cfg db"
  shows "stored cfg db'" "n \<le> retention_sweep_batch_size cfg"
    "only_deleted (thread_terminal cfg now db) (thread_bindings db) (thread_bindings db')" "db' = db\<lparr>thread_bindings := thread_bindings db'\<rparr>"
proof -
  note S = storedD [OF assms(2)]
  obtain rows where b: "delete_batch (retention_sweep_batch_size cfg) (thread_terminal cfg now db)
      thr_updated_at thr_id (thread_bindings db) = (n, rows)" and eq: "db' = db\<lparr>thread_bindings := rows\<rparr>"
    using assms(1) by (auto simp: delete_thread_bindings_def split: prod.splits)
  note B = delete_batch_result [OF b S(8)]
  have "i \<in> thr_id ` set rows" if "i \<in> thr_id ` set (thread_bindings db)"
    "(\<exists>c \<in> set (commands db). cmd_thread_binding_id c = Some i) \<or> (\<exists>r \<in> set (event_logs db). evl_thread_binding_id r = Some i)" for i
    by (rule only_deleted_key [OF B(1) that(1)]) (use that(2) in \<open>auto simp: thread_terminal_def\<close>)
  then have "foreign_keys db'" using S(2) only_deletedD(1) [OF B(1)] unfolding foreign_keys_def eq by (simp add: subset_iff) blast
  moreover have "control_ok cfg db'"
    by (rule control_ok_tables [OF S(1)]) (use S(1) only_deletedD(3) [OF B(1) S(8)] in \<open>simp_all add: eq control_ok_def\<close>)
  ultimately show "stored cfg db'"
    using S(3-5) by (simp add: stored_def row_ids_def eq)
  show "n \<le> retention_sweep_batch_size cfg" by (rule B(2))
  show "only_deleted (thread_terminal cfg now db) (thread_bindings db) (thread_bindings db')" using B(1) by (simp add: eq)
  show "db' = db\<lparr>thread_bindings := thread_bindings db'\<rparr>" by (simp add: eq)
qed

lemma devices_step:
  assumes "delete_devices cfg now db = (n, db')" "stored cfg db"
  shows "stored cfg db'" "n \<le> retention_sweep_batch_size cfg"
    "only_deleted (device_terminal cfg now db) (devices db) (devices db')" "db' = db\<lparr>devices := devices db'\<rparr>"
proof -
  note S = storedD [OF assms(2)]
  obtain rows where b: "delete_batch (retention_sweep_batch_size cfg) (device_terminal cfg now db)
      (\<lambda>d. the_time (dev_revoked_at d)) dev_id (devices db) = (n, rows)" and eq: "db' = db\<lparr>devices := rows\<rparr>"
    using assms(1) by (auto simp: delete_devices_def split: prod.splits)
  note B = delete_batch_result [OF b S(9)]
  let ?used = "\<lambda>i. (\<exists>p \<in> set (device_pairings db). pair_device_id p = Some i)
      \<or> (\<exists>c \<in> set (device_connections db). con_device_id c = i) \<or> (\<exists>b \<in> set (thread_bindings db). thr_device_id b = i)
      \<or> (\<exists>c \<in> set (commands db). cmd_device_id c = i) \<or> (\<exists>a \<in> set (approvals db). apv_device_id a = i)
      \<or> (\<exists>r \<in> set (event_logs db). evl_device_id r = i) \<or> (\<exists>x \<in> set (device_outboxes db). obx_device_id x = i)"
  have key: "i \<in> dev_id ` set rows" if "i \<in> dev_id ` set (devices db)" "?used i" for i
    by (rule only_deleted_key [OF B(1) that(1)]) (use that(2) in \<open>auto simp: device_terminal_def\<close>)
  note F = S(2) [unfolded foreign_keys_def]
  have "con_device_id c \<in> dev_id ` set rows" if "c \<in> set (device_connections db)" for c
    using key [of "con_device_id c"] F that by blast
  moreover have "obx_device_id x \<in> dev_id ` set rows" if "x \<in> set (device_outboxes db)" for x
    using key [of "obx_device_id x"] F that by blast
  moreover have "thr_device_id b \<in> dev_id ` set rows" if "b \<in> set (thread_bindings db)" for b
    using key [of "thr_device_id b"] F that by blast
  moreover have "cmd_device_id c \<in> dev_id ` set rows" if "c \<in> set (commands db)" for c
    using key [of "cmd_device_id c"] F that by blast
  moreover have "apv_device_id a \<in> dev_id ` set rows" if "a \<in> set (approvals db)" for a
    using key [of "apv_device_id a"] F that by blast
  moreover have "evl_device_id r \<in> dev_id ` set rows" if "r \<in> set (event_logs db)" for r
    using key [of "evl_device_id r"] F that by blast
  moreover have "set_option (pair_device_id p) \<subseteq> dev_id ` set rows" if "p \<in> set (device_pairings db)" for p
  proof
    fix i assume i: "i \<in> set_option (pair_device_id p)"
    show "i \<in> dev_id ` set rows" using key [of i] F that i by (metis elem_set subsetD)
  qed
  ultimately have "foreign_keys db'" using F unfolding foreign_keys_def eq by simp
  moreover have "control_ok cfg db'"
    unfolding eq by (rule devices_deleted_ok [OF S(1) B(1)]) (auto simp: device_terminal_def)

  ultimately show "stored cfg db'"
    using S(3-5) by (simp add: stored_def row_ids_def eq)
  show "n \<le> retention_sweep_batch_size cfg" by (rule B(2))
  show "only_deleted (device_terminal cfg now db) (devices db) (devices db')" using B(1) by (simp add: eq)
  show "db' = db\<lparr>devices := devices db'\<rparr>" by (simp add: eq)
qed

lemma audit_step:
  assumes "delete_audit_events cfg now db = (n, db')" "stored cfg db"
  shows "stored cfg db'" "n \<le> retention_sweep_batch_size cfg"
    "only_deleted (\<lambda>a. aud_created_at a \<le> days_before now (audit_event_retention_days cfg)) (audit_events db) (audit_events db')"
    "db' = db\<lparr>audit_events := audit_events db'\<rparr>"
proof -
  let ?old = "\<lambda>a. aud_created_at a \<le> days_before now (audit_event_retention_days cfg)"
  note S = storedD [OF assms(2)]
  obtain rows where b: "delete_batch (retention_sweep_batch_size cfg) (\<lambda>(i, a). ?old a) (\<lambda>(i, a). aud_created_at a) fst
      (enumerate 0 (audit_events db)) = (n, rows)" and eq: "db' = db\<lparr>audit_events := map snd rows\<rparr>"
    using assms(1) by (auto simp: delete_audit_events_def split: prod.splits)
  have "distinct (map fst (enumerate 0 (audit_events db)))" by (simp add: map_fst_enumerate)
  note B = delete_batch_result [OF b this]
  have "control_ok cfg db'"
    by (rule control_ok_tables [OF S(1)]) (use S(1) in \<open>simp_all add: eq control_ok_def\<close>)
  then show "stored cfg db'" using assms(2) by (simp add: stored_def foreign_keys_def row_ids_def eq)
  show "n \<le> retention_sweep_batch_size cfg" by (rule B(2))
  show "db' = db\<lparr>audit_events := audit_events db'\<rparr>" by (simp add: eq)
  show "only_deleted ?old (audit_events db) (audit_events db')"
    using only_deleted_map [of ?old snd "enumerate 0 (audit_events db)" rows] B(1)
    by (simp add: eq case_prod_beta' map_snd_enumerate)
qed

section \<open>The sweep\<close>

lemma retention_sweep_steps:
  assumes "retention_sweep cfg now db = (res, db')"
  obtains db1 db2 db3 db4 db5 db6 db7 where
    "delete_control_sessions cfg now db = (rs_control_sessions res, db1)"
    "delete_device_pairings cfg now db1 = (rs_device_pairings res, db2)"
    "delete_approvals cfg now db2 = (rs_approvals res, db3)"
    "delete_commands cfg now db3 = (rs_commands res, db4)"
    "delete_device_connections cfg now db4 = (rs_device_connections res, db5)"
    "delete_thread_bindings cfg now db5 = (rs_thread_bindings res, db6)"
    "delete_devices cfg now db6 = (rs_devices res, db7)"
    "delete_audit_events cfg now db7 = (rs_audit_events res, db')"
  using assms by (auto simp: retention_sweep_def split: prod.splits)

text \<open>The tables after a sweep, by the sessions whose references remain.\<close>

lemma retention_sweep_tables:
  assumes "retention_sweep cfg now db = (res, db')" "stored cfg db"
  obtains kept where "stored cfg db'"
    "\<forall>n \<in> {rs_control_sessions res, rs_device_pairings res, rs_approvals res, rs_commands res,
       rs_device_connections res, rs_thread_bindings res, rs_devices res, rs_audit_events res}.
       n \<le> retention_sweep_batch_size cfg"
    "\<forall>i \<in> ses_id ` set (control_sessions db'). kept i"
    "only_deleted (session_terminal cfg now) (control_sessions db) (control_sessions db')"
    "only_deleted (pairing_terminal cfg now) (map (forget_claim kept) (device_pairings db)) (device_pairings db')"
    "only_deleted (approval_terminal cfg now db) (map (forget_decider kept) (approvals db)) (approvals db')"
    "only_deleted (\<lambda>c. cmd_status c \<in> set TERMINAL_COMMAND_STATUSES
       \<and> at_most (cmd_completed_at c) (days_before now (command_record_retention_days cfg))
       \<and> \<not> unacknowledged_frames (cmd_device_id c) db) (commands db) (commands db')"
    "only_deleted (connection_terminal cfg now) (device_connections db) (device_connections db')"
    "only_deleted (\<lambda>b. thr_status b \<in> set TERMINAL_THREAD_STATUSES \<and> thr_active_turn_id b = None
       \<and> thr_updated_at b \<le> days_before now (thread_binding_retention_days cfg)
       \<and> \<not> unacknowledged_frames (thr_device_id b) db) (thread_bindings db) (thread_bindings db')"
    "only_deleted (\<lambda>d. dev_status d = REVOKED
       \<and> at_most (dev_revoked_at d) (days_before now (revoked_device_retention_days cfg))) (devices db) (devices db')"
    "only_deleted (\<lambda>a. aud_created_at a \<le> days_before now (audit_event_retention_days cfg)) (audit_events db) (audit_events db')"
    "event_logs db' = event_logs db" "event_owner_cursors db' = event_owner_cursors db"
    "device_outboxes db' = device_outboxes db"
proof -
  obtain db1 db2 db3 db4 db5 db6 db7 where
    r: "delete_control_sessions cfg now db = (rs_control_sessions res, db1)"
    "delete_device_pairings cfg now db1 = (rs_device_pairings res, db2)"
    "delete_approvals cfg now db2 = (rs_approvals res, db3)"
    "delete_commands cfg now db3 = (rs_commands res, db4)"
    "delete_device_connections cfg now db4 = (rs_device_connections res, db5)"
    "delete_thread_bindings cfg now db5 = (rs_thread_bindings res, db6)"
    "delete_devices cfg now db6 = (rs_devices res, db7)"
    "delete_audit_events cfg now db7 = (rs_audit_events res, db')"
    using assms(1) by (rule retention_sweep_steps)
  obtain kept where s1: "stored cfg db1" "rs_control_sessions res \<le> retention_sweep_batch_size cfg"
    "only_deleted (session_terminal cfg now) (control_sessions db) (control_sessions db1)"
    "\<forall>i \<in> ses_id ` set (control_sessions db1). kept i"
    "db1 = db\<lparr>control_sessions := control_sessions db1, device_pairings := map (forget_claim kept) (device_pairings db),
       approvals := map (forget_decider kept) (approvals db)\<rparr>"
    by (rule sessions_step [OF r(1) assms(2)])
  note s2 = pairings_step [OF r(2) s1(1)]
  note s3 = approvals_step [OF r(3) s2(1)]
  note s4 = commands_step [OF r(4) s3(1)]
  note s5 = connections_step [OF r(5) s4(1)]
  note s6 = threads_step [OF r(6) s5(1)]
  note s7 = devices_step [OF r(7) s6(1)]
  note s8 = audit_step [OF r(8) s7(1)]
  obtain ss where e1: "db1 = db\<lparr>control_sessions := ss, device_pairings := map (forget_claim kept) (device_pairings db),
       approvals := map (forget_decider kept) (approvals db)\<rparr>" by (rule that [OF s1(5)])
  obtain ps where e2: "db2 = db1\<lparr>device_pairings := ps\<rparr>" by (rule that [OF s2(4)])
  obtain as where e3: "db3 = db2\<lparr>approvals := as\<rparr>" by (rule that [OF s3(4)])
  obtain cs where e4: "db4 = db3\<lparr>commands := cs\<rparr>" by (rule that [OF s4(4)])
  obtain ns where e5: "db5 = db4\<lparr>device_connections := ns\<rparr>" by (rule that [OF s5(4)])
  obtain bs where e6: "db6 = db5\<lparr>thread_bindings := bs\<rparr>" by (rule that [OF s6(4)])
  obtain ds where e7: "db7 = db6\<lparr>devices := ds\<rparr>" by (rule that [OF s7(4)])
  obtain us where e8: "db' = db7\<lparr>audit_events := us\<rparr>" by (rule that [OF s8(4)])
  note eq = e1 e2 e3 e4 e5 e6 e7 e8
  show thesis
  proof (rule that [of kept])
    show "stored cfg db'" by (rule s8(1))
    show "\<forall>n \<in> {rs_control_sessions res, rs_device_pairings res, rs_approvals res, rs_commands res,
       rs_device_connections res, rs_thread_bindings res, rs_devices res, rs_audit_events res}.
       n \<le> retention_sweep_batch_size cfg"
      using s1(2) s2(2) s3(2) s4(2) s5(2) s6(2) s7(2) s8(2) by simp
    show "\<forall>i \<in> ses_id ` set (control_sessions db'). kept i" using s1(4) by (simp add: eq)
    show "only_deleted (session_terminal cfg now) (control_sessions db) (control_sessions db')" using s1(3) by (simp add: eq)
    show "only_deleted (pairing_terminal cfg now) (map (forget_claim kept) (device_pairings db)) (device_pairings db')"
      using s2(3) by (simp add: eq)
    have "approval_terminal cfg now db2 = approval_terminal cfg now db"
      by (simp add: fun_eq_iff approval_terminal_def unacknowledged_frames_def eq)
    then show "only_deleted (approval_terminal cfg now db) (map (forget_decider kept) (approvals db)) (approvals db')"
      using s3(3) by (simp add: eq)
    have fr: "unacknowledged_frames i db3 = unacknowledged_frames i db" "unacknowledged_frames i db5 = unacknowledged_frames i db" for i
      by (simp_all add: unacknowledged_frames_def eq)
    have t: "commands db = commands db3" "commands db' = commands db4" "thread_bindings db = thread_bindings db5"
      "thread_bindings db' = thread_bindings db6" "devices db = devices db6" "devices db' = devices db7"
      by (simp_all add: eq)
    show "only_deleted (\<lambda>c. cmd_status c \<in> set TERMINAL_COMMAND_STATUSES
       \<and> at_most (cmd_completed_at c) (days_before now (command_record_retention_days cfg))
       \<and> \<not> unacknowledged_frames (cmd_device_id c) db) (commands db) (commands db')"
      unfolding t by (rule only_deleted_mono [OF s4(3)]) (simp add: command_terminal_def fr)
    show "only_deleted (connection_terminal cfg now) (device_connections db) (device_connections db')"
      using s5(3) by (simp add: eq)
    show "only_deleted (\<lambda>b. thr_status b \<in> set TERMINAL_THREAD_STATUSES \<and> thr_active_turn_id b = None
       \<and> thr_updated_at b \<le> days_before now (thread_binding_retention_days cfg)
       \<and> \<not> unacknowledged_frames (thr_device_id b) db) (thread_bindings db) (thread_bindings db')"
      unfolding t by (rule only_deleted_mono [OF s6(3)]) (simp add: thread_terminal_def fr)
    show "only_deleted (\<lambda>d. dev_status d = REVOKED
       \<and> at_most (dev_revoked_at d) (days_before now (revoked_device_retention_days cfg))) (devices db) (devices db')"
      unfolding t by (rule only_deleted_mono [OF s7(3)]) (simp add: device_terminal_def)
    show "only_deleted (\<lambda>a. aud_created_at a \<le> days_before now (audit_event_retention_days cfg)) (audit_events db) (audit_events db')"
      using s8(3) by (simp add: eq)
  qed (simp_all add: eq)
qed

lemma only_deleted_live:
  assumes "only_deleted P rows rows'" "\<And>r. r \<in> set rows \<Longrightarrow> live r \<Longrightarrow> \<not> P r"
  shows "filter live rows' = filter live rows"
  using only_deleted_mono [OF assms(1), of "\<lambda>r. \<not> live r"] assms(2) by (auto simp: only_deleted_def)

lemma delivered_resolved:
  "approval_terminal cfg now db a \<Longrightarrow> \<not> unresolved_approval i a"
  by (auto simp: approval_terminal_def safely_delivered_def unresolved_approval_def TERMINAL_APPROVAL_STATUSES_def
      split: option.splits)


section \<open>A sample sweep\<close>

definition finished_command :: command where
  "finished_command = sample_command\<lparr>cmd_status := SUCCEEDED, cmd_completed_at := Some 0\<rparr>"

definition finished_database :: database where
  "finished_database = sample_database\<lparr>commands := [finished_command]\<rparr>"

lemma finished_stored: "stored default_settings finished_database"
proof -
  have "commands_wf default_settings (commands finished_database)"
    by (auto simp: commands_wf_def finished_database_def finished_command_def ALLOWED_RPC_METHODS_def active_turn_start_def)
  then have "control_ok default_settings finished_database"
    by (intro control_ok_tables [OF sample_control_ok])
      (simp_all add: finished_database_def sample_database_def empty_database_def approvals_wf_def)
  then show ?thesis
    by (simp add: stored_def foreign_keys_def row_ids_def finished_database_def finished_command_def
        sample_database_def empty_database_def)
qed

lemma finished_sweep:
  "\<exists>res db'. retention_sweep default_settings (days 100) finished_database = (res, db') \<and> commands db' = []"
  by (simp add: retention_sweep_def delete_control_sessions_def delete_device_pairings_def delete_approvals_def
      delete_commands_def delete_device_connections_def delete_thread_bindings_def delete_devices_def
      delete_audit_events_def delete_batch_def select_ordered_def finished_database_def finished_command_def
      sample_database_def empty_database_def command_terminal_def device_terminal_def TERMINAL_COMMAND_STATUSES_def
      at_most_def days_before_def days_def unacknowledged_frames_def Let_def)


end
