(* ===== verification/Security.thy ===== *)
theory Security
  imports Wire
begin

text \<open>
  The encodings of \<open>security.py\<close>: base64url as CPython's \<open>binascii.a2b_base64\<close> decodes it, UTF-8, the sealing of
  the upstream access token into the session cookie, the proof of a pairing start, pairing codes and the
  canonical form of a device key.  Bytes are numbers below 256.  The authenticated cipher, SHA-256 and the
  random bytes are arguments.
\<close>

section \<open>Base64url\<close>

type_synonym bytes = "nat list"

definition byte_list :: "bytes \<Rightarrow> bool" where
  "byte_list bs \<longleftrightarrow> list_all (\<lambda>b. b < 256) bs"

definition b64_char :: "nat \<Rightarrow> nat" where
  "b64_char v = (if v < 26 then 65 + v else if v < 52 then 71 + v else if v < 62 then v - 4 else if v = 62 then 45 else 95)"

text \<open>The decoder translates \<open>-_\<close> to \<open>+/\<close> first, so both spellings are digits.\<close>

definition b64_value :: "nat \<Rightarrow> nat option" where
  "b64_value c =
     (if 65 \<le> c \<and> c \<le> 90 then Some (c - 65)
      else if 97 \<le> c \<and> c \<le> 122 then Some (c - 71)
      else if 48 \<le> c \<and> c \<le> 57 then Some (c + 4)
      else if c = 43 \<or> c = 45 then Some 62
      else if c = 47 \<or> c = 95 then Some 63
      else None)"

fun urlsafe_b64encode :: "bytes \<Rightarrow> ustr" where
  "urlsafe_b64encode [] = []"
| "urlsafe_b64encode [a] = [b64_char (a div 4), b64_char (a mod 4 * 16), 61, 61]"
| "urlsafe_b64encode [a, b] =
     [b64_char (a div 4), b64_char (a mod 4 * 16 + b div 16), b64_char (b mod 16 * 4), 61]"
| "urlsafe_b64encode (a # b # c # rest) =
     b64_char (a div 4) # b64_char (a mod 4 * 16 + b div 16) # b64_char (b mod 16 * 4 + c div 64)
       # b64_char (c mod 64) # urlsafe_b64encode rest"

definition base64url_encode :: "bytes \<Rightarrow> ustr" where
  "base64url_encode bs = rev (dropWhile (\<lambda>c. c = 61) (rev (urlsafe_b64encode bs)))"

text \<open>The decoder's loop: position in the quad, left-over bits, pad characters seen in the quad, whether any pad was
  seen.  In strict mode only digits are allowed, no pad first, no digit after a pad and nothing after the end.\<close>

fun a2b_loop :: "bool \<Rightarrow> nat \<Rightarrow> nat \<Rightarrow> nat \<Rightarrow> bool \<Rightarrow> ustr \<Rightarrow> bytes option" where
  "a2b_loop strict quad_pos leftchar pads started [] = (if quad_pos = 0 then Some [] else None)"
| "a2b_loop strict quad_pos leftchar pads started (c # cs) =
     (if c = 61 then
        if quad_pos \<ge> 2 \<and> quad_pos + (pads + 1) \<ge> 4 then (if strict \<and> cs \<noteq> [] then None else Some [])
        else a2b_loop strict quad_pos leftchar (if quad_pos \<ge> 2 then pads + 1 else pads) True cs
      else case b64_value c of
        None \<Rightarrow> if strict then None else a2b_loop strict quad_pos leftchar pads started cs
      | Some v \<Rightarrow>
          if strict \<and> started then None
          else if quad_pos = 0 then a2b_loop strict 1 v 0 started cs
          else if quad_pos = 1
            then map_option ((#) (leftchar * 4 + v div 16)) (a2b_loop strict 2 (v mod 16) 0 started cs)
          else if quad_pos = 2
            then map_option ((#) (leftchar * 16 + v div 4)) (a2b_loop strict 3 (v mod 4) 0 started cs)
          else map_option ((#) (leftchar * 64 + v)) (a2b_loop strict 0 0 0 started cs))"

definition a2b_base64 :: "bool \<Rightarrow> ustr \<Rightarrow> bytes option" where
  "a2b_base64 strict t =
     (if \<not> list_all (\<lambda>c. c < 128) t then None
      else if strict \<and> t \<noteq> [] \<and> hd t = 61 then None
      else a2b_loop strict 0 0 0 False t)"

definition b64_padding :: "ustr \<Rightarrow> ustr" where
  "b64_padding t = replicate (nat (- int (length t) mod 4)) 61"

definition base64url_decode :: "ustr \<Rightarrow> bytes option" where
  "base64url_decode t = a2b_base64 True (t @ b64_padding t)"

section \<open>UTF-8\<close>

definition utf8_char :: "nat \<Rightarrow> bytes" where
  "utf8_char c =
     (if c < 128 then [c]
      else if c < 2048 then [192 + c div 64, 128 + c mod 64]
      else if c < 65536 then [224 + c div 4096, 128 + c div 64 mod 64, 128 + c mod 64]
      else [240 + c div 262144, 128 + c div 4096 mod 64, 128 + c div 64 mod 64, 128 + c mod 64])"

definition utf8_encode :: "ustr \<Rightarrow> bytes option" where
  "utf8_encode s = (if list_ex surrogate s then None else Some (concat (map utf8_char s)))"

definition utf8_cont :: "nat \<Rightarrow> bool" where
  "utf8_cont b \<longleftrightarrow> 128 \<le> b \<and> b < 192"

fun utf8_decode :: "bytes \<Rightarrow> ustr option" where
  "utf8_decode [] = Some []"
| "utf8_decode (b # rest) =
     (if b < 128 then map_option ((#) b) (utf8_decode rest)
      else if 194 \<le> b \<and> b < 224 then
        (case rest of
           b1 # r \<Rightarrow>
             if utf8_cont b1 then map_option ((#) ((b - 192) * 64 + (b1 - 128))) (utf8_decode r) else None
         | _ \<Rightarrow> None)
      else if 224 \<le> b \<and> b < 240 then
        (case rest of
           b1 # b2 # r \<Rightarrow>
             let c = (b - 224) * 4096 + (b1 - 128) * 64 + (b2 - 128) in
             if utf8_cont b1 \<and> utf8_cont b2 \<and> 2048 \<le> c \<and> \<not> surrogate c then map_option ((#) c) (utf8_decode r) else None
         | _ \<Rightarrow> None)
      else if 240 \<le> b \<and> b < 245 then
        (case rest of
           b1 # b2 # b3 # r \<Rightarrow>
             let c = (b - 240) * 262144 + (b1 - 128) * 4096 + (b2 - 128) * 64 + (b3 - 128) in
             if utf8_cont b1 \<and> utf8_cont b2 \<and> utf8_cont b3 \<and> 65536 \<le> c \<and> c < 1114112
             then map_option ((#) c) (utf8_decode r) else None
         | _ \<Rightarrow> None)
      else None)"

section \<open>The sealed session cookie\<close>

fun big_endian :: "nat \<Rightarrow> nat \<Rightarrow> bytes" where
  "big_endian 0 n = []"
| "big_endian (Suc k) n = big_endian k (n div 256) @ [n mod 256]"

definition from_bytes :: "bytes \<Rightarrow> nat" where
  "from_bytes bs = foldl (\<lambda>n b. n * 256 + b) 0 bs"

definition uuid_bytes :: "uuid \<Rightarrow> bytes" where
  "uuid_bytes i = big_endian 16 (unat i)"

definition uuid_of_bytes :: "bytes \<Rightarrow> uuid" where
  "uuid_of_bytes bs = of_nat (from_bytes bs)"

definition SESSION_CREDENTIAL_DOMAIN :: bytes where
  "SESSION_CREDENTIAL_DOMAIN = u ''sub2api-codex-control/session-credential/v1'' @ [0]"

definition MAX_CONTROL_SESSION_COOKIE_VALUE_BYTES :: nat where
  "MAX_CONTROL_SESSION_COOKIE_VALUE_BYTES = 3500"

text \<open>The cipher under the key of the protector: nonce, data, associated data.\<close>

record aead =
  aead_encrypt :: "bytes \<Rightarrow> bytes \<Rightarrow> bytes \<Rightarrow> bytes"
  aead_decrypt :: "bytes \<Rightarrow> bytes \<Rightarrow> bytes \<Rightarrow> bytes option"

datatype seal_error = Seal_Encode_Error | Session_Credential_Too_Large

definition seal_credential :: "aead \<Rightarrow> bytes \<Rightarrow> bytes \<Rightarrow> uuid \<Rightarrow> ustr \<Rightarrow> seal_error + ustr" where
  "seal_credential cipher handle nonce session_id access_token =
     (case utf8_encode access_token of
        None \<Rightarrow> Inl Seal_Encode_Error
      | Some encoded \<Rightarrow>
          let ciphertext = aead_encrypt cipher nonce (uuid_bytes session_id @ encoded) (SESSION_CREDENTIAL_DOMAIN @ handle);
              token = u ''v1'' @ 46 # base64url_encode handle @ 46 # base64url_encode (nonce @ ciphertext)
          in if length token > MAX_CONTROL_SESSION_COOKIE_VALUE_BYTES then Inl Session_Credential_Too_Large else Inr token)"

text \<open>\<open>text.split(".", 2)\<close> into exactly three parts.\<close>

definition cut :: "nat \<Rightarrow> ustr \<Rightarrow> (ustr \<times> ustr) option" where
  "cut c t = (case dropWhile (\<lambda>x. x \<noteq> c) t of [] \<Rightarrow> None | _ # rest \<Rightarrow> Some (takeWhile (\<lambda>x. x \<noteq> c) t, rest))"

definition three_parts :: "ustr \<Rightarrow> (ustr \<times> ustr \<times> ustr) option" where
  "three_parts t =
     (case cut 46 t of
        None \<Rightarrow> None
      | Some (a, rest) \<Rightarrow> (case cut 46 rest of None \<Rightarrow> None | Some (b, c) \<Rightarrow> Some (a, b, c)))"

text \<open>Cookie text has no surrogate, so the first line of \<open>unseal\<close> does not raise.\<close>

definition unseal_credential :: "aead \<Rightarrow> nat \<Rightarrow> ustr \<Rightarrow> (uuid \<times> ustr) option" where
  "unseal_credential cipher random_handle_bytes token =
     (if sum_list (map utf8_width token) > MAX_CONTROL_SESSION_COOKIE_VALUE_BYTES then None
      else do {
        (version, encoded_handle, encoded_payload) \<leftarrow> three_parts token;
        if version \<noteq> u ''v1'' then None else do {
          handle \<leftarrow> base64url_decode encoded_handle;
          payload \<leftarrow> base64url_decode encoded_payload;
          if length handle \<noteq> random_handle_bytes \<or> length payload < 12 + 16 + 16 then None else do {
            plaintext \<leftarrow> aead_decrypt cipher (take 12 payload) (drop 12 payload) (SESSION_CREDENTIAL_DOMAIN @ handle);
            if length plaintext \<le> 16 then None else do {
              access_token \<leftarrow> utf8_decode (drop 16 plaintext);
              if access_token = [] then None else Some (uuid_of_bytes (take 16 plaintext), access_token)
            }
          }
        }
      })"

section \<open>Pairing\<close>

definition PAIRING_START_PROOF_DOMAIN :: bytes where
  "PAIRING_START_PROOF_DOMAIN = u ''sub2api-codex-control/pairing-start/v2'' @ [0]"

definition PAIRING_CODE_ALPHABET :: ustr where
  "PAIRING_CODE_ALPHABET = u ''23456789ABCDEFGHJKLMNPQRSTUVWXYZ''"

definition pairing_code_group :: "ustr \<Rightarrow> bool" where
  "pairing_code_group g \<longleftrightarrow> length g = 4 \<and> list_all (\<lambda>c. c \<in> set PAIRING_CODE_ALPHABET) g"

text \<open>The pattern: four groups of four with hyphens between them.\<close>

definition pairing_code_pattern :: "ustr \<Rightarrow> bool" where
  "pairing_code_pattern code \<longleftrightarrow> length (split_on 45 code) = 4 \<and> list_all pairing_code_group (split_on 45 code)"

definition normalize_pairing_code :: "ustr \<Rightarrow> ustr option" where
  "normalize_pairing_code code = (if pairing_code_pattern code then Some (filter (\<lambda>c. c \<noteq> 45) code) else None)"

definition canonicalize_ed25519_public_key :: "ustr \<Rightarrow> ustr option" where
  "canonicalize_ed25519_public_key value =
     (let stripped = py_strip value;
          encoded = (case strip_prefix (u ''ed25519:'') stripped of Some rest \<Rightarrow> rest | None \<Rightarrow> stripped)
      in case a2b_base64 False (encoded @ b64_padding encoded) of
           None \<Rightarrow> None
         | Some raw \<Rightarrow> if length raw \<noteq> 32 then None else Some (base64url_encode raw))"

text \<open>What a device signs.  \<open>sha\<close> is the hash of a text's UTF-8 bytes.\<close>

record start_fields =
  sf_pairing_id :: uuid
  sf_created_at :: ustr
  sf_audience :: ustr
  sf_public_key :: ustr
  sf_code_commitment :: ustr
  sf_poll_token_commitment :: ustr
  sf_refresh_credential_commitment :: ustr
  sf_display_name :: ustr
  sf_connector_version :: ustr
  sf_codex_version :: ustr
  sf_workspace_roots :: "ustr list"

definition proof_fields :: "start_fields \<Rightarrow> ustr list" where
  "proof_fields f =
     [uuid_str (sf_pairing_id f), sf_created_at f, sf_audience f, sf_public_key f, sf_code_commitment f,
      sf_poll_token_commitment f, sf_refresh_credential_commitment f, sf_display_name f, sf_connector_version f,
      sf_codex_version f]"

definition pairing_start_proof :: "(ustr \<Rightarrow> bytes) \<Rightarrow> start_fields \<Rightarrow> bytes" where
  "pairing_start_proof sha f =
     PAIRING_START_PROOF_DOMAIN @ concat (map sha (proof_fields f))
       @ big_endian 4 (length (sf_workspace_roots f)) @ concat (map sha (sf_workspace_roots f))"

section \<open>Round trips\<close>

lemma b64_value_char [simp]: "v < 64 \<Longrightarrow> b64_value (b64_char v) = Some v"
  by (auto simp: b64_value_def b64_char_def)

lemma b64_char_plain [simp]: "v < 64 \<Longrightarrow> b64_char v \<noteq> 61 \<and> b64_char v \<noteq> 46 \<and> b64_char v < 128"
  by (auto simp: b64_char_def)

text \<open>The digits without the padding.\<close>

fun b64_digits :: "bytes \<Rightarrow> nat list" where
  "b64_digits [] = []"
| "b64_digits [a] = [a div 4, a mod 4 * 16]"
| "b64_digits [a, b] = [a div 4, a mod 4 * 16 + b div 16, b mod 16 * 4]"
| "b64_digits (a # b # c # rest) =
     a div 4 # (a mod 4 * 16 + b div 16) # (b mod 16 * 4 + c div 64) # c mod 64 # b64_digits rest"

lemma b64_digits_small: "byte_list bs \<Longrightarrow> list_all (\<lambda>v. v < 64) (b64_digits bs)"
  by (induction bs rule: b64_digits.induct) (auto simp: byte_list_def less_mult_imp_div_less)

lemma b64_padded:
  "urlsafe_b64encode bs = map b64_char (b64_digits bs) @ b64_padding (map b64_char (b64_digits bs))"
proof (induction bs rule: b64_digits.induct)
  case (4 a b c rest)
  have "b64_padding (w # x # y # z # t) = b64_padding t" for w x y z and t :: ustr
  proof -
    have "- int (length (w # x # y # z # t)) mod 4 = - int (length t) mod 4" by (simp, presburger)
    then show ?thesis by (simp only: b64_padding_def)
  qed
  then show ?case using 4 by simp
qed (simp_all add: b64_padding_def numeral_2_eq_2)

lemma base64url_encode_digits:
  assumes "byte_list bs"
  shows "base64url_encode bs = map b64_char (b64_digits bs)"
proof -
  let ?d = "map b64_char (b64_digits bs)"
  have "\<forall>c \<in> set ?d. c \<noteq> 61" using b64_digits_small [OF assms] by (auto simp: list_all_iff)
  then have "dropWhile (\<lambda>c. c = 61) (rev ?d) = rev ?d"
    using last_in_set [of ?d] by (cases "?d = []") (auto simp: dropWhile_eq_self_iff hd_rev simp del: map_is_Nil_conv)
  moreover have "dropWhile (\<lambda>c. c = 61) (replicate n 61 @ xs) = dropWhile (\<lambda>c. c = 61) xs" for n and xs :: ustr
    by (induction n) auto
  ultimately show ?thesis by (simp add: base64url_encode_def b64_padded b64_padding_def)
qed

lemma digit_bounds [simp]:
  "(a::nat) < 256 \<Longrightarrow> a div 4 < 64" "(b::nat) < 256 \<Longrightarrow> a mod 4 * 16 + b div 16 < 64"
  "(c::nat) < 256 \<Longrightarrow> b mod 16 * 4 + c div 64 < 64"
  by (simp_all add: less_mult_imp_div_less)

lemma a2b_loop_encode: "byte_list bs \<Longrightarrow> a2b_loop strict 0 0 0 False (urlsafe_b64encode bs) = Some bs"
proof (induction bs rule: urlsafe_b64encode.induct)
  case (2 a)
  then show ?case by (simp add: byte_list_def less_mult_imp_div_less)
next
  case (3 a b)
  then have "b div 16 < 16" by (simp add: byte_list_def less_mult_imp_div_less)
  then show ?case using 3 by (simp add: byte_list_def)
next
  case (4 a b c rest)
  then have "b div 16 < 16" "c div 64 < 4" by (simp_all add: byte_list_def less_mult_imp_div_less)
  then show ?case using 4 by (simp add: byte_list_def)
qed simp

text \<open>Decoding the text that was encoded gives the bytes back, in the strict and in the lenient mode.\<close>

lemma a2b_base64_encode:
  assumes "byte_list bs"
  shows "a2b_base64 strict (base64url_encode bs @ b64_padding (base64url_encode bs)) = Some bs"
proof -
  let ?t = "base64url_encode bs @ b64_padding (base64url_encode bs)"
  have t: "?t = urlsafe_b64encode bs" by (simp add: base64url_encode_digits [OF assms] b64_padded)
  have d: "\<forall>v \<in> set (b64_digits bs). v < 64" using b64_digits_small [OF assms] by (simp add: list_all_iff)
  then have "list_all (\<lambda>c. c < 128) (urlsafe_b64encode bs)"
    by (auto simp: list_all_iff b64_padded b64_padding_def)
  moreover have "urlsafe_b64encode bs \<noteq> [] \<Longrightarrow> hd (urlsafe_b64encode bs) \<noteq> 61"
    using assms by (cases bs rule: b64_digits.cases) (simp_all add: byte_list_def)
  ultimately show ?thesis unfolding t using a2b_loop_encode [OF assms, of strict] by (auto simp: a2b_base64_def)
qed

lemma base64url_round_trip: "byte_list bs \<Longrightarrow> base64url_decode (base64url_encode bs) = Some bs"
  by (simp add: base64url_decode_def a2b_base64_encode)

lemma base64url_encode_plain:
  assumes "byte_list bs" "c \<in> set (base64url_encode bs)"
  shows "c \<noteq> 46" "c < 128"
  using assms b64_digits_small [OF assms(1)] by (auto simp: base64url_encode_digits list_all_iff)

lemma join64:
  assumes "q1 * 64 + r0 = (c::nat)" "q2 * 64 + r1 = q1" "q3 * 64 + r2 = q2"
  shows "q2 * 4096 + r1 * 64 + r0 = c" "q3 * 262144 + r2 * 4096 + r1 * 64 + r0 = c"
  using assms by simp_all

lemma utf8_char_decode:
  assumes "c < 1114112" "\<not> surrogate c"
  shows "utf8_decode (utf8_char c @ rest) = map_option ((#) c) (utf8_decode rest)"
proof -
  have div: "c div 4096 = c div 64 div 64" "c div 262144 = c div 64 div 64 div 64"
    by (simp_all flip: div_mult2_eq)
  note join = join64 [OF div_mult_mod_eq [of c 64] div_mult_mod_eq [of "c div 64" 64] div_mult_mod_eq [of "c div 64 div 64" 64], folded div]
  consider "c < 128" | "128 \<le> c" "c < 2048" | "2048 \<le> c" "c < 65536" | "65536 \<le> c" by linarith
  then show ?thesis
  proof cases
    case 2
    then have "2 \<le> c div 64" "c div 64 < 32" by (simp_all add: less_mult_imp_div_less Suc_leI div_le_mono [of 128 c 64, simplified])
    then show ?thesis using 2 by (simp add: utf8_char_def utf8_cont_def)
  next
    case 3
    then have "c div 4096 < 16" by (simp add: less_mult_imp_div_less)
    moreover have "c div 4096 * 4096 + c div 64 mod 64 * 64 + c mod 64 = c"
      using join by blast
    ultimately show ?thesis using 3 assms(2) by (simp add: utf8_char_def utf8_cont_def Let_def)
  next
    case 4
    then have "c div 262144 < 5" using assms(1) by (simp add: less_mult_imp_div_less)
    moreover have "c div 262144 * 262144 + c div 4096 mod 64 * 4096 + c div 64 mod 64 * 64 + c mod 64 = c"
      using join by blast
    ultimately show ?thesis using 4 assms by (simp add: utf8_char_def utf8_cont_def Let_def)
  qed (simp add: utf8_char_def)
qed

definition text_ok :: "ustr \<Rightarrow> bool" where
  "text_ok s \<longleftrightarrow> list_all (\<lambda>c. c < 1114112 \<and> \<not> surrogate c) s"

lemma utf8_round_trip: "text_ok s \<Longrightarrow> utf8_encode s = Some bs \<Longrightarrow> utf8_decode bs = Some s"
proof (induction s arbitrary: bs)
  case (Cons c s)
  then have "utf8_encode s = Some (concat (map utf8_char s))" "bs = utf8_char c @ concat (map utf8_char s)"
    by (simp_all add: utf8_encode_def split: if_splits)
  then show ?case using Cons utf8_char_decode by (simp add: text_ok_def)
qed (simp add: utf8_encode_def)

lemma length_big_endian [simp]: "length (big_endian k n) = k"
  by (induction k arbitrary: n) auto

lemma from_bytes_snoc [simp]: "from_bytes (bs @ [b]) = from_bytes bs * 256 + b" "from_bytes [] = 0"
  by (simp_all add: from_bytes_def)

lemma from_bytes_big_endian: "n < 256 ^ k \<Longrightarrow> from_bytes (big_endian k n) = n"
proof (induction k arbitrary: n)
  case (Suc k)
  then have "n div 256 < 256 ^ k" by (simp add: less_mult_imp_div_less mult.commute)
  then show ?case using Suc.IH by simp
qed simp

lemma uuid_of_bytes_uuid_bytes [simp]: "uuid_of_bytes (uuid_bytes i) = i"
proof -
  have "unat i < 2 ^ LENGTH(128)" by (rule unsigned_less)
  then have "unat i < 256 ^ 16" by simp
  then show ?thesis by (simp add: uuid_of_bytes_def uuid_bytes_def from_bytes_big_endian)
qed

lemma length_uuid_bytes [simp]: "length (uuid_bytes i) = 16"
  by (simp add: uuid_bytes_def)

lemma byte_list_append [simp]: "byte_list (a @ b) \<longleftrightarrow> byte_list a \<and> byte_list b" "byte_list []"
  by (simp_all add: byte_list_def)

lemma byte_list_big_endian [simp]: "byte_list (big_endian k n)"
  by (induction k arbitrary: n) (simp_all add: byte_list_def)

lemma byte_list_uuid_bytes [simp]: "byte_list (uuid_bytes i)"
  by (simp add: uuid_bytes_def)

lemma utf8_char_bytes: "c < 1114112 \<Longrightarrow> byte_list (utf8_char c)"
  by (auto simp: byte_list_def utf8_char_def less_mult_imp_div_less)

lemma utf8_encode_bytes: "text_ok s \<Longrightarrow> utf8_encode s = Some bs \<Longrightarrow> byte_list bs"
proof (induction s arbitrary: bs)
  case (Cons c s)
  then show ?case
    using utf8_char_bytes [of c] by (auto simp: utf8_encode_def text_ok_def split: if_splits)
qed (simp add: utf8_encode_def)

lemma ascii_width: "list_all (\<lambda>c. c < 128) t \<Longrightarrow> sum_list (map utf8_width t) = length t"
  by (induction t) (simp_all add: utf8_width_ascii)

lemma cut_found:
  assumes "c \<notin> set a"
  shows "cut c (a @ c # b) = Some (a, b)"
proof -
  have "\<forall>x \<in> set a. x \<noteq> c" using assms by blast
  then show ?thesis by (simp add: cut_def)
qed

lemma three_parts_found:
  assumes "46 \<notin> set a" "46 \<notin> set b"
  shows "three_parts (a @ 46 # b @ 46 # c) = Some (a, b, c)"
  using cut_found [OF assms(1)] cut_found [OF assms(2)] by (simp add: three_parts_def)

text \<open>What the library documents of the cipher: decryption inverts encryption, the tag adds sixteen bytes.\<close>

definition authenticated :: "aead \<Rightarrow> bool" where
  "authenticated cipher \<longleftrightarrow>
     (\<forall>nonce data ad. byte_list data \<longrightarrow> aead_decrypt cipher nonce (aead_encrypt cipher nonce data ad) ad = Some data
        \<and> length (aead_encrypt cipher nonce data ad) = length data + 16
        \<and> byte_list (aead_encrypt cipher nonce data ad))"

lemma seal_round_trip:
  assumes "seal_credential cipher handle nonce session_id access_token = Inr token" "authenticated cipher"
    and "access_token \<noteq> []" "text_ok access_token"
    and "byte_list handle" "byte_list nonce" "length nonce = 12"
  shows "unseal_credential cipher (length handle) token = Some (session_id, access_token)
    \<and> length token \<le> MAX_CONTROL_SESSION_COOKIE_VALUE_BYTES \<and> list_all (\<lambda>c. c < 128) token"
proof -
  obtain encoded where enc: "utf8_encode access_token = Some encoded"
    using assms(1) by (auto simp: seal_credential_def split: option.splits)
  let ?plain = "uuid_bytes session_id @ encoded"
  let ?ct = "aead_encrypt cipher nonce ?plain (SESSION_CREDENTIAL_DOMAIN @ handle)"
  have token: "token = u ''v1'' @ 46 # base64url_encode handle @ 46 # base64url_encode (nonce @ ?ct)"
    and short: "length token \<le> MAX_CONTROL_SESSION_COOKIE_VALUE_BYTES"
    using assms(1) enc by (auto simp: seal_credential_def Let_def split: if_splits)
  have plain: "byte_list ?plain" using utf8_encode_bytes [OF assms(4) enc] by simp
  have law: "aead_decrypt cipher nonce ?ct (SESSION_CREDENTIAL_DOMAIN @ handle) = Some ?plain"
    "length ?ct = length ?plain + 16" "byte_list (nonce @ ?ct)"
    using assms(2,6) plain by (simp_all add: authenticated_def)
  have dec: "utf8_decode encoded = Some access_token" using utf8_round_trip [OF assms(4) enc] .
  then have "encoded \<noteq> []" using assms(3) by auto
  have ascii: "list_all (\<lambda>c. c < 128) token"
    using base64url_encode_plain(2) [OF assms(5)] base64url_encode_plain(2) [OF law(3)]
    by (auto simp: token list_all_iff u_def)
  then have width: "sum_list (map utf8_width token) = length token" by (rule ascii_width)
  have "three_parts token = Some (u ''v1'', base64url_encode handle, base64url_encode (nonce @ ?ct))"
    unfolding token using base64url_encode_plain(1) [OF assms(5)] by (intro three_parts_found) (auto simp: u_def)
  then have "unseal_credential cipher (length handle) token = Some (session_id, access_token)"
    using width short law dec assms(3,7) \<open>encoded \<noteq> []\<close> base64url_round_trip [OF assms(5)] base64url_round_trip [OF law(3)]
    by (simp add: unseal_credential_def)
  then show ?thesis using short ascii by blast
qed

text \<open>C24: The session cookie is a faithful envelope.  Unsealing the token that \<open>seal\<close> returned gives back exactly
  the session identifier and the upstream access token, every sealed token is short enough for the cookie and for
  \<open>unseal\<close>, and it is ASCII text; for any handle and nonce of the right length and any cipher whose decryption inverts its encryption.\<close>

theorem seal_unseal:
  assumes "seal_credential cipher handle nonce session_id access_token = Inr token" "authenticated cipher"
    and "access_token \<noteq> []" "text_ok access_token"
    and "byte_list handle" "byte_list nonce" "length nonce = 12"
  shows "unseal_credential cipher (length handle) token = Some (session_id, access_token)
    \<and> length token \<le> MAX_CONTROL_SESSION_COOKIE_VALUE_BYTES \<and> list_all (\<lambda>c. c < 128) token"
  by (rule seal_round_trip [OF assms])

lemma length_b64_digits: "length (b64_digits bs) \<le> 2 * length bs"
  by (induction bs rule: b64_digits.induct) auto

definition sample_cipher :: aead where
  "sample_cipher = \<lparr>aead_encrypt = (\<lambda>nonce data ad. data @ replicate 16 0),
     aead_decrypt = (\<lambda>nonce data ad. Some (take (length data - 16) data))\<rparr>"

lemma sample_cipher_authenticated: "authenticated sample_cipher"
  by (simp add: authenticated_def sample_cipher_def byte_list_def list_all_iff)

lemma sample_sealed: "\<exists>token. seal_credential sample_cipher [7] (replicate 12 1) 5 (u ''t'') = Inr token"
proof -
  have "length (base64url_encode bs) \<le> 2 * length bs" if "byte_list bs" for bs
    using that length_b64_digits by (simp add: base64url_encode_digits)
  moreover have "byte_list (replicate 12 1 @ uuid_bytes 5 @ [116] @ replicate 16 0)" "byte_list [7]"
    by (simp_all only: byte_list_append byte_list_uuid_bytes) (simp_all add: byte_list_def list_all_iff)
  ultimately have "length (base64url_encode [7]) \<le> 2"
    "length (base64url_encode (replicate 12 1 @ uuid_bytes 5 @ [116] @ replicate 16 0)) \<le> 90"
    by fastforce+
  then show ?thesis
    by (simp add: seal_credential_def utf8_encode_def surrogate_def utf8_char_def sample_cipher_def Let_def u_def
        MAX_CONTROL_SESSION_COOKIE_VALUE_BYTES_def)
qed

theorem seal_unseal_witness:
  "\<exists>token. seal_credential sample_cipher [7] (replicate 12 1) 5 (u ''t'') = Inr token
     \<and> unseal_credential sample_cipher 1 token = Some (5, u ''t'')"
proof -
  obtain token where t: "seal_credential sample_cipher [7] (replicate 12 1) 5 (u ''t'') = Inr token"
    using sample_sealed by blast
  have "unseal_credential sample_cipher (length [7::nat]) token = Some (5, u ''t'')"
    using seal_unseal [OF t sample_cipher_authenticated] by (simp add: u_def text_ok_def surrogate_def byte_list_def list_all_iff)
  then show ?thesis using t by simp
qed

section \<open>What a signature binds\<close>

lemma concat_blocks:
  assumes "\<forall>x \<in> set xs. length (f x) = k" "\<forall>y \<in> set ys. length (f y) = k" "length xs = length ys"
    and "concat (map f xs) @ as = concat (map f ys) @ bs"
  shows "map f xs = map f ys \<and> as = bs"
  using assms
proof (induction xs arbitrary: ys)
  case (Cons x xs)
  then obtain y ys' where "ys = y # ys'" by (cases ys) auto
  then show ?case using Cons by auto
qed simp

text \<open>The signed start proof determines the pairing: if SHA-256 separates the texts of two pairing starts, equal
  proofs have equal identifiers, times, audiences, keys, commitments, names, versions and lists of workspace roots.
  A signature for one start is no signature for another.\<close>

theorem start_proof_binds:
  assumes "pairing_start_proof sha f = pairing_start_proof sha g"
    and "T = set (proof_fields f) \<union> set (proof_fields g) \<union> set (sf_workspace_roots f) \<union> set (sf_workspace_roots g)"
    and "inj_on sha T" "\<forall>x \<in> T. length (sha x) = 32"
    and "length (sf_workspace_roots f) \<le> 32" "length (sf_workspace_roots g) \<le> 32"
  shows "f = g"
proof -
  let ?tail = "\<lambda>h. big_endian 4 (length (sf_workspace_roots h)) @ concat (map sha (sf_workspace_roots h))"
  have "concat (map sha (proof_fields f)) @ ?tail f = concat (map sha (proof_fields g)) @ ?tail g"
    using assms(1) by (simp add: pairing_start_proof_def)
  moreover have "length (proof_fields f) = length (proof_fields g)" by (simp add: proof_fields_def)
  ultimately have fields: "map sha (proof_fields f) = map sha (proof_fields g)" and tail: "?tail f = ?tail g"
    using concat_blocks [of "proof_fields f" sha 32 "proof_fields g" "?tail f" "?tail g"] assms(2,4) by auto
  from tail have "big_endian 4 (length (sf_workspace_roots f)) = big_endian 4 (length (sf_workspace_roots g))"
    and roots: "concat (map sha (sf_workspace_roots f)) = concat (map sha (sf_workspace_roots g))"
    by (auto simp: append_eq_append_conv)
  moreover have small: "n < 256 ^ 4" if "n \<le> 32" for n :: nat using that by simp
  ultimately have "length (sf_workspace_roots f) = length (sf_workspace_roots g)"
    using from_bytes_big_endian [OF small [OF assms(5)]] from_bytes_big_endian [OF small [OF assms(6)]] by metis
  then have "map sha (sf_workspace_roots f) = map sha (sf_workspace_roots g)"
    using concat_blocks [of "sf_workspace_roots f" sha 32 "sf_workspace_roots g" "[]" "[]"] roots assms(2,4) by auto
  then have "sf_workspace_roots f = sf_workspace_roots g"
    using assms(2,3) by (auto intro: map_inj_on inj_on_subset)
  moreover have "proof_fields f = proof_fields g"
    using fields assms(2,3) by (auto intro: map_inj_on inj_on_subset)
  ultimately show ?thesis by (simp add: proof_fields_def)
qed

definition sample_sha :: "ustr \<Rightarrow> bytes" where
  "sample_sha t = replicate 32 (if t = uuid_str 1 then 1 else if t = uuid_str 2 then 2 else 0)"

definition sample_start :: "uuid \<Rightarrow> start_fields" where
  "sample_start i = \<lparr>sf_pairing_id = i, sf_created_at = [], sf_audience = [], sf_public_key = [], sf_code_commitment = [],
     sf_poll_token_commitment = [], sf_refresh_credential_commitment = [], sf_display_name = [], sf_connector_version = [],
     sf_codex_version = [], sf_workspace_roots = []\<rparr>"

theorem start_proof_binds_witness:
  "pairing_start_proof sample_sha (sample_start 1) \<noteq> pairing_start_proof sample_sha (sample_start 2)"
proof
  assume eq: "pairing_start_proof sample_sha (sample_start 1) = pairing_start_proof sample_sha (sample_start 2)"
  have "uuid_str i \<noteq> []" "[] \<noteq> uuid_str i" for i using length_uuid_str [of i] by fastforce+
  then have "inj_on sample_sha (set (proof_fields (sample_start 1)) \<union> set (proof_fields (sample_start 2))
      \<union> set (sf_workspace_roots (sample_start 1)) \<union> set (sf_workspace_roots (sample_start 2)))"
    by (auto simp: inj_on_def proof_fields_def sample_start_def sample_sha_def)
  from start_proof_binds [OF eq refl this] have "sample_start 1 = sample_start 2"
    by (simp add: sample_sha_def sample_start_def)
  then show False by (simp add: sample_start_def)
qed

section \<open>Canonical keys\<close>

definition quad_bound :: "nat \<Rightarrow> nat" where
  "quad_bound quad_pos = (if quad_pos = 0 then 1 else if quad_pos = 1 then 64 else if quad_pos = 2 then 16 else 4)"

lemma b64_value_small: "b64_value c = Some v \<Longrightarrow> v < 64"
  by (auto simp: b64_value_def split: if_splits)

lemma a2b_loop_bytes:
  "a2b_loop strict quad_pos leftchar pads started t = Some bs \<Longrightarrow> leftchar < quad_bound quad_pos \<Longrightarrow> quad_pos < 4 \<Longrightarrow> byte_list bs"
proof (induction strict quad_pos leftchar pads started t arbitrary: bs rule: a2b_loop.induct)
  case (2 strict quad_pos leftchar pads started c cs)
  show ?case
  proof (cases "c = 61")
    case True
    then show ?thesis using 2 by (auto split: if_splits)
  next
    case False
    show ?thesis
    proof (cases "b64_value c")
      case None
      then show ?thesis using 2 False by (auto split: if_splits)
    next
      case (Some v)
      then have v: "v < 64" by (rule b64_value_small)
      then have small: "v div 16 < 4" "v div 4 < 16" by (simp_all add: less_mult_imp_div_less)
      consider "quad_pos = 0" | "quad_pos = 1" | "quad_pos = 2" | "quad_pos = 3" using "2.prems"(3) by linarith
      then show ?thesis
        by cases (use 2 False Some v small in \<open>auto simp: quad_bound_def byte_list_def split: if_splits\<close>)
    qed
  qed
qed (auto simp: byte_list_def split: if_splits)

lemma base64url_no_space:
  assumes "byte_list bs" "c \<in> set (base64url_encode bs)"
  shows "\<not> py_space c" "c \<noteq> 58"
proof -
  obtain v where "v < 64" "c = b64_char v"
    using assms b64_digits_small [OF assms(1)] by (auto simp: base64url_encode_digits list_all_iff)
  then show "\<not> py_space c" "c \<noteq> 58" by (auto simp: b64_char_def py_space_def split: if_splits)
qed

lemma canonical_key_encode:
  assumes "byte_list raw" "length raw = 32"
  shows "canonicalize_ed25519_public_key (base64url_encode raw) = Some (base64url_encode raw)"
proof -
  let ?key = "base64url_encode raw"
  have "dropWhile py_space xs = xs" if "\<forall>x \<in> set xs. \<not> py_space x" for xs
    using that by (cases xs) auto
  from this [of ?key] this [of "rev ?key"] have strip: "py_strip ?key = ?key"
    using base64url_no_space(1) [OF assms(1)] by (simp add: py_strip_def)
  have "58 \<in> set (take (length (u ''ed25519:'')) ?key)" if "take (length (u ''ed25519:'')) ?key = u ''ed25519:''"
    unfolding that by (simp add: u_def)
  then have "strip_prefix (u ''ed25519:'') ?key = None"
    using base64url_no_space(2) [OF assms(1)] in_set_takeD by (fastforce simp: strip_prefix_def)
  then show ?thesis
    using assms strip a2b_base64_encode [OF assms(1), of False] by (simp add: canonicalize_ed25519_public_key_def)
qed

text \<open>A canonical key is canonical text for exactly 32 bytes, and canonicalising it again changes nothing.\<close>

lemma canonical_key:
  assumes "canonicalize_ed25519_public_key value = Some key"
  obtains raw where "length raw = 32" "byte_list raw" "key = base64url_encode raw" "base64url_decode key = Some raw"
    "canonicalize_ed25519_public_key key = Some key"
proof -
  obtain t raw where raw: "a2b_base64 False t = Some raw" "length raw = 32" "key = base64url_encode raw"
    using assms by (auto simp: canonicalize_ed25519_public_key_def Let_def split: option.splits if_splits)
  then have bytes: "byte_list raw"
    by (auto simp: a2b_base64_def quad_bound_def split: if_splits intro: a2b_loop_bytes [of False 0 0])
  have "canonicalize_ed25519_public_key key = Some key" using canonical_key_encode [OF bytes raw(2)] raw(3) by simp
  then show thesis using that raw(2,3) bytes base64url_round_trip [OF bytes] by blast
qed

end
