(* ===== verification/Sessions.thy ===== *)
theory Sessions
  imports Retention Security
begin

text \<open>
  Browser sessions: the reading of the identity answer (\<open>sub2api.py\<close>), the token digests of
  \<open>security.py\<close>, the session service of \<open>services.py\<close> and the request guards of
  \<open>dependencies.py\<close>.  A record of arguments \<open>session_env\<close> stands for what is outside: the keyed hash, the
  sealing of the cookie, the parser of identifiers, the answers of the upstream service and the
  values that the cache shows.  A cache read that fails or times out is \<open>None\<close>; a write that fails is
  ignored by the source, so the writes are only listed.  While the upstream service is asked other
  requests may commit; this is an arbitrary function on the database.
\<close>

section \<open>Upstream identity\<close>

record sub2api_user =
  su_user_id :: ustr
  su_username :: "ustr option"
  su_email :: "ustr option"
  su_display_name :: "ustr option"
  su_token_version :: "ustr option"

datatype upstream_error = Invalid_Token | Revoked_Token | Disabled_User | Upstream_Unavailable | Upstream_Protocol_Error

definition optional_string :: "json option \<Rightarrow> upstream_error + ustr option" where
  "optional_string v =
     (case v of
        None \<Rightarrow> Inr None
      | Some JNull \<Rightarrow> Inr None
      | Some (JStr s) \<Rightarrow> Inr (if py_strip s = [] then None else Some (py_strip s))
      | Some _ \<Rightarrow> Inl Upstream_Protocol_Error)"

definition DISABLED_STATUSES :: "string list" where
  "DISABLED_STATUSES = [''disabled'', ''inactive'', ''banned'', ''blocked'', ''suspended'', ''deleted'', ''locked'']"

definition user_is_enabled :: "dict \<Rightarrow> upstream_error + bool" where
  "user_is_enabled d =
     (case dict_get d (u ''status'') of
        Some (JStr s) \<Rightarrow>
          if s = u ''active'' then Inr True
          else if s \<in> set (map u DISABLED_STATUSES) then Inr False
          else Inl Upstream_Protocol_Error
      | _ \<Rightarrow> Inl Upstream_Protocol_Error)"

definition parse_auth_me :: "json \<Rightarrow> upstream_error + sub2api_user" where
  "parse_auth_me body =
     (case body of
        JObj d \<Rightarrow>
          if set (map fst d) \<noteq> set (map u [''code'', ''message'', ''data'']) then Inl Upstream_Protocol_Error
          else if dict_get d (u ''code'') \<noteq> Some (JInt 0) then Inl Upstream_Protocol_Error
          else if dict_get d (u ''message'') \<noteq> Some (JStr (u ''success'')) then Inl Upstream_Protocol_Error
          else
     (case dict_get d (u ''data'') of
        Some (JObj cand) \<Rightarrow>
          (case dict_get cand (u ''id'') of
             Some (JInt n) \<Rightarrow>
               if \<not> (1 \<le> n \<and> n \<le> 2 ^ 63 - 1) then Inl Upstream_Protocol_Error
               else
          (case user_is_enabled cand of
             Inl e \<Rightarrow> Inl e
           | Inr False \<Rightarrow> Inl Disabled_User
           | Inr True \<Rightarrow>
          (case optional_string (dict_get cand (u ''username'')) of
             Inl e \<Rightarrow> Inl e
           | Inr username \<Rightarrow>
          (case optional_string (dict_get cand (u ''email'')) of
             Inl e \<Rightarrow> Inl e
           | Inr email \<Rightarrow>
               Inr \<lparr>su_user_id = int_str n, su_username = username, su_email = email,
                 su_display_name = None, su_token_version = None\<rparr>)))
           | _ \<Rightarrow> Inl Upstream_Protocol_Error)
      | _ \<Rightarrow> Inl Upstream_Protocol_Error)
      | _ \<Rightarrow> Inl Upstream_Protocol_Error)"

text \<open>An answer of the identity endpoint: \<open>None\<close> is a timeout or a connection error, otherwise the status and
  the body, if it is JSON.\<close>

definition response_error_code :: "json option \<Rightarrow> ustr option" where
  "response_error_code body =
     (case body of
        Some (JObj d) \<Rightarrow> (case dict_get d (u ''code'') of Some (JStr s) \<Rightarrow> Some s | _ \<Rightarrow> None)
      | _ \<Rightarrow> None)"

definition verify_access_token :: "(int \<times> json option) option \<Rightarrow> upstream_error + sub2api_user" where
  "verify_access_token answer =
     (case answer of
        None \<Rightarrow> Inl Upstream_Unavailable
      | Some (status, body) \<Rightarrow>
          if status = 401 \<and> response_error_code body = Some (u ''USER_INACTIVE'') then Inl Disabled_User
          else if status = 401 \<and> response_error_code body = Some (u ''TOKEN_REVOKED'') then Inl Revoked_Token
          else if status \<in> {401, 403} then Inl Invalid_Token
          else if status < 200 \<or> status \<ge> 300 then Inl Upstream_Unavailable
          else if status \<noteq> 200 then Inl Upstream_Protocol_Error
          else (case body of None \<Rightarrow> Inl Upstream_Protocol_Error | Some j \<Rightarrow> parse_auth_me j))"

section \<open>Digests\<close>

text \<open>\<open>hmac\<close> is the keyed hash of a text.  \<open>compare_digest\<close> refuses text outside ASCII.\<close>

definition token_digest :: "(ustr \<Rightarrow> ustr) \<Rightarrow> string \<Rightarrow> ustr \<Rightarrow> ustr" where
  "token_digest hmac purpose value = hmac (u purpose @ 0 # value)"

definition compare_digest :: "ustr \<Rightarrow> ustr \<Rightarrow> bool option" where
  "compare_digest a b = (if list_all (\<lambda>c. c < 128) a \<and> list_all (\<lambda>c. c < 128) b then Some (a = b) else None)"

definition CONTROL_SESSION_DIGEST_PURPOSE :: string where
  "CONTROL_SESSION_DIGEST_PURPOSE = ''control-session-v2''"

record session_env =
  se_hmac :: "ustr \<Rightarrow> ustr"
  se_seal :: "uuid \<Rightarrow> ustr \<Rightarrow> ustr option"
  se_unseal :: "ustr \<Rightarrow> (uuid \<times> ustr) option"
  se_uuid :: "ustr \<Rightarrow> uuid option"
  se_upstream :: "ustr \<Rightarrow> ustr \<Rightarrow> ustr \<Rightarrow> (int \<times> json option) option"
  se_cache :: "nat \<Rightarrow> ustr \<Rightarrow> ustr option"

datatype cache_op =
    Cache_Set ustr ustr nat
  | Cache_Delete ustr
  | Cache_Publish ustr ustr

datatype session_error =
    Active_Session_Limit
  | Retained_Session_Limit
  | Credential_Too_Large
  | Session_Integrity_Error
  | Session_Upstream upstream_error
  | Session_Raised
  | Session_Row_Missing

definition session_key :: "ustr \<Rightarrow> ustr" where
  "session_key token_hash = u ''session:'' @ token_hash"

definition upstream_marker_key :: "uuid \<Rightarrow> ustr" where
  "upstream_marker_key i = u ''session-upstream-ok:'' @ uuid_str i"

definition control_session_revocation_channel :: "uuid \<Rightarrow> ustr" where
  "control_session_revocation_channel i = u ''control-session-revoked:'' @ uuid_str i"

definition invalidate_revoked_session :: "control_session \<Rightarrow> cache_op list" where
  "invalidate_revoked_session s =
     [Cache_Publish (control_session_revocation_channel (ses_id s)) (uuid_str (ses_id s)),
      Cache_Delete (session_key (ses_token_hash s)), Cache_Delete (upstream_marker_key (ses_id s))]"

section \<open>The marker of a recent verification\<close>

definition whole_seconds :: "datetime \<Rightarrow> int" where
  "whole_seconds t = t div 1000000"

definition upstream_marker_signature :: "session_env \<Rightarrow> control_session \<Rightarrow> int \<Rightarrow> ustr" where
  "upstream_marker_signature se s verified_at =
     token_digest (se_hmac se) ''session-upstream-verification''
       (uuid_str (ses_id s) @ 0 # ses_token_hash s @ 0 # ses_sub2api_user_id s @ 0 # or_empty (ses_token_version s)
        @ 0 # int_str verified_at)"

definition upstream_marker :: "session_env \<Rightarrow> datetime \<Rightarrow> control_session \<Rightarrow> ustr" where
  "upstream_marker se now s =
     u ''v1.'' @ int_str (whole_seconds now) @ u ''.'' @ upstream_marker_signature se s (whole_seconds now)"

definition hex_text :: "ustr \<Rightarrow> bool" where
  "hex_text t = list_all (\<lambda>c. c \<in> set (u ''0123456789abcdef'')) t"

definition float_limit :: int where
  "float_limit = 2 ^ 1024 - 2 ^ 970"

text \<open>\<open>None\<close> is the error of a time that no float holds; a longer text than the interpreter converts is refused.\<close>

definition valid_upstream_marker ::
  "session_env \<Rightarrow> settings \<Rightarrow> datetime \<Rightarrow> control_session \<Rightarrow> ustr option \<Rightarrow> bool option" where
  "valid_upstream_marker se cfg now s marker =
     (case marker of
        None \<Rightarrow> Some False
      | Some m \<Rightarrow>
     (case three_parts m of
        None \<Rightarrow> Some False
      | Some (version, raw, signature) \<Rightarrow>
          if version \<noteq> u ''v1'' \<or> raw = [] \<or> \<not> list_all is_digit raw then Some False
          else if length signature \<noteq> 64 \<or> \<not> hex_text signature then Some False
          else if length raw > 4300 then Some False
          else
            let verified_at = int_of_text raw; age = now - seconds verified_at in
            if verified_at \<ge> float_limit then None
            else if age < 0 \<or> age \<ge> seconds (int (session_upstream_recheck_seconds cfg)) then Some False
            else Some (signature = upstream_marker_signature se s verified_at)))"

definition remaining_seconds :: "datetime \<Rightarrow> control_session \<Rightarrow> nat" where
  "remaining_seconds now s = max 1 (nat ((ses_expires_at s - now) div 1000000))"

definition cache_upstream_verification :: "session_env \<Rightarrow> settings \<Rightarrow> datetime \<Rightarrow> control_session \<Rightarrow> cache_op" where
  "cache_upstream_verification se cfg now s =
     Cache_Set (upstream_marker_key (ses_id s)) (upstream_marker se now s)
       (min (session_upstream_recheck_seconds cfg) (remaining_seconds now s))"

section \<open>Creation\<close>

definition active_session :: "ustr \<Rightarrow> datetime \<Rightarrow> control_session \<Rightarrow> bool" where
  "active_session user now s \<longleftrightarrow> ses_sub2api_user_id s = user \<and> ses_revoked_at s = None \<and> ses_expires_at s > now"

definition session_audit ::
  "datetime \<Rightarrow> request_metadata \<Rightarrow> string \<Rightarrow> control_session \<Rightarrow> audit_event" where
  "session_audit now metadata action s =
     \<lparr>aud_actor_user_id = Some (ses_sub2api_user_id s), aud_actor_session_id = Some (ses_id s),
      aud_actor_device_id = None, aud_action = action, aud_outcome = AUDIT_SUCCEEDED,
      aud_resource_type = Some ''control_session'', aud_resource_id = Some (uuid_str (ses_id s)),
      aud_request_id = rm_request_id metadata, aud_source_ip = rm_source_ip metadata,
      aud_user_agent = rm_user_agent metadata, aud_details = [], aud_created_at = now\<rparr>"

definition prune_sessions :: "settings \<Rightarrow> datetime \<Rightarrow> ustr \<Rightarrow> database \<Rightarrow> session_error + database" where
  "prune_sessions cfg now user db =
     (let total = count_where (\<lambda>s. ses_sub2api_user_id s = user) (control_sessions db) in
      if total < owner_max_session_records cfg then Inr db
      else
        let prune_count = total - owner_max_session_records cfg + 1;
            terminal_ids = map ses_id (select_ordered
              (\<lambda>s. ses_sub2api_user_id s = user \<and> (ses_revoked_at s \<noteq> None \<or> ses_expires_at s \<le> now))
              (\<lambda>s. (ses_expires_at s, ses_id s)) prune_count (control_sessions db));
            db1 = put_sessions (delete_where (\<lambda>s. ses_id s \<in> set terminal_ids) (control_sessions db)) db
        in if count_where (\<lambda>s. ses_sub2api_user_id s = user) (control_sessions db1) \<ge> owner_max_session_records cfg
           then Inl Retained_Session_Limit else Inr db1)"

definition new_session ::
  "session_env \<Rightarrow> settings \<Rightarrow> datetime \<Rightarrow> uuid \<Rightarrow> ustr \<Rightarrow> ustr \<Rightarrow> sub2api_user \<Rightarrow> request_metadata \<Rightarrow> control_session" where
  "new_session se cfg now sid session_token csrf_token user metadata =
     \<lparr>ses_id = sid, ses_token_hash = token_digest (se_hmac se) CONTROL_SESSION_DIGEST_PURPOSE session_token,
      ses_csrf_token_hash = token_digest (se_hmac se) ''csrf'' csrf_token, ses_sub2api_user_id = su_user_id user,
      ses_username = su_username user, ses_email = su_email user, ses_display_name = su_display_name user,
      ses_token_version = su_token_version user, ses_issued_at = now,
      ses_expires_at = now + seconds (int (session_ttl_seconds cfg)), ses_last_seen_at = now, ses_revoked_at = None,
      ses_request_ip = rm_source_ip metadata, ses_user_agent = rm_user_agent metadata\<rparr>"

text \<open>The widths of the columns.\<close>

definition within :: "nat \<Rightarrow> ustr option \<Rightarrow> bool" where
  "within n v = (case v of None \<Rightarrow> True | Some t \<Rightarrow> length t \<le> n)"

definition session_fits :: "control_session \<Rightarrow> bool" where
  "session_fits s \<longleftrightarrow>
     length (ses_token_hash s) \<le> 64 \<and> length (ses_csrf_token_hash s) \<le> 64 \<and> length (ses_sub2api_user_id s) \<le> 128
   \<and> within 255 (ses_username s) \<and> within 320 (ses_email s) \<and> within 255 (ses_display_name s)
   \<and> within 64 (ses_token_version s) \<and> within 64 (ses_request_ip s) \<and> within 512 (ses_user_agent s)
   \<and> ses_issued_at s < ses_expires_at s"

text \<open>The stored session with the two cookie values.  An error leaves the database as it was: the caller
  rolls back.\<close>

definition create_session ::
  "session_env \<Rightarrow> settings \<Rightarrow> datetime \<Rightarrow> uuid \<Rightarrow> ustr \<Rightarrow> sub2api_user \<Rightarrow> request_metadata \<Rightarrow> ustr \<Rightarrow> database
     \<Rightarrow> (session_error + control_session \<times> ustr \<times> ustr) \<times> database \<times> cache_op list" where
  "create_session se cfg now sid csrf_token user metadata access_token db =
     (if count_where (active_session (su_user_id user) now) (control_sessions db) \<ge> owner_max_active_sessions cfg
      then (Inl Active_Session_Limit, db, [])
      else
     (case prune_sessions cfg now (su_user_id user) db of
        Inl e \<Rightarrow> (Inl e, db, [])
      | Inr db1 \<Rightarrow>
     (case se_seal se sid access_token of
        None \<Rightarrow> (Inl Credential_Too_Large, db, [])
      | Some session_token \<Rightarrow>
          let s = new_session se cfg now sid session_token csrf_token user metadata in
          if \<not> session_fits s
            \<or> exists_where (\<lambda>x. ses_id x = sid \<or> ses_token_hash x = ses_token_hash s) (control_sessions db1)
          then (Inl Session_Integrity_Error, db, [])
          else (Inr (s, session_token, csrf_token),
                add_audit (session_audit now metadata ''session.exchange'' s)
                  (db1\<lparr>control_sessions := control_sessions db1 @ [s]\<rparr>),
                [Cache_Set (session_key (ses_token_hash s)) (uuid_str sid) (session_ttl_seconds cfg),
                 cache_upstream_verification se cfg now s]))))"

section \<open>Resolution\<close>

definition session_at :: "uuid \<Rightarrow> database \<Rightarrow> control_session option" where
  "session_at i db = scalar (\<lambda>s. ses_id s = i) (control_sessions db)"

text \<open>The row of a token: by the cached identifier, checked against the digest, or by the digest.\<close>

definition find_session :: "session_env \<Rightarrow> ustr \<Rightarrow> database \<Rightarrow> control_session option \<times> cache_op list" where
  "find_session se token_hash db =
     (let by_hash = scalar (\<lambda>s. ses_token_hash s = token_hash) (control_sessions db) in
      case se_cache se 0 (session_key token_hash) of
        None \<Rightarrow> (by_hash, [])
      | Some cached_id \<Rightarrow>
          let cached_record = (case se_uuid se cached_id of None \<Rightarrow> None | Some i \<Rightarrow> session_at i db);
              cached_hash = (case cached_record of None \<Rightarrow> replicate 64 48 | Some s \<Rightarrow> ses_token_hash s)
          in if cached_hash = token_hash
             then (case cached_record of None \<Rightarrow> (by_hash, []) | Some s \<Rightarrow> (Some s, []))
             else (by_hash, [Cache_Delete (session_key token_hash)]))"

definition upstream_revoke_audit :: "datetime \<Rightarrow> string \<Rightarrow> control_session \<Rightarrow> audit_event" where
  "upstream_revoke_audit now reason s =
     \<lparr>aud_actor_user_id = Some (ses_sub2api_user_id s), aud_actor_session_id = Some (ses_id s),
      aud_actor_device_id = None, aud_action = ''session.upstream_revoke'', aud_outcome = AUDIT_DENIED,
      aud_resource_type = Some ''control_session'', aud_resource_id = Some (uuid_str (ses_id s)),
      aud_request_id = None, aud_source_ip = ses_request_ip s, aud_user_agent = ses_user_agent s,
      aud_details = [(u ''reason'', JStr (u reason))], aud_created_at = now\<rparr>"

definition revoke_for_upstream_rejection ::
  "datetime \<Rightarrow> control_session \<Rightarrow> string \<Rightarrow> database \<Rightarrow> database \<times> cache_op list" where
  "revoke_for_upstream_rejection now s reason db =
     (let open_row = (\<lambda>x. ses_id x = ses_id s \<and> ses_revoked_at x = None);
          db1 = db\<lparr>control_sessions := update_where open_row (\<lambda>x. x\<lparr>ses_revoked_at := Some now\<rparr>) (control_sessions db)\<rparr>
      in (if exists_where open_row (control_sessions db) then add_audit (upstream_revoke_audit now reason s) db1 else db1,
          invalidate_revoked_session s))"

text \<open>Whether the identity was confirmed, the database and the cache writes.  The two reads of the marker
  are before and after the wait for the lock of the session.\<close>

definition marker_read :: "session_env \<Rightarrow> settings \<Rightarrow> datetime \<Rightarrow> control_session \<Rightarrow> nat \<Rightarrow> bool option" where
  "marker_read se cfg now s n = valid_upstream_marker se cfg now s (se_cache se n (upstream_marker_key (ses_id s)))"

definition recent_marker :: "session_env \<Rightarrow> settings \<Rightarrow> datetime \<Rightarrow> control_session \<Rightarrow> bool option" where
  "recent_marker se cfg now s =
     (case marker_read se cfg now s 1 of Some False \<Rightarrow> marker_read se cfg now s 2 | v \<Rightarrow> v)"

definition upstream_identity :: "session_env \<Rightarrow> control_session \<Rightarrow> ustr \<Rightarrow> upstream_error + sub2api_user" where
  "upstream_identity se s access_token =
     verify_access_token (se_upstream se access_token
       (if truthy (ses_request_ip s) then or_empty (ses_request_ip s) else u ''unknown'') (or_empty (ses_user_agent s)))"

definition verify_upstream_identity ::
  "session_env \<Rightarrow> settings \<Rightarrow> datetime \<Rightarrow> bool \<Rightarrow> control_session \<Rightarrow> ustr \<Rightarrow> database
     \<Rightarrow> (session_error + bool) \<times> database \<times> cache_op list" where
  "verify_upstream_identity se cfg now force s access_token db =
     (let rejected = (\<lambda>reason. case revoke_for_upstream_rejection now s reason db of (db1, ops) \<Rightarrow> (Inr False, db1, ops))
      in case (if force then Some False else recent_marker se cfg now s) of
        None \<Rightarrow> (Inl Session_Raised, db, [])
      | Some True \<Rightarrow> (Inr True, db, [])
      | Some False \<Rightarrow>
     (case upstream_identity se s access_token of
        Inl Disabled_User \<Rightarrow> rejected ''USER_INACTIVE''
      | Inl Revoked_Token \<Rightarrow> rejected ''TOKEN_REVOKED''
      | Inl Invalid_Token \<Rightarrow> rejected ''TOKEN_INVALID''
      | Inl Upstream_Unavailable \<Rightarrow> (Inl (Session_Upstream Upstream_Unavailable), db, [])
      | Inl Upstream_Protocol_Error \<Rightarrow> (Inl (Session_Upstream Upstream_Protocol_Error), db, [])
      | Inr user \<Rightarrow>
          if su_user_id user \<noteq> ses_sub2api_user_id s then rejected ''USER_MISMATCH''
          else
     (case compare_digest (or_empty (su_token_version user)) (or_empty (ses_token_version s)) of
        None \<Rightarrow> (Inl Session_Raised, db, [])
      | Some False \<Rightarrow> rejected ''TOKEN_VERSION_MISMATCH''
      | Some True \<Rightarrow> (Inr True, db, [cache_upstream_verification se cfg now s]))))"

definition touch_session :: "bool \<Rightarrow> datetime \<Rightarrow> control_session \<Rightarrow> database \<Rightarrow> control_session \<times> database" where
  "touch_session touch now s db =
     (if touch \<and> now - ses_last_seen_at s \<ge> seconds 30
      then (s\<lparr>ses_last_seen_at := now\<rparr>,
            db\<lparr>control_sessions := update_where (\<lambda>x. ses_id x = ses_id s) (\<lambda>x. x\<lparr>ses_last_seen_at := now\<rparr>) (control_sessions db)\<rparr>)
      else (s, db))"

text \<open>The end of \<open>resolve\<close>: a confirmed session is cached and touched.\<close>

definition accept_session ::
  "bool \<Rightarrow> datetime \<Rightarrow> control_session \<Rightarrow> cache_op list \<Rightarrow> database
     \<Rightarrow> (session_error + control_session option) \<times> database \<times> cache_op list" where
  "accept_session touch now s ops db =
     (case touch_session touch now s db of (s', db') \<Rightarrow>
        (Inr (Some s'), db', ops @ [Cache_Set (session_key (ses_token_hash s)) (uuid_str (ses_id s)) (remaining_seconds now s)]))"

text \<open>\<open>t\<close> is the clock before and during the verification, \<open>t'\<close> after it; \<open>meanwhile\<close> is what other requests
  commit while the upstream service is asked.\<close>

definition resolve_session ::
  "session_env \<Rightarrow> settings \<Rightarrow> datetime \<Rightarrow> datetime \<Rightarrow> (database \<Rightarrow> database) \<Rightarrow> bool \<Rightarrow> bool \<Rightarrow> bool \<Rightarrow> ustr option \<Rightarrow> database
     \<Rightarrow> (session_error + control_session option) \<times> database \<times> cache_op list" where
  "resolve_session se cfg t t' meanwhile touch verify_upstream force raw_token db =
     (if \<not> truthy raw_token then (Inr None, db, [])
      else
        let raw = or_empty raw_token;
            token_hash = token_digest (se_hmac se) CONTROL_SESSION_DIGEST_PURPOSE raw;
            drop_key = Cache_Delete (session_key token_hash)
        in
     (case find_session se token_hash db of (found, ops) \<Rightarrow>
     (case found of
        None \<Rightarrow> (Inr None, db, ops @ [drop_key])
      | Some s \<Rightarrow>
          if ses_revoked_at s \<noteq> None \<or> ses_expires_at s \<le> t then (Inr None, db, ops @ [drop_key])
          else
     (case se_unseal se raw of
        None \<Rightarrow> (Inr None, db, ops @ [drop_key])
      | Some (sealed_id, access_token) \<Rightarrow>
          if sealed_id \<noteq> ses_id s then (Inr None, db, ops @ [drop_key])
          else if \<not> verify_upstream then accept_session touch t s ops db
          else
     (case verify_upstream_identity se cfg t force s access_token (meanwhile db) of
        (Inl e, db1, ops1) \<Rightarrow> (Inl e, db1, ops @ ops1)
      | (Inr False, db1, ops1) \<Rightarrow> (Inr None, db1, ops @ ops1)
      | (Inr True, db1, ops1) \<Rightarrow>
     (case session_at (ses_id s) db1 of
        None \<Rightarrow> (Inl Session_Row_Missing, db1, ops @ ops1)
      | Some row \<Rightarrow>
          let s' = s\<lparr>ses_revoked_at := ses_revoked_at row, ses_expires_at := ses_expires_at row\<rparr> in
          if ses_revoked_at s' \<noteq> None \<or> ses_expires_at s' \<le> t' then (Inr None, db1, ops @ ops1 @ [drop_key])
          else accept_session touch t' s' (ops @ ops1) db1))))))"

section \<open>Logout and request guards\<close>

definition valid_csrf :: "session_env \<Rightarrow> control_session \<Rightarrow> ustr \<Rightarrow> ustr \<Rightarrow> session_error + bool" where
  "valid_csrf se s cookie_token header_token =
     (case compare_digest cookie_token header_token of
        None \<Rightarrow> Inl Session_Raised
      | Some False \<Rightarrow> Inr False
      | Some True \<Rightarrow> Inr (token_digest (se_hmac se) ''csrf'' header_token = ses_csrf_token_hash s))"

definition revoke_session ::
  "datetime \<Rightarrow> request_metadata \<Rightarrow> control_session \<Rightarrow> database \<Rightarrow> database \<times> cache_op list" where
  "revoke_session now metadata s db =
     (let db1 = (if ses_revoked_at s = None
            then db\<lparr>control_sessions := update_where (\<lambda>x. ses_id x = ses_id s) (\<lambda>x. x\<lparr>ses_revoked_at := Some now\<rparr>) (control_sessions db)\<rparr>
            else db)
      in (add_audit (session_audit now metadata ''session.logout'' s) db1, invalidate_revoked_session s))"

datatype http_error = Http nat string | Http_Raised session_error

text \<open>\<open>_resolve_session\<close>: upstream failures become responses, any other error reaches the framework.\<close>

fun session_http_error :: "session_error \<Rightarrow> http_error" where
  "session_http_error (Session_Upstream Upstream_Unavailable) = Http 503 ''sub2api_auth_unavailable''"
| "session_http_error (Session_Upstream Upstream_Protocol_Error) = Http 502 ''sub2api_auth_contract_error''"
| "session_http_error e = Http_Raised e"

text \<open>A request as the guards see it: the error of the origin check \<open>validate_origin\<close>, if any, the cookie and the two
  tokens.\<close>

record guarded_request =
  gr_origin_error :: "string option"
  gr_cookie :: "ustr option"
  gr_csrf_cookie :: "ustr option"
  gr_csrf_header :: "ustr option"

definition require_session ::
  "session_env \<Rightarrow> settings \<Rightarrow> datetime \<Rightarrow> datetime \<Rightarrow> (database \<Rightarrow> database) \<Rightarrow> guarded_request \<Rightarrow> database
     \<Rightarrow> (http_error + control_session) \<times> database \<times> cache_op list" where
  "require_session se cfg t t' meanwhile rq db =
     (case resolve_session se cfg t t' meanwhile True True False (gr_cookie rq) db of
        (Inl e, db', ops) \<Rightarrow> (Inl (session_http_error e), db', ops)
      | (Inr None, db', ops) \<Rightarrow> (Inl (Http 401 ''control_session_required''), db', ops)
      | (Inr (Some s), db', ops) \<Rightarrow> (Inr s, db', ops))"

definition check_csrf :: "session_env \<Rightarrow> control_session \<Rightarrow> guarded_request \<Rightarrow> http_error option" where
  "check_csrf se s rq =
     (if \<not> truthy (gr_csrf_cookie rq) \<or> \<not> truthy (gr_csrf_header rq) then Some (Http 403 ''csrf_validation_failed'')
      else case valid_csrf se s (or_empty (gr_csrf_cookie rq)) (or_empty (gr_csrf_header rq)) of
        Inl e \<Rightarrow> Some (Http_Raised e)
      | Inr ok \<Rightarrow> if ok then None else Some (Http 403 ''csrf_validation_failed''))"

text \<open>The first read of the cache is the only one of a resolution without verification.\<close>

definition later_reads :: "session_env \<Rightarrow> session_env" where
  "later_reads se = se\<lparr>se_cache := (\<lambda>n. se_cache se (Suc n))\<rparr>"

definition require_mutating_session ::
  "session_env \<Rightarrow> settings \<Rightarrow> datetime \<Rightarrow> datetime \<Rightarrow> (database \<Rightarrow> database) \<Rightarrow> guarded_request \<Rightarrow> database
     \<Rightarrow> (http_error + control_session) \<times> database \<times> cache_op list" where
  "require_mutating_session se cfg t t' meanwhile rq db =
     (case gr_origin_error rq of
        Some detail \<Rightarrow> (Inl (Http 403 detail), db, [])
      | None \<Rightarrow>
     (case resolve_session se cfg t t' id False False False (gr_cookie rq) db of
        (Inl e, db1, ops) \<Rightarrow> (Inl (session_http_error e), db1, ops)
      | (Inr None, db1, ops) \<Rightarrow> (Inl (Http 401 ''control_session_required''), db1, ops)
      | (Inr (Some s), db1, ops) \<Rightarrow>
     (case check_csrf se s rq of
        Some e \<Rightarrow> (Inl e, db1, ops)
      | None \<Rightarrow>
     (case resolve_session (later_reads se) cfg t t' meanwhile True True True (gr_cookie rq) db1 of
        (Inl e, db2, ops2) \<Rightarrow> (Inl (session_http_error e), db2, ops @ ops2)
      | (Inr None, db2, ops2) \<Rightarrow> (Inl (Http 401 ''control_session_required''), db2, ops @ ops2)
      | (Inr (Some s'), db2, ops2) \<Rightarrow>
          if ses_id s' \<noteq> ses_id s then (Inl (Http 401 ''control_session_required''), db2, ops @ ops2)
          else (Inr s', db2, ops @ ops2)))))"

definition require_recent_mutating_session ::
  "session_env \<Rightarrow> settings \<Rightarrow> datetime \<Rightarrow> datetime \<Rightarrow> (database \<Rightarrow> database) \<Rightarrow> guarded_request \<Rightarrow> database
     \<Rightarrow> (http_error + control_session) \<times> database \<times> cache_op list" where
  "require_recent_mutating_session se cfg t t' meanwhile rq db =
     (case require_mutating_session se cfg t t' meanwhile rq db of
        (Inl e, db', ops) \<Rightarrow> (Inl e, db', ops)
      | (Inr s, db', ops) \<Rightarrow>
          if t' \<ge> ses_issued_at s + seconds (int (recent_auth_max_age_seconds cfg))
          then (Inl (Http 401 ''reauth_required''), db', ops)
          else (Inr s, db', ops))"

definition require_logout_session ::
  "session_env \<Rightarrow> settings \<Rightarrow> datetime \<Rightarrow> guarded_request \<Rightarrow> database
     \<Rightarrow> (http_error + control_session) \<times> database \<times> cache_op list" where
  "require_logout_session se cfg t rq db =
     (case gr_origin_error rq of
        Some detail \<Rightarrow> (Inl (Http 403 detail), db, [])
      | None \<Rightarrow>
     (case resolve_session se cfg t t id True False False (gr_cookie rq) db of
        (Inl e, db1, ops) \<Rightarrow> (Inl (session_http_error e), db1, ops)
      | (Inr None, db1, ops) \<Rightarrow> (Inl (Http 401 ''control_session_required''), db1, ops)
      | (Inr (Some s), db1, ops) \<Rightarrow>
          (case check_csrf se s rq of Some e \<Rightarrow> (Inl e, db1, ops) | None \<Rightarrow> (Inr s, db1, ops))))"


section \<open>What a resolved session guarantees\<close>

definition sessions_ok :: "database \<Rightarrow> bool" where
  "sessions_ok db \<longleftrightarrow> distinct (map ses_id (control_sessions db)) \<and> distinct (map ses_token_hash (control_sessions db))"

definition live_session :: "datetime \<Rightarrow> control_session \<Rightarrow> bool" where
  "live_session t s \<longleftrightarrow> ses_revoked_at s = None \<and> t < ses_expires_at s"

definition upstream_confirms :: "session_env \<Rightarrow> control_session \<Rightarrow> ustr \<Rightarrow> bool" where
  "upstream_confirms se s access_token \<longleftrightarrow>
     (case upstream_identity se s access_token of
        Inr user \<Rightarrow> su_user_id user = ses_sub2api_user_id s
          \<and> or_empty (su_token_version user) = or_empty (ses_token_version s)
      | Inl _ \<Rightarrow> False)"

definition upstream_rejects :: "session_env \<Rightarrow> control_session \<Rightarrow> ustr \<Rightarrow> bool" where
  "upstream_rejects se s access_token \<longleftrightarrow>
     (case upstream_identity se s access_token of
        Inr user \<Rightarrow> su_user_id user \<noteq> ses_sub2api_user_id s
      | Inl e \<Rightarrow> e \<in> {Disabled_User, Revoked_Token, Invalid_Token})"

text \<open>The token belongs to the session: its digest is stored and the identifier sealed in it is the row's.\<close>

definition token_of :: "session_env \<Rightarrow> ustr \<Rightarrow> control_session \<Rightarrow> ustr \<Rightarrow> bool" where
  "token_of se raw s access_token \<longleftrightarrow>
     raw \<noteq> [] \<and> ses_token_hash s = token_digest (se_hmac se) CONTROL_SESSION_DIGEST_PURPOSE raw
   \<and> se_unseal se raw = Some (ses_id s, access_token)"

lemma compare_digest_eq: "compare_digest a b = Some v \<Longrightarrow> v = (a = b)"
  by (auto simp: compare_digest_def split: if_splits)

lemma session_at_same:
  assumes "s \<in> set (control_sessions db)" "distinct (map ses_id (control_sessions db))"
  shows "session_at (ses_id s) db = Some s"
  unfolding session_at_def by (rule scalar_unique [where key = ses_id]) (use assms in auto)

lemma find_session_found:
  assumes "find_session se h db = (Some s, ops)"
  shows "s \<in> set (control_sessions db) \<and> ses_token_hash s = h"
proof -
  consider "scalar (\<lambda>x. ses_token_hash x = h) (control_sessions db) = Some s"
    | i where "scalar (\<lambda>x. ses_id x = i) (control_sessions db) = Some s" "ses_token_hash s = h"
    using assms by (auto simp: find_session_def session_at_def Let_def split: option.splits if_splits)
  then show ?thesis by cases (auto dest: scalar_SomeD)
qed

lemma find_session_unique:
  assumes "sessions_ok db" "s \<in> set (control_sessions db)"
  shows "fst (find_session se (ses_token_hash s) db) = Some s"
proof -
  have "scalar (\<lambda>x. ses_token_hash x = ses_token_hash s) (control_sessions db) = Some s"
    by (rule scalar_unique [where key = ses_token_hash]) (use assms in \<open>auto simp: sessions_ok_def\<close>)
  moreover have "x = s" if "session_at i db = Some x" "ses_token_hash x = ses_token_hash s" for i x
  proof -
    have "x \<in> set (control_sessions db)" using that(1) by (auto simp: session_at_def dest: scalar_SomeD)
    then show ?thesis using that(2) assms by (auto simp: sessions_ok_def distinct_map inj_on_def)
  qed
  ultimately show ?thesis
    by (auto simp: find_session_def Let_def split: option.splits)
qed

lemma verify_confirmed:
  assumes "verify_upstream_identity se cfg now force s tok db = (Inr True, db1, ops)"
  shows "db1 = db \<and> (upstream_confirms se s tok \<or> \<not> force \<and> recent_marker se cfg now s = Some True)"
  using assms
  by (auto simp: verify_upstream_identity_def upstream_confirms_def revoke_for_upstream_rejection_def Let_def
      dest: compare_digest_eq
      split: option.splits sum.splits bool.splits upstream_error.splits if_splits)

lemma accept_session_core:
  assumes "accept_session touch now s ops0 db = (Inr (Some s'), db', ops)"
  shows "s' = s \<or> s' = s\<lparr>ses_last_seen_at := now\<rparr>"
  using assms by (auto simp: accept_session_def touch_session_def split: if_splits)

text \<open>Every resolved session: its stored row is live and its token is genuine.\<close>

lemma resolve_verified:
  assumes "resolve_session se cfg t t' meanwhile touch True force raw_token db = (Inr (Some s'), db', ops)"
  obtains s raw tok row where "raw_token = Some raw" "s \<in> set (control_sessions db)" "live_session t s"
    "token_of se raw s tok" "upstream_confirms se s tok \<or> \<not> force \<and> recent_marker se cfg t s = Some True"
    "session_at (ses_id s) (meanwhile db) = Some row" "live_session t' row"
    "s' = s\<lparr>ses_revoked_at := ses_revoked_at row, ses_expires_at := ses_expires_at row, ses_last_seen_at := ses_last_seen_at s'\<rparr>"
proof -
  obtain raw where raw: "raw_token = Some raw" "raw \<noteq> []"
    using assms by (cases raw_token) (auto simp: resolve_session_def truthy_def split: if_splits)
  let ?h = "token_digest (se_hmac se) CONTROL_SESSION_DIGEST_PURPOSE raw"
  obtain s ops0 where f: "find_session se ?h db = (Some s, ops0)"
    using assms raw by (auto simp: resolve_session_def Let_def truthy_def or_empty_def split: prod.splits option.splits)
  have live: "live_session t s"
    using assms raw f by (auto simp: resolve_session_def Let_def truthy_def or_empty_def live_session_def split: if_splits)
  obtain tok where tok: "se_unseal se raw = Some (ses_id s, tok)"
    using assms raw f live
    by (auto simp: resolve_session_def Let_def truthy_def or_empty_def live_session_def split: option.splits if_splits)
  obtain db1 ops1 where v: "verify_upstream_identity se cfg t force s tok (meanwhile db) = (Inr True, db1, ops1)"
    using assms raw f live tok
    by (auto simp: resolve_session_def Let_def truthy_def or_empty_def live_session_def
        split: sum.splits bool.splits prod.splits)
  have db1: "db1 = meanwhile db" using verify_confirmed [OF v] by simp
  obtain row where row: "session_at (ses_id s) (meanwhile db) = Some row"
    using assms raw f live tok v db1
    by (auto simp: resolve_session_def Let_def truthy_def or_empty_def live_session_def split: option.splits)
  note run = assms raw f live tok v db1 row
  have "live_session t' row"
    using run by (auto simp: resolve_session_def Let_def truthy_def or_empty_def live_session_def split: if_splits)
  moreover have "accept_session touch t' (s\<lparr>ses_revoked_at := ses_revoked_at row, ses_expires_at := ses_expires_at row\<rparr>)
      (ops0 @ ops1) (meanwhile db) = (Inr (Some s'), db', ops)"
    using run by (auto simp: resolve_session_def Let_def truthy_def or_empty_def live_session_def split: if_splits)
  note accept_session_core [OF this]
  moreover have "token_of se raw s tok"
    using raw(2) tok find_session_found [OF f] by (simp add: token_of_def)
  ultimately show thesis
    using that [OF raw(1) _ live _ _ row] find_session_found [OF f] verify_confirmed [OF v] by auto
qed

lemma resolve_unverified:
  assumes "resolve_session se cfg t t' meanwhile touch False force raw_token db = (Inr (Some s'), db', ops)"
  obtains s raw tok where "raw_token = Some raw" "s \<in> set (control_sessions db)" "live_session t s" "token_of se raw s tok"
    "accept_session touch t s (snd (find_session se (ses_token_hash s) db)) db = (Inr (Some s'), db', ops)"
proof -
  obtain raw where raw: "raw_token = Some raw" "raw \<noteq> []"
    using assms by (cases raw_token) (auto simp: resolve_session_def truthy_def split: if_splits)
  let ?h = "token_digest (se_hmac se) CONTROL_SESSION_DIGEST_PURPOSE raw"
  obtain s ops0 where f: "find_session se ?h db = (Some s, ops0)"
    using assms raw by (auto simp: resolve_session_def Let_def truthy_def or_empty_def split: prod.splits option.splits)
  have live: "live_session t s"
    using assms raw f by (auto simp: resolve_session_def Let_def truthy_def or_empty_def live_session_def split: if_splits)
  obtain tok where tok: "se_unseal se raw = Some (ses_id s, tok)"
    using assms raw f live
    by (auto simp: resolve_session_def Let_def truthy_def or_empty_def live_session_def split: option.splits if_splits)
  have "accept_session touch t s ops0 db = (Inr (Some s'), db', ops)"
    using assms raw f live tok
    by (auto simp: resolve_session_def Let_def truthy_def or_empty_def live_session_def)
  then show thesis
    using that [OF raw(1) _ live, of tok] find_session_found [OF f] f raw(2) tok by (auto simp: token_of_def)
qed

lemma later_reads_simps [simp]:
  "se_hmac (later_reads se) = se_hmac se" "se_unseal (later_reads se) = se_unseal se"
  "upstream_confirms (later_reads se) = upstream_confirms se" "token_of (later_reads se) = token_of se"
  by (auto simp: later_reads_def upstream_confirms_def upstream_identity_def token_of_def fun_eq_iff)

text \<open>C7: A state changing request passes its guard only when the origin was accepted, the CSRF header equals the
  CSRF cookie and has the digest stored with the session, the cookie is the genuine token of that session, the
  upstream service confirmed its user in this very request (no cached marker counts), and the stored row is still
  neither revoked nor expired after the upstream answer, whatever other requests committed in between.\<close>

theorem mutating_request_authorised:
  assumes run: "require_mutating_session se cfg t t' meanwhile rq db = (Inr s', db', ops)" and ok: "sessions_ok db"
  shows "gr_origin_error rq = None
    \<and> (\<exists>s raw tok csrf row. gr_cookie rq = Some raw \<and> s \<in> set (control_sessions db) \<and> token_of se raw s tok
         \<and> gr_csrf_cookie rq = Some csrf \<and> gr_csrf_header rq = Some csrf
         \<and> ses_csrf_token_hash s = token_digest (se_hmac se) ''csrf'' csrf
         \<and> upstream_confirms se s tok
         \<and> session_at (ses_id s) (meanwhile db) = Some row \<and> live_session t' row
         \<and> ses_id s' = ses_id s \<and> ses_sub2api_user_id s' = ses_sub2api_user_id s \<and> ses_issued_at s' = ses_issued_at s)"
proof -
  have origin: "gr_origin_error rq = None" using run by (auto simp: require_mutating_session_def split: option.splits)
  obtain s0 db1 ops1 where first: "resolve_session se cfg t t' id False False False (gr_cookie rq) db = (Inr (Some s0), db1, ops1)"
    using run origin by (auto simp: require_mutating_session_def split: prod.splits sum.splits option.splits)
  obtain s1 raw1 tok1 where A: "gr_cookie rq = Some raw1" "s1 \<in> set (control_sessions db)" "token_of se raw1 s1 tok1"
    "accept_session False t s1 (snd (find_session se (ses_token_hash s1) db)) db = (Inr (Some s0), db1, ops1)"
    using resolve_unverified [OF first] by metis
  have [simp]: "s0 = s1" "db1 = db" using A(4) by (auto simp: accept_session_def touch_session_def)
  have csrf: "check_csrf se s1 rq = None"
    using run origin first by (auto simp: require_mutating_session_def split: option.splits)
  obtain db2 ops2 where second: "resolve_session (later_reads se) cfg t t' meanwhile True True True (gr_cookie rq) db
      = (Inr (Some s'), db2, ops2)" and same: "ses_id s' = ses_id s1"
    using run origin first csrf
    by (auto simp: require_mutating_session_def split: prod.splits sum.splits option.splits if_splits)
  obtain s raw tok row where B: "gr_cookie rq = Some raw" "s \<in> set (control_sessions db)" "token_of (later_reads se) raw s tok"
    "upstream_confirms (later_reads se) s tok" "session_at (ses_id s) (meanwhile db) = Some row" "live_session t' row"
    "s' = s\<lparr>ses_revoked_at := ses_revoked_at row, ses_expires_at := ses_expires_at row, ses_last_seen_at := ses_last_seen_at s'\<rparr>"
    by (rule resolve_verified [OF second]) auto
  have id: "ses_id s' = ses_id s" "ses_sub2api_user_id s' = ses_sub2api_user_id s" "ses_issued_at s' = ses_issued_at s"
    by (subst B(7), simp)+
  have "s = s1"
    using ok A(2) B(2) same id(1) by (auto simp: sessions_ok_def distinct_map inj_on_def)
  moreover obtain c where "gr_csrf_cookie rq = Some c" "gr_csrf_header rq = Some c"
    "ses_csrf_token_hash s1 = token_digest (se_hmac se) ''csrf'' c"
    using csrf by (auto simp: check_csrf_def valid_csrf_def truthy_def or_empty_def
        split: if_splits option.splits sum.splits bool.splits dest: compare_digest_eq)
  ultimately show ?thesis using origin A B id by auto
qed

section \<open>Rejection by the upstream service\<close>

lemma verify_rejected:
  assumes "upstream_rejects se s tok" "force \<or> recent_marker se cfg now s = Some False"
  obtains reason where "verify_upstream_identity se cfg now force s tok db =
    (Inr False, fst (revoke_for_upstream_rejection now s reason db), invalidate_revoked_session s)"
proof -
  have m: "(if force then Some False else recent_marker se cfg now s) = Some False" using assms(2) by auto
  have rejected: "(case revoke_for_upstream_rejection now s reason db of (db1, ops) \<Rightarrow> (Inr False, db1, ops)) =
      (Inr False, fst (revoke_for_upstream_rejection now s reason db), invalidate_revoked_session s)" for reason
    by (simp add: revoke_for_upstream_rejection_def Let_def)
  consider e where "upstream_identity se s tok = Inl e" "e \<in> {Disabled_User, Revoked_Token, Invalid_Token}"
    | user where "upstream_identity se s tok = Inr user" "su_user_id user \<noteq> ses_sub2api_user_id s"
    using assms(1) by (auto simp: upstream_rejects_def split: sum.splits)
  then have "\<exists>reason. verify_upstream_identity se cfg now force s tok db =
    (Inr False, fst (revoke_for_upstream_rejection now s reason db), invalidate_revoked_session s)"
    unfolding verify_upstream_identity_def Let_def m rejected by cases auto
  then show thesis using that by blast
qed

lemma revoke_for_upstream_rejection_sessions [simp]:
  "control_sessions (fst (revoke_for_upstream_rejection now s reason db)) =
     update_where (\<lambda>x. ses_id x = ses_id s \<and> ses_revoked_at x = None) (\<lambda>x. x\<lparr>ses_revoked_at := Some now\<rparr>) (control_sessions db)"
  by (simp add: revoke_for_upstream_rejection_def Let_def add_audit_def)

text \<open>A token whose rows are all revoked is refused whatever the cache and the upstream service say.\<close>

lemma resolve_revoked:
  assumes "\<forall>x \<in> set (control_sessions db). ses_token_hash x = token_digest (se_hmac se) CONTROL_SESSION_DIGEST_PURPOSE raw
      \<longrightarrow> ses_revoked_at x \<noteq> None"
  shows "fst (resolve_session se cfg t t' meanwhile touch verify force (Some raw) db) = Inr None"
proof (cases "raw = []")
  case False
  let ?h = "token_digest (se_hmac se) CONTROL_SESSION_DIGEST_PURPOSE raw"
  show ?thesis
  proof (cases "find_session se ?h db")
    case (Pair found ops)
    then have "found = None \<or> (\<exists>s. found = Some s \<and> ses_revoked_at s \<noteq> None)"
      using assms find_session_found by (cases found) fastforce+
    then show ?thesis using False Pair by (auto simp: resolve_session_def truthy_def or_empty_def Let_def)
  qed
qed (simp add: resolve_session_def truthy_def)

text \<open>C20: When the upstream service rejects the identity behind a session (user inactive, token revoked or invalid,
  another user), the resolution of its token returns no session, the stored row is revoked, the revocation is
  published on the session's channel, and from then on every resolution of the token on that database returns no
  session: no value in the cache, no flag and no later upstream answer revives it.\<close>

theorem upstream_rejection_durable:
  assumes "sessions_ok db" "s \<in> set (control_sessions db)" "live_session t s" "token_of se raw s tok"
    and "upstream_rejects se s tok" "force \<or> recent_marker se cfg t s = Some False"
    and same: "\<forall>x \<in> set (control_sessions (meanwhile db)). ses_token_hash x = ses_token_hash s \<longrightarrow> ses_id x = ses_id s"
    and run: "resolve_session se cfg t t' meanwhile touch True force (Some raw) db = (r, db', ops)"
  shows "r = Inr None
    \<and> (\<forall>x \<in> set (control_sessions db'). ses_id x = ses_id s \<longrightarrow> ses_revoked_at x \<noteq> None)
    \<and> Cache_Publish (control_session_revocation_channel (ses_id s)) (uuid_str (ses_id s)) \<in> set ops
    \<and> (\<forall>se2 cfg2 t2 t2' meanwhile2 touch2 verify2 force2. se_hmac se2 = se_hmac se \<longrightarrow>
         fst (resolve_session se2 cfg2 t2 t2' meanwhile2 touch2 verify2 force2 (Some raw) db') = Inr None)"
proof -
  have f: "fst (find_session se (ses_token_hash s) db) = Some s"
    using find_session_unique [OF assms(1,2)] .
  obtain reason where v: "verify_upstream_identity se cfg t force s tok (meanwhile db) =
      (Inr False, fst (revoke_for_upstream_rejection t s reason (meanwhile db)), invalidate_revoked_session s)"
    by (rule verify_rejected [OF assms(5,6)])
  have out: "r = Inr None" "db' = fst (revoke_for_upstream_rejection t s reason (meanwhile db))"
    "set (invalidate_revoked_session s) \<subseteq> set ops"
    using run f v assms(3,4)
    by (auto simp: resolve_session_def truthy_def or_empty_def Let_def token_of_def live_session_def split: prod.splits)
  have revoked: "\<forall>x \<in> set (control_sessions db'). ses_id x = ses_id s \<longrightarrow> ses_revoked_at x \<noteq> None"
    by (auto simp: out in_set_update_where)
  have hash: "\<forall>x \<in> set (control_sessions db'). ses_token_hash x = ses_token_hash s \<longrightarrow> ses_id x = ses_id s"
    using same by (auto simp: out in_set_update_where)
  have "fst (resolve_session se2 cfg2 t2 t2' meanwhile2 touch2 verify2 force2 (Some raw) db') = Inr None"
    if "se_hmac se2 = se_hmac se" for se2 cfg2 t2 t2' meanwhile2 touch2 verify2 force2
    by (rule resolve_revoked) (use that revoked hash assms(4) in \<open>auto simp: token_of_def\<close>)
  then show ?thesis using out revoked by (auto simp: invalidate_revoked_session_def)
qed

section \<open>The marker and the exchange\<close>

lemma length_nat_str_le: "0 < k \<Longrightarrow> n < 10 ^ k \<Longrightarrow> length (nat_str n) \<le> k"
proof (induction k arbitrary: n)
  case (Suc k)
  show ?case
  proof (cases "n < 10")
    case False
    then have "0 < k" using Suc.prems(2) by (cases k) auto
    then show ?thesis using Suc.IH [of "n div 10"] Suc.prems(2) False by (simp add: nat_str.simps [of n] div_less_iff_less_mult mult.commute)
  qed (simp add: nat_str.simps [of n])
qed simp

lemma marker_parts:
  assumes "0 \<le> n"
  shows "three_parts (u ''v1.'' @ int_str n @ u ''.'' @ sig) = Some (u ''v1'', int_str n, sig)"
proof -
  have a: "46 \<notin> set (u ''v1'')" by (simp add: u_def)
  have b: "46 \<notin> set (int_str n)"
    using assms nat_str_digits by (fastforce simp: int_str_def)
  have "u ''v1.'' = u ''v1'' @ [46]" "u ''.'' = [46]" by (simp_all add: u_def)
  then show ?thesis using three_parts_found [OF a b] by simp
qed

text \<open>The marker that a verification writes counts until the recheck interval has passed, and not longer.\<close>

lemma marker_counts:
  assumes "\<And>x. length (se_hmac se x) = 64 \<and> hex_text (se_hmac se x)" "0 \<le> t0" "whole_seconds t0 < 10 ^ 18"
  shows "valid_upstream_marker se cfg t s (Some (upstream_marker se t0 s)) =
    Some (seconds (whole_seconds t0) \<le> t \<and> t < seconds (whole_seconds t0) + seconds (int (session_upstream_recheck_seconds cfg)))"
proof -
  have pos: "0 \<le> whole_seconds t0" using assms(2) by (simp add: whole_seconds_def pos_imp_zdiv_nonneg_iff)
  have digits: "list_all is_digit (int_str (whole_seconds t0))" "int_str (whole_seconds t0) \<noteq> []"
    using pos nat_str_digits by (auto simp: int_str_def list_all_iff is_digit_def)
  have short: "length (int_str (whole_seconds t0)) \<le> 4300"
  proof -
    have "nat (whole_seconds t0) < 10 ^ 18" using assms(3) pos by (simp add: nat_less_iff)
    from length_nat_str_le [OF _ this] show ?thesis using pos by (simp add: int_str_def)
  qed
  have val: "int_of_text (int_str (whole_seconds t0)) = whole_seconds t0"
    using pos by (simp add: int_str_def)
  have small: "\<not> float_limit \<le> whole_seconds t0" using assms(3) by (simp add: float_limit_def)
  show ?thesis
    using assms(1) pos digits short val small
    by (auto simp: valid_upstream_marker_def upstream_marker_def marker_parts upstream_marker_signature_def token_digest_def Let_def)
qed

definition sealing :: "session_env \<Rightarrow> bool" where
  "sealing se \<longleftrightarrow> (\<forall>i access_token token. access_token \<noteq> [] \<longrightarrow> text_ok access_token \<longrightarrow> se_seal se i access_token = Some token \<longrightarrow>
     token \<noteq> [] \<and> se_unseal se token = Some (i, access_token))"

text \<open>The protector of \<open>security.py\<close> keeps this contract.\<close>

lemma protector_sealing:
  assumes "se_seal se = (\<lambda>i t. case seal_credential cipher handle nonce i t of Inr token \<Rightarrow> Some token | Inl _ \<Rightarrow> None)"
    and "se_unseal se = unseal_credential cipher (length handle)"
    and "authenticated cipher" "byte_list handle" "byte_list nonce" "length nonce = 12"
  shows "sealing se"
  unfolding sealing_def
proof (intro allI impI)
  fix i access_token token
  assume t: "access_token \<noteq> []" "text_ok access_token" "se_seal se i access_token = Some token"
  then have run: "seal_credential cipher handle nonce i access_token = Inr token"
    using assms(1) by (auto split: sum.splits)
  then have "token \<noteq> []" by (auto simp: seal_credential_def Let_def split: option.splits if_splits)
  then show "token \<noteq> [] \<and> se_unseal se token = Some (i, access_token)"
    using seal_round_trip [OF run assms(3) t(1,2) assms(4-6)] assms(2) by simp
qed

lemma prune_sessions_rows:
  assumes "prune_sessions cfg now user db = Inr db1" "sessions_ok db"
  obtains P where "control_sessions db1 = delete_where P (control_sessions db)"
    "\<And>x. x \<in> set (control_sessions db) \<Longrightarrow> P x \<Longrightarrow> ses_sub2api_user_id x = user \<and> \<not> live_session now x"
    "count_where (\<lambda>x. ses_sub2api_user_id x = user) (control_sessions db1) < owner_max_session_records cfg"
proof (cases "count_where (\<lambda>s. ses_sub2api_user_id s = user) (control_sessions db) < owner_max_session_records cfg")
  case True
  then have "db1 = db" using assms(1) by (simp add: prune_sessions_def Let_def)
  then show thesis using True by (intro that [of "\<lambda>_. False"]) (auto simp: delete_where_def)
next
  case False
  let ?sel = "select_ordered (\<lambda>s. ses_sub2api_user_id s = user \<and> (ses_revoked_at s \<noteq> None \<or> ses_expires_at s \<le> now))
    (\<lambda>s. (ses_expires_at s, ses_id s))
    (count_where (\<lambda>s. ses_sub2api_user_id s = user) (control_sessions db) - owner_max_session_records cfg + 1) (control_sessions db)"
  let ?P = "\<lambda>s. ses_id s \<in> set (map ses_id ?sel)"
  have rows: "control_sessions db1 = delete_where ?P (control_sessions db)"
    and few: "count_where (\<lambda>x. ses_sub2api_user_id x = user) (control_sessions db1) < owner_max_session_records cfg"
    using assms(1) False by (auto simp: prune_sessions_def Let_def put_sessions_def split: if_splits)
  have "ses_sub2api_user_id x = user \<and> \<not> live_session now x" if x: "x \<in> set (control_sessions db)" and del: "?P x" for x
  proof -
    obtain y where y: "y \<in> set ?sel" "ses_id y = ses_id x" using del by auto
    then have "y \<in> set (control_sessions db)" "ses_sub2api_user_id y = user \<and> \<not> live_session now y"
      using set_select_ordered by (fastforce simp: live_session_def)+
    moreover have "y = x" using calculation y(2) x assms(2) by (auto simp: sessions_ok_def distinct_map inj_on_def)
    ultimately show ?thesis by simp
  qed
  then show thesis by (rule that [OF rows _ few])
qed

lemma create_session_Inr:
  assumes "create_session se cfg now sid csrf user md access_token db = (Inr (s, token, csrf'), db', ops)"
  obtains db1 where "prune_sessions cfg now (su_user_id user) db = Inr db1" "se_seal se sid access_token = Some token"
    "s = new_session se cfg now sid token csrf user md" "csrf' = csrf"
    "count_where (active_session (su_user_id user) now) (control_sessions db) < owner_max_active_sessions cfg"
    "\<forall>x \<in> set (control_sessions db1). ses_id x \<noteq> sid \<and> ses_token_hash x \<noteq> ses_token_hash s"
    "control_sessions db' = control_sessions db1 @ [s]"
    "ops = [Cache_Set (session_key (ses_token_hash s)) (uuid_str sid) (session_ttl_seconds cfg), cache_upstream_verification se cfg now s]"
proof -
  have few: "\<not> owner_max_active_sessions cfg \<le> count_where (active_session (su_user_id user) now) (control_sessions db)"
    using assms by (auto simp: create_session_def split: if_splits)
  obtain db1 where p: "prune_sessions cfg now (su_user_id user) db = Inr db1"
    using assms few by (cases "prune_sessions cfg now (su_user_id user) db") (simp_all add: create_session_def)
  obtain tok where tok: "se_seal se sid access_token = Some tok"
    using assms few p by (cases "se_seal se sid access_token") (simp_all add: create_session_def)
  note run = assms [unfolded create_session_def Let_def if_not_P [OF few] p tok sum.case option.case]
  have fresh: "\<not> (\<not> session_fits (new_session se cfg now sid tok csrf user md)
      \<or> exists_where (\<lambda>x. ses_id x = sid \<or> ses_token_hash x = ses_token_hash (new_session se cfg now sid tok csrf user md))
      (control_sessions db1))"
    using run by (auto split: if_splits)
  note run = run [unfolded if_not_P [OF fresh]]
  show thesis by (rule that [OF p]) (use run tok few fresh in \<open>auto simp: add_audit_def\<close>)
qed

lemma resolve_by_marker:
  assumes "sessions_ok db" "s \<in> set (control_sessions db)" "live_session t s" "token_of se raw s tok"
    and "recent_marker se cfg t s = Some True" "t \<le> t'" "live_session t' s"
  shows "\<exists>s' db' ops. resolve_session se cfg t t' id touch True False (Some raw) db = (Inr (Some s'), db', ops)
    \<and> (s' = s \<or> s' = s\<lparr>ses_last_seen_at := t'\<rparr>)"
proof -
  have f: "fst (find_session se (ses_token_hash s) db) = Some s"
    using find_session_unique [OF assms(1,2)] .
  have row: "session_at (ses_id s) db = Some s"
    using session_at_same [OF assms(2)] assms(1) by (simp add: sessions_ok_def)
  have v: "verify_upstream_identity se cfg t False s tok db = (Inr True, db, [])"
    using assms(5) by (simp add: verify_upstream_identity_def Let_def)
  show ?thesis
    using f row v assms(3,4,7)
    by (auto simp: resolve_session_def truthy_def or_empty_def Let_def token_of_def live_session_def
        accept_session_def touch_session_def split: prod.splits)
qed

text \<open>C22: A successful session exchange stores exactly one new live session of the user within both quotas, deletes
  only sessions of the same user that are revoked or expired, keeps identifiers and token digests unique, and the
  cookie it returns resolves: as long as the session and the marker it wrote to the cache have not expired, the
  token gives this session back without another question to the upstream service.\<close>

theorem session_exchange_resolves:
  assumes run: "create_session se cfg now sid csrf user md access_token db = (Inr (s, token, csrf'), db', ops)"
    and ok: "sessions_ok db" and seal: "sealing se" "access_token \<noteq> []" "text_ok access_token"
    and hmac: "\<forall>x. length (se_hmac se x) = 64 \<and> hex_text (se_hmac se x)"
    and time: "0 \<le> now" "whole_seconds now < 10 ^ 18" "now \<le> t" "t \<le> t'" "t' < ses_expires_at s"
      "t < seconds (whole_seconds now) + seconds (int (session_upstream_recheck_seconds cfg))"
  shows "sessions_ok db' \<and> s \<in> set (control_sessions db') \<and> live_session t' s
    \<and> count_where (active_session (su_user_id user) now) (control_sessions db') \<le> owner_max_active_sessions cfg
    \<and> count_where (\<lambda>x. ses_sub2api_user_id x = su_user_id user) (control_sessions db') \<le> owner_max_session_records cfg
    \<and> (\<forall>x \<in> set (control_sessions db). x \<in> set (control_sessions db')
         \<or> ses_sub2api_user_id x = su_user_id user \<and> \<not> live_session now x)
    \<and> (\<forall>se2 touch. se_hmac se2 = se_hmac se \<longrightarrow> se_unseal se2 = se_unseal se
         \<longrightarrow> se_cache se2 1 (upstream_marker_key sid) = Some (upstream_marker se now s)
         \<longrightarrow> (\<exists>s' db2 ops2. resolve_session se2 cfg t t' id touch True False (Some token) db' = (Inr (Some s'), db2, ops2)
               \<and> (s' = s \<or> s' = s\<lparr>ses_last_seen_at := t'\<rparr>)))"
proof -
  obtain db1 where C: "prune_sessions cfg now (su_user_id user) db = Inr db1" "se_seal se sid access_token = Some token"
    "s = new_session se cfg now sid token csrf user md"
    "count_where (active_session (su_user_id user) now) (control_sessions db) < owner_max_active_sessions cfg"
    "\<forall>x \<in> set (control_sessions db1). ses_id x \<noteq> sid \<and> ses_token_hash x \<noteq> ses_token_hash s"
    "control_sessions db' = control_sessions db1 @ [s]"
    by (rule create_session_Inr [OF run])
  obtain P where D: "control_sessions db1 = delete_where P (control_sessions db)"
    "\<And>x. x \<in> set (control_sessions db) \<Longrightarrow> P x \<Longrightarrow> ses_sub2api_user_id x = su_user_id user \<and> \<not> live_session now x"
    "count_where (\<lambda>x. ses_sub2api_user_id x = su_user_id user) (control_sessions db1) < owner_max_session_records cfg"
    by (rule prune_sessions_rows [OF C(1) ok]) blast
  have s: "ses_id s = sid" "ses_revoked_at s = None" "ses_sub2api_user_id s = su_user_id user"
    "ses_token_hash s = token_digest (se_hmac se) CONTROL_SESSION_DIGEST_PURPOSE token"
    using C(3) by (simp_all add: new_session_def)
  have ok': "sessions_ok db'"
    using ok C(5,6) s(1) by (auto simp: sessions_ok_def D(1) distinct_delete_where_key)
  have live: "live_session t' s" "live_session t s" using time s(2) by (simp_all add: live_session_def)
  have active: "count_where (active_session (su_user_id user) now) (control_sessions db') \<le> owner_max_active_sessions cfg"
    using C(4) count_where_delete_le [of "active_session (su_user_id user) now" P "control_sessions db"]
    by (auto simp: C(6) D(1))
  have keep: "\<forall>x \<in> set (control_sessions db). x \<in> set (control_sessions db')
      \<or> ses_sub2api_user_id x = su_user_id user \<and> \<not> live_session now x"
    using D(2) by (auto simp: C(6) D(1))
  have resolves: "\<exists>s' db2 ops2. resolve_session se2 cfg t t' id touch True False (Some token) db' = (Inr (Some s'), db2, ops2)
      \<and> (s' = s \<or> s' = s\<lparr>ses_last_seen_at := t'\<rparr>)"
    if "se_hmac se2 = se_hmac se" "se_unseal se2 = se_unseal se"
      "se_cache se2 1 (upstream_marker_key sid) = Some (upstream_marker se now s)" for se2 touch
  proof (rule resolve_by_marker [OF ok' _ live(2) _ _ time(4) live(1)])
    show "token_of se2 token s access_token"
      using seal C(2) s that(1,2) by (auto simp: token_of_def sealing_def)
    have "upstream_marker se now s = upstream_marker se2 now s"
      using that(1) by (simp add: upstream_marker_def upstream_marker_signature_def)
    moreover have "seconds (whole_seconds now) \<le> now" by (simp add: seconds_def whole_seconds_def)
    ultimately show "recent_marker se2 cfg t s = Some True"
      using marker_counts [of se2 now cfg t s] hmac time that(1,3) s(1) by (simp add: recent_marker_def marker_read_def)
  qed (simp add: C(6))
  show ?thesis using ok' live active keep resolves D(3) s(3) by (simp add: C(6))
qed

section \<open>Samples\<close>

definition sample_user :: sub2api_user where
  "sample_user = \<lparr>su_user_id = int_str 7, su_username = None, su_email = None, su_display_name = None, su_token_version = None\<rparr>"

definition sample_identity :: json where
  "sample_identity = JObj [(u ''code'', JInt 0), (u ''message'', JStr (u ''success'')),
     (u ''data'', JObj [(u ''id'', JInt 7), (u ''status'', JStr (u ''active''))])]"

text \<open>The keyed hash of the sample is constant: the laws that the properties use do not exclude it.\<close>

definition sample_session_env :: "(int \<times> json option) option \<Rightarrow> session_env" where
  "sample_session_env answer =
     \<lparr>se_hmac = (\<lambda>_. replicate 64 48), se_seal = (\<lambda>i t. if i = 5 \<and> t = [1] then Some [2] else None),
      se_unseal = (\<lambda>_. Some (5, [1])), se_uuid = (\<lambda>_. None), se_upstream = (\<lambda>_ _ _. answer), se_cache = (\<lambda>_ _. None)\<rparr>"

definition sample_session :: "session_env \<Rightarrow> control_session" where
  "sample_session se = new_session se default_settings 0 5 [2] [3] sample_user sample_metadata"

definition session_database :: "session_env \<Rightarrow> database" where
  "session_database se = empty_database\<lparr>control_sessions := [sample_session se]\<rparr>"

definition sample_guarded :: guarded_request where
  "sample_guarded = \<lparr>gr_origin_error = None, gr_cookie = Some [2], gr_csrf_cookie = Some [3], gr_csrf_header = Some [3]\<rparr>"

lemma sample_identity_verified: "verify_access_token (Some (200, Some sample_identity)) = Inr sample_user"
  by (simp add: verify_access_token_def parse_auth_me_def sample_identity_def response_error_code_def u_def dict_get_def
      user_is_enabled_def optional_string_def sample_user_def insert_commute)

lemma sample_session_simps [simp]:
  "ses_id (sample_session se) = 5" "ses_revoked_at (sample_session se) = None" "ses_last_seen_at (sample_session se) = 0"
  "ses_expires_at (sample_session se) = seconds (int (session_ttl_seconds default_settings))"
  "ses_sub2api_user_id (sample_session se) = su_user_id sample_user" "ses_token_version (sample_session se) = None"
  "ses_token_hash (sample_session se) = token_digest (se_hmac se) CONTROL_SESSION_DIGEST_PURPOSE [2]"
  "ses_csrf_token_hash (sample_session se) = token_digest (se_hmac se) ''csrf'' [3]"
  by (simp_all add: sample_session_def new_session_def sample_user_def)

lemma session_database_ok: "sessions_ok (session_database se)"
  by (simp add: sessions_ok_def session_database_def empty_database_def)

lemma sample_token: "token_of (sample_session_env answer) [2] (sample_session (sample_session_env answer)) [1]"
  by (simp add: token_of_def sample_session_env_def)

lemma sample_live: "t < seconds (int (session_ttl_seconds default_settings)) \<Longrightarrow> live_session t (sample_session se)"
  by (simp add: live_session_def)

lemmas session_run_simps = session_database_def empty_database_def sample_session_env_def find_session_def session_at_def
  truthy_def or_empty_def later_reads_def Let_def

lemma sample_guard_passes:
  "\<exists>s db' ops. require_mutating_session (sample_session_env (Some (200, Some sample_identity))) default_settings 1 2 id
     sample_guarded (session_database (sample_session_env (Some (200, Some sample_identity)))) = (Inr s, db', ops)"
  by (simp add: require_mutating_session_def resolve_session_def sample_guarded_def session_run_simps
      accept_session_def touch_session_def check_csrf_def valid_csrf_def compare_digest_def verify_upstream_identity_def
      upstream_identity_def sample_identity_verified seconds_def default_settings_def token_digest_def
      CONTROL_SESSION_DIGEST_PURPOSE_def sample_user_def)

theorem mutating_request_authorised_witness:
  "\<exists>s'. fst (require_mutating_session (sample_session_env (Some (200, Some sample_identity))) default_settings 1 2 id
       sample_guarded (session_database (sample_session_env (Some (200, Some sample_identity))))) = Inr s'
     \<and> ses_sub2api_user_id s' = int_str 7
     \<and> upstream_confirms (sample_session_env (Some (200, Some sample_identity)))
         (sample_session (sample_session_env (Some (200, Some sample_identity)))) [1]"
proof -
  let ?se = "sample_session_env (Some (200, Some sample_identity))"
  obtain s' db' ops where run: "require_mutating_session ?se default_settings 1 2 id sample_guarded (session_database ?se) = (Inr s', db', ops)"
    using sample_guard_passes by blast
  obtain s raw tok where "s \<in> set (control_sessions (session_database ?se))" "token_of ?se raw s tok"
    "upstream_confirms ?se s tok" "ses_sub2api_user_id s' = ses_sub2api_user_id s"
    using mutating_request_authorised [OF run session_database_ok] by blast
  moreover from this have "s = sample_session ?se" "tok = [1]"
    by (simp_all add: session_database_def token_of_def sample_session_env_def)
  ultimately show ?thesis using run by (simp add: sample_user_def)
qed

lemma sample_rejected:
  "upstream_rejects (sample_session_env (Some (401, None))) s tok"
  by (simp add: upstream_rejects_def upstream_identity_def sample_session_env_def verify_access_token_def response_error_code_def)

theorem upstream_rejection_durable_witness:
  "fst (resolve_session (sample_session_env (Some (401, None))) default_settings 1 2 id True True True (Some [2])
       (session_database (sample_session_env (Some (401, None))))) = Inr None
   \<and> fst (resolve_session (sample_session_env (Some (200, Some sample_identity))) default_settings 3 3 id True False False (Some [2])
       (fst (snd (resolve_session (sample_session_env (Some (401, None))) default_settings 1 2 id True True True (Some [2])
         (session_database (sample_session_env (Some (401, None)))))))) = Inr None"
proof -
  let ?se = "sample_session_env (Some (401, None))"
  let ?run = "resolve_session ?se default_settings 1 2 id True True True (Some [2]) (session_database ?se)"
  have "fst ?run = Inr None \<and> (\<forall>x \<in> set (control_sessions (fst (snd ?run))). ses_id x = ses_id (sample_session ?se) \<longrightarrow> ses_revoked_at x \<noteq> None)
    \<and> Cache_Publish (control_session_revocation_channel (ses_id (sample_session ?se))) (uuid_str (ses_id (sample_session ?se))) \<in> set (snd (snd ?run))
    \<and> (\<forall>se2 cfg2 t2 t2' meanwhile2 touch2 verify2 force2. se_hmac se2 = se_hmac ?se \<longrightarrow>
         fst (resolve_session se2 cfg2 t2 t2' meanwhile2 touch2 verify2 force2 (Some [2]) (fst (snd ?run))) = Inr None)"
    by (rule upstream_rejection_durable [OF session_database_ok _ sample_live sample_token sample_rejected])
      (simp_all add: session_database_def seconds_def default_settings_def)
  then show ?thesis by (simp add: sample_session_env_def)
qed

lemma sample_exchange:
  "\<exists>token db' ops. create_session (sample_session_env None) default_settings 0 5 [3] sample_user sample_metadata [1] empty_database
     = (Inr (sample_session (sample_session_env None), token, [3]), db', ops)"
  by (simp add: create_session_def prune_sessions_def sample_session_def empty_database_def default_settings_def Let_def
      sample_session_env_def new_session_def session_fits_def within_def token_digest_def sample_user_def sample_metadata_def
      int_str_def nat_str.simps seconds_def)

theorem session_exchange_resolves_witness:
  "\<exists>token db' ops s' db2 ops2. create_session (sample_session_env None) default_settings 0 5 [3] sample_user sample_metadata [1] empty_database
      = (Inr (sample_session (sample_session_env None), token, [3]), db', ops)
    \<and> resolve_session ((sample_session_env None)\<lparr>se_cache :=
          (\<lambda>_ _. Some (upstream_marker (sample_session_env None) 0 (sample_session (sample_session_env None))))\<rparr>)
        default_settings 1 2 id True True False (Some token) db' = (Inr (Some s'), db2, ops2)"
proof -
  let ?se = "sample_session_env None"
  obtain token db' ops where run: "create_session ?se default_settings 0 5 [3] sample_user sample_metadata [1] empty_database
     = (Inr (sample_session ?se, token, [3]), db', ops)"
    using sample_exchange by blast
  have hmac: "\<forall>x. length (se_hmac ?se x) = 64 \<and> hex_text (se_hmac ?se x)"
    by (simp add: sample_session_env_def hex_text_def u_def list_all_iff)
  have seal: "sealing ?se" by (auto simp: sealing_def sample_session_env_def)
  have empty: "sessions_ok empty_database" by (simp add: sessions_ok_def empty_database_def)
  have "\<forall>se2 touch. se_hmac se2 = se_hmac ?se \<longrightarrow> se_unseal se2 = se_unseal ?se
         \<longrightarrow> se_cache se2 1 (upstream_marker_key 5) = Some (upstream_marker ?se 0 (sample_session ?se))
         \<longrightarrow> (\<exists>s' db2 ops2. resolve_session se2 default_settings 1 2 id touch True False (Some token) db' = (Inr (Some s'), db2, ops2)
               \<and> (s' = sample_session ?se \<or> s' = (sample_session ?se)\<lparr>ses_last_seen_at := 2\<rparr>))"
    using session_exchange_resolves [OF run empty seal _ _ hmac, of 1 2]
    by (simp add: whole_seconds_def seconds_def default_settings_def text_ok_def surrogate_def)
  from this [THEN spec, of "?se\<lparr>se_cache := (\<lambda>_ _. Some (upstream_marker ?se 0 (sample_session ?se)))\<rparr>", THEN spec, of True]
  have "\<exists>s' db2 ops2. resolve_session (?se\<lparr>se_cache := (\<lambda>_ _. Some (upstream_marker ?se 0 (sample_session ?se)))\<rparr>)
        default_settings 1 2 id True True False (Some token) db' = (Inr (Some s'), db2, ops2)"
    by auto
  then show ?thesis using run by blast
qed

text \<open>A CSRF header with a character outside ASCII reaches the comparison as an error, not as a refusal.\<close>

lemma csrf_header_outside_ascii:
  assumes "gr_csrf_cookie rq = Some cookie" "cookie \<noteq> []" "gr_csrf_header rq = Some [233]"
  shows "check_csrf se s rq = Some (Http_Raised Session_Raised)"
  using assms by (simp add: check_csrf_def valid_csrf_def compare_digest_def truthy_def or_empty_def)

end
