(* ===== verification/Pairing.thy ===== *)
theory Pairing
  imports Sessions
begin

text \<open>
  Pairing of a device (\<open>services.PairingService\<close>): a device starts with a signed proof, the owner claims the
  code in the browser, the device polls with its secret and becomes a device of the owner.  The hashes, the
  signature check, the rendering of times and values and the configured origins are in the record \<open>pairing_env\<close>.
  Each operation is one transaction; what another transaction commits between the reading of a start and its
  writing is the argument \<open>race\<close>.  The widths of the columns are those of the request schema.
\<close>

section \<open>Environment and rows\<close>

record pairing_env =
  pv_hmac :: "ustr \<Rightarrow> ustr"
  pv_sha :: "ustr \<Rightarrow> bytes"
  pv_verify :: "bytes \<Rightarrow> bytes \<Rightarrow> bytes \<Rightarrow> bool"
  pv_iso :: "datetime \<Rightarrow> ustr"
  pv_fmt :: "datetime \<Rightarrow> ustr"
  pv_pystr :: "json \<Rightarrow> ustr"
  pv_allowed_origins :: "ustr list"
  pv_poll_path_prefix :: ustr

datatype pairing_error =
    Pairing_Not_Found
  | Pairing_Unauthorized
  | Pairing_Expired
  | Pairing_Conflict
  | Pairing_Proof_Rejected
  | Pairing_Capacity_Exceeded string
  | Pairing_Value_Error
  | Pairing_Integrity_Error
  | Pairing_Event_Error event_error

definition MAX_LIVE_PAIRINGS_GLOBAL :: nat where
  "MAX_LIVE_PAIRINGS_GLOBAL = 2048"

definition MAX_LIVE_PAIRINGS_PER_SOURCE :: nat where
  "MAX_LIVE_PAIRINGS_PER_SOURCE = 16"

definition MAX_RETAINED_PAIRINGS_GLOBAL :: nat where
  "MAX_RETAINED_PAIRINGS_GLOBAL = 10000"

definition MAX_RETAINED_PAIRINGS_PER_SOURCE :: nat where
  "MAX_RETAINED_PAIRINGS_PER_SOURCE = 100"

definition hexdigest :: "bytes \<Rightarrow> ustr" where
  "hexdigest bs = concat (map (hex_digits 2) bs)"

definition pairing_secret_commitment :: "pairing_env \<Rightarrow> ustr \<Rightarrow> ustr" where
  "pairing_secret_commitment pv v = hexdigest (pv_sha pv v)"

definition live_pairing :: "device_pairing \<Rightarrow> bool" where
  "live_pairing p \<longleftrightarrow> pair_status p \<in> {PAIRING_PENDING, PAIRING_CLAIMED}"

definition pairing_at :: "uuid \<Rightarrow> database \<Rightarrow> device_pairing option" where
  "pairing_at i db = scalar (\<lambda>p. pair_id p = i) (device_pairings db)"

definition put_pairing :: "device_pairing \<Rightarrow> database \<Rightarrow> database" where
  "put_pairing p db = db\<lparr>device_pairings := update_where (\<lambda>x. pair_id x = pair_id p) (\<lambda>_. p) (device_pairings db)\<rparr>"

definition pairing_audit ::
  "datetime \<Rightarrow> request_metadata \<Rightarrow> string \<Rightarrow> audit_outcome \<Rightarrow> device_pairing \<Rightarrow> dict \<Rightarrow> audit_event" where
  "pairing_audit now md action outcome p details =
     \<lparr>aud_actor_user_id = None, aud_actor_session_id = None, aud_actor_device_id = None, aud_action = action,
      aud_outcome = outcome, aud_resource_type = Some ''device_pairing'', aud_resource_id = Some (uuid_str (pair_id p)),
      aud_request_id = rm_request_id md, aud_source_ip = rm_source_ip md, aud_user_agent = rm_user_agent md,
      aud_details = details, aud_created_at = now\<rparr>"

definition expire_unactivated ::
  "datetime \<Rightarrow> request_metadata \<Rightarrow> device_pairing \<Rightarrow> database \<Rightarrow> pairing_error + database" where
  "expire_unactivated now md p db =
     (if pair_status p = PAIRING_COMPLETED then Inl Pairing_Conflict
      else Inr (add_audit (pairing_audit now md ''pairing.expire'' AUDIT_SUCCEEDED p
             [(u ''unactivated_device_created'', JBool False)])
           (put_pairing (p\<lparr>pair_status := PAIRING_EXPIRED\<rparr>) db)))"

definition capacity_pairing_error :: "capacity_error \<Rightarrow> pairing_error" where
  "capacity_pairing_error e =
     (case e of Owner_Capacity_Exceeded code \<Rightarrow> Pairing_Capacity_Exceeded code | _ \<Rightarrow> Pairing_Value_Error)"

section \<open>Start\<close>

record start_request =
  sr_pairing_id :: uuid
  sr_created_at :: datetime
  sr_has_timezone :: bool
  sr_audience :: ustr
  sr_public_key :: ustr
  sr_device_name :: ustr
  sr_device_metadata :: dict
  sr_workspace_roots :: "ustr list"
  sr_code_commitment :: ustr
  sr_poll_token_commitment :: ustr
  sr_refresh_credential_commitment :: ustr
  sr_signature :: ustr

definition verify_start_proof :: "pairing_env \<Rightarrow> start_fields \<Rightarrow> ustr \<Rightarrow> bool" where
  "verify_start_proof pv f signature =
     (case (base64url_decode signature, base64url_decode (sf_public_key f)) of
        (Some signature_bytes, Some public_key_bytes) \<Rightarrow>
          length signature_bytes = 64 \<and> length public_key_bytes = 32
          \<and> pv_verify pv public_key_bytes signature_bytes (pairing_start_proof (pv_sha pv) f)
      | _ \<Rightarrow> False)"

text \<open>The intent of a start after its proof was accepted.\<close>

record start_intent =
  si_pairing_id :: uuid
  si_created_at :: datetime
  si_audience :: ustr
  si_public_key :: ustr
  si_device_name :: ustr
  si_device_metadata :: dict
  si_workspace_roots :: "ustr list"
  si_code_hash :: ustr
  si_poll_token_hash :: ustr
  si_refresh_credential_hash :: ustr

definition signed_fields :: "pairing_env \<Rightarrow> start_request \<Rightarrow> ustr \<Rightarrow> ustr list \<Rightarrow> start_fields" where
  "signed_fields pv rq key roots =
     \<lparr>sf_pairing_id = sr_pairing_id rq, sf_created_at = pv_iso pv (seconds (whole_seconds (sr_created_at rq))),
      sf_audience = sr_audience rq, sf_public_key = key, sf_code_commitment = sr_code_commitment rq,
      sf_poll_token_commitment = sr_poll_token_commitment rq,
      sf_refresh_credential_commitment = sr_refresh_credential_commitment rq, sf_display_name = sr_device_name rq,
      sf_connector_version = metadata_text (pv_pystr pv) (sr_device_metadata rq) ''connector_version'',
      sf_codex_version = metadata_text (pv_pystr pv) (sr_device_metadata rq) ''codex_version'',
      sf_workspace_roots = roots\<rparr>"

definition expected_audiences :: "pairing_env \<Rightarrow> ustr list" where
  "expected_audiences pv = map (\<lambda>origin. origin @ pv_poll_path_prefix pv @ u ''/device-pairings/start'') (pv_allowed_origins pv)"

definition candidate_device :: "datetime \<Rightarrow> uuid \<Rightarrow> ustr \<Rightarrow> ustr \<Rightarrow> ustr \<Rightarrow> dict \<Rightarrow> ustr list \<Rightarrow> device" where
  "candidate_device now i owner name key metadata roots =
     \<lparr>dev_id = i, dev_owner_user_id = owner, dev_name = name, dev_public_key = key, dev_refresh_credential_hash = None,
      dev_credential_version = 0, dev_credential_scheme = 1, dev_status = ACTIVE, dev_device_metadata = metadata,
      dev_workspace_roots = roots, dev_model_catalog = [], dev_model_catalog_updated_at = None, dev_active_epoch = None,
      dev_active_connection_nonce = None, dev_last_device_sequence = 0, dev_last_server_sequence = 0,
      dev_last_server_acked_sequence = 0, dev_last_event_sequence = 0, dev_created_at = now, dev_updated_at = now,
      dev_last_seen_at = None, dev_revoked_at = None\<rparr>"

text \<open>The checks before the first query.\<close>

definition accept_start :: "pairing_env \<Rightarrow> datetime \<Rightarrow> start_request \<Rightarrow> pairing_error + start_intent" where
  "accept_start pv now rq =
     (case canonicalize_ed25519_public_key (sr_public_key rq) of
        None \<Rightarrow> Inl Pairing_Value_Error
      | Some key \<Rightarrow>
     (case canonicalize_workspace_roots (sr_workspace_roots rq) of
        Inl _ \<Rightarrow> Inl Pairing_Value_Error
      | Inr roots \<Rightarrow>
          if \<not> sr_has_timezone rq then Inl Pairing_Proof_Rejected
          else if sr_audience rq \<notin> set (expected_audiences pv) then Inl Pairing_Proof_Rejected
          else if \<not> verify_start_proof pv (signed_fields pv rq key roots) (sr_signature rq) then Inl Pairing_Proof_Rejected
          else
     (case ensure_device_projection_fits (pv_fmt pv) (pv_pystr pv) (candidate_device now (sr_pairing_id rq) (u ''pairing-candidate'')
          (sr_device_name rq) key (sr_device_metadata rq) roots) of
        Some e \<Rightarrow> Inl (capacity_pairing_error e)
      | None \<Rightarrow>
          Inr \<lparr>si_pairing_id = sr_pairing_id rq, si_created_at = seconds (whole_seconds (sr_created_at rq)),
            si_audience = sr_audience rq, si_public_key = key, si_device_name = sr_device_name rq,
            si_device_metadata = sr_device_metadata rq, si_workspace_roots = roots,
            si_code_hash = token_digest (pv_hmac pv) ''pairing-code-v2'' (sr_code_commitment rq),
            si_poll_token_hash = token_digest (pv_hmac pv) ''pairing-poll-v2'' (sr_poll_token_commitment rq),
            si_refresh_credential_hash = token_digest (pv_hmac pv) ''device-refresh-v2'' (sr_refresh_credential_commitment rq)\<rparr>)))"

definition same_start_intent :: "device_pairing \<Rightarrow> start_intent \<Rightarrow> bool" where
  "same_start_intent p si \<longleftrightarrow>
     pair_protocol_version p = 2 \<and> pair_proof_created_at p = Some (si_created_at si) \<and> pair_audience p = Some (si_audience si)
   \<and> pair_public_key p = si_public_key si \<and> pair_device_name p = si_device_name si
   \<and> pair_device_metadata p = si_device_metadata si \<and> pair_workspace_roots p = si_workspace_roots si
   \<and> pair_code_hash p = si_code_hash si \<and> pair_poll_token_hash p = si_poll_token_hash si
   \<and> or_empty (pair_refresh_credential_hash p) = si_refresh_credential_hash si"

definition new_pairing :: "settings \<Rightarrow> datetime \<Rightarrow> request_metadata \<Rightarrow> start_intent \<Rightarrow> device_pairing" where
  "new_pairing cfg now md si =
     \<lparr>pair_id = si_pairing_id si, pair_code_hash = si_code_hash si, pair_poll_token_hash = si_poll_token_hash si,
      pair_refresh_credential_hash = Some (si_refresh_credential_hash si), pair_protocol_version = 2,
      pair_proof_created_at = Some (si_created_at si), pair_audience = Some (si_audience si),
      pair_public_key = si_public_key si, pair_device_name = si_device_name si,
      pair_device_metadata = si_device_metadata si, pair_workspace_roots = si_workspace_roots si,
      pair_status = PAIRING_PENDING, pair_claimed_by_user_id = None, pair_claimed_by_session_id = None,
      pair_device_id = None, pair_created_at = now, pair_expires_at = now + seconds (int (pairing_ttl_seconds cfg)),
      pair_claimed_at = None, pair_credential_delivered_at = None, pair_completed_at = None,
      pair_source_ip = rm_source_ip md\<rparr>"

definition recovered_pairing :: "settings \<Rightarrow> datetime \<Rightarrow> request_metadata \<Rightarrow> device \<Rightarrow> start_intent \<Rightarrow> device_pairing" where
  "recovered_pairing cfg now md d si =
     (new_pairing cfg now md si)\<lparr>pair_status := PAIRING_COMPLETED, pair_claimed_by_user_id := Some (dev_owner_user_id d),
        pair_device_id := Some (dev_id d), pair_claimed_at := Some now, pair_credential_delivered_at := Some now,
        pair_completed_at := Some now\<rparr>"

text \<open>The unique columns and the unique index of live public keys.\<close>

definition pairing_unique :: "device_pairing \<Rightarrow> device_pairing list \<Rightarrow> bool" where
  "pairing_unique p rows \<longleftrightarrow> \<not> exists_where (\<lambda>x.
     pair_id x = pair_id p \<or> pair_code_hash x = pair_code_hash p \<or> pair_poll_token_hash x = pair_poll_token_hash p
   \<or> pair_refresh_credential_hash x \<noteq> None \<and> pair_refresh_credential_hash x = pair_refresh_credential_hash p
   \<or> pair_device_id x \<noteq> None \<and> pair_device_id x = pair_device_id p
   \<or> live_pairing p \<and> live_pairing x \<and> pair_public_key x = pair_public_key p) rows"

definition ensure_start_capacity :: "ustr option \<Rightarrow> database \<Rightarrow> pairing_error option" where
  "ensure_start_capacity source_ip db =
     (let rows = device_pairings db in
      if length rows \<ge> MAX_RETAINED_PAIRINGS_GLOBAL then Some (Pairing_Capacity_Exceeded ''retained_pairing_limit_exceeded'')
      else if count_where live_pairing rows \<ge> MAX_LIVE_PAIRINGS_GLOBAL
      then Some (Pairing_Capacity_Exceeded ''live_pairing_limit_exceeded'')
      else case source_ip of
        None \<Rightarrow> None
      | Some ip \<Rightarrow>
          if count_where (\<lambda>p. pair_source_ip p = Some ip) rows \<ge> MAX_RETAINED_PAIRINGS_PER_SOURCE
          then Some (Pairing_Capacity_Exceeded ''source_retained_pairing_limit_exceeded'')
          else if count_where (\<lambda>p. pair_source_ip p = Some ip \<and> live_pairing p) rows \<ge> MAX_LIVE_PAIRINGS_PER_SOURCE
          then Some (Pairing_Capacity_Exceeded ''source_live_pairing_limit_exceeded'') else None)"

type_synonym start_result = "(pairing_error + device_pairing) \<times> database"

text \<open>A start whose identifier is already known.\<close>

definition resume_start :: "datetime \<Rightarrow> request_metadata \<Rightarrow> start_intent \<Rightarrow> device_pairing \<Rightarrow> database \<Rightarrow> start_result" where
  "resume_start now md si p db =
     (if \<not> same_start_intent p si then (Inl Pairing_Conflict, db)
      else if pair_status p \<in> {PAIRING_EXPIRED, PAIRING_CANCELLED} then (Inl Pairing_Expired, db)
      else if pair_status p \<noteq> PAIRING_COMPLETED \<and> pair_expires_at p \<le> now then
        (case expire_unactivated now md p db of Inl e \<Rightarrow> (Inl e, db) | Inr db1 \<Rightarrow> (Inl Pairing_Expired, db1))
      else (Inr p, db))"

definition recover_audit :: "datetime \<Rightarrow> request_metadata \<Rightarrow> device \<Rightarrow> device_pairing \<Rightarrow> audit_event" where
  "recover_audit now md d p =
     (pairing_audit now md ''pairing.recover'' AUDIT_SUCCEEDED p [(u ''reason'', JStr (u ''completed_pairing_record_missing''))])
       \<lparr>aud_actor_user_id := Some (dev_owner_user_id d), aud_actor_device_id := Some (dev_id d)\<rparr>"

text \<open>A start whose device exists although its pairing row is gone.  \<open>race = Some db'\<close>: another transaction
  committed \<open>db'\<close> first and the insertion violates a unique column.\<close>

definition recover_start ::
  "settings \<Rightarrow> datetime \<Rightarrow> request_metadata \<Rightarrow> database option \<Rightarrow> start_intent \<Rightarrow> device \<Rightarrow> database \<Rightarrow> start_result" where
  "recover_start cfg now md race si d db =
     (if dev_status d \<noteq> ACTIVE \<or> dev_public_key d \<noteq> si_public_key si
         \<or> or_empty (dev_refresh_credential_hash d) \<noteq> si_refresh_credential_hash si then (Inl Pairing_Conflict, db)
      else
        let p = recovered_pairing cfg now md d si in
        if race \<noteq> None \<or> \<not> pairing_unique p (device_pairings db) then
          let db' = (case race of Some x \<Rightarrow> x | None \<Rightarrow> db) in
          (case pairing_at (si_pairing_id si) db' of
             Some q \<Rightarrow> if same_start_intent q si then (Inr q, db') else (Inl Pairing_Conflict, db')
           | None \<Rightarrow> (Inl Pairing_Conflict, db'))
        else (Inr p, add_audit (recover_audit now md d p) (db\<lparr>device_pairings := device_pairings db @ [p]\<rparr>)))"

definition start_audit :: "datetime \<Rightarrow> request_metadata \<Rightarrow> start_intent \<Rightarrow> device_pairing \<Rightarrow> audit_event" where
  "start_audit now md si p =
     pairing_audit now md ''pairing.start'' AUDIT_SUCCEEDED p
       [(u ''device_name'', JStr (si_device_name si)), (u ''workspace_root_count'', JInt (int (length (si_workspace_roots si))))]"

fun expire_pairings :: "datetime \<Rightarrow> request_metadata \<Rightarrow> device_pairing list \<Rightarrow> database \<Rightarrow> pairing_error + database" where
  "expire_pairings now md [] db = Inr db"
| "expire_pairings now md (p # ps) db =
     (case expire_unactivated now md p db of Inl e \<Rightarrow> Inl e | Inr db1 \<Rightarrow> expire_pairings now md ps db1)"

definition insert_start ::
  "settings \<Rightarrow> datetime \<Rightarrow> request_metadata \<Rightarrow> database option \<Rightarrow> start_intent \<Rightarrow> database \<Rightarrow> database \<Rightarrow> start_result" where
  "insert_start cfg now md race si db db1 =
     (let p = new_pairing cfg now md si in
      if race \<noteq> None \<or> \<not> pairing_unique p (device_pairings db1) then
        let db' = (case race of Some x \<Rightarrow> x | None \<Rightarrow> db) in
        (case pairing_at (si_pairing_id si) db' of
           Some q \<Rightarrow> if same_start_intent q si then resume_start now md si q db' else (Inl Pairing_Conflict, db')
         | None \<Rightarrow> (Inl Pairing_Conflict, db'))
      else (Inr p, add_audit (start_audit now md si p) (db1\<lparr>device_pairings := device_pairings db1 @ [p]\<rparr>)))"

text \<open>Nothing is flushed before the insertion, so the counts of the capacity check still see the expired rows as
  live; the flush writes the updates first.\<close>

definition fresh_start ::
  "settings \<Rightarrow> datetime \<Rightarrow> request_metadata \<Rightarrow> database option \<Rightarrow> start_intent \<Rightarrow> database \<Rightarrow> start_result" where
  "fresh_start cfg now md race si db =
     (if exists_where (\<lambda>d. dev_refresh_credential_hash d = Some (si_refresh_credential_hash si)) (devices db)
      then (Inl Pairing_Conflict, db)
      else if si_created_at si < now - seconds (int (pairing_ttl_seconds cfg)) then (Inl Pairing_Expired, db)
      else if si_created_at si > now + seconds 60 then (Inl Pairing_Proof_Rejected, db)
      else
        let live_pairings = filter (\<lambda>p. pair_public_key p = si_public_key si \<and> live_pairing p) (device_pairings db) in
        if list_ex (\<lambda>p. pair_expires_at p > now) live_pairings then (Inl Pairing_Conflict, db)
        else
     (case expire_pairings now md live_pairings db of
        Inl e \<Rightarrow> (Inl e, db)
      | Inr db1 \<Rightarrow>
          if exists_where (\<lambda>d. dev_public_key d = si_public_key si \<and> dev_status d = ACTIVE) (devices db1)
          then (Inl Pairing_Conflict, db)
          else
     (case ensure_start_capacity (rm_source_ip md) db of
        Some e \<Rightarrow> (Inl e, db)
      | None \<Rightarrow> insert_start cfg now md race si db db1)))"

definition start_pairing ::
  "pairing_env \<Rightarrow> settings \<Rightarrow> datetime \<Rightarrow> request_metadata \<Rightarrow> database option \<Rightarrow> start_request \<Rightarrow> database \<Rightarrow> start_result" where
  "start_pairing pv cfg now md race rq db =
     (case accept_start pv now rq of
        Inl e \<Rightarrow> (Inl e, db)
      | Inr si \<Rightarrow>
     (case pairing_at (si_pairing_id si) db of
        Some p \<Rightarrow> resume_start now md si p db
      | None \<Rightarrow>
     (case scalar (\<lambda>d. dev_id d = si_pairing_id si) (devices db) of
        Some d \<Rightarrow> recover_start cfg now md race si d db
      | None \<Rightarrow> fresh_start cfg now md race si db)))"

section \<open>Claim\<close>

definition claim_audit ::
  "datetime \<Rightarrow> request_metadata \<Rightarrow> control_session \<Rightarrow> audit_outcome \<Rightarrow> uuid option \<Rightarrow> dict \<Rightarrow> audit_event" where
  "claim_audit now md s outcome i details =
     \<lparr>aud_actor_user_id = Some (ses_sub2api_user_id s), aud_actor_session_id = Some (ses_id s), aud_actor_device_id = None,
      aud_action = ''pairing.claim'', aud_outcome = outcome,
      aud_resource_type = (if i = None then None else Some ''device_pairing''), aud_resource_id = map_option uuid_str i,
      aud_request_id = rm_request_id md, aud_source_ip = rm_source_ip md, aud_user_agent = rm_user_agent md,
      aud_details = details, aud_created_at = now\<rparr>"

definition audit_denied_claim ::
  "datetime \<Rightarrow> request_metadata \<Rightarrow> control_session \<Rightarrow> string \<Rightarrow> uuid option \<Rightarrow> database \<Rightarrow> database" where
  "audit_denied_claim now md s reason i db =
     add_audit (claim_audit now md s AUDIT_DENIED i [(u ''reason'', JStr (u reason))]) db"

fun pairing_status_value :: "pairing_status \<Rightarrow> string" where
  "pairing_status_value PAIRING_PENDING = ''pending''"
| "pairing_status_value PAIRING_CLAIMED = ''claimed''"
| "pairing_status_value PAIRING_COMPLETED = ''completed''"
| "pairing_status_value PAIRING_EXPIRED = ''expired''"
| "pairing_status_value PAIRING_CANCELLED = ''cancelled''"

definition reservations :: "ustr \<Rightarrow> database \<Rightarrow> nat" where
  "reservations owner db =
     count_where (\<lambda>p. pair_claimed_by_user_id p = Some owner \<and> pair_status p = PAIRING_CLAIMED) (device_pairings db)"

definition claimed_pairing :: "datetime \<Rightarrow> control_session \<Rightarrow> device_pairing \<Rightarrow> device_pairing" where
  "claimed_pairing now s p =
     p\<lparr>pair_claimed_by_user_id := Some (ses_sub2api_user_id s), pair_claimed_by_session_id := Some (ses_id s),
       pair_claimed_at := Some now, pair_status := PAIRING_CLAIMED\<rparr>"

text \<open>The claim of a pending pairing that has not expired.\<close>

definition claim_pending ::
  "pairing_env \<Rightarrow> settings \<Rightarrow> datetime \<Rightarrow> request_metadata \<Rightarrow> control_session \<Rightarrow> device_pairing \<Rightarrow> database \<Rightarrow> start_result" where
  "claim_pending pv cfg now md s p db =
     (let denied = (\<lambda>reason. audit_denied_claim now md s reason (Some (pair_id p)) db);
          owner = ses_sub2api_user_id s
      in if pair_workspace_roots p = [] then (Inl Pairing_Conflict, denied ''workspace_roots_missing'')
      else if exists_where (\<lambda>d. dev_public_key d = pair_public_key p \<and> dev_status d = ACTIVE) (devices db)
      then (Inl Pairing_Conflict, denied ''public_key_already_paired'')
      else
        let db1 = snd (lock_owner_cursor owner db) in
        if active_device_count db1 owner + reservations owner db1 \<ge> bootstrap_max_devices cfg
        then (Inl (Pairing_Capacity_Exceeded ''active_device_limit_exceeded''), db)
        else if total_device_count db1 owner + reservations owner db1 \<ge> owner_max_device_records cfg
        then (Inl (Pairing_Capacity_Exceeded ''device_record_limit_exceeded''), db)
        else
     (case ensure_device_projection_fits (pv_fmt pv) (pv_pystr pv) (candidate_device now (pair_id p) owner (pair_device_name p)
          (pair_public_key p) (pair_device_metadata p) (pair_workspace_roots p)) of
        Some e \<Rightarrow> (Inl (capacity_pairing_error e), db)
      | None \<Rightarrow>
          (Inr (claimed_pairing now s p),
           add_audit (claim_audit now md s AUDIT_SUCCEEDED (Some (pair_id p)) [(u ''future_device_id'', JStr (uuid_str (pair_id p)))])
             (put_pairing (claimed_pairing now s p) db1))))"

definition claim_pairing ::
  "pairing_env \<Rightarrow> settings \<Rightarrow> datetime \<Rightarrow> request_metadata \<Rightarrow> control_session \<Rightarrow> ustr \<Rightarrow> database \<Rightarrow> start_result" where
  "claim_pairing pv cfg now md s code db =
     (case normalize_pairing_code code of
        None \<Rightarrow> (Inl Pairing_Value_Error, db)
      | Some normalized \<Rightarrow>
          let code_hash = token_digest (pv_hmac pv) ''pairing-code-v2'' (pairing_secret_commitment pv normalized) in
     (case scalar (\<lambda>p. pair_code_hash p = code_hash) (device_pairings db) of
        None \<Rightarrow> (Inl Pairing_Not_Found, audit_denied_claim now md s ''code_not_found'' None db)
      | Some p \<Rightarrow>
          let denied = (\<lambda>reason. audit_denied_claim now md s reason (Some (pair_id p)));
              mine = (pair_claimed_by_user_id p = Some (ses_sub2api_user_id s))
          in if pair_status p = PAIRING_COMPLETED then
               if mine \<and> (\<exists>d \<in> set (devices db). pair_device_id p = Some (dev_id d) \<and> dev_status d = ACTIVE) then (Inr p, db)
               else (Inl Pairing_Conflict, denied ''status_completed'' db)
             else if pair_expires_at p \<le> now then
               (case expire_unactivated now md p db of
                  Inl e \<Rightarrow> (Inl e, db)
                | Inr db1 \<Rightarrow> (Inl Pairing_Expired, denied ''expired'' db1))
             else if pair_status p = PAIRING_CLAIMED then
               if mine then (Inr p, db) else (Inl Pairing_Conflict, denied ''status_claimed'' db)
             else if pair_status p \<noteq> PAIRING_PENDING
             then (Inl Pairing_Conflict, denied (''status_'' @ pairing_status_value (pair_status p)) db)
             else claim_pending pv cfg now md s p db))"

section \<open>Poll\<close>

definition activated_device :: "datetime \<Rightarrow> device_pairing \<Rightarrow> device" where
  "activated_device now p =
     (candidate_device now (pair_id p) (or_empty (pair_claimed_by_user_id p)) (pair_device_name p) (pair_public_key p)
        (pair_device_metadata p) (pair_workspace_roots p))
       \<lparr>dev_refresh_credential_hash := pair_refresh_credential_hash p, dev_credential_version := 1, dev_credential_scheme := 2\<rparr>"

definition completed_pairing :: "datetime \<Rightarrow> device_pairing \<Rightarrow> device_pairing" where
  "completed_pairing now p =
     p\<lparr>pair_device_id := Some (pair_id p), pair_credential_delivered_at := Some now, pair_completed_at := Some now,
       pair_status := PAIRING_COMPLETED\<rparr>"

definition complete_audit :: "datetime \<Rightarrow> request_metadata \<Rightarrow> device_pairing \<Rightarrow> device \<Rightarrow> audit_event" where
  "complete_audit now md p d =
     \<lparr>aud_actor_user_id = Some (dev_owner_user_id d), aud_actor_session_id = None, aud_actor_device_id = Some (dev_id d),
      aud_action = ''pairing.complete'', aud_outcome = AUDIT_SUCCEEDED, aud_resource_type = Some ''device'',
      aud_resource_id = Some (uuid_str (dev_id d)), aud_request_id = rm_request_id md, aud_source_ip = rm_source_ip md,
      aud_user_agent = rm_user_agent md,
      aud_details = [(u ''pairing_id'', JStr (uuid_str (pair_id p))),
        (u ''credential_version'', JInt (int (dev_credential_version d))), (u ''credential_scheme'', JInt 2)],
      aud_created_at = now\<rparr>"

type_synonym poll_result = "(pairing_error + device_pairing \<times> device option) \<times> database \<times> notice list"

text \<open>A claimed pairing becomes a device.  The unique columns of the devices are the identifier and the refresh
  credential; the live public key was checked.\<close>

definition activate_pairing :: "pairing_env \<Rightarrow> datetime \<Rightarrow> request_metadata \<Rightarrow> device_pairing \<Rightarrow> database \<Rightarrow> poll_result" where
  "activate_pairing pv now md p db =
     (if pair_claimed_by_user_id p = None \<or> pair_device_id p \<noteq> None \<or> pair_refresh_credential_hash p = None
      then (Inl Pairing_Conflict, db, [])
      else if exists_where (\<lambda>d. dev_public_key d = pair_public_key p \<and> dev_status d = ACTIVE) (devices db)
      then (Inl Pairing_Conflict, db, [])
      else
        let d = activated_device now p in
     (case ensure_device_projection_fits (pv_fmt pv) (pv_pystr pv) d of
        Some (Owner_Capacity_Exceeded _) \<Rightarrow> (Inl Pairing_Conflict, db, [])
      | Some _ \<Rightarrow> (Inl Pairing_Value_Error, db, [])
      | None \<Rightarrow>
          if exists_where (\<lambda>x. dev_id x = dev_id d \<or> dev_refresh_credential_hash x = dev_refresh_credential_hash d) (devices db)
          then (Inl Pairing_Integrity_Error, db, [])
          else
     (case append_all event_append now [device_event (pv_pystr pv) ''offline'' d]
          (add_audit (complete_audit now md p d)
            (put_pairing (completed_pairing now p) (db\<lparr>devices := devices db @ [d]\<rparr>))) of
        Inl e \<Rightarrow> (Inl (Pairing_Event_Error e), db, [])
      | Inr (events, db1) \<Rightarrow>
          (Inr (completed_pairing now p, Some d), db1, map (Publish_Event (dev_owner_user_id d)) events))))"

definition poll_pairing ::
  "pairing_env \<Rightarrow> datetime \<Rightarrow> request_metadata \<Rightarrow> uuid \<Rightarrow> ustr \<Rightarrow> database \<Rightarrow> poll_result" where
  "poll_pairing pv now md i poll_token db =
     (case pairing_at i db of
        None \<Rightarrow> (Inl Pairing_Not_Found, db, [])
      | Some p \<Rightarrow>
          if pair_protocol_version p \<noteq> 2
             \<or> token_digest (pv_hmac pv) ''pairing-poll-v2'' (pairing_secret_commitment pv poll_token) \<noteq> pair_poll_token_hash p
          then (Inl Pairing_Unauthorized,
                add_audit (pairing_audit now md ''pairing.poll'' AUDIT_DENIED p [(u ''reason'', JStr (u ''invalid_poll_token''))]) db, [])
          else if pair_status p = PAIRING_COMPLETED then
     (case pair_device_id p of
        None \<Rightarrow> (Inl Pairing_Conflict, db, [])
      | Some device_id \<Rightarrow>
     (case scalar (\<lambda>d. dev_id d = device_id) (devices db) of
        None \<Rightarrow> (Inl Pairing_Conflict, db, [])
      | Some d \<Rightarrow>
          if dev_status d \<noteq> ACTIVE \<or> pair_refresh_credential_hash p = None
             \<or> or_empty (dev_refresh_credential_hash d) \<noteq> or_empty (pair_refresh_credential_hash p)
          then (Inl Pairing_Conflict, db, [])
          else (Inr (p, Some d), db, [])))
          else if pair_expires_at p \<le> now then
     (case expire_unactivated now md p db of
        Inl e \<Rightarrow> (Inl e, db, [])
      | Inr db1 \<Rightarrow> (Inl Pairing_Expired, db1, []))
          else if pair_status p = PAIRING_PENDING then (Inr (p, None), db, [])
          else if pair_status p \<in> {PAIRING_EXPIRED, PAIRING_CANCELLED} then (Inl Pairing_Expired, db, [])
          else activate_pairing pv now md p db)"

section \<open>Expiry\<close>

definition pairing_due :: "datetime \<Rightarrow> device_pairing \<Rightarrow> bool" where
  "pairing_due now p \<longleftrightarrow> live_pairing p \<and> pair_expires_at p \<le> now"

definition no_metadata :: request_metadata where
  "no_metadata = \<lparr>rm_request_id = None, rm_source_ip = None, rm_user_agent = None\<rparr>"

text \<open>\<open>locked\<close> are the rows that another transaction holds: they are skipped.\<close>

fun expire_each :: "(uuid \<Rightarrow> bool) \<Rightarrow> datetime \<Rightarrow> uuid list \<Rightarrow> database \<Rightarrow> nat \<times> database" where
  "expire_each locked now [] db = (0, db)"
| "expire_each locked now (i # ids) db =
     (case scalar (\<lambda>p. pair_id p = i \<and> pairing_due now p \<and> \<not> locked i) (device_pairings db) of
        None \<Rightarrow> expire_each locked now ids db
      | Some p \<Rightarrow>
     (case expire_unactivated now no_metadata p db of
        Inl _ \<Rightarrow> expire_each locked now ids db
      | Inr db1 \<Rightarrow> (case expire_each locked now ids db1 of (n, db2) \<Rightarrow> (Suc n, db2))))"

definition pairing_expire_due :: "settings \<Rightarrow> (uuid \<Rightarrow> bool) \<Rightarrow> datetime \<Rightarrow> database \<Rightarrow> nat \<times> database" where
  "pairing_expire_due cfg locked now db =
     expire_each locked now (map pair_id (select_ordered (pairing_due now) (\<lambda>p. (pair_expires_at p, pair_id p))
       (retention_sweep_batch_size cfg) (device_pairings db))) db"

section \<open>Invariant\<close>

definition pairing_row_ok :: "device_pairing \<Rightarrow> bool" where
  "pairing_row_ok p \<longleftrightarrow>
     (pair_status p = PAIRING_PENDING \<longrightarrow> pair_claimed_by_user_id p = None \<and> pair_device_id p = None)
   \<and> (pair_status p = PAIRING_CLAIMED \<longrightarrow> pair_claimed_by_user_id p \<noteq> None \<and> pair_device_id p = None)"

definition live_from :: "ustr \<Rightarrow> device_pairing \<Rightarrow> bool" where
  "live_from ip p \<longleftrightarrow> pair_source_ip p = Some ip \<and> live_pairing p"

definition pairing_rows_ok :: "device_pairing list \<Rightarrow> bool" where
  "pairing_rows_ok rows \<longleftrightarrow>
     distinct (map pair_id rows) \<and> distinct (map pair_code_hash rows) \<and> distinct (map pair_poll_token_hash rows)
   \<and> (\<forall>p \<in> set rows. \<forall>q \<in> set rows. live_pairing p \<and> live_pairing q \<and> pair_public_key p = pair_public_key q \<longrightarrow> pair_id p = pair_id q)
   \<and> (\<forall>p \<in> set rows. pairing_row_ok p)
   \<and> count_where live_pairing rows \<le> MAX_LIVE_PAIRINGS_GLOBAL
   \<and> (\<forall>ip. count_where (live_from ip) rows \<le> MAX_LIVE_PAIRINGS_PER_SOURCE)"

text \<open>Of a device only its identity, its owner, its key and its status matter.\<close>

definition device_sig :: "device \<Rightarrow> uuid \<times> ustr \<times> ustr \<times> device_status" where
  "device_sig d = (dev_id d, dev_owner_user_id d, dev_public_key d, dev_status d)"

definition device_sigs :: "database \<Rightarrow> (uuid \<times> ustr \<times> ustr \<times> device_status) list" where
  "device_sigs db = map device_sig (devices db)"

definition keys_unique :: "(uuid \<times> ustr \<times> ustr \<times> device_status) list \<Rightarrow> bool" where
  "keys_unique sigs \<longleftrightarrow> (\<forall>(i, _, k, st) \<in> set sigs. \<forall>(i', _, k', st') \<in> set sigs. st = ACTIVE \<and> st' = ACTIVE \<and> k = k' \<longrightarrow> i = i')"

definition device_quotas :: "settings \<Rightarrow> database \<Rightarrow> bool" where
  "device_quotas cfg db \<longleftrightarrow>
     (\<forall>owner. active_device_count db owner + reservations owner db \<le> bootstrap_max_devices cfg
        \<and> total_device_count db owner + reservations owner db \<le> owner_max_device_records cfg)"

definition pairings_ok :: "settings \<Rightarrow> database \<Rightarrow> bool" where
  "pairings_ok cfg db \<longleftrightarrow> pairing_rows_ok (device_pairings db) \<and> keys_unique (device_sigs db) \<and> device_quotas cfg db"

lemma count_where_map: "count_where Q (map f xs) = count_where (\<lambda>x. Q (f x)) xs"
  by (induction xs) auto

lemma counts_by_sigs:
  "active_device_count db owner = count_where (\<lambda>(_, ow, _, st). ow = owner \<and> st \<noteq> REVOKED) (device_sigs db)"
  "total_device_count db owner = count_where (\<lambda>(_, ow, _, _). ow = owner) (device_sigs db)"
  by (simp_all add: active_device_count_def total_device_count_def device_sigs_def count_where_map device_sig_def)

lemma pairings_ok_cong:
  assumes "device_pairings db' = device_pairings db" "device_sigs db' = device_sigs db"
  shows "pairings_ok cfg db' = pairings_ok cfg db"
  using assms by (simp add: pairings_ok_def device_quotas_def counts_by_sigs reservations_def)

lemma count_where_replace:
  assumes "distinct (map key rows)" "r \<in> set rows" "key r' = key r"
  shows "count_where Q (update_where (\<lambda>x. key x = key r') (\<lambda>_. r') rows) + (if Q r then 1 else 0)
    = count_where Q rows + (if Q r' then 1 else 0)"
  using assms
proof (induction rows)
  case (Cons a rows)
  show ?case
  proof (cases "a = r")
    case True
    then have "update_where (\<lambda>x. key x = key r') (\<lambda>_. r') rows = rows"
      using Cons.prems by (intro update_where_idle) (auto simp: image_iff)
    then show ?thesis using True Cons.prems by simp
  next
    case False
    then have "key a \<noteq> key r'" "r \<in> set rows" using Cons.prems by auto
    then show ?thesis using Cons False by auto
  qed
qed simp

text \<open>A row may be replaced when its identifying columns stay and it does not become live again.\<close>

lemma pairing_rows_put:
  assumes "pairing_rows_ok rows" "p \<in> set rows" "pair_id p' = pair_id p" "pair_code_hash p' = pair_code_hash p"
    "pair_poll_token_hash p' = pair_poll_token_hash p" "pair_public_key p' = pair_public_key p"
    "pair_source_ip p' = pair_source_ip p" "live_pairing p' \<Longrightarrow> live_pairing p" "pairing_row_ok p'"
  shows "pairing_rows_ok (update_where (\<lambda>x. pair_id x = pair_id p') (\<lambda>_. p') rows)"
proof -
  let ?rows = "update_where (\<lambda>x. pair_id x = pair_id p') (\<lambda>_. p') rows"
  have ids: "distinct (map pair_id rows)" using assms(1) by (simp add: pairing_rows_ok_def)
  have same: "x = p" if "x \<in> set rows" "pair_id x = pair_id p'" for x
    using that ids assms(2,3) by (auto simp: distinct_map inj_on_def)
  have key: "map g ?rows = map g rows" if "g p' = g p" for g :: "device_pairing \<Rightarrow> 'k"
    using that same by (auto simp: update_where_def)
  have member: "x = p' \<or> x \<in> set rows \<and> pair_id x \<noteq> pair_id p'" if "x \<in> set ?rows" for x
    using that by (auto simp: in_set_update_where split: if_splits)
  have live: "count_where live_pairing ?rows \<le> count_where live_pairing rows"
    "count_where (live_from ip) ?rows \<le> count_where (live_from ip) rows" for ip
    using count_where_replace [OF ids assms(2,3), of live_pairing] count_where_replace [OF ids assms(2,3), of "live_from ip"] assms(7,8)
    by (auto simp: live_from_def split: if_splits)
  have unique: "pair_id x = pair_id y" if "x \<in> set ?rows" "y \<in> set ?rows" "live_pairing x" "live_pairing y"
    "pair_public_key x = pair_public_key y" for x y
  proof -
    have old: "pair_id a = pair_id b" if "a \<in> set rows" "b \<in> set rows" "live_pairing a" "live_pairing b"
      "pair_public_key a = pair_public_key b" for a b
      using assms(1) that unfolding pairing_rows_ok_def by blast
    have m: "x = p' \<or> x \<in> set rows" "y = p' \<or> y \<in> set rows" using member that(1,2) by blast+
    consider "x = p'" "y = p'" | "x = p'" "y \<in> set rows" | "x \<in> set rows" "y = p'" | "x \<in> set rows" "y \<in> set rows"
      using m by blast
    then show ?thesis
    proof cases
      case 2
      then show ?thesis using old [OF assms(2), of y] that assms(3,6,8) by simp
    next
      case 3
      then show ?thesis using old [OF _ assms(2), of x] that assms(3,6,8) by simp
    next
      case 4
      then show ?thesis using old that by blast
    qed simp
  qed
  show ?thesis
    unfolding pairing_rows_ok_def
  proof (intro conjI ballI allI impI)
    show "pairing_row_ok x" if "x \<in> set ?rows" for x
      using member [OF that] assms(1,9) by (auto simp: pairing_rows_ok_def)
    show "count_where (live_from ip) ?rows \<le> MAX_LIVE_PAIRINGS_PER_SOURCE" for ip
      using live(2) [of ip] assms(1) by (meson order_trans pairing_rows_ok_def)
    show "count_where live_pairing ?rows \<le> MAX_LIVE_PAIRINGS_GLOBAL"
      using live(1) assms(1) by (meson order_trans pairing_rows_ok_def)
    show "distinct (map pair_id ?rows)" "distinct (map pair_code_hash ?rows)" "distinct (map pair_poll_token_hash ?rows)"
      using assms(1) key [of pair_id] key [of pair_code_hash] key [of pair_poll_token_hash] assms(3-5)
      unfolding pairing_rows_ok_def by simp_all
  qed (use unique in blast)
qed

definition claimed_for :: "ustr \<Rightarrow> device_pairing \<Rightarrow> bool" where
  "claimed_for owner p \<longleftrightarrow> pair_claimed_by_user_id p = Some owner \<and> pair_status p = PAIRING_CLAIMED"

lemma reservations_claimed: "reservations owner db = count_where (claimed_for owner) (device_pairings db)"
  by (simp add: reservations_def claimed_for_def [abs_def])

lemma put_pairing_simps [simp]:
  "device_pairings (put_pairing p db) = update_where (\<lambda>x. pair_id x = pair_id p) (\<lambda>_. p) (device_pairings db)"
  "devices (put_pairing p db) = devices db" "device_sigs (put_pairing p db) = device_sigs db"
  "device_pairings (add_audit a db) = device_pairings db" "device_sigs (add_audit a db) = device_sigs db"
  by (simp_all add: put_pairing_def device_sigs_def add_audit_def)

lemma pairings_ok_audit [simp]: "pairings_ok cfg (add_audit a db) = pairings_ok cfg db"
  by (rule pairings_ok_cong) simp_all

lemma put_reservations:
  assumes "pairing_rows_ok (device_pairings db)" "p \<in> set (device_pairings db)" "pair_id p' = pair_id p"
  shows "reservations owner (put_pairing p' db) + (if claimed_for owner p then 1 else 0)
    = reservations owner db + (if claimed_for owner p' then 1 else 0)"
  using count_where_replace [of pair_id, OF _ assms(2,3)] assms(1) by (simp add: reservations_claimed pairing_rows_ok_def)

lemma expire_unactivated_ok:
  assumes "expire_unactivated now md p db = Inr db'" "p \<in> set (device_pairings db)" "pairings_ok cfg db"
  shows "pairings_ok cfg db'"
proof -
  let ?p = "p\<lparr>pair_status := PAIRING_EXPIRED\<rparr>"
  have db': "db' = add_audit (pairing_audit now md ''pairing.expire'' AUDIT_SUCCEEDED p
             [(u ''unactivated_device_created'', JBool False)]) (put_pairing ?p db)"
    using assms(1) by (auto simp: expire_unactivated_def split: if_splits)
  have rows: "pairing_rows_ok (device_pairings (put_pairing ?p db))"
    using assms(3) pairing_rows_put [OF _ assms(2), of ?p] by (simp add: pairings_ok_def live_pairing_def pairing_row_ok_def)
  have "reservations owner (put_pairing ?p db) \<le> reservations owner db" for owner
    using put_reservations [of db p ?p owner] assms(2,3) by (simp add: pairings_ok_def claimed_for_def split: if_splits)
  then have "device_quotas cfg (put_pairing ?p db)"
    using assms(3) unfolding pairings_ok_def device_quotas_def counts_by_sigs by (auto intro: order_trans [OF add_left_mono])
  then show ?thesis using assms(3) rows unfolding db' pairings_ok_audit by (simp add: pairings_ok_def)
qed

lemma expire_unactivated_rows:
  assumes "expire_unactivated now md p db = Inr db'"
  shows "device_pairings db' = update_where (\<lambda>x. pair_id x = pair_id p) (\<lambda>_. p\<lparr>pair_status := PAIRING_EXPIRED\<rparr>) (device_pairings db)"
    "devices db' = devices db"
  using assms by (auto simp: expire_unactivated_def add_audit_def split: if_splits)

lemma others_remain:
  assumes "set (p # ps) \<subseteq> set (device_pairings db)" "distinct (map pair_id (p # ps))"
    and "device_pairings db' = update_where (\<lambda>x. pair_id x = pair_id p) f (device_pairings db)"
  shows "set ps \<subseteq> set (device_pairings db')"
proof
  fix q assume "q \<in> set ps"
  moreover have "pair_id p \<notin> pair_id ` set ps" "set ps \<subseteq> set (device_pairings db)" using assms(1,2) by simp_all
  ultimately have "q \<in> set (device_pairings db)" "pair_id q \<noteq> pair_id p" by (blast, metis imageI)
  then show "q \<in> set (device_pairings db')" unfolding assms(3) in_set_update_where by force
qed

lemma expire_pairings_ok:
  assumes "expire_pairings now md ps db = Inr db'" "set ps \<subseteq> set (device_pairings db)" "distinct (map pair_id ps)" "pairings_ok cfg db"
  shows "pairings_ok cfg db' \<and> devices db' = devices db
    \<and> count_where live_pairing (device_pairings db') \<le> count_where live_pairing (device_pairings db)
    \<and> (\<forall>ip. count_where (live_from ip) (device_pairings db') \<le> count_where (live_from ip) (device_pairings db))"
  using assms
proof (induction ps arbitrary: db)
  case (Cons p ps)
  obtain db1 where e: "expire_unactivated now md p db = Inr db1" and rest: "expire_pairings now md ps db1 = Inr db'"
    using Cons.prems(1) by (auto split: sum.splits)
  note rows = expire_unactivated_rows [OF e]
  have ids: "distinct (map pair_id (device_pairings db))" using Cons.prems(4) by (simp add: pairings_ok_def pairing_rows_ok_def)
  have p: "p \<in> set (device_pairings db)" using Cons.prems(2) by simp
  note IH = Cons.IH [OF rest others_remain [OF Cons.prems(2,3) rows(1)] _ expire_unactivated_ok [OF e p Cons.prems(4)]]
  have "count_where live_pairing (device_pairings db1) \<le> count_where live_pairing (device_pairings db)"
    "count_where (live_from ip) (device_pairings db1) \<le> count_where (live_from ip) (device_pairings db)" for ip
    using count_where_replace [of pair_id, OF ids p, of "p\<lparr>pair_status := PAIRING_EXPIRED\<rparr>" live_pairing]
      count_where_replace [of pair_id, OF ids p, of "p\<lparr>pair_status := PAIRING_EXPIRED\<rparr>" "live_from ip"]
    by (simp_all add: rows live_pairing_def live_from_def split: if_splits)
  then show ?case using IH Cons.prems(3) rows(2) by (auto intro: order_trans)
qed simp

lemma insert_pairing_ok:
  assumes "pairings_ok cfg db" "pairing_unique p (device_pairings db)" "pairing_row_ok p" "pair_status p \<noteq> PAIRING_CLAIMED"
    and "live_pairing p \<Longrightarrow> count_where live_pairing (device_pairings db) < MAX_LIVE_PAIRINGS_GLOBAL"
    and "\<And>ip. live_from ip p \<Longrightarrow> count_where (live_from ip) (device_pairings db) < MAX_LIVE_PAIRINGS_PER_SOURCE"
  shows "pairings_ok cfg (db\<lparr>device_pairings := device_pairings db @ [p]\<rparr>)"
proof -
  let ?rows = "device_pairings db"
  have new: "pair_id x \<noteq> pair_id p \<and> pair_code_hash x \<noteq> pair_code_hash p \<and> pair_poll_token_hash x \<noteq> pair_poll_token_hash p
      \<and> \<not> (live_pairing p \<and> live_pairing x \<and> pair_public_key x = pair_public_key p)" if "x \<in> set ?rows" for x
    using assms(2) that by (auto simp: pairing_unique_def)
  have absent: "pair_id p \<notin> pair_id ` set ?rows" "pair_code_hash p \<notin> pair_code_hash ` set ?rows"
    "pair_poll_token_hash p \<notin> pair_poll_token_hash ` set ?rows"
    using new by (metis imageE)+
  have old: "pairing_rows_ok ?rows" using assms(1) by (simp add: pairings_ok_def)
  have "pairing_rows_ok (?rows @ [p])"
    unfolding pairing_rows_ok_def
  proof (intro conjI ballI allI impI)
    fix x y assume xy: "x \<in> set (?rows @ [p])" "y \<in> set (?rows @ [p])"
      and live: "live_pairing x \<and> live_pairing y \<and> pair_public_key x = pair_public_key y"
    consider "x \<in> set ?rows" "y \<in> set ?rows" | "x = p" "y \<in> set ?rows" | "x \<in> set ?rows" "y = p" | "x = y"
      using xy by auto
    then show "pair_id x = pair_id y"
    proof cases
      case 1
      then show ?thesis using old live unfolding pairing_rows_ok_def by blast
    next
      case 2
      then show ?thesis using new [of y] live by simp
    next
      case 3
      then show ?thesis using new [of x] live by simp
    qed simp
  next
    show "count_where live_pairing (?rows @ [p]) \<le> MAX_LIVE_PAIRINGS_GLOBAL"
      using old assms(5) unfolding pairing_rows_ok_def by (cases "live_pairing p") simp_all
    show "count_where (live_from ip) (?rows @ [p]) \<le> MAX_LIVE_PAIRINGS_PER_SOURCE" for ip
      using old assms(6) [of ip] unfolding pairing_rows_ok_def by (cases "live_from ip p") simp_all
    show "pairing_row_ok x" if "x \<in> set (?rows @ [p])" for x
      using that old assms(3) unfolding pairing_rows_ok_def by auto
    show "distinct (map pair_id (?rows @ [p]))" "distinct (map pair_code_hash (?rows @ [p]))"
      "distinct (map pair_poll_token_hash (?rows @ [p]))"
      using old absent unfolding pairing_rows_ok_def by simp_all
  qed
  then show ?thesis
    using assms(1,4) by (simp add: pairings_ok_def device_quotas_def counts_by_sigs device_sigs_def reservations_def)
qed

lemma pairing_at_in: "pairing_at i db = Some p \<Longrightarrow> p \<in> set (device_pairings db) \<and> pair_id p = i"
  unfolding pairing_at_def by (rule scalar_Some)

lemma resume_start_ok:
  assumes "resume_start now md si p db = (r, db')" "p \<in> set (device_pairings db)" "pairings_ok cfg db"
  shows "pairings_ok cfg db'"
  using assms expire_unactivated_ok [OF _ assms(2,3)]
  by (auto simp: resume_start_def split: if_splits sum.splits)

lemma recover_start_ok:
  assumes "recover_start cfg now md race si d db = (r, db')" "pairings_ok cfg db" "\<And>x. race = Some x \<Longrightarrow> pairings_ok cfg x"
  shows "pairings_ok cfg db'"
proof -
  let ?p = "recovered_pairing cfg now md d si"
  have p: "\<not> live_pairing ?p" "pair_status ?p \<noteq> PAIRING_CLAIMED" "pairing_row_ok ?p" "\<not> live_from ip ?p" for ip
    by (simp_all add: recovered_pairing_def live_pairing_def pairing_row_ok_def live_from_def)
  have other: "pairings_ok cfg (case race of Some x \<Rightarrow> x | None \<Rightarrow> db)" using assms(2,3) by (cases race) auto
  let ?bad = "dev_status d \<noteq> ACTIVE \<or> dev_public_key d \<noteq> si_public_key si \<or> or_empty (dev_refresh_credential_hash d) \<noteq> si_refresh_credential_hash si"
  let ?lost = "race \<noteq> None \<or> \<not> pairing_unique ?p (device_pairings db)"
  consider ?bad | "\<not> ?bad" ?lost | "\<not> ?bad" "\<not> ?lost" by blast
  then show ?thesis
  proof cases
    case 1
    then show ?thesis using assms(1,2) by (simp add: recover_start_def)
  next
    case 2
    then have "db' = (case race of Some x \<Rightarrow> x | None \<Rightarrow> db)"
      using assms(1) unfolding recover_start_def Let_def if_not_P [OF 2(1)] if_P [OF 2(2)] by (simp split: option.splits if_splits)
    then show ?thesis using other by simp
  next
    case 3
    then have "db' = add_audit (recover_audit now md d ?p) (db\<lparr>device_pairings := device_pairings db @ [?p]\<rparr>)"
      using assms(1) unfolding recover_start_def Let_def if_not_P [OF 3(1)] if_not_P [OF 3(2)] by simp
    then show ?thesis using insert_pairing_ok [OF assms(2) _ p(3,2)] p 3(2) by simp
  qed
qed

lemma insert_start_ok:
  assumes "insert_start cfg now md race si db db1 = (r, db')" "pairings_ok cfg db" "pairings_ok cfg db1"
    and "\<And>x. race = Some x \<Longrightarrow> pairings_ok cfg x"
    and "count_where live_pairing (device_pairings db1) < MAX_LIVE_PAIRINGS_GLOBAL"
    and "\<And>ip. rm_source_ip md = Some ip \<Longrightarrow> count_where (live_from ip) (device_pairings db1) < MAX_LIVE_PAIRINGS_PER_SOURCE"
  shows "pairings_ok cfg db'"
proof -
  let ?p = "new_pairing cfg now md si"
  have p: "pairing_row_ok ?p" "pair_status ?p \<noteq> PAIRING_CLAIMED" "pair_source_ip ?p = rm_source_ip md"
    by (simp_all add: new_pairing_def pairing_row_ok_def)
  let ?db = "case race of Some x \<Rightarrow> x | None \<Rightarrow> db"
  have other: "pairings_ok cfg ?db" using assms(2,4) by (cases race) auto
  show ?thesis
  proof (cases "race \<noteq> None \<or> \<not> pairing_unique ?p (device_pairings db1)")
    case True
    note run = assms(1) [unfolded insert_start_def Let_def if_P [OF True]]
    consider "db' = ?db" | q where "pairing_at (si_pairing_id si) ?db = Some q" "resume_start now md si q ?db = (r, db')"
      using run by (cases "pairing_at (si_pairing_id si) ?db") (auto split: if_splits)
    then show ?thesis
    proof cases
      case 2
      then show ?thesis using resume_start_ok [OF 2(2)] pairing_at_in [OF 2(1)] other by blast
    qed (use other in simp)
  next
    case False
    have "db' = add_audit (start_audit now md si ?p) (db1\<lparr>device_pairings := device_pairings db1 @ [?p]\<rparr>)"
      using assms(1) unfolding insert_start_def Let_def if_not_P [OF False] by simp
    then show ?thesis using insert_pairing_ok [OF assms(3) _ p(1,2) assms(5)] assms(6) p(3) False by (simp add: live_from_def)
  qed
qed

lemma fresh_start_ok:
  assumes "fresh_start cfg now md race si db = (r, db')" "pairings_ok cfg db" "\<And>x. race = Some x \<Longrightarrow> pairings_ok cfg x"
  shows "pairings_ok cfg db'"
proof -
  let ?live = "filter (\<lambda>p. pair_public_key p = si_public_key si \<and> live_pairing p) (device_pairings db)"
  consider "db' = db" | db1 where "expire_pairings now md ?live db = Inr db1" "ensure_start_capacity (rm_source_ip md) db = None"
      "insert_start cfg now md race si db db1 = (r, db')"
    using assms(1) by (auto simp: fresh_start_def Let_def split: if_splits option.splits sum.splits)
  then show ?thesis
  proof cases
    case 2
    have "distinct (map pair_id ?live)"
      using assms(2) by (simp add: pairings_ok_def pairing_rows_ok_def distinct_map_filter)
    note E = expire_pairings_ok [OF 2(1) _ this assms(2)]
    have live: "count_where live_pairing (device_pairings db1) < MAX_LIVE_PAIRINGS_GLOBAL"
      using E 2(2) by (auto simp: ensure_start_capacity_def Let_def split: if_splits)
    have from_ip: "count_where (live_from ip) (device_pairings db1) < MAX_LIVE_PAIRINGS_PER_SOURCE" if "rm_source_ip md = Some ip" for ip
    proof -
      have "count_where (live_from ip) (device_pairings db) < MAX_LIVE_PAIRINGS_PER_SOURCE"
        using 2(2) that by (simp add: ensure_start_capacity_def Let_def live_from_def [abs_def] split: if_splits)
      then show ?thesis using E by (fastforce intro: le_less_trans)
    qed
    show ?thesis using insert_start_ok [OF 2(3) assms(2) _ assms(3) live from_ip] E by auto
  qed (use assms(2) in simp)
qed

lemma start_pairing_ok:
  assumes "start_pairing pv cfg now md race rq db = (r, db')" "pairings_ok cfg db" "\<And>x. race = Some x \<Longrightarrow> pairings_ok cfg x"
  shows "pairings_ok cfg db'"
proof -
  consider "db' = db" | si p where "pairing_at (si_pairing_id si) db = Some p" "resume_start now md si p db = (r, db')"
    | si d where "recover_start cfg now md race si d db = (r, db')" | si where "fresh_start cfg now md race si db = (r, db')"
    using assms(1) by (auto simp: start_pairing_def split: sum.splits option.splits)
  then show ?thesis
  proof cases
    case 2
    then show ?thesis using resume_start_ok [OF 2(2)] pairing_at_in [OF 2(1)] assms(2) by blast
  qed (use recover_start_ok fresh_start_ok assms(2,3) in blast)+
qed

lemma lock_owner_cursor_pairings [simp]:
  "device_pairings (snd (lock_owner_cursor owner db)) = device_pairings db"
  "devices (snd (lock_owner_cursor owner db)) = devices db"
  by (simp_all add: lock_owner_cursor_def split: option.splits)

lemma claim_pending_ok:
  assumes "claim_pending pv cfg now md s p db = (r, db')" "p \<in> set (device_pairings db)" "pair_status p = PAIRING_PENDING"
    and "pairings_ok cfg db"
  shows "pairings_ok cfg db'"
proof -
  let ?o = "ses_sub2api_user_id s" and ?p = "claimed_pairing now s p"
  let ?db1 = "snd (lock_owner_cursor ?o db)"
  let ?a = "claim_audit now md s AUDIT_SUCCEEDED (Some (pair_id p)) [(u ''future_device_id'', JStr (uuid_str (pair_id p)))]"
  have ok1: "pairings_ok cfg ?db1" using pairings_ok_cong [of ?db1 db] assms(4) by (simp add: device_sigs_def)
  have p': "pair_id ?p = pair_id p" "pairing_row_ok ?p" "\<not> claimed_for owner p" "claimed_for owner ?p \<longleftrightarrow> owner = ?o" for owner
    using assms(2-4) unfolding claimed_pairing_def pairings_ok_def pairing_rows_ok_def claimed_for_def
    by (auto simp: pairing_row_ok_def)
  consider "db' = db" | reason where "db' = audit_denied_claim now md s reason (Some (pair_id p)) db"
    | "active_device_count ?db1 ?o + reservations ?o ?db1 < bootstrap_max_devices cfg"
      "total_device_count ?db1 ?o + reservations ?o ?db1 < owner_max_device_records cfg" "db' = add_audit ?a (put_pairing ?p ?db1)"
    using assms(1) unfolding claim_pending_def Let_def by (auto split: if_splits option.splits)
  then show ?thesis
  proof cases
    case 3
    have rows: "pairing_rows_ok (device_pairings (put_pairing ?p ?db1))"
      using pairing_rows_put [of "device_pairings db" p ?p] assms(2-4) p'(2)
      by (simp add: pairings_ok_def claimed_pairing_def live_pairing_def)
    have "reservations owner (put_pairing ?p ?db1) = reservations owner ?db1 + (if owner = ?o then 1 else 0)" for owner
      using put_reservations [of ?db1 p ?p owner] assms(2) ok1 p' by (simp add: pairings_ok_def split: if_splits)
    then have "device_quotas cfg (put_pairing ?p ?db1)"
      using ok1 3(1,2) unfolding pairings_ok_def device_quotas_def counts_by_sigs by auto
    then show ?thesis using ok1 rows unfolding 3(3) pairings_ok_audit by (simp add: pairings_ok_def)
  qed (use assms(4) in \<open>simp_all add: audit_denied_claim_def\<close>)
qed

lemma claim_pairing_ok:
  assumes "claim_pairing pv cfg now md s code db = (r, db')" "pairings_ok cfg db"
  shows "pairings_ok cfg db'"
proof -
  consider "db' = db" | reason i where "db' = audit_denied_claim now md s reason i db"
    | p reason db1 where "p \<in> set (device_pairings db)" "expire_unactivated now md p db = Inr db1"
        "db' = audit_denied_claim now md s reason (Some (pair_id p)) db1"
    | p where "p \<in> set (device_pairings db)" "pair_status p = PAIRING_PENDING" "claim_pending pv cfg now md s p db = (r, db')"
    using assms(1) unfolding claim_pairing_def Let_def by (auto split: if_splits option.splits sum.splits dest: scalar_SomeD(1))
  then show ?thesis
  proof cases
    case 3
    then show ?thesis using expire_unactivated_ok [OF 3(2,1) assms(2)] by (simp add: audit_denied_claim_def)
  next
    case 4
    then show ?thesis using claim_pending_ok [OF 4(3,1,2) assms(2)] by simp
  qed (use assms(2) in \<open>simp_all add: audit_denied_claim_def\<close>)
qed

lemma add_device_sigs [simp]: "device_sigs (db\<lparr>devices := devices db @ [d]\<rparr>) = device_sigs db @ [device_sig d]"
  by (simp add: device_sigs_def)

lemma append_all_pairings:
  assumes "append_all event_append now specs db = Inr (es, db')"
  shows "device_pairings db' = device_pairings db" "device_sigs db' = device_sigs db"
  using core_ofD(2) [OF stream.append_all_keeps(1) [OF assms]]
    core_of_devices [OF stream.append_all_keeps(1) [OF assms], of device_sig]
  by (simp_all add: device_sigs_def device_sig_def)

lemma activate_pairing_cases:
  assumes "activate_pairing pv now md p db = (r, db', ns)"
  obtains "db' = db" "\<exists>e. r = Inl e" "ns = []"
  | es where "pair_claimed_by_user_id p \<noteq> None" "pair_device_id p = None" "pair_refresh_credential_hash p \<noteq> None"
    "\<forall>d \<in> set (devices db). \<not> (dev_public_key d = pair_public_key p \<and> dev_status d = ACTIVE)"
    "\<forall>d \<in> set (devices db). dev_id d \<noteq> pair_id p \<and> dev_refresh_credential_hash d \<noteq> pair_refresh_credential_hash p"
    "append_all event_append now [device_event (pv_pystr pv) ''offline'' (activated_device now p)]
       (add_audit (complete_audit now md p (activated_device now p))
         (put_pairing (completed_pairing now p) (db\<lparr>devices := devices db @ [activated_device now p]\<rparr>))) = Inr (es, db')"
    "r = Inr (completed_pairing now p, Some (activated_device now p))"
    "ns = map (Publish_Event (dev_owner_user_id (activated_device now p))) es"
proof -
  let ?d = "activated_device now p"
  let ?c1 = "pair_claimed_by_user_id p = None \<or> pair_device_id p \<noteq> None \<or> pair_refresh_credential_hash p = None"
  let ?c2 = "exists_where (\<lambda>d. dev_public_key d = pair_public_key p \<and> dev_status d = ACTIVE) (devices db)"
  let ?c3 = "exists_where (\<lambda>x. dev_id x = dev_id ?d \<or> dev_refresh_credential_hash x = dev_refresh_credential_hash ?d) (devices db)"
  have d: "dev_id ?d = pair_id p" "dev_refresh_credential_hash ?d = pair_refresh_credential_hash p"
    by (simp_all add: activated_device_def candidate_device_def)
  note run = assms [unfolded activate_pairing_def Let_def]
  show thesis
  proof (cases "?c1 \<or> ?c2 \<or> ensure_device_projection_fits (pv_fmt pv) (pv_pystr pv) ?d \<noteq> None \<or> ?c3")
    case True
    then have "db' = db \<and> (\<exists>e. r = Inl e) \<and> ns = []"
      using run by (auto split: if_splits option.splits capacity_error.splits)
    then show thesis using that(1) by blast
  next
    case False
    let ?app = "append_all event_append now [device_event (pv_pystr pv) ''offline'' ?d] (add_audit (complete_audit now md p ?d)
         (put_pairing (completed_pairing now p) (db\<lparr>devices := devices db @ [?d]\<rparr>)))"
    have c: "\<not> ?c1" "\<not> ?c2" "ensure_device_projection_fits (pv_fmt pv) (pv_pystr pv) ?d = None" "\<not> ?c3" using False by blast+
    note run = run [unfolded if_not_P [OF c(1)] if_not_P [OF c(2)] c(3) option.case if_not_P [OF c(4)]]
    show thesis
    proof (cases ?app)
      case (Inl e)
      then show thesis using run by (intro that(1)) auto
    next
      case (Inr v)
      then show thesis using run c d by (intro that(2) [of "fst v"]) (auto split: prod.splits)
    qed
  qed
qed

lemma activate_pairing_ok:
  assumes "activate_pairing pv now md p db = (r, db', ns)" "p \<in> set (device_pairings db)" "pair_status p = PAIRING_CLAIMED"
    and "pairings_ok cfg db"
  shows "pairings_ok cfg db'"
  using assms(1)
proof (cases rule: activate_pairing_cases)
  case (2 es)
  let ?d = "activated_device now p" and ?p = "completed_pairing now p"
  let ?db1 = "db\<lparr>devices := devices db @ [?d]\<rparr>"
  let ?db2 = "put_pairing ?p ?db1"
  obtain owner where owner: "pair_claimed_by_user_id p = Some owner" using 2(1) by auto
  have sig: "device_sig ?d = (pair_id p, owner, pair_public_key p, ACTIVE)"
    by (simp add: device_sig_def activated_device_def candidate_device_def owner or_empty_def)
  have p': "pair_id ?p = pair_id p" "pairing_row_ok ?p" "claimed_for ow p \<longleftrightarrow> ow = owner" "\<not> claimed_for ow ?p" "\<not> live_pairing ?p" for ow
    using assms(3) owner by (auto simp: completed_pairing_def pairing_row_ok_def claimed_for_def live_pairing_def)
  have old: "pairing_rows_ok (device_pairings ?db1)" using assms(4) by (simp add: pairings_ok_def)
  have rows: "pairing_rows_ok (device_pairings ?db2)"
    using pairing_rows_put [of "device_pairings db" p ?p] assms(2,4) p'(2,5) by (simp add: pairings_ok_def completed_pairing_def)
  have res: "reservations ow ?db2 + (if ow = owner then 1 else 0) = reservations ow db" for ow
    using put_reservations [OF old, of p ?p ow] assms(2) p' by (simp add: reservations_def)
  have quotas: "device_quotas cfg ?db2"
    unfolding device_quotas_def
  proof
    fix ow
    have "active_device_count db ow + reservations ow db \<le> bootstrap_max_devices cfg \<and> total_device_count db ow + reservations ow db \<le> owner_max_device_records cfg"
      using assms(4) by (simp add: pairings_ok_def device_quotas_def)
    then show "active_device_count ?db2 ow + reservations ow ?db2 \<le> bootstrap_max_devices cfg
        \<and> total_device_count ?db2 ow + reservations ow ?db2 \<le> owner_max_device_records cfg"
      using res [of ow] by (auto simp: counts_by_sigs sig)
  qed
  have "keys_unique (device_sigs db @ [device_sig ?d])"
  proof -
    have "\<not> (k = pair_public_key p \<and> st = ACTIVE)" if "(i, ow, k, st) \<in> set (device_sigs db)" for i ow k st
      using that 2(4) by (auto simp: device_sigs_def device_sig_def)
    then show ?thesis
      using assms(4) unfolding pairings_ok_def keys_unique_def sig by fastforce
  qed
  then have "pairings_ok cfg ?db2" using rows quotas by (simp add: pairings_ok_def)
  then have "pairings_ok cfg (add_audit (complete_audit now md p ?d) ?db2)" by simp
  then show ?thesis using pairings_ok_cong [OF append_all_pairings [OF 2(6)]] by blast
qed (use assms(4) in simp)

lemma poll_pairing_cases:
  assumes "poll_pairing pv now md i poll_token db = (r, db', ns)"
  obtains "devices db' = devices db" "device_pairings db' = device_pairings db" "ns = []"
      "db' = db \<or> (\<exists>a. db' = add_audit a db)"
  | p where "pairing_at i db = Some p" "expire_unactivated now md p db = Inr db'" "ns = []" "r = Inl Pairing_Expired"
  | p where "pairing_at i db = Some p" "pair_status p = PAIRING_CLAIMED" "now < pair_expires_at p" "pair_protocol_version p = 2"
      "pair_poll_token_hash p = token_digest (pv_hmac pv) ''pairing-poll-v2'' (pairing_secret_commitment pv poll_token)"
      "activate_pairing pv now md p db = (r, db', ns)"
proof (cases "pairing_at i db")
  case None
  then show thesis using assms by (intro that(1)) (auto simp: poll_pairing_def)
next
  case (Some p)
  let ?c1 = "pair_protocol_version p \<noteq> 2
     \<or> token_digest (pv_hmac pv) ''pairing-poll-v2'' (pairing_secret_commitment pv poll_token) \<noteq> pair_poll_token_hash p"
  note run = assms [unfolded poll_pairing_def Some option.case]
  consider ?c1 | "\<not> ?c1" "pair_status p = PAIRING_COMPLETED" | "\<not> ?c1" "pair_status p \<noteq> PAIRING_COMPLETED" "pair_expires_at p \<le> now"
    | "\<not> ?c1" "pair_status p \<in> {PAIRING_PENDING, PAIRING_EXPIRED, PAIRING_CANCELLED}" "\<not> pair_expires_at p \<le> now"
    | "\<not> ?c1" "pair_status p = PAIRING_CLAIMED" "\<not> pair_expires_at p \<le> now"
    by (cases "pair_status p") auto
  then show thesis
  proof cases
    case 1
    then show thesis using run by (intro that(1)) (auto simp: add_audit_def)
  next
    case 2
    note run = run [unfolded if_not_P [OF 2(1)] if_P [OF 2(2)]]
    have "db' = db \<and> ns = []" using run by (auto split: option.splits if_splits)
    then show thesis by (intro that(1)) auto
  next
    case 3
    note run = run [unfolded if_not_P [OF 3(1)] if_not_P [OF 3(2)] if_P [OF 3(3)]]
    then show thesis using 3(2) by (intro that(2) [OF Some]) (auto simp: expire_unactivated_def)
  next
    case 4
    have nc: "pair_status p \<noteq> PAIRING_COMPLETED" using 4(2) by auto
    note run = run [unfolded if_not_P [OF 4(1)] if_not_P [OF nc] if_not_P [OF 4(3)]]
    have "db' = db \<and> ns = []" using run 4(2) by (auto split: if_splits)
    then show thesis by (intro that(1)) auto
  next
    case 5
    then show thesis using run by (intro that(3) [OF Some]) auto
  qed
qed

lemma poll_pairing_ok:
  assumes "poll_pairing pv now md i poll_token db = (r, db', ns)" "pairings_ok cfg db"
  shows "pairings_ok cfg db'"
  using assms(1)
proof (cases rule: poll_pairing_cases)
  case 1
  then show ?thesis using pairings_ok_cong [of db' db] assms(2) by (simp add: device_sigs_def)
next
  case (2 p)
  then show ?thesis using expire_unactivated_ok [OF 2(2) _ assms(2)] pairing_at_in [OF 2(1)] by blast
next
  case (3 p)
  then show ?thesis using activate_pairing_ok [OF 3(6) _ 3(2) assms(2)] pairing_at_in [OF 3(1)] by blast
qed

lemma expire_each_ok:
  "pairings_ok cfg db \<Longrightarrow> pairings_ok cfg (snd (expire_each locked now ids db)) \<and> devices (snd (expire_each locked now ids db)) = devices db"
proof (induction ids arbitrary: db)
  case (Cons i ids)
  show ?case
  proof (cases "scalar (\<lambda>p. pair_id p = i \<and> pairing_due now p \<and> \<not> locked i) (device_pairings db)")
    case None
    then show ?thesis using Cons by simp
  next
    case (Some p)
    then have p: "p \<in> set (device_pairings db)" by (rule scalar_SomeD)
    show ?thesis
    proof (cases "expire_unactivated now no_metadata p db")
      case (Inl e)
      then show ?thesis using Cons Some by simp
    next
      case (Inr db1)
      then show ?thesis
        using Cons.IH [OF expire_unactivated_ok [OF Inr p Cons.prems]] Some expire_unactivated_rows(2) [OF Inr]
        by (cases "expire_each locked now ids db1") auto
    qed
  qed
qed simp


section \<open>Activation\<close>

lemma completed_at:
  assumes "pairing_rows_ok (device_pairings db)" "pairing_at i db = Some p"
    and "device_pairings db' = update_where (\<lambda>x. pair_id x = pair_id p') (\<lambda>_. p') (device_pairings db)" "pair_id p' = pair_id p"
  shows "pairing_at i db' = Some p'"
proof -
  note p = pairing_at_in [OF assms(2)]
  show ?thesis
    unfolding pairing_at_def
  proof (rule scalar_unique [where key = pair_id])
    show "distinct (map pair_id (device_pairings db'))"
      using assms(1,4) unfolding assms(3) pairing_rows_ok_def by (simp add: map_update_where)
    show "p' \<in> set (device_pairings db')"
      using p assms(4) unfolding assms(3) in_set_update_where by force
  qed (use p assms(4) in auto)
qed

lemma append_one: "append_all emit now [spec] db = Inr (es, db') \<Longrightarrow> \<exists>e. es = [e]"
  by (cases spec) (auto split: sum.splits)

lemma appended_device:
  assumes "append_all event_append now specs db = Inr (es, db')" "x \<in> set (devices db')"
  obtains y where "y \<in> set (devices db)" "x = y\<lparr>dev_last_event_sequence := dev_last_event_sequence x\<rparr>"
proof -
  let ?n = "\<lambda>d. d\<lparr>dev_last_event_sequence := 0\<rparr>"
  have "map ?n (devices db') = map ?n (devices db)"
    using core_of_devices [OF stream.append_all_keeps(1) [OF assms(1)], of ?n] by simp
  then obtain y where y: "y \<in> set (devices db)" "?n x = ?n y"
    using assms(2) by (metis (no_types, lifting) image_iff list.set_map)
  have "x = y\<lparr>dev_last_event_sequence := dev_last_event_sequence x\<rparr>"
    by (insert y(2), cases x, cases y) simp
  then show thesis using that y(1) by blast
qed

text \<open>The device that an activation adds, as the event of its creation leaves it.\<close>

lemma new_device_fields:
  assumes app: "append_all event_append now specs
       (add_audit a (put_pairing q (db\<lparr>devices := devices db @ [activated_device now p]\<rparr>))) = Inr (es, db')"
    and owner: "pair_claimed_by_user_id p = Some owner"
    and x: "x \<in> set (devices db')" "dev_id x \<notin> dev_id ` set (devices db)"
  shows "dev_id x = pair_id p \<and> dev_owner_user_id x = owner \<and> dev_public_key x = pair_public_key p \<and> dev_name x = pair_device_name p
    \<and> dev_workspace_roots x = pair_workspace_roots p \<and> dev_refresh_credential_hash x = pair_refresh_credential_hash p
    \<and> dev_status x = ACTIVE \<and> dev_credential_scheme x = 2 \<and> device_sig x = device_sig (activated_device now p)"
proof -
  let ?d = "activated_device now p"
  obtain y where y: "y \<in> set (devices (add_audit a (put_pairing q (db\<lparr>devices := devices db @ [?d]\<rparr>))))"
    "x = y\<lparr>dev_last_event_sequence := dev_last_event_sequence x\<rparr>"
    by (rule appended_device [OF app x(1)])
  have "dev_id x = dev_id y" by (subst y(2)) simp
  then have "y \<notin> set (devices db)" using x(2) by (metis imageI)
  then have "y = ?d" using y(1) by (simp add: add_audit_def)
  then obtain n where x': "x = ?d\<lparr>dev_last_event_sequence := n\<rparr>" using y(2) by blast
  show ?thesis
    unfolding x' by (simp add: device_sig_def activated_device_def candidate_device_def owner or_empty_def)
qed

text \<open>C12: A device comes into being only by the poll of the device that holds the poll secret of a pairing which a
  user has claimed and which has not expired; it belongs to that user and has exactly the key, the name, the roots
  and the refresh credential of the pairing.  The pairing is completed in the same transaction, the new device is
  announced to its owner, no other device changes its identity, owner, key or status, and every later poll with the
  same secret returns the completed pairing and the device without changing anything.\<close>

theorem device_activation:
  assumes "poll_pairing pv now md i poll_token db = (r, db', ns)" "pairings_ok cfg db"
    and new: "d \<in> set (devices db')" "dev_id d \<notin> dev_id ` set (devices db)"
  shows "\<exists>p owner. pairing_at i db = Some p \<and> pair_status p = PAIRING_CLAIMED \<and> now < pair_expires_at p
    \<and> pair_poll_token_hash p = token_digest (pv_hmac pv) ''pairing-poll-v2'' (pairing_secret_commitment pv poll_token)
    \<and> pair_claimed_by_user_id p = Some owner \<and> dev_owner_user_id d = owner \<and> dev_id d = i
    \<and> dev_public_key d = pair_public_key p \<and> dev_name d = pair_device_name p \<and> dev_workspace_roots d = pair_workspace_roots p
    \<and> dev_refresh_credential_hash d = pair_refresh_credential_hash p \<and> dev_status d = ACTIVE
    \<and> pairing_at i db' = Some (completed_pairing now p)
    \<and> device_sigs db' = device_sigs db @ [device_sig d]
    \<and> (\<exists>e. ns = [Publish_Event owner e])
    \<and> (\<forall>now2 md2. \<exists>d2. poll_pairing pv now2 md2 i poll_token db' = (Inr (completed_pairing now p, Some d2), db', [])
         \<and> d2 \<in> set (devices db') \<and> dev_id d2 = i)"
  using assms(1)
proof (cases rule: poll_pairing_cases)
  case 1
  then show ?thesis using new by auto
next
  case (2 p)
  then show ?thesis using new expire_unactivated_rows(2) [OF 2(2)] by auto
next
  case (3 p)
  note pin = pairing_at_in [OF 3(1)]
  from 3(6) show ?thesis
  proof (cases rule: activate_pairing_cases)
    case 1
    then show ?thesis using new by auto
  next
    case (2 es)
    let ?d = "activated_device now p" and ?p = "completed_pairing now p"
    obtain owner where owner: "pair_claimed_by_user_id p = Some owner" using 2(1) by auto
    note keep = append_all_pairings [OF 2(6)]
    have rows: "device_pairings db' = update_where (\<lambda>x. pair_id x = pair_id ?p) (\<lambda>_. ?p) (device_pairings db)"
      using keep(1) by simp
    have at: "pairing_at i db' = Some ?p"
      by (rule completed_at [OF _ 3(1) rows]) (use assms(2) in \<open>simp_all add: pairings_ok_def completed_pairing_def\<close>)
    have sigs: "device_sigs db' = device_sigs db @ [device_sig ?d]" using keep(2) by simp
    have id_new: "pair_id p \<notin> dev_id ` set (devices db)" using 2(5) by force
    note fields = new_device_fields [OF 2(6) owner]
    obtain d2 where d2: "scalar (\<lambda>x. dev_id x = i) (devices db') = Some d2"
      using fields [OF new] pin new(1) scalar_None_iff [of "\<lambda>x. dev_id x = i" "devices db'"] by auto
    then have d2': "d2 \<in> set (devices db')" "dev_id d2 = i" by (auto dest: scalar_SomeD)
    have "dev_id d2 \<notin> dev_id ` set (devices db)" using d2'(2) id_new pin by simp
    then have F: "dev_status d2 = ACTIVE" "dev_refresh_credential_hash d2 = pair_refresh_credential_hash p"
      using fields [OF d2'(1)] by blast+
    have fin: "pair_status ?p = PAIRING_COMPLETED" "pair_device_id ?p = Some i" "pair_protocol_version ?p = 2"
      "pair_refresh_credential_hash ?p = pair_refresh_credential_hash p" "pair_refresh_credential_hash p \<noteq> None"
      "pair_poll_token_hash ?p = token_digest (pv_hmac pv) ''pairing-poll-v2'' (pairing_secret_commitment pv poll_token)"
      using 3(4,5) 2(3) pin by (simp_all add: completed_pairing_def)
    have "poll_pairing pv now2 md2 i poll_token db' = (Inr (?p, Some d2), db', [])" for now2 md2
      using at d2 fin F by (simp add: poll_pairing_def)
    moreover have "\<exists>e. ns = [Publish_Event owner e]"
      using append_one [OF 2(6)] 2(8) owner by (auto simp: activated_device_def candidate_device_def or_empty_def)
    ultimately show ?thesis
      using 3(1-3,5) owner fields [OF new] pin at sigs d2' by auto
  qed
qed

text \<open>The row of the activated device after the poll.\<close>

lemma polled_device:
  assumes poll: "poll_pairing pv now md i poll_token db = (Inr (q, Some d), db', ns)"
    and p: "pairing_at i db = Some p" "pair_status p = PAIRING_CLAIMED"
  obtains x owner where "scalar (\<lambda>x. dev_id x = i) (devices db') = Some x" "dev_id x = i" "dev_status x = ACTIVE"
    "dev_credential_scheme x = 2" "dev_public_key x = pair_public_key p" "dev_refresh_credential_hash x = pair_refresh_credential_hash p"
    "pair_claimed_by_user_id p = Some owner" "dev_owner_user_id x = owner"
proof -
  have "activate_pairing pv now md p db = (Inr (q, Some d), db', ns)"
    using poll p by (auto simp: poll_pairing_def split: if_splits sum.splits)
  then show thesis
  proof (cases rule: activate_pairing_cases)
    case (2 es)
    obtain owner where owner: "pair_claimed_by_user_id p = Some owner" using 2(1) by auto
    note pin = pairing_at_in [OF p(1)]
    have "device_sigs db' = device_sigs db @ [device_sig (activated_device now p)]" using append_all_pairings(2) [OF 2(6)] by simp
    then have "device_sig (activated_device now p) \<in> device_sig ` set (devices db')"
      unfolding device_sigs_def by (metis in_set_conv_decomp list.set_map)
    then have "\<exists>x \<in> set (devices db'). dev_id x = i"
      using pin by (auto simp: device_sig_def activated_device_def candidate_device_def)
    then obtain x where x: "scalar (\<lambda>x. dev_id x = i) (devices db') = Some x"
      using scalar_None_iff [of "\<lambda>x. dev_id x = i" "devices db'"] by auto
    note x' = scalar_SomeD [OF x]
    have "dev_id x \<notin> dev_id ` set (devices db)" using x'(2) 2(5) pin by force
    then show thesis using that [OF x x'(2)] new_device_fields [OF 2(6) owner x'(1)] owner by blast
  qed auto
qed

section \<open>The handshake\<close>

lemma fits_owner:
  "ensure_device_projection_fits fmt pystr (candidate_device now i owner name key metadata roots) =
     ensure_device_projection_fits fmt pystr (candidate_device now' i owner' name key' metadata roots)"
  by (simp add: ensure_device_projection_fits_def device_bootstrap_summary_def summary_of_def candidate_device_def)

lemma fits_activated:
  "ensure_device_projection_fits fmt pystr (activated_device now p) =
     ensure_device_projection_fits fmt pystr (candidate_device now' (pair_id p) owner (pair_device_name p) key
       (pair_device_metadata p) (pair_workspace_roots p))"
  by (simp add: ensure_device_projection_fits_def device_bootstrap_summary_def summary_of_def candidate_device_def activated_device_def)

lemma accept_start_Inr:
  assumes "accept_start pv now rq = Inr si"
  shows "si_pairing_id si = sr_pairing_id rq" "si_device_name si = sr_device_name rq" "si_device_metadata si = sr_device_metadata rq"
    "si_workspace_roots si = sr_workspace_roots rq" "si_workspace_roots si \<noteq> []"
    "Some (si_public_key si) = canonicalize_ed25519_public_key (sr_public_key rq)"
    "si_code_hash si = token_digest (pv_hmac pv) ''pairing-code-v2'' (sr_code_commitment rq)"
    "si_poll_token_hash si = token_digest (pv_hmac pv) ''pairing-poll-v2'' (sr_poll_token_commitment rq)"
    "si_refresh_credential_hash si = token_digest (pv_hmac pv) ''device-refresh-v2'' (sr_refresh_credential_commitment rq)"
    "ensure_device_projection_fits (pv_fmt pv) (pv_pystr pv) (candidate_device now' (si_pairing_id si) owner (si_device_name si)
       key (si_device_metadata si) (si_workspace_roots si)) = None"
    "verify_start_proof pv (signed_fields pv rq (si_public_key si) (si_workspace_roots si)) (sr_signature rq)"
    "sr_audience rq \<in> set (expected_audiences pv)"
proof -
  obtain k roots where k: "canonicalize_ed25519_public_key (sr_public_key rq) = Some k"
    "canonicalize_workspace_roots (sr_workspace_roots rq) = Inr roots"
    using assms by (auto simp: accept_start_def split: option.splits sum.splits)
  note run = assms [unfolded accept_start_def k option.case sum.case]
  have fits: "ensure_device_projection_fits (pv_fmt pv) (pv_pystr pv) (candidate_device now (sr_pairing_id rq) (u ''pairing-candidate'')
          (sr_device_name rq) k (sr_device_metadata rq) roots) = None"
    using run by (auto split: if_splits option.splits)
  note run = run [unfolded fits option.case]
  note roots = canonicalize_Inr [OF k(2)]
  show "si_pairing_id si = sr_pairing_id rq" "si_device_name si = sr_device_name rq" "si_device_metadata si = sr_device_metadata rq"
    "si_workspace_roots si = sr_workspace_roots rq" "si_workspace_roots si \<noteq> []"
    "Some (si_public_key si) = canonicalize_ed25519_public_key (sr_public_key rq)"
    "si_code_hash si = token_digest (pv_hmac pv) ''pairing-code-v2'' (sr_code_commitment rq)"
    "si_poll_token_hash si = token_digest (pv_hmac pv) ''pairing-poll-v2'' (sr_poll_token_commitment rq)"
    "si_refresh_credential_hash si = token_digest (pv_hmac pv) ''device-refresh-v2'' (sr_refresh_credential_commitment rq)"
    "verify_start_proof pv (signed_fields pv rq (si_public_key si) (si_workspace_roots si)) (sr_signature rq)"
    "sr_audience rq \<in> set (expected_audiences pv)"
    using run roots(1,3) k(1) by (auto split: if_splits)
  have si: "si_workspace_roots si = roots" "si_pairing_id si = sr_pairing_id rq" "si_device_name si = sr_device_name rq"
    "si_device_metadata si = sr_device_metadata rq"
    using run by (auto split: if_splits)
  show "ensure_device_projection_fits (pv_fmt pv) (pv_pystr pv) (candidate_device now' (si_pairing_id si) owner (si_device_name si)
       key (si_device_metadata si) (si_workspace_roots si)) = None"
    unfolding si using fits fits_owner by metis
qed

lemma expire_pairings_frame:
  assumes "expire_pairings now md ps db = Inr db'" "set ps \<subseteq> set (device_pairings db)" "distinct (map pair_id ps)" "pairings_ok cfg db"
  shows "event_logs db' = event_logs db \<and> event_owner_cursors db' = event_owner_cursors db
    \<and> (\<forall>owner. count_where (claimed_for owner) (device_pairings db') \<le> count_where (claimed_for owner) (device_pairings db))"
  using assms
proof (induction ps arbitrary: db)
  case (Cons p ps)
  obtain db1 where e: "expire_unactivated now md p db = Inr db1" and rest: "expire_pairings now md ps db1 = Inr db'"
    using Cons.prems(1) by (auto split: sum.splits)
  note rows = expire_unactivated_rows [OF e]
  have ids: "distinct (map pair_id (device_pairings db))" using Cons.prems(4) by (simp add: pairings_ok_def pairing_rows_ok_def)
  have p: "p \<in> set (device_pairings db)" using Cons.prems(2) by simp
  have frame: "event_logs db1 = event_logs db" "event_owner_cursors db1 = event_owner_cursors db"
    using e by (auto simp: expire_unactivated_def add_audit_def put_pairing_def split: if_splits)
  note IH = Cons.IH [OF rest others_remain [OF Cons.prems(2,3) rows(1)] _ expire_unactivated_ok [OF e p Cons.prems(4)]]
  have "count_where (claimed_for owner) (device_pairings db1) \<le> count_where (claimed_for owner) (device_pairings db)" for owner
    using count_where_replace [of pair_id, OF ids p, of "p\<lparr>pair_status := PAIRING_EXPIRED\<rparr>" "claimed_for owner"]
    by (simp add: rows claimed_for_def split: if_splits)
  then show ?case using IH Cons.prems(3) frame by (auto intro: order_trans)
qed simp

text \<open>A start of an unknown pairing that succeeds has stored a pending row.\<close>

lemma fresh_start_stored:
  assumes "start_pairing pv cfg now md None rq db = (Inr p, db')" "pairings_ok cfg db"
    and "pairing_at (sr_pairing_id rq) db = None" "\<forall>d \<in> set (devices db). dev_id d \<noteq> sr_pairing_id rq"
  obtains si where "accept_start pv now rq = Inr si" "p = new_pairing cfg now md si" "p \<in> set (device_pairings db')"
    "pairings_ok cfg db'" "devices db' = devices db" "event_logs db' = event_logs db" "event_owner_cursors db' = event_owner_cursors db"
    "\<forall>d \<in> set (devices db). \<not> (dev_public_key d = si_public_key si \<and> dev_status d = ACTIVE)
       \<and> dev_refresh_credential_hash d \<noteq> Some (si_refresh_credential_hash si)"
    "\<forall>owner. reservations owner db' \<le> reservations owner db"
proof -
  have dev: "scalar (\<lambda>d. dev_id d = sr_pairing_id rq) (devices db) = None"
    using assms(4) by (simp add: scalar_None_iff)
  obtain si where si: "accept_start pv now rq = Inr si" using assms(1) by (cases "accept_start pv now rq") (auto simp: start_pairing_def)
  note id = accept_start_Inr(1) [OF si]
  have run: "fresh_start cfg now md None si db = (Inr p, db')"
    using assms(1,3) dev si id by (simp add: start_pairing_def)
  let ?live = "filter (\<lambda>p. pair_public_key p = si_public_key si \<and> live_pairing p) (device_pairings db)"
  let ?p = "new_pairing cfg now md si"
  obtain db1 where e: "expire_pairings now md ?live db = Inr db1" and ins: "insert_start cfg now md None si db db1 = (Inr p, db')"
    and free: "\<not> exists_where (\<lambda>d. dev_public_key d = si_public_key si \<and> dev_status d = ACTIVE) (devices db1)"
      "\<not> exists_where (\<lambda>d. dev_refresh_credential_hash d = Some (si_refresh_credential_hash si)) (devices db)"
    using run by (auto simp: fresh_start_def Let_def split: if_splits option.splits sum.splits)
  have unique: "pairing_unique ?p (device_pairings db1)"
    using ins assms(3) id by (auto simp: insert_start_def Let_def split: if_splits)
  then have p: "p = ?p" and db': "db' = add_audit (start_audit now md si ?p) (db1\<lparr>device_pairings := device_pairings db1 @ [?p]\<rparr>)"
    using ins by (auto simp: insert_start_def Let_def)
  have "distinct (map pair_id ?live)"
    using assms(2) by (simp add: pairings_ok_def pairing_rows_ok_def distinct_map_filter)
  note E = expire_pairings_ok [OF e _ this assms(2)] and F = expire_pairings_frame [OF e _ this assms(2)]
  have "\<not> claimed_for owner ?p" for owner by (simp add: claimed_for_def new_pairing_def)
  then have "\<forall>owner. reservations owner db' \<le> reservations owner db"
    using F by (auto simp: db' reservations_claimed)
  moreover have "\<forall>d \<in> set (devices db). \<not> (dev_public_key d = si_public_key si \<and> dev_status d = ACTIVE)
       \<and> dev_refresh_credential_hash d \<noteq> Some (si_refresh_credential_hash si)"
    using free E by auto
  ultimately show thesis
    using that [OF si p] start_pairing_ok [OF assms(1,2)] E F by (auto simp: db' add_audit_def p)
qed

lemma events_wf_add_device:
  assumes "events_wf db" "dev_id d \<notin> dev_id ` set (devices db)"
  shows "events_wf (db\<lparr>devices := devices db @ [d]\<rparr>)"
proof -
  have "stream_last o' (db\<lparr>devices := devices db @ [d]\<rparr>) = stream_last o' db"
    "stream_min o' (db\<lparr>devices := devices db @ [d]\<rparr>) = stream_min o' db" for o'
    by (simp_all add: stream_last_def stream_min_def cursor_row_def)
  then show ?thesis using assms unfolding events_wf_def by auto
qed

text \<open>A pending pairing can be claimed with its code while the owner has room for one more device.\<close>

lemma claim_succeeds:
  assumes "pairings_ok cfg db" "p \<in> set (device_pairings db)" "pair_status p = PAIRING_PENDING" "now < pair_expires_at p"
    and "normalize_pairing_code code = Some n"
    and "pair_code_hash p = token_digest (pv_hmac pv) ''pairing-code-v2'' (pairing_secret_commitment pv n)"
    and "pair_workspace_roots p \<noteq> []" "\<forall>d \<in> set (devices db). \<not> (dev_public_key d = pair_public_key p \<and> dev_status d = ACTIVE)"
    and "ensure_device_projection_fits (pv_fmt pv) (pv_pystr pv) (candidate_device now (pair_id p) (ses_sub2api_user_id s) (pair_device_name p)
          (pair_public_key p) (pair_device_metadata p) (pair_workspace_roots p)) = None"
    and "active_device_count db (ses_sub2api_user_id s) + reservations (ses_sub2api_user_id s) db < bootstrap_max_devices cfg"
    and "total_device_count db (ses_sub2api_user_id s) + reservations (ses_sub2api_user_id s) db < owner_max_device_records cfg"
  obtains a where "claim_pairing pv cfg now md s code db =
    (Inr (claimed_pairing now s p), add_audit a (put_pairing (claimed_pairing now s p) (snd (lock_owner_cursor (ses_sub2api_user_id s) db))))"
proof -
  have "scalar (\<lambda>x. pair_code_hash x = pair_code_hash p) (device_pairings db) = Some p"
    by (rule scalar_unique [where key = pair_code_hash]) (use assms(1,2) in \<open>auto simp: pairings_ok_def pairing_rows_ok_def\<close>)
  moreover have "device_sigs (snd (lock_owner_cursor (ses_sub2api_user_id s) db)) = device_sigs db"
    by (simp add: device_sigs_def)
  ultimately show thesis
    using assms that by (simp add: claim_pairing_def claim_pending_def Let_def counts_by_sigs reservations_def)
qed

lemma append_device_event:
  assumes "events_wf db" "d \<in> set (devices db)" "dev_last_event_sequence d = 0" "stream_last (dev_owner_user_id d) db < MAX_EVENT_CURSOR"
  shows "\<exists>e db'. append_all event_append now [device_event pystr status d] db = Inr ([e], db')"
proof -
  have s: "scalar (\<lambda>x. dev_id x = dev_id d \<and> dev_owner_user_id x = dev_owner_user_id d) (devices db) = Some d"
    by (rule scalar_unique [where key = dev_id]) (use assms(1,2) in \<open>auto simp: events_wf_def\<close>)
  have "event_append now (dev_owner_user_id d) (dev_id d) ty data None None db \<noteq> Inl err" for ty data err
    using append_Inl [OF assms(1), of now "dev_owner_user_id d" "dev_id d" ty data None None err] s assms(3,4)
    by (simp add: MAX_EVENT_CURSOR_def)
  then obtain v where "event_append now (dev_owner_user_id d) (dev_id d) ''device.updated'' (DeviceData (summary_of pystr status d)) None None db = Inr v"
    by (metis sum.exhaust)
  then show ?thesis by (cases v) (simp add: device_event_def)
qed

text \<open>A claimed pairing becomes a device at the next poll of its device.\<close>

lemma poll_succeeds:
  assumes "pairing_at i db = Some p" "pair_status p = PAIRING_CLAIMED" "now < pair_expires_at p" "pair_protocol_version p = 2"
    and "pair_poll_token_hash p = token_digest (pv_hmac pv) ''pairing-poll-v2'' (pairing_secret_commitment pv poll_token)"
    and "pair_claimed_by_user_id p = Some owner" "pair_device_id p = None" "pair_refresh_credential_hash p = Some h"
    and "\<forall>d \<in> set (devices db). dev_id d \<noteq> i \<and> \<not> (dev_public_key d = pair_public_key p \<and> dev_status d = ACTIVE)
       \<and> dev_refresh_credential_hash d \<noteq> Some h"
    and "ensure_device_projection_fits (pv_fmt pv) (pv_pystr pv) (activated_device now p) = None"
    and "events_wf db" "stream_last owner db < MAX_EVENT_CURSOR"
  shows "\<exists>e db'. poll_pairing pv now md i poll_token db =
    (Inr (completed_pairing now p, Some (activated_device now p)), db', [Publish_Event owner e])
    \<and> device_sigs db' = device_sigs db @ [device_sig (activated_device now p)]"
proof -
  let ?d = "activated_device now p"
  let ?db1 = "add_audit (complete_audit now md p ?d) (put_pairing (completed_pairing now p) (db\<lparr>devices := devices db @ [?d]\<rparr>))"
  have d: "dev_id ?d = i" "dev_owner_user_id ?d = owner" "dev_refresh_credential_hash ?d = Some h" "dev_last_event_sequence ?d = 0"
    using pairing_at_in [OF assms(1)] assms(6,8) by (simp_all add: activated_device_def candidate_device_def or_empty_def)
  have "dev_id ?d \<notin> dev_id ` set (devices db)" using assms(9) d(1) by auto
  then have "events_wf ?db1"
    using events_wf_cong [of ?db1 "db\<lparr>devices := devices db @ [?d]\<rparr>"] events_wf_add_device [OF assms(11)]
    by (simp add: add_audit_def put_pairing_def)
  moreover have "?d \<in> set (devices ?db1)" by (simp add: add_audit_def)
  moreover have "stream_last owner ?db1 = stream_last owner db"
    by (simp add: stream_last_def cursor_row_def add_audit_def put_pairing_def)
  ultimately obtain e db' where app: "append_all event_append now [device_event (pv_pystr pv) ''offline'' ?d] ?db1 = Inr ([e], db')"
    using append_device_event [of ?db1 ?d now "pv_pystr pv" "''offline''"] d assms(12) by auto
  then have "activate_pairing pv now md p db = (Inr (completed_pairing now p, Some ?d), db', [Publish_Event owner e])"
    using assms(6-10) d by (simp add: activate_pairing_def Let_def)
  then show ?thesis using assms(1-5) append_all_pairings(2) [OF app] by (simp add: poll_pairing_def)
qed

lemma handshake_claimed:
  assumes start: "start_pairing pv cfg t0 md None rq db = (Inr p, db1)" and ok: "pairings_ok cfg db" "events_wf db"
    and fresh: "pairing_at (sr_pairing_id rq) db = None" "\<forall>d \<in> set (devices db). dev_id d \<noteq> sr_pairing_id rq"
    and code: "normalize_pairing_code code = Some n" "sr_code_commitment rq = pairing_secret_commitment pv n"
    and time: "t1 < t0 + seconds (int (pairing_ttl_seconds cfg))"
    and room: "active_device_count db (ses_sub2api_user_id s) + reservations (ses_sub2api_user_id s) db < bootstrap_max_devices cfg"
      "total_device_count db (ses_sub2api_user_id s) + reservations (ses_sub2api_user_id s) db < owner_max_device_records cfg"
  obtains si a where "accept_start pv t0 rq = Inr si" "p = new_pairing cfg t0 md si"
    "claim_pairing pv cfg t1 md1 s code db1 = (Inr (claimed_pairing t1 s p),
       add_audit a (put_pairing (claimed_pairing t1 s p) (snd (lock_owner_cursor (ses_sub2api_user_id s) db1))))"
    "pairing_at (sr_pairing_id rq) (put_pairing (claimed_pairing t1 s p) (snd (lock_owner_cursor (ses_sub2api_user_id s) db1)))
       = Some (claimed_pairing t1 s p)"
    "devices db1 = devices db" "events_wf db1" "event_owner_cursors db1 = event_owner_cursors db"
    "\<forall>d \<in> set (devices db). \<not> (dev_public_key d = si_public_key si \<and> dev_status d = ACTIVE)
       \<and> dev_refresh_credential_hash d \<noteq> Some (si_refresh_credential_hash si)"
proof -
  let ?o = "ses_sub2api_user_id s"
  obtain si where S: "accept_start pv t0 rq = Inr si" "p = new_pairing cfg t0 md si" "p \<in> set (device_pairings db1)"
    "pairings_ok cfg db1" "devices db1 = devices db" "event_logs db1 = event_logs db" "event_owner_cursors db1 = event_owner_cursors db"
    "\<forall>d \<in> set (devices db). \<not> (dev_public_key d = si_public_key si \<and> dev_status d = ACTIVE)
       \<and> dev_refresh_credential_hash d \<noteq> Some (si_refresh_credential_hash si)"
    "\<forall>owner. reservations owner db1 \<le> reservations owner db"
    by (rule fresh_start_stored [OF start ok(1) fresh])
  note A = accept_start_Inr [OF S(1)]
  let ?p2 = "claimed_pairing t1 s p"
  have counts: "active_device_count db1 ?o = active_device_count db ?o" "total_device_count db1 ?o = total_device_count db ?o"
    by (simp_all add: active_device_count_def total_device_count_def S(5))
  have less: "active_device_count db1 ?o + reservations ?o db1 < bootstrap_max_devices cfg"
    "total_device_count db1 ?o + reservations ?o db1 < owner_max_device_records cfg"
    using room(1,2) S(9) [rule_format, of ?o] counts by linarith+
  have p: "pair_status p = PAIRING_PENDING" "pair_id p = sr_pairing_id rq" "pair_workspace_roots p = si_workspace_roots si"
    "pair_expires_at p = t0 + seconds (int (pairing_ttl_seconds cfg))" "pair_public_key p = si_public_key si"
    "pair_code_hash p = si_code_hash si" "pair_device_name p = si_device_name si" "pair_device_metadata p = si_device_metadata si"
    using A(1) by (simp_all add: S(2) new_pairing_def)
  obtain a where claim: "claim_pairing pv cfg t1 md1 s code db1 = (Inr ?p2, add_audit a (put_pairing ?p2 (snd (lock_owner_cursor ?o db1))))"
    by (rule claim_succeeds [OF S(4,3) p(1) _ code(1) _ _ _ _ less]) (use time p S(5,8) A code in simp_all)
  have p2: "pair_id ?p2 = pair_id p" by (simp add: claimed_pairing_def)
  have "pairing_at (sr_pairing_id rq) (put_pairing ?p2 (snd (lock_owner_cursor ?o db1))) = Some ?p2"
  proof (rule completed_at [of db1])
    show "pairing_rows_ok (device_pairings db1)" using S(4) by (simp add: pairings_ok_def)
    then show "pairing_at (sr_pairing_id rq) db1 = Some p"
      unfolding pairing_at_def by (intro scalar_unique [where key = pair_id]) (use S(3) p(2) in \<open>auto simp: pairing_rows_ok_def\<close>)
  qed (simp_all add: p2)
  moreover have "events_wf db1" using events_wf_cong [of db1 db] S(5-7) ok(2) by simp
  ultimately show thesis using that [OF S(1,2) claim] S(5,7,8) by blast
qed


section \<open>Samples\<close>

definition sample_pairing_env :: pairing_env where
  "sample_pairing_env = \<lparr>pv_hmac = id, pv_sha = (\<lambda>_. [1]), pv_verify = (\<lambda>_ _ _. True), pv_iso = (\<lambda>_. []), pv_fmt = (\<lambda>_. []),
     pv_pystr = (\<lambda>_. []), pv_allowed_origins = [u ''https://a''], pv_poll_path_prefix = u ''/api''\<rparr>"

definition sample_start_request :: start_request where
  "sample_start_request = \<lparr>sr_pairing_id = 9, sr_created_at = 0, sr_has_timezone = True,
     sr_audience = u ''https://a/api/device-pairings/start'', sr_public_key = base64url_encode (replicate 32 0),
     sr_device_name = u ''d'', sr_device_metadata = [], sr_workspace_roots = [u ''/work''],
     sr_code_commitment = hexdigest [1], sr_poll_token_commitment = hexdigest [1],
     sr_refresh_credential_commitment = hexdigest [1], sr_signature = base64url_encode (replicate 64 0)\<rparr>"

lemma sample_fits:
  "ensure_device_projection_fits (\<lambda>_. []) (\<lambda>_. []) (candidate_device now 9 owner (u ''d'') key [] [u ''/work'']) = None"
  using uuid_str_content [of 9, unfolded content_length]
  by (simp add: ensure_device_projection_fits_def device_bootstrap_summary_def summary_of_def candidate_device_def
      device_summary_valid_def metadata_text_def dict_get_def ensure_fits_def ensure_ascii_json_byte_length_def device_json_def opt_time_def Let_def
      length_quote u_def uuid_quote escape_plain BOOTSTRAP_DEVICE_SUMMARY_MAX_BYTES_def)

lemma sample_start_accepted: "\<exists>si. accept_start sample_pairing_env 0 sample_start_request = Inr si \<and> si_created_at si = 0"
proof -
  have key: "canonicalize_ed25519_public_key (base64url_encode (replicate 32 0)) = Some (base64url_encode (replicate 32 0))"
    by (rule canonical_key_encode) (simp_all add: byte_list_def list_all_iff)
  have root: "canonicalize_workspace_roots [u ''/work''] = Inr [u ''/work'']"
    by (simp add: canonicalize_workspace_roots_def utf8_length_def utf8_width_def surrogate_def u_def
      normpath_def initial_slashes_def norm_step_def Let_def)
  have decode: "base64url_decode (base64url_encode (replicate n 0)) = Some (replicate n 0)" for n
    by (rule base64url_round_trip) (simp add: byte_list_def list_all_iff)
  show ?thesis
    using key root decode [of 32] decode [of 64] sample_fits [of 0 "u ''pairing-candidate''" "base64url_encode (replicate 32 0)"]
    by (simp add: accept_start_def sample_start_request_def sample_pairing_env_def expected_audiences_def u_def [symmetric]
        verify_start_proof_def signed_fields_def whole_seconds_def seconds_def) (simp add: u_def)
qed

lemma sample_pairings_ok: "pairings_ok default_settings empty_database"
  by (simp add: pairings_ok_def pairing_rows_ok_def keys_unique_def device_quotas_def device_sigs_def empty_database_def
      active_device_count_def total_device_count_def reservations_def)

lemma sample_started:
  "\<exists>p db1. start_pairing sample_pairing_env default_settings 0 no_metadata None sample_start_request empty_database = (Inr p, db1)"
proof -
  obtain si where si: "accept_start sample_pairing_env 0 sample_start_request = Inr si" "si_created_at si = 0"
    using sample_start_accepted by blast
  then show ?thesis
    by (simp add: start_pairing_def pairing_at_def empty_database_def fresh_start_def insert_start_def pairing_unique_def
        ensure_start_capacity_def no_metadata_def seconds_def default_settings_def Let_def MAX_RETAINED_PAIRINGS_GLOBAL_def
        MAX_LIVE_PAIRINGS_GLOBAL_def)
qed

lemma sample_code: "\<exists>n. normalize_pairing_code (u ''2345-6789-ABCD-EFGH'') = Some n"
  by (simp add: normalize_pairing_code_def pairing_code_pattern_def u_def pairing_code_group_def PAIRING_CODE_ALPHABET_def)



definition sample_claimed_pairing :: device_pairing where
  "sample_claimed_pairing = claimed_pairing 1 (sample_session (sample_session_env None)) (new_pairing default_settings 0 no_metadata
     \<lparr>si_pairing_id = 9, si_created_at = 0, si_audience = [], si_public_key = [7], si_device_name = u ''d'', si_device_metadata = [],
      si_workspace_roots = [u ''/work''], si_code_hash = [1],
      si_poll_token_hash = token_digest id ''pairing-poll-v2'' (pairing_secret_commitment sample_pairing_env (u ''secret'')),
      si_refresh_credential_hash = [3]\<rparr>)"

definition claimed_database :: database where
  "claimed_database = empty_database\<lparr>device_pairings := [sample_claimed_pairing]\<rparr>"

lemma sample_claimed_simps [simp]:
  "pair_id sample_claimed_pairing = 9" "pair_status sample_claimed_pairing = PAIRING_CLAIMED"
  "pair_expires_at sample_claimed_pairing = 600000000" "pair_protocol_version sample_claimed_pairing = 2"
  "pair_claimed_by_user_id sample_claimed_pairing = Some (su_user_id sample_user)" "pair_device_id sample_claimed_pairing = None"
  "pair_refresh_credential_hash sample_claimed_pairing = Some [3]" "pair_device_name sample_claimed_pairing = u ''d''"
  "pair_device_metadata sample_claimed_pairing = []" "pair_workspace_roots sample_claimed_pairing = [u ''/work'']"
  "pair_poll_token_hash sample_claimed_pairing = token_digest id ''pairing-poll-v2'' (pairing_secret_commitment sample_pairing_env (u ''secret''))"
  "pair_source_ip sample_claimed_pairing = None"
  by (simp_all add: sample_claimed_pairing_def claimed_pairing_def new_pairing_def default_settings_def seconds_def no_metadata_def)

lemma claimed_database_ok: "pairings_ok default_settings claimed_database"
  by (simp add: pairings_ok_def pairing_rows_ok_def keys_unique_def device_quotas_def device_sigs_def claimed_database_def
      empty_database_def active_device_count_def total_device_count_def reservations_def pairing_row_ok_def live_pairing_def
      live_from_def default_settings_def MAX_LIVE_PAIRINGS_GLOBAL_def MAX_LIVE_PAIRINGS_PER_SOURCE_def)

theorem device_activation_witness:
  "\<exists>r db' ns d. poll_pairing sample_pairing_env 2 no_metadata 9 (u ''secret'') claimed_database = (r, db', ns)
     \<and> d \<in> set (devices db') \<and> dev_owner_user_id d = su_user_id sample_user \<and> dev_name d = u ''d''"
proof -
  have wf: "events_wf claimed_database" using events_wf_cong [of claimed_database empty_database] empty_events_wf by (simp add: claimed_database_def)
  have "\<exists>e db'. poll_pairing sample_pairing_env 2 no_metadata 9 (u ''secret'') claimed_database =
      (Inr (completed_pairing 2 sample_claimed_pairing, Some (activated_device 2 sample_claimed_pairing)), db', [Publish_Event (su_user_id sample_user) e])
      \<and> device_sigs db' = device_sigs claimed_database @ [device_sig (activated_device 2 sample_claimed_pairing)]"
    by (rule poll_succeeds [OF _ _ _ _ _ _ _ _ _ _ wf])
      (simp_all add: pairing_at_def claimed_database_def sample_pairing_env_def empty_database_def stream_last_def cursor_row_def
        MAX_EVENT_CURSOR_def fits_activated [of _ _ _ _ 0 "[]" "[]"] sample_fits)
  then obtain r db' ns where run: "poll_pairing sample_pairing_env 2 no_metadata 9 (u ''secret'') claimed_database = (r, db', ns)"
    and sigs: "device_sigs db' = device_sigs claimed_database @ [device_sig (activated_device 2 sample_claimed_pairing)]" by blast
  then obtain d where d: "d \<in> set (devices db')" by (cases "devices db'") (auto simp: device_sigs_def)
  have "dev_id d \<notin> dev_id ` set (devices claimed_database)" by (simp add: claimed_database_def empty_database_def)
  from device_activation [OF run claimed_database_ok d this] run d show ?thesis
    by (auto simp: pairing_at_def claimed_database_def)
qed

end
