(* ===== verification/Device_Auth.thy ===== *)
theory Device_Auth
  imports Pairing Leases
begin

text \<open>
  Connect tokens of devices (\<open>device_auth.py\<close>): a device proves possession of its refresh credential and its
  private key and gets a short lived access token; the token is checked when the device opens its socket.  The
  operations of the key-value store are in the record \<open>store_ops\<close>; what is proved relies only on the
  locale \<open>kv_store\<close>.  One clock reading covers one operation.
\<close>

section \<open>Operations\<close>

record 's store_ops =
  so_get :: "ustr \<Rightarrow> int \<Rightarrow> 's \<Rightarrow> ustr option \<times> 's"
  so_set_if_absent :: "ustr \<Rightarrow> ustr \<Rightarrow> nat \<Rightarrow> int \<Rightarrow> 's \<Rightarrow> bool \<times> 's"
  so_set :: "ustr \<Rightarrow> ustr \<Rightarrow> nat \<Rightarrow> int \<Rightarrow> 's \<Rightarrow> 's"
  so_delete :: "ustr \<Rightarrow> 's \<Rightarrow> 's"

text \<open>The hashes, the signature check over the UTF-8 bytes of a text, \<open>datetime.fromisoformat\<close> with the presence of
  an offset, the text of floats, and \<open>str\<close>, \<open>uuid.UUID\<close> and \<open>int\<close> on the values of a stored token.\<close>

record auth_env =
  da_hmac :: "ustr \<Rightarrow> ustr"
  da_sha :: "ustr \<Rightarrow> bytes"
  da_sha_bytes :: "bytes \<Rightarrow> bytes"
  da_verify :: "bytes \<Rightarrow> bytes \<Rightarrow> ustr \<Rightarrow> bool"
  da_fromisoformat :: "ustr \<Rightarrow> (datetime \<times> bool) option"
  da_float :: "ustr \<Rightarrow> ustr"
  da_str :: "json \<Rightarrow> ustr"
  da_uuid :: "ustr \<Rightarrow> uuid option"
  da_int :: "json \<Rightarrow> int option"

record token_request =
  tr_device_id :: uuid
  tr_public_key :: ustr
  tr_timestamp :: ustr
  tr_nonce :: ustr
  tr_signature :: ustr

datatype device_auth_error = Device_Credential_Rejected | Device_Proof_Rejected | Device_Proof_Replay

definition decode_base64url :: "ustr \<Rightarrow> nat \<Rightarrow> bytes option" where
  "decode_base64url v expected_length =
     (case a2b_base64 False (v @ b64_padding v) of
        None \<Rightarrow> None
      | Some raw \<Rightarrow> if length raw \<noteq> expected_length then None else Some raw)"

definition parse_rfc3339 :: "auth_env \<Rightarrow> ustr \<Rightarrow> datetime option" where
  "parse_rfc3339 ae v =
     (let normalized = (if v \<noteq> [] \<and> last v = 90 then butlast v @ u ''+00:00'' else v) in
      case da_fromisoformat ae normalized of
        None \<Rightarrow> None
      | Some (parsed, aware) \<Rightarrow> if aware then Some parsed else None)"

definition device_authorization :: "ustr option \<Rightarrow> ustr option" where
  "device_authorization authorization =
     (case authorization of
        None \<Rightarrow> None
      | Some a \<Rightarrow>
     (case strip_prefix (u ''Device '') a of
        None \<Rightarrow> None
      | Some rest \<Rightarrow> if py_strip rest = [] then None else Some (py_strip rest)))"

definition token_audit ::
  "datetime \<Rightarrow> request_metadata \<Rightarrow> audit_outcome \<Rightarrow> ustr option \<Rightarrow> uuid option \<Rightarrow> uuid \<Rightarrow> dict \<Rightarrow> audit_event" where
  "token_audit now md outcome user actor device_id details =
     \<lparr>aud_actor_user_id = user, aud_actor_session_id = None, aud_actor_device_id = actor,
      aud_action = ''device.connect_token.issue'', aud_outcome = outcome, aud_resource_type = Some ''device'',
      aud_resource_id = Some (uuid_str device_id), aud_request_id = rm_request_id md, aud_source_ip = rm_source_ip md,
      aud_user_agent = rm_user_agent md, aud_details = details, aud_created_at = now\<rparr>"

definition audit_denied ::
  "datetime \<Rightarrow> request_metadata \<Rightarrow> uuid \<Rightarrow> bool \<Rightarrow> string \<Rightarrow> database \<Rightarrow> database" where
  "audit_denied now md device_id actor_exists reason db =
     add_audit (token_audit now md AUDIT_DENIED None (if actor_exists then Some device_id else None) device_id
       [(u ''reason'', JStr (u reason))]) db"

definition credential_matches :: "auth_env \<Rightarrow> ustr \<Rightarrow> device \<Rightarrow> bool" where
  "credential_matches ae credential d =
     (case dev_refresh_credential_hash d of
        None \<Rightarrow> False
      | Some h \<Rightarrow>
          if dev_credential_scheme d = 1 then token_digest (da_hmac ae) ''device-refresh'' credential = h
          else if dev_credential_scheme d = 2
          then token_digest (da_hmac ae) ''device-refresh-v2'' (hexdigest (da_sha ae credential)) = h
          else False)"

definition proof_text :: "token_request \<Rightarrow> ustr" where
  "proof_text rq = uuid_str (tr_device_id rq) @ 10 # tr_timestamp rq @ 10 # tr_nonce rq"

definition nonce_key :: "auth_env \<Rightarrow> uuid \<Rightarrow> bytes \<Rightarrow> ustr" where
  "nonce_key ae i nonce = u ''device-proof-nonce:'' @ uuid_str i @ 58 # hexdigest (da_sha_bytes ae nonce)"

definition access_key :: "ustr \<Rightarrow> ustr" where
  "access_key token_hash = u ''device-access:'' @ token_hash"

definition current_key :: "uuid \<Rightarrow> ustr" where
  "current_key i = u ''device-access-current:'' @ uuid_str i"

definition token_data :: "device \<Rightarrow> ustr" where
  "token_data d = dumps True (JObj [(u ''device_id'', JStr (uuid_str (dev_id d))),
     (u ''credential_version'', JInt (int (dev_credential_version d)))])"

text \<open>The proof: the signed nonce, or the error with the reason that is audited, if any.\<close>

definition check_proof ::
  "auth_env \<Rightarrow> settings \<Rightarrow> datetime \<Rightarrow> ustr option \<Rightarrow> token_request \<Rightarrow> device
     \<Rightarrow> device_auth_error \<times> string option + bytes" where
  "check_proof ae cfg now authorization rq d =
     (case device_authorization authorization of
        None \<Rightarrow> Inl (Device_Credential_Rejected, None)
      | Some credential \<Rightarrow>
          if \<not> credential_matches ae credential d then Inl (Device_Credential_Rejected, Some ''invalid_refresh_credential'')
          else
     (case canonicalize_ed25519_public_key (tr_public_key rq) of
        None \<Rightarrow> Inl (Device_Proof_Rejected, Some ''invalid_public_key'')
      | Some canonical_key \<Rightarrow>
          if canonical_key \<noteq> dev_public_key d then Inl (Device_Proof_Rejected, Some ''public_key_mismatch'')
          else
     (case parse_rfc3339 ae (tr_timestamp rq) of
        None \<Rightarrow> Inl (Device_Proof_Rejected, None)
      | Some proof_time \<Rightarrow>
          if \<bar>now - proof_time\<bar> > seconds (int (device_proof_max_skew_seconds cfg))
          then Inl (Device_Proof_Rejected, Some ''timestamp_outside_window'')
          else
     (case (decode_base64url (tr_nonce rq) 24, decode_base64url (tr_signature rq) 64, decode_base64url canonical_key 32) of
        (Some nonce, Some signature, Some public_key) \<Rightarrow>
          if da_verify ae public_key signature (proof_text rq) then Inr nonce
          else Inl (Device_Proof_Rejected, Some ''invalid_signature'')
      | _ \<Rightarrow> Inl (Device_Proof_Rejected, None)))))"

type_synonym 's issue_result = "(device_auth_error + ustr \<times> datetime) \<times> database \<times> 's"

text \<open>The token is written: the previous one of the device is deleted.\<close>

definition store_token :: "'s store_ops \<Rightarrow> nat \<Rightarrow> datetime \<Rightarrow> device \<Rightarrow> ustr \<Rightarrow> 's \<Rightarrow> 's" where
  "store_token so ttl now d token_hash s =
     (case so_get so (current_key (dev_id d)) now s of
        (previous_hash, s1) \<Rightarrow>
          let s2 = (if truthy previous_hash then so_delete so (access_key (or_empty previous_hash)) s1 else s1)
          in so_set so (current_key (dev_id d)) token_hash ttl now
               (so_set so (access_key token_hash) (token_data d) ttl now s2))"

definition issue_token ::
  "'s store_ops \<Rightarrow> auth_env \<Rightarrow> settings \<Rightarrow> datetime \<Rightarrow> ustr option \<Rightarrow> token_request \<Rightarrow> request_metadata \<Rightarrow> ustr \<Rightarrow> database \<Rightarrow> 's
     \<Rightarrow> 's issue_result" where
  "issue_token so ae cfg now authorization rq md random db s =
     (if device_authorization authorization = None then (Inl Device_Credential_Rejected, db, s)
      else
     (case scalar (\<lambda>d. dev_id d = tr_device_id rq) (devices db) of
        None \<Rightarrow> (Inl Device_Credential_Rejected, audit_denied now md (tr_device_id rq) False ''device_unavailable'' db, s)
      | Some d \<Rightarrow>
          if dev_status d \<noteq> ACTIVE
          then (Inl Device_Credential_Rejected, audit_denied now md (tr_device_id rq) True ''device_unavailable'' db, s)
          else
     (case check_proof ae cfg now authorization rq d of
        Inl (e, None) \<Rightarrow> (Inl e, db, s)
      | Inl (e, Some reason) \<Rightarrow> (Inl e, audit_denied now md (dev_id d) True reason db, s)
      | Inr nonce \<Rightarrow>
     (case so_set_if_absent so (nonce_key ae (dev_id d) nonce) (u ''1'') (device_nonce_ttl_seconds cfg) now s of
        (False, s1) \<Rightarrow> (Inl Device_Proof_Replay, audit_denied now md (dev_id d) True ''nonce_replay'' db, s1)
      | (True, s1) \<Rightarrow>
          let access_token = u ''dca_'' @ random; ttl = device_access_token_ttl_seconds cfg in
          (Inr (access_token, now + seconds (int ttl)),
           add_audit (token_audit now md AUDIT_SUCCEEDED (Some (dev_owner_user_id d)) (Some (dev_id d)) (dev_id d)
             [(u ''credential_version'', JInt (int (dev_credential_version d)))]) db,
           store_token so ttl now d (token_digest (da_hmac ae) ''device-access'' access_token) s1)))))"

text \<open>The fields of a stored token: \<open>None\<close> is any of the errors that delete it.\<close>

definition token_fields :: "auth_env \<Rightarrow> ustr \<Rightarrow> (uuid \<times> int) option" where
  "token_fields ae raw =
     (case loads (da_float ae) raw of
        Some (JObj data) \<Rightarrow>
          (case (dict_get data (u ''device_id''), dict_get data (u ''credential_version'')) of
             (Some i, Some v) \<Rightarrow>
               (case (da_uuid ae (json_str (da_str ae) i), da_int ae v) of
                  (Some device_id, Some version) \<Rightarrow> Some (device_id, version)
                | _ \<Rightarrow> None)
           | _ \<Rightarrow> None)
      | _ \<Rightarrow> None)"

definition authenticate_access_token ::
  "'s store_ops \<Rightarrow> auth_env \<Rightarrow> datetime \<Rightarrow> ustr \<Rightarrow> database \<Rightarrow> 's \<Rightarrow> device option \<times> 's" where
  "authenticate_access_token so ae now access_token db s =
     (let token_hash = token_digest (da_hmac ae) ''device-access'' access_token in
      case so_get so (access_key token_hash) now s of
        (None, s1) \<Rightarrow> (None, s1)
      | (Some raw, s1) \<Rightarrow>
     (case token_fields ae raw of
        None \<Rightarrow> (None, so_delete so (access_key token_hash) s1)
      | Some (device_id, version) \<Rightarrow>
     (case so_get so (current_key device_id) now s1 of
        (current_hash, s2) \<Rightarrow>
          if current_hash \<noteq> Some token_hash then (None, s2)
          else
     (case scalar (\<lambda>d. dev_id d = device_id) (devices db) of
        None \<Rightarrow> (None, s2)
      | Some d \<Rightarrow>
          if dev_status d \<noteq> ACTIVE \<or> int (dev_credential_version d) \<noteq> version then (None, s2) else (Some d, s2)))))"

definition revoke_access_token :: "'s store_ops \<Rightarrow> datetime \<Rightarrow> uuid \<Rightarrow> 's \<Rightarrow> 's" where
  "revoke_access_token so now device_id s =
     (case so_get so (current_key device_id) now s of
        (token_hash, s1) \<Rightarrow>
          so_delete so (current_key device_id)
            (if truthy token_hash then so_delete so (access_key (or_empty token_hash)) s1 else s1))"

section \<open>Sequences of operations\<close>

text \<open>The operations on the store in the order of their times, each with the database that it sees.  Other users of
  the store are quiet: they leave the keys of this component alone.\<close>

datatype 's device_op =
    Issue_Op "ustr option" token_request request_metadata ustr database
  | Authenticate_Op ustr database
  | Revoke_Op uuid
  | Other_Op "'s \<Rightarrow> 's"

fun device_step :: "'s store_ops \<Rightarrow> auth_env \<Rightarrow> settings \<Rightarrow> datetime \<Rightarrow> 's device_op \<Rightarrow> 's \<Rightarrow> 's" where
  "device_step so ae cfg now (Issue_Op authorization rq md random db) s =
     snd (snd (issue_token so ae cfg now authorization rq md random db s))"
| "device_step so ae cfg now (Authenticate_Op access_token db) s =
     snd (authenticate_access_token so ae now access_token db s)"
| "device_step so ae cfg now (Revoke_Op device_id) s = revoke_access_token so now device_id s"
| "device_step so ae cfg now (Other_Op f) s = f s"

fun device_run :: "'s store_ops \<Rightarrow> auth_env \<Rightarrow> settings \<Rightarrow> (datetime \<times> 's device_op) list \<Rightarrow> 's \<Rightarrow> 's" where
  "device_run so ae cfg [] s = s"
| "device_run so ae cfg ((now, op) # ops) s = device_run so ae cfg ops (device_step so ae cfg now op s)"

definition device_key :: "ustr \<Rightarrow> bool" where
  "device_key k \<longleftrightarrow> strip_prefix (u ''device-access'') k \<noteq> None \<or> strip_prefix (u ''device-proof-nonce:'') k \<noteq> None"

definition quiet_op :: "('s \<Rightarrow> int \<Rightarrow> ustr \<Rightarrow> ustr option) \<Rightarrow> 's device_op \<Rightarrow> bool" where
  "quiet_op live op \<longleftrightarrow> (case op of Other_Op f \<Rightarrow> \<forall>s t k. device_key k \<longrightarrow> live (f s) t k = live s t k | _ \<Rightarrow> True)"

definition op_avoids :: "auth_env \<Rightarrow> ustr \<Rightarrow> 's device_op \<Rightarrow> bool" where
  "op_avoids ae h op \<longleftrightarrow>
     (case op of Issue_Op _ _ _ random _ \<Rightarrow> token_digest (da_hmac ae) ''device-access'' (u ''dca_'' @ random) \<noteq> h | _ \<Rightarrow> True)"

lemma device_keys_differ [simp]:
  "nonce_key ae i n \<noteq> access_key h" "nonce_key ae i n \<noteq> current_key j" "access_key h \<noteq> current_key j"
  "access_key h \<noteq> nonce_key ae i n" "current_key j \<noteq> nonce_key ae i n" "current_key j \<noteq> access_key h"
  "access_key h = access_key h' \<longleftrightarrow> h = h'" "current_key j = current_key j' \<longleftrightarrow> j = j'"
  by (auto simp: nonce_key_def access_key_def current_key_def u_def)

lemma device_keys [simp]: "device_key (nonce_key ae i n)" "device_key (access_key h)" "device_key (current_key j)"
  by (simp_all add: device_key_def nonce_key_def access_key_def current_key_def u_def strip_prefix_def)

lemma check_proof_Inr:
  assumes "check_proof ae cfg now authorization rq d = Inr nonce"
  obtains credential proof_time signature public_key where "device_authorization authorization = Some credential"
    "credential_matches ae credential d" "canonicalize_ed25519_public_key (tr_public_key rq) = Some (dev_public_key d)"
    "parse_rfc3339 ae (tr_timestamp rq) = Some proof_time"
    "\<bar>now - proof_time\<bar> \<le> seconds (int (device_proof_max_skew_seconds cfg))"
    "decode_base64url (tr_nonce rq) 24 = Some nonce" "decode_base64url (tr_signature rq) 64 = Some signature"
    "decode_base64url (dev_public_key d) 32 = Some public_key" "da_verify ae public_key signature (proof_text rq)"
  using assms by (auto simp: check_proof_def not_less split: option.splits if_splits)

lemma check_proof_InrI:
  assumes "device_authorization authorization = Some credential" "credential_matches ae credential d"
    and "canonicalize_ed25519_public_key (tr_public_key rq) = Some (dev_public_key d)"
    and "parse_rfc3339 ae (tr_timestamp rq) = Some proof_time" "\<bar>now - proof_time\<bar> \<le> seconds (int (device_proof_max_skew_seconds cfg))"
    and "decode_base64url (tr_nonce rq) 24 = Some nonce" "decode_base64url (tr_signature rq) 64 = Some signature"
    and "decode_base64url (dev_public_key d) 32 = Some public_key" "da_verify ae public_key signature (proof_text rq)"
  shows "check_proof ae cfg now authorization rq d = Inr nonce"
  using assms by (simp add: check_proof_def)

text \<open>What an issue does to the store: nothing, a refused claim of the nonce, or the claim and the new token.\<close>

lemma issue_token_cases [consumes 1, case_names refused replay issued]:
  assumes "issue_token so ae cfg now authorization rq md random db s = (r, db', s')"
  obtains e where "r = Inl e" "s' = s"
    "\<And>d nonce. scalar (\<lambda>d. dev_id d = tr_device_id rq) (devices db) = Some d \<Longrightarrow> dev_status d = ACTIVE
       \<Longrightarrow> check_proof ae cfg now authorization rq d = Inr nonce \<Longrightarrow> False"
  | d nonce where "scalar (\<lambda>d. dev_id d = tr_device_id rq) (devices db) = Some d" "dev_status d = ACTIVE"
      "check_proof ae cfg now authorization rq d = Inr nonce"
      "so_set_if_absent so (nonce_key ae (dev_id d) nonce) (u ''1'') (device_nonce_ttl_seconds cfg) now s = (False, s')"
      "r = Inl Device_Proof_Replay"
  | d nonce s1 where "scalar (\<lambda>d. dev_id d = tr_device_id rq) (devices db) = Some d" "dev_status d = ACTIVE"
      "check_proof ae cfg now authorization rq d = Inr nonce"
      "so_set_if_absent so (nonce_key ae (dev_id d) nonce) (u ''1'') (device_nonce_ttl_seconds cfg) now s = (True, s1)"
      "r = Inr (u ''dca_'' @ random, now + seconds (int (device_access_token_ttl_seconds cfg)))"
      "s' = store_token so (device_access_token_ttl_seconds cfg) now d
         (token_digest (da_hmac ae) ''device-access'' (u ''dca_'' @ random)) s1"
proof (cases "scalar (\<lambda>d. dev_id d = tr_device_id rq) (devices db)")
  case None
  then show ?thesis using assms by (intro that(1)) (auto simp: issue_token_def split: if_splits)
next
  case (Some d)
  show ?thesis
  proof (cases "dev_status d = ACTIVE")
    case False
    then show ?thesis using assms Some by (intro that(1)) (auto simp: issue_token_def split: if_splits)
  next
    case active: True
    show ?thesis
    proof (cases "check_proof ae cfg now authorization rq d")
      case (Inl a)
      then have "\<exists>e. r = Inl e \<and> s' = s" using assms Some active
        by (auto simp: issue_token_def split: if_splits option.splits prod.splits)
      then show ?thesis using that(1) Some Inl by force
    next
      case (Inr nonce)
      then have "device_authorization authorization \<noteq> None" by (auto elim: check_proof_Inr)
      then show ?thesis using assms Some active Inr that(2,3) [OF Some active Inr]
        by (cases "so_set_if_absent so (nonce_key ae (dev_id d) nonce) (u ''1'') (device_nonce_ttl_seconds cfg) now s")
          (auto simp: issue_token_def Let_def split: bool.splits)
    qed
  qed
qed

locale device_store = kv_store live get set_if_absent compare_refresh compare_delete increment put remove
  for live :: "'s \<Rightarrow> int \<Rightarrow> ustr \<Rightarrow> ustr option"
    and get :: "ustr \<Rightarrow> int \<Rightarrow> 's \<Rightarrow> ustr option \<times> 's"
    and set_if_absent :: "ustr \<Rightarrow> ustr \<Rightarrow> nat \<Rightarrow> int \<Rightarrow> 's \<Rightarrow> bool \<times> 's"
    and compare_refresh :: "ustr \<Rightarrow> ustr \<Rightarrow> nat \<Rightarrow> int \<Rightarrow> 's \<Rightarrow> bool \<times> 's"
    and compare_delete :: "ustr \<Rightarrow> ustr \<Rightarrow> int \<Rightarrow> 's \<Rightarrow> bool \<times> 's"
    and increment :: "ustr \<Rightarrow> nat \<Rightarrow> int \<Rightarrow> 's \<Rightarrow> int option \<times> 's"
    and put :: "ustr \<Rightarrow> ustr \<Rightarrow> nat \<Rightarrow> int \<Rightarrow> 's \<Rightarrow> 's"
    and remove :: "ustr \<Rightarrow> 's \<Rightarrow> 's" +
  fixes so :: "'s store_ops"
  assumes so_ops: "so_get so = get" "so_set_if_absent so = set_if_absent" "so_set so = put" "so_delete so = remove"
begin

lemma absent_claimed:
  assumes "so_set_if_absent so k v ttl now s = (True, s1)" "now \<le> t"
  shows "live s now k = None" "live s1 t k' = (if k' = k then if t < now + seconds (int ttl) then Some v else None else live s t k')"
  using absent_result [of k v ttl now s] absent_live [OF assms(2), of k v ttl s k'] assms(1) by (simp_all add: so_ops)

lemma absent_refused:
  assumes "so_set_if_absent so k v ttl now s = (False, s1)" "now \<le> t"
  shows "live s1 t k' = live s t k'"
  using absent_result [of k v ttl now s] absent_live [OF assms(2), of k v ttl s k'] assms(1) by (auto simp: so_ops)

lemma store_token_live:
  assumes "now \<le> t"
  shows "live (store_token so ttl now d h s) t k =
    (if k = current_key (dev_id d) then if t < now + seconds (int ttl) then Some h else None
     else if k = access_key h then if t < now + seconds (int ttl) then Some (token_data d) else None
     else if \<exists>p. live s now (current_key (dev_id d)) = Some p \<and> p \<noteq> [] \<and> k = access_key p then None
     else live s t k)"
proof -
  obtain p s1 where g: "get (current_key (dev_id d)) now s = (p, s1)" by fastforce
  have p: "live s now (current_key (dev_id d)) = p" using get_value [of "current_key (dev_id d)" now s] g by simp
  have s1: "live s1 t k' = live s t k'" for k' using get_frame [OF assms, of "current_key (dev_id d)" s k'] g by simp
  show ?thesis using g p s1
    by (auto simp: store_token_def so_ops put_live [OF assms] remove_live truthy_def or_empty_def split: option.splits)
qed

lemma authenticate_store:
  assumes "now \<le> t"
  shows "live (snd (authenticate_access_token so ae now tok db s)) t k = live s t k
    \<or> live (snd (authenticate_access_token so ae now tok db s)) t k = None \<and> (\<exists>h. k = access_key h)"
proof -
  have frame: "live s1 t k = live s0 t k" if "get k0 now s0 = (x, s1)" for k0 x s0 s1
    using get_frame [OF assms, of k0 s0 k] that by simp
  show ?thesis
    by (auto simp: authenticate_access_token_def so_ops Let_def remove_live split: option.splits prod.splits dest!: frame)
qed

lemma authenticate_value:
  "fst (authenticate_access_token so ae now tok db s) =
     (case live s now (access_key (token_digest (da_hmac ae) ''device-access'' tok)) of
        None \<Rightarrow> None
      | Some raw \<Rightarrow>
     (case token_fields ae raw of
        None \<Rightarrow> None
      | Some (i, version) \<Rightarrow>
          if live s now (current_key i) \<noteq> Some (token_digest (da_hmac ae) ''device-access'' tok) then None
          else
     (case scalar (\<lambda>d. dev_id d = i) (devices db) of
        None \<Rightarrow> None
      | Some d \<Rightarrow> if dev_status d \<noteq> ACTIVE \<or> int (dev_credential_version d) \<noteq> version then None else Some d)))"
proof -
  obtain r s1 where g: "get (access_key (token_digest (da_hmac ae) ''device-access'' tok)) now s = (r, s1)" by fastforce
  have r: "live s now (access_key (token_digest (da_hmac ae) ''device-access'' tok)) = r"
    using get_value [of "access_key (token_digest (da_hmac ae) ''device-access'' tok)" now s] g by simp
  have c: "live s now k = x" if "get k now s1 = (x, s2)" for k x s2
    using get_frame [of now now "access_key (token_digest (da_hmac ae) ''device-access'' tok)" s k] get_value [of k now s1] g that by simp
  show ?thesis
    unfolding authenticate_access_token_def so_ops Let_def g r by (auto split: option.splits prod.splits dest!: c)
qed

lemma revoke_store:
  assumes "now \<le> t"
  shows "live (revoke_access_token so now i s) t k =
    (if k = current_key i \<or> (\<exists>p. live s now (current_key i) = Some p \<and> p \<noteq> [] \<and> k = access_key p) then None else live s t k)"
proof -
  obtain p s1 where g: "get (current_key i) now s = (p, s1)" by fastforce
  have p: "live s now (current_key i) = p" using get_value [of "current_key i" now s] g by simp
  have s1: "live s1 t k' = live s t k'" for k' using get_frame [OF assms, of "current_key i" s k'] g by simp
  show ?thesis using g p s1
    by (auto simp: revoke_access_token_def so_ops remove_live truthy_def or_empty_def split: option.splits)
qed

text \<open>A claimed nonce stays claimed until its time to live ends.\<close>

lemma step_nonce:
  assumes "quiet_op live op" "now \<le> t" "live s t (nonce_key ae i n) = Some v"
  shows "live (device_step so ae cfg now op s) t (nonce_key ae i n) = Some v"
proof (cases op)
  case op: (Issue_Op authorization rq md random db)
  obtain r db' s' where issue: "issue_token so ae cfg now authorization rq md random db s = (r, db', s')" using prod_cases3 by blast
  then have "live s' t (nonce_key ae i n) = Some v"
  proof (cases rule: issue_token_cases)
    case (issued d nonce s1)
    have "live s1 t (nonce_key ae i n) = Some v"
      using absent_claimed [OF issued(4) assms(2)] live_stable [OF assms(2,3)] assms(3) by auto
    then show ?thesis using store_token_live [OF assms(2)] issued(6) by simp
  qed (use assms absent_refused in auto)
  then show ?thesis using op issue by simp
next
  case (Authenticate_Op tok db)
  then show ?thesis using authenticate_store [OF assms(2), of ae tok db s "nonce_key ae i n"] assms(3) by auto
next
  case (Revoke_Op j)
  then show ?thesis using revoke_store [OF assms(2)] assms(3) by simp
next
  case (Other_Op f)
  then show ?thesis using assms by (simp add: quiet_op_def)
qed

lemma run_nonce:
  assumes "list_all (quiet_op live) (map snd ops)" "\<forall>now \<in> set (map fst ops). now \<le> t" "live s t (nonce_key ae i n) = Some v"
  shows "live (device_run so ae cfg ops s) t (nonce_key ae i n) = Some v"
  using assms
proof (induction ops arbitrary: s)
  case (Cons a ops)
  then show ?case using step_nonce [of "snd a" "fst a" t s ae i n v cfg] by (cases a) simp
qed simp

text \<open>A withdrawn token stays withdrawn unless a new token has the same digest.\<close>

lemma step_withdrawn:
  assumes "quiet_op live op" "op_avoids ae h op" "now \<le> t" "live s t (access_key h) = None"
  shows "live (device_step so ae cfg now op s) t (access_key h) = None"
proof (cases op)
  case op: (Issue_Op authorization rq md random db)
  obtain r db' s' where issue: "issue_token so ae cfg now authorization rq md random db s = (r, db', s')" using prod_cases3 by blast
  then have "live s' t (access_key h) = None"
  proof (cases rule: issue_token_cases)
    case (issued d nonce s1)
    then show ?thesis using store_token_live [OF assms(3)] absent_claimed [OF issued(4) assms(3)] assms(2,4) op
      by (simp add: op_avoids_def)
  qed (use assms absent_refused in auto)
  then show ?thesis using op issue by simp
next
  case (Authenticate_Op tok db)
  then show ?thesis using authenticate_store [OF assms(3), of ae tok db s "access_key h"] assms(4) by auto
next
  case (Revoke_Op j)
  then show ?thesis using revoke_store [OF assms(3)] assms(4) by simp
next
  case (Other_Op f)
  then show ?thesis using assms by (simp add: quiet_op_def)
qed

lemma run_withdrawn:
  assumes "list_all (\<lambda>op. quiet_op live op \<and> op_avoids ae h op) (map snd ops)" "\<forall>now \<in> set (map fst ops). now \<le> t"
    and "live s t (access_key h) = None"
  shows "live (device_run so ae cfg ops s) t (access_key h) = None"
  using assms
proof (induction ops arbitrary: s)
  case (Cons a ops)
  then show ?case using step_withdrawn [of "snd a" ae h "fst a" t s cfg] by (cases a) simp
qed simp

lemma proof_refused:
  assumes first: "issue_token so ae cfg t1 a1 rq1 md1 r1 db1 s = (Inr x, db1', s1)"
    and run: "list_all (quiet_op live) (map snd ops)" "\<forall>now \<in> set (map fst ops). now \<le> t2" "t1 \<le> t2"
    and same: "tr_device_id rq2 = tr_device_id rq1" "tr_timestamp rq2 = tr_timestamp rq1"
      "decode_base64url (tr_nonce rq2) 24 = decode_base64url (tr_nonce rq1) 24"
    and window: "2 * device_proof_max_skew_seconds cfg < device_nonce_ttl_seconds cfg"
    and second: "issue_token so ae cfg t2 a2 rq2 md2 r2 db2 (device_run so ae cfg ops s1) = (r, db2', s3)"
  shows "(\<exists>e. r = Inl e) \<and> (\<forall>t \<ge> t2. live s3 t k = live (device_run so ae cfg ops s1) t k)"
  using second
proof (cases rule: issue_token_cases)
  case (replay d nonce)
  then show ?thesis using absent_refused by auto
next
  case second: (issued d nonce s2)
  from first show ?thesis
  proof (cases rule: issue_token_cases)
    case (issued d' nonce' s0)
    have id: "dev_id d = dev_id d'" using issued(1) second(1) same(1) by (auto dest!: scalar_SomeD)
    obtain p where p: "parse_rfc3339 ae (tr_timestamp rq1) = Some p" "\<bar>t1 - p\<bar> \<le> seconds (int (device_proof_max_skew_seconds cfg))"
      "decode_base64url (tr_nonce rq1) 24 = Some nonce'" using issued(3) by (rule check_proof_Inr)
    obtain q where q: "parse_rfc3339 ae (tr_timestamp rq2) = Some q" "\<bar>t2 - q\<bar> \<le> seconds (int (device_proof_max_skew_seconds cfg))"
      "decode_base64url (tr_nonce rq2) 24 = Some nonce" using second(3) by (rule check_proof_Inr)
    have "t2 < t1 + seconds (int (device_nonce_ttl_seconds cfg))"
      using p q same window by (simp add: seconds_def)
    then have "live s0 t2 (nonce_key ae (dev_id d) nonce) = Some (u ''1'')"
      using absent_claimed(2) [OF issued(4) run(3)] p(3) q(3) same(3) id by simp
    then have "live s1 t2 (nonce_key ae (dev_id d) nonce) = Some (u ''1'')"
      using store_token_live [OF run(3)] issued(6) by simp
    then have "live (device_run so ae cfg ops s1) t2 (nonce_key ae (dev_id d) nonce) = Some (u ''1'')"
      by (rule run_nonce [OF run(1,2)])
    then show ?thesis using absent_claimed(1) [OF second(4) order_refl] by simp
  qed simp_all
qed auto

lemma issue_succeeds:
  assumes "scalar (\<lambda>d. dev_id d = tr_device_id rq) (devices db) = Some d" "dev_status d = ACTIVE"
    and "check_proof ae cfg now authorization rq d = Inr nonce" "live s now (nonce_key ae (dev_id d) nonce) = None"
  shows "\<exists>db' s'. issue_token so ae cfg now authorization rq md random db s =
    (Inr (u ''dca_'' @ random, now + seconds (int (device_access_token_ttl_seconds cfg))), db', s')"
proof -
  obtain r db' s' where run: "issue_token so ae cfg now authorization rq md random db s = (r, db', s')" using prod_cases3 by blast
  then show ?thesis
  proof (cases rule: issue_token_cases)
    case (refused e)
    then show ?thesis using assms(1-3) by blast
  next
    case (replay d' nonce')
    then have "fst (set_if_absent (nonce_key ae (dev_id d) nonce) (u ''1'') (device_nonce_ttl_seconds cfg) now s) = False"
      using assms(1,3) by (simp add: so_ops)
    then show ?thesis using assms(4) by (simp add: absent_result)
  qed (use run in auto)
qed

lemma issued_token_authenticates:
  assumes "issue_token so ae cfg t1 authorization rq md random db s = (Inr (tok, deadline), db1, s1)" "t1 \<le> t2"
    and fields: "\<And>d. token_fields ae (token_data d) = Some (dev_id d, int (dev_credential_version d))"
  shows "\<exists>d nonce. scalar (\<lambda>d. dev_id d = tr_device_id rq) (devices db) = Some d \<and> dev_status d = ACTIVE
    \<and> check_proof ae cfg t1 authorization rq d = Inr nonce
    \<and> deadline = t1 + seconds (int (device_access_token_ttl_seconds cfg))
    \<and> fst (authenticate_access_token so ae t2 tok db2 s1) =
       (case scalar (\<lambda>x. dev_id x = dev_id d) (devices db2) of
          None \<Rightarrow> None
        | Some x \<Rightarrow> if t2 < deadline \<and> dev_status x = ACTIVE \<and> dev_credential_version x = dev_credential_version d
                   then Some x else None)"
  using assms(1)
proof (cases rule: issue_token_cases)
  case (issued d nonce s0)
  show ?thesis
  proof (intro exI conjI)
    show "deadline = t1 + seconds (int (device_access_token_ttl_seconds cfg))" using issued(5) by simp
    show "fst (authenticate_access_token so ae t2 tok db2 s1) =
       (case scalar (\<lambda>x. dev_id x = dev_id d) (devices db2) of
          None \<Rightarrow> None
        | Some x \<Rightarrow> if t2 < deadline \<and> dev_status x = ACTIVE \<and> dev_credential_version x = dev_credential_version d
                   then Some x else None)"
      using issued(5,6) store_token_live [OF assms(2)]
      by (auto simp: authenticate_value fields split: option.splits)
  qed (use issued in blast)+
qed simp_all

lemma token_withdrawn:
  assumes old: "fst (authenticate_access_token so ae t1 old db0 s) = Some d0" and digest: "\<And>x. da_hmac ae x \<noteq> []"
    and fields: "op = Revoke_Op (dev_id d0) \<or> (\<exists>a rq md random db x. op = Issue_Op a rq md random db
        \<and> tr_device_id rq = dev_id d0 \<and> fst (issue_token so ae cfg t1 a rq md random db s) = Inr x)"
    and avoid: "list_all (\<lambda>op. quiet_op live op \<and> op_avoids ae (token_digest (da_hmac ae) ''device-access'' old) op) (op # map snd ops)"
    and time: "\<forall>now \<in> set (map fst ops). now \<le> t2" "t1 \<le> t2"
  shows "fst (authenticate_access_token so ae t2 old db2 (device_run so ae cfg ((t1, op) # ops) s)) = None"
proof -
  let ?h = "token_digest (da_hmac ae) ''device-access'' old"
  have h: "?h \<noteq> []" using digest by (simp add: token_digest_def)
  have cur: "live s t1 (current_key (dev_id d0)) = Some ?h"
    using old by (auto simp: authenticate_value split: option.splits if_splits prod.splits dest!: scalar_SomeD)
  have "live (device_step so ae cfg t1 op s) t2 (access_key ?h) = None"
    using fields
  proof (elim disjE exE conjE)
    assume "op = Revoke_Op (dev_id d0)"
    then show ?thesis using revoke_store [OF time(2)] cur h by simp
  next
    fix a rq md random db x
    assume op: "op = Issue_Op a rq md random db" "tr_device_id rq = dev_id d0"
      "fst (issue_token so ae cfg t1 a rq md random db s) = Inr x"
    obtain db' s' where issue: "issue_token so ae cfg t1 a rq md random db s = (Inr x, db', s')" using op(3) by (metis prod.collapse)
    then have "live s' t2 (access_key ?h) = None"
    proof (cases rule: issue_token_cases)
      case (issued d nonce s1)
      have "dev_id d = dev_id d0" using issued(1) op(2) by (auto dest!: scalar_SomeD)
      then show ?thesis
        using store_token_live [OF time(2)] absent_claimed(2) [OF issued(4) order_refl] issued(6) cur h avoid op(1) by (auto simp: op_avoids_def)
    qed simp_all
    then show ?thesis using op issue by simp
  qed
  then have "live (device_run so ae cfg ops (device_step so ae cfg t1 op s)) t2 (access_key ?h) = None"
    using run_withdrawn avoid time(1) by simp
  then show ?thesis by (simp add: authenticate_value)
qed

end

section \<open>Properties\<close>

definition memory_device_store :: "memory_store store_ops" where
  "memory_device_store =
     \<lparr>so_get = memory_get, so_set_if_absent = memory_set_if_absent, so_set = memory_set, so_delete = memory_delete\<rparr>"

interpretation device_memory: device_store memory_live memory_get memory_set_if_absent memory_compare_refresh
  memory_compare_delete memory_increment memory_set memory_delete memory_device_store
  by unfold_locales (simp_all add: memory_device_store_def)

text \<open>C10: A proof of possession is good for one token.  After a token was issued for a signed device identifier, time
  stamp and nonce, no later request with the same three is accepted, whatever token requests, authentications,
  revocations and other uses of the store happen in between, as long as the nonce is kept for more than twice the
  accepted clock skew; the refused request leaves every visible key of the store as it was.\<close>

theorem device_proof_once:
  assumes "issue_token memory_device_store ae cfg t1 a1 rq1 md1 r1 db1 s = (Inr x, db1', s1)"
    and "sorted (t1 # map fst ops @ [t2])" "list_all (quiet_op memory_live) (map snd ops)"
    and "tr_device_id rq2 = tr_device_id rq1" "tr_timestamp rq2 = tr_timestamp rq1"
      "decode_base64url (tr_nonce rq2) 24 = decode_base64url (tr_nonce rq1) 24"
    and "2 * device_proof_max_skew_seconds cfg < device_nonce_ttl_seconds cfg"
    and "s2 = device_run memory_device_store ae cfg ops s1"
    and "issue_token memory_device_store ae cfg t2 a2 rq2 md2 r2 db2 s2 = (r, db2', s3)"
  shows "(\<exists>e. r = Inl e) \<and> (\<forall>t \<ge> t2. \<forall>k. memory_live s3 t k = memory_live s2 t k)"
  using device_memory.proof_refused [OF assms(1,3) _ _ assms(4-7)] assms(2,8,9) by (auto simp: sorted_append)

text \<open>The laws of \<open>uuid.UUID\<close> and \<open>int\<close> on what the program itself stored.\<close>

definition reads_tokens :: "auth_env \<Rightarrow> bool" where
  "reads_tokens ae \<longleftrightarrow> (\<forall>i. da_uuid ae (uuid_str i) = Some i) \<and> (\<forall>n. da_int ae (JInt n) = Some n)"

lemma token_fields_data:
  assumes "reads_tokens ae"
  shows "token_fields ae (token_data d) = Some (dev_id d, int (dev_credential_version d))"
proof -
  have "valid_char c" if "c \<in> set (uuid_str i)" for c i
    using that hex_digits_plain [of c 32 "unat i"] unfolding uuid_str_def Let_def
    by (auto simp: valid_char_def surrogate_def dest!: in_set_takeD in_set_dropD)
  then have "storable (da_float ae) (JObj [(u ''device_id'', JStr (uuid_str (dev_id d))),
     (u ''credential_version'', JInt (int (dev_credential_version d)))])"
    by (simp add: valid_char_u list_all_iff [of _ "uuid_str _"])
  then have "loads (da_float ae) (token_data d) = Some (JObj [(u ''device_id'', JStr (uuid_str (dev_id d))),
     (u ''credential_version'', JInt (int (dev_credential_version d)))])"
    unfolding token_data_def by (rule loads_dumps)
  then show ?thesis using assms by (simp add: token_fields_def reads_tokens_def dict_get_def)
qed

text \<open>C23: A token is issued only for an active device whose credential and signed proof were accepted, and it lives
  until its announced deadline.  Read back from the store it authenticates exactly the device of that identifier,
  before the deadline, while this device is active and its credential version is the one of the issue.\<close>

theorem device_token_lifecycle:
  assumes "issue_token memory_device_store ae cfg t1 authorization rq md random db s = (Inr (tok, deadline), db1, s1)"
    and "reads_tokens ae" "t1 \<le> t2"
  shows "\<exists>d nonce. scalar (\<lambda>d. dev_id d = tr_device_id rq) (devices db) = Some d \<and> dev_status d = ACTIVE
    \<and> check_proof ae cfg t1 authorization rq d = Inr nonce
    \<and> deadline = t1 + seconds (int (device_access_token_ttl_seconds cfg))
    \<and> fst (authenticate_access_token memory_device_store ae t2 tok db2 s1) =
        (case scalar (\<lambda>x. dev_id x = dev_id d) (devices db2) of
           None \<Rightarrow> None
         | Some x \<Rightarrow> if t2 < deadline \<and> dev_status x = ACTIVE \<and> dev_credential_version x = dev_credential_version d
                    then Some x else None)"
  using assms(1,3) token_fields_data [OF assms(2)] by (rule device_memory.issued_token_authenticates)

text \<open>C21: A withdrawn token stays withdrawn.  Once the token of a device was revoked, or the device got a new token,
  the old one never authenticates again, whatever happens to the database and whatever later operations do, as long
  as no new token has its digest.\<close>

theorem device_token_withdrawn:
  assumes "fst (authenticate_access_token memory_device_store ae t1 old db0 s) = Some d0" "\<forall>x. da_hmac ae x \<noteq> []"
    and "op = Revoke_Op (dev_id d0) \<or> (\<exists>a rq md random db x. op = Issue_Op a rq md random db
        \<and> tr_device_id rq = dev_id d0 \<and> fst (issue_token memory_device_store ae cfg t1 a rq md random db s) = Inr x)"
    and "list_all (\<lambda>op. quiet_op memory_live op \<and> op_avoids ae (token_digest (da_hmac ae) ''device-access'' old) op) (op # map snd ops)"
    and "sorted (t1 # map fst ops @ [t2])"
  shows "fst (authenticate_access_token memory_device_store ae t2 old db2 (device_run memory_device_store ae cfg ((t1, op) # ops) s)) = None"
  using device_memory.token_withdrawn [OF assms(1) _ assms(3,4)] assms(2,5) by (auto simp: sorted_append)

section \<open>Samples\<close>

definition sample_auth_env :: auth_env where
  "sample_auth_env = \<lparr>da_hmac = Cons 1, da_sha = (\<lambda>_. [1]), da_sha_bytes = id, da_verify = (\<lambda>_ _ _. True),
     da_fromisoformat = (\<lambda>_. Some (0, True)), da_float = id, da_str = (\<lambda>_. []), da_uuid = parse_uuid,
     da_int = (\<lambda>j. case j of JInt n \<Rightarrow> Some n | _ \<Rightarrow> None)\<rparr>"

definition sample_token_request :: token_request where
  "sample_token_request = \<lparr>tr_device_id = 1, tr_public_key = base64url_encode (replicate 32 0), tr_timestamp = [],
     tr_nonce = base64url_encode (replicate 24 0), tr_signature = base64url_encode (replicate 64 0)\<rparr>"

definition paired_device :: device where
  "paired_device = sample_device\<lparr>dev_public_key := base64url_encode (replicate 32 0),
     dev_refresh_credential_hash := Some (token_digest (Cons 1) ''device-refresh-v2'' (hexdigest [1]))\<rparr>"

definition paired_database :: database where
  "paired_database = empty_database\<lparr>devices := [paired_device]\<rparr>"

lemma decode_encoded: "byte_list bs \<Longrightarrow> decode_base64url (base64url_encode bs) (length bs) = Some bs"
  by (simp add: decode_base64url_def a2b_base64_encode)

lemma sample_proof:
  assumes "\<bar>now\<bar> \<le> seconds (int (device_proof_max_skew_seconds cfg))"
  shows "check_proof sample_auth_env cfg now (Some (u ''Device c'')) sample_token_request paired_device = Inr (replicate 24 0)"
proof -
  have d: "decode_base64url (base64url_encode (replicate n 0)) n = Some (replicate n 0)" for n
    using decode_encoded [of "replicate n 0"] by (simp add: byte_list_def list_all_iff)
  have "device_authorization (Some (u ''Device c'')) = Some (u ''c'')"
    by (simp add: device_authorization_def strip_prefix_def u_def py_strip_def py_space_def)
  moreover have "canonicalize_ed25519_public_key (base64url_encode (replicate 32 0)) = Some (base64url_encode (replicate 32 0))"
    by (rule canonical_key_encode) (simp_all add: byte_list_def list_all_iff)
  ultimately show ?thesis using assms d [of 24] d [of 32] d [of 64]
    by (simp add: check_proof_def credential_matches_def sample_auth_env_def paired_device_def sample_token_request_def parse_rfc3339_def)
qed

lemma sample_issue:
  assumes "\<bar>now\<bar> \<le> seconds (int (device_proof_max_skew_seconds cfg))"
    and "memory_live s now (nonce_key sample_auth_env 1 (replicate 24 0)) = None"
  shows "\<exists>db' s'. issue_token memory_device_store sample_auth_env cfg now (Some (u ''Device c'')) sample_token_request no_metadata random
    paired_database s = (Inr (u ''dca_'' @ random, now + seconds (int (device_access_token_ttl_seconds cfg))), db', s')"
  by (rule device_memory.issue_succeeds [OF _ _ sample_proof [OF assms(1)]])
    (use assms(2) in \<open>simp_all add: paired_database_def paired_device_def sample_token_request_def\<close>)

text \<open>The limits of the settings alone do not exclude the replay: with a skew of 300 seconds and nonces that are kept for
  60 seconds, both accepted, the same request gives a second token 61 seconds later.\<close>

lemma replay_after_nonce_expiry:
  fixes cfg
  defines "cfg \<equiv> default_settings\<lparr>device_proof_max_skew_seconds := 300, device_nonce_ttl_seconds := 60\<rparr>"
  shows "settings_in_range cfg \<and> (\<exists>x db1 s1 y db2 s2.
    issue_token memory_device_store sample_auth_env cfg 0 (Some (u ''Device c'')) sample_token_request no_metadata [1] paired_database empty_store = (Inr x, db1, s1)
  \<and> issue_token memory_device_store sample_auth_env cfg (seconds 61) (Some (u ''Device c'')) sample_token_request no_metadata [2] paired_database s1 = (Inr y, db2, s2))"
proof -
  have cfg: "device_proof_max_skew_seconds cfg = 300" "device_nonce_ttl_seconds cfg = 60" by (simp_all add: cfg_def)
  obtain db1 s1 where one: "issue_token memory_device_store sample_auth_env cfg 0 (Some (u ''Device c'')) sample_token_request no_metadata [1]
      paired_database empty_store = (Inr (u ''dca_'' @ [1], 0 + seconds (int (device_access_token_ttl_seconds cfg))), db1, s1)"
    using sample_issue [of 0 cfg empty_store "[1]"] by (auto simp: memory_live_def empty_store_def seconds_def)
  from one have "memory_live s1 (seconds 61) (nonce_key sample_auth_env 1 (replicate 24 0)) = None"
  proof (cases rule: issue_token_cases)
    case (issued d nonce s0)
    then show ?thesis
      using device_memory.store_token_live [of 0 "seconds 61"] device_memory.absent_claimed(2) [OF issued(4), of "seconds 61"]
        sample_proof [of 0 cfg]
      by (simp add: cfg seconds_def paired_database_def sample_token_request_def memory_live_def empty_store_def paired_device_def)
  qed simp_all
  then show ?thesis using one sample_issue [of "seconds 61" cfg s1 "[2]"]
    by (auto simp: cfg seconds_def) (simp add: cfg_def settings_in_range_def default_settings_def between_def)
qed

lemma sample_first:
  "\<exists>db1 s1. issue_token memory_device_store sample_auth_env default_settings 0 (Some (u ''Device c'')) sample_token_request no_metadata [1]
     paired_database empty_store = (Inr (u ''dca_'' @ [1], seconds 300), db1, s1)"
  using sample_issue [of 0 default_settings empty_store "[1]"]
  by (simp add: memory_live_def empty_store_def seconds_def default_settings_def)

lemma sample_reads: "reads_tokens sample_auth_env"
  by (simp add: reads_tokens_def sample_auth_env_def)

lemma sample_rows:
  "scalar (\<lambda>d. dev_id d = tr_device_id sample_token_request) (devices paired_database) = Some paired_device"
  "scalar (\<lambda>x. dev_id x = 1) (devices paired_database) = Some paired_device"
  "dev_status paired_device = ACTIVE" "dev_id paired_device = 1"
  by (simp_all add: paired_database_def paired_device_def sample_token_request_def)

theorem device_proof_once_witness:
  "\<exists>db1 s1. issue_token memory_device_store sample_auth_env default_settings 0 (Some (u ''Device c'')) sample_token_request no_metadata [1]
     paired_database empty_store = (Inr (u ''dca_'' @ [1], seconds 300), db1, s1)
   \<and> (\<exists>e. fst (issue_token memory_device_store sample_auth_env default_settings 2 (Some (u ''Device c'')) sample_token_request no_metadata [2]
        paired_database (device_run memory_device_store sample_auth_env default_settings [(1, Revoke_Op 1)] s1)) = Inl e)"
proof -
  obtain db1 s1 where one: "issue_token memory_device_store sample_auth_env default_settings 0 (Some (u ''Device c'')) sample_token_request
      no_metadata [1] paired_database empty_store = (Inr (u ''dca_'' @ [1], seconds 300), db1, s1)"
    using sample_first by blast
  obtain r db2 s3 where two: "issue_token memory_device_store sample_auth_env default_settings 2 (Some (u ''Device c'')) sample_token_request
      no_metadata [2] paired_database (device_run memory_device_store sample_auth_env default_settings [(1, Revoke_Op 1)] s1) = (r, db2, s3)"
    using prod_cases3 by blast
  have "\<exists>e. r = Inl e"
    using device_proof_once [OF one _ _ refl refl refl _ refl two] by (simp add: quiet_op_def default_settings_def)
  then show ?thesis using one two by auto
qed

theorem device_token_lifecycle_witness:
  "\<exists>db1 s1. issue_token memory_device_store sample_auth_env default_settings 0 (Some (u ''Device c'')) sample_token_request no_metadata [1]
     paired_database empty_store = (Inr (u ''dca_'' @ [1], seconds 300), db1, s1)
   \<and> fst (authenticate_access_token memory_device_store sample_auth_env 5 (u ''dca_'' @ [1]) paired_database s1) = Some paired_device"
proof -
  obtain db1 s1 where one: "issue_token memory_device_store sample_auth_env default_settings 0 (Some (u ''Device c'')) sample_token_request
      no_metadata [1] paired_database empty_store = (Inr (u ''dca_'' @ [1], seconds 300), db1, s1)"
    using sample_first by blast
  then show ?thesis
    using device_token_lifecycle [OF one sample_reads, of 5 paired_database] by (auto simp: sample_rows seconds_def)
qed

lemma sample_authenticated:
  "\<exists>s. fst (authenticate_access_token memory_device_store sample_auth_env 5 (u ''dca_'' @ [1]) paired_database s) = Some paired_device"
proof -
  obtain db1 s1 where one: "issue_token memory_device_store sample_auth_env default_settings 0 (Some (u ''Device c'')) sample_token_request
      no_metadata [1] paired_database empty_store = (Inr (u ''dca_'' @ [1], seconds 300), db1, s1)"
    using sample_first by blast
  have "0 \<le> (5 :: int)" by simp
  from device_memory.issued_token_authenticates [OF one this token_fields_data [OF sample_reads], of paired_database]
  have "fst (authenticate_access_token memory_device_store sample_auth_env 5 (u ''dca_'' @ [1]) paired_database s1) = Some paired_device"
    by (auto simp: sample_rows seconds_def)
  then show ?thesis by blast
qed

theorem device_token_withdrawn_witness:
  "\<exists>s. fst (authenticate_access_token memory_device_store sample_auth_env 5 (u ''dca_'' @ [1]) paired_database s) = Some paired_device
   \<and> fst (authenticate_access_token memory_device_store sample_auth_env 7 (u ''dca_'' @ [1]) paired_database
       (device_run memory_device_store sample_auth_env default_settings
         [(5, Revoke_Op 1), (6, Authenticate_Op (u ''dca_'' @ [1]) paired_database)] s)) = None"
proof -
  obtain s where s: "fst (authenticate_access_token memory_device_store sample_auth_env 5 (u ''dca_'' @ [1]) paired_database s) = Some paired_device"
    using sample_authenticated by blast
  have "\<forall>x. da_hmac sample_auth_env x \<noteq> []" by (simp add: sample_auth_env_def)
  from device_token_withdrawn [OF s this, of "Revoke_Op 1" default_settings "[(6, Authenticate_Op (u ''dca_'' @ [1]) paired_database)]" 7 paired_database] s
  show ?thesis by (auto simp: sample_rows quiet_op_def op_avoids_def)
qed

end
