(* ===== verification/Revocation.thy ===== *)
theory Revocation
  imports Device_Auth
begin

text \<open>
  The revocation of a device by its owner (\<open>revoke_device\<close> in \<open>control_routes.py\<close>): one transaction over the device,
  its connections, approvals and threads, and the actions after the commit.  Each of these is tried alone and an
  exception of it is only logged, so what the revocation guarantees rests on the database.
\<close>

section \<open>Operations\<close>

datatype revoke_error = Device_Not_Found | Revoke_Projection_Invalid | Revoke_Event_Error event_error

definition revoked_device :: "datetime \<Rightarrow> device \<Rightarrow> device" where
  "revoked_device now d =
     d\<lparr>dev_status := REVOKED, dev_revoked_at := Some now, dev_refresh_credential_hash := None,
       dev_credential_version := dev_credential_version d + 1, dev_active_epoch := None, dev_active_connection_nonce := None\<rparr>"

definition revoke_nonces :: "device \<Rightarrow> device_connection list \<Rightarrow> ustr list" where
  "revoke_nonces d connections =
     sort (remdups ((case dev_active_connection_nonce d of None \<Rightarrow> [] | Some n \<Rightarrow> [n]) @ map con_connection_nonce connections))"

definition closed_binding :: "datetime \<Rightarrow> thread_binding \<Rightarrow> thread_binding" where
  "closed_binding now b =
     b\<lparr>thr_status := CLOSED, thr_active_turn_id := None, thr_last_error := Some (u ''device revoked''), thr_updated_at := now\<rparr>"

fun close_bindings :: "datetime \<Rightarrow> ustr \<Rightarrow> uuid \<Rightarrow> thread_binding list \<Rightarrow> database \<Rightarrow> event_error + browser_event list \<times> database" where
  "close_bindings now owner i [] db = Inr ([], db)"
| "close_bindings now owner i (b # bs) db =
     (let b' = closed_binding now b in
      case append_all event_append now [(owner, i, ''thread.updated'', thread_event_data b', Some (thr_id b'))] (put_binding b' db) of
        Inl e \<Rightarrow> Inl e
      | Inr (events, db1) \<Rightarrow>
     (case close_bindings now owner i bs db1 of
        Inl e \<Rightarrow> Inl e
      | Inr (events', db2) \<Rightarrow> Inr (events @ events', db2)))"

definition revoke_audit :: "datetime \<Rightarrow> request_metadata \<Rightarrow> control_session \<Rightarrow> uuid \<Rightarrow> audit_event" where
  "revoke_audit now md s i =
     \<lparr>aud_actor_user_id = Some (ses_sub2api_user_id s), aud_actor_session_id = Some (ses_id s), aud_actor_device_id = None,
      aud_action = ''device.revoke'', aud_outcome = AUDIT_SUCCEEDED, aud_resource_type = Some ''device'',
      aud_resource_id = Some (uuid_str i), aud_request_id = rm_request_id md, aud_source_ip = rm_source_ip md,
      aud_user_agent = rm_user_agent md, aud_details = [], aud_created_at = now\<rparr>"

definition revoke_device ::
  "(json \<Rightarrow> ustr) \<Rightarrow> datetime \<Rightarrow> control_session \<Rightarrow> request_metadata \<Rightarrow> uuid \<Rightarrow> database
     \<Rightarrow> (revoke_error + unit) \<times> database \<times> notice list" where
  "revoke_device pystr now s md i db =
     (case scalar (\<lambda>d. dev_id d = i \<and> dev_owner_user_id d = ses_sub2api_user_id s) (devices db) of
        None \<Rightarrow> (Inl Device_Not_Found, db, [])
      | Some d \<Rightarrow>
          if dev_status d = REVOKED then (Inr (), db, [])
          else
            let owner = ses_sub2api_user_id s;
                db1 = snd (lock_owner_cursor owner db);
                connections = filter (connected_on i) (device_connections db1);
                nonces = revoke_nonces d connections;
                d1 = revoked_device now d;
                db2 = (put_device d1 db1)\<lparr>device_connections :=
                  update_where (connected_on i) (closed_connection now ''device_revoked'') (device_connections db1)\<rparr>
            in
     (case deny_revoked now d1 db2 of
        Inl e \<Rightarrow> (Inl (Revoke_Event_Error e), db, [])
      | Inr (events1, db3) \<Rightarrow>
     (case close_bindings now owner i (filter (\<lambda>b. thr_device_id b = i \<and> thr_status b \<noteq> CLOSED) (thread_bindings db3)) db3 of
        Inl e \<Rightarrow> (Inl (Revoke_Event_Error e), db, [])
      | Inr (events2, db4) \<Rightarrow>
     (case device_bootstrap_summary pystr d1 of
        Inl _ \<Rightarrow> (Inl Revoke_Projection_Invalid, db, [])
      | Inr view \<Rightarrow>
     (case append_all event_append now [(owner, i, ''device.updated'', DeviceData (view\<lparr>ds_status := ''revoked''\<rparr>), None)]
          (add_audit (revoke_audit now md s i) db4) of
        Inl e \<Rightarrow> (Inl (Revoke_Event_Error e), db, [])
      | Inr (events3, db5) \<Rightarrow>
          (Inr (), db5, (if nonces = [] then [] else [Kick_Connections i nonces])
             @ map (Publish_Event owner) (events1 @ events2 @ events3)))))))"

text \<open>The actions on the store after the commit; each flag says that the action failed.\<close>

definition after_revocation :: "'s store_ops \<Rightarrow> bool \<Rightarrow> bool \<Rightarrow> datetime \<Rightarrow> uuid \<Rightarrow> 's \<Rightarrow> 's" where
  "after_revocation so tokens_failed registry_failed now i s =
     (let s1 = (if tokens_failed then s else revoke_access_token so now i s)
      in if registry_failed then s1 else so_delete so (registry_key i) s1)"

section \<open>What a revocation leaves\<close>

lemma close_bindings_rows:
  assumes "close_bindings now owner i bs db = Inr (es, db')"
  shows "devices (core_of db') = devices (core_of db)" "device_connections db' = device_connections db"
    "approvals db' = approvals db" "commands db' = commands db"
    "\<forall>x \<in> set (thread_bindings db'). (\<exists>b \<in> set bs. x = closed_binding now b)
       \<or> x \<in> set (thread_bindings db) \<and> thr_id x \<notin> thr_id ` set bs"
proof -
  have "devices (core_of db') = devices (core_of db) \<and> device_connections db' = device_connections db
    \<and> approvals db' = approvals db \<and> commands db' = commands db
    \<and> (\<forall>x \<in> set (thread_bindings db'). (\<exists>b \<in> set bs. x = closed_binding now b)
       \<or> x \<in> set (thread_bindings db) \<and> thr_id x \<notin> thr_id ` set bs)"
    using assms
  proof (induction bs arbitrary: db es)
    case (Cons b bs)
    let ?b = "closed_binding now b"
    obtain e1 db1 e2 where app: "append_all event_append now [(owner, i, ''thread.updated'', thread_event_data ?b, Some (thr_id ?b))]
          (put_binding ?b db) = Inr (e1, db1)"
      and rest: "close_bindings now owner i bs db1 = Inr (e2, db')"
      using Cons.prems by (auto simp: Let_def simp del: append_all.simps split: sum.splits prod.splits)
    note core = stream.append_all_keeps(1) [OF app]
    have keep: "devices (core_of db1) = devices (core_of db)" "device_connections db1 = device_connections db"
      "approvals db1 = approvals db" "commands db1 = commands db"
      "thread_bindings db1 = update_where (\<lambda>x. thr_id x = thr_id ?b) (\<lambda>_. ?b) (thread_bindings db)"
      using core_ofD [OF core] arg_cong [OF core, of devices] by (simp_all add: put_binding_def core_of_def)
    have id: "thr_id ?b = thr_id b" by (simp add: closed_binding_def)
    show ?case
      using Cons.IH [OF rest] keep id by (auto simp: in_set_update_where split: if_splits)
  qed simp
  then show "devices (core_of db') = devices (core_of db)" "device_connections db' = device_connections db"
    "approvals db' = approvals db" "commands db' = commands db"
    "\<forall>x \<in> set (thread_bindings db'). (\<exists>b \<in> set bs. x = closed_binding now b)
       \<or> x \<in> set (thread_bindings db) \<and> thr_id x \<notin> thr_id ` set bs"
    by simp_all
qed

lemma revoke_device_Inr:
  assumes "revoke_device pystr now s md i db = (Inr (), db', ns)"
  obtains (already) d where "scalar (\<lambda>d. dev_id d = i \<and> dev_owner_user_id d = ses_sub2api_user_id s) (devices db) = Some d"
      "dev_status d = REVOKED" "db' = db" "ns = []"
  | (revoked) d es where "scalar (\<lambda>d. dev_id d = i \<and> dev_owner_user_id d = ses_sub2api_user_id s) (devices db) = Some d"
      "dev_status d \<noteq> REVOKED"
      "ns = (if revoke_nonces d (filter (connected_on i) (device_connections db)) = [] then []
         else [Kick_Connections i (revoke_nonces d (filter (connected_on i) (device_connections db)))])
         @ map (Publish_Event (ses_sub2api_user_id s)) es"
      "devices (core_of db') = devices (core_of (put_device (revoked_device now d) db))"
      "device_connections db' = update_where (connected_on i) (closed_connection now ''device_revoked'') (device_connections db)"
      "approvals db' = update_where (undispatched (revoked_device now d) None) (denied_form now ''device_revoked_default_deny'') (approvals db)"
      "commands db' = commands db" "\<forall>b \<in> set (thread_bindings db'). thr_device_id b = i \<longrightarrow> thr_status b = CLOSED"
proof (cases "scalar (\<lambda>d. dev_id d = i \<and> dev_owner_user_id d = ses_sub2api_user_id s) (devices db)")
  case None
  then show thesis using assms by (simp add: revoke_device_def)
next
  case (Some d)
  show thesis
  proof (cases "dev_status d = REVOKED")
    case True
    then show thesis using assms Some by (intro already) (auto simp: revoke_device_def)
  next
    case False
    let ?d = "revoked_device now d" and ?db1 = "snd (lock_owner_cursor (ses_sub2api_user_id s) db)"
    let ?db2 = "(put_device ?d ?db1)\<lparr>device_connections :=
       update_where (connected_on i) (closed_connection now ''device_revoked'') (device_connections ?db1)\<rparr>"
    let ?bs = "\<lambda>db3. filter (\<lambda>b. thr_device_id b = i \<and> thr_status b \<noteq> CLOSED) (thread_bindings db3)"
    obtain e1 db3 e2 db4 view e3 where run: "deny_revoked now ?d ?db2 = Inr (e1, db3)"
      "close_bindings now (ses_sub2api_user_id s) i (?bs db3) db3 = Inr (e2, db4)"
      "append_all event_append now [(ses_sub2api_user_id s, i, ''device.updated'', DeviceData (view\<lparr>ds_status := ''revoked''\<rparr>), None)]
          (add_audit (revoke_audit now md s i) db4) = Inr (e3, db')"
      and ns: "ns = (if revoke_nonces d (filter (connected_on i) (device_connections db)) = [] then []
         else [Kick_Connections i (revoke_nonces d (filter (connected_on i) (device_connections db)))])
         @ map (Publish_Event (ses_sub2api_user_id s)) (e1 @ e2 @ e3)"
      using assms Some False
      by (auto simp: revoke_device_def Let_def simp del: append_all.simps split: sum.splits prod.splits)
    note deny = deny_undispatched_Inr [OF run(1) [unfolded deny_revoked_def]]
    note close = close_bindings_rows [OF run(2)]
    note core = core_ofD [OF stream.append_all_keeps(1) [OF run(3)]]
    have dev: "devices (core_of db') = devices (core_of db4)"
      using arg_cong [OF stream.append_all_keeps(1) [OF run(3)], of devices] by (simp add: add_audit_def core_of_def)
    have "devices (core_of db') = devices (core_of (put_device ?d db))"
      using dev close(1) deny(2) by (simp add: approval_effect_def put_device_def core_of_def)
    moreover have "device_connections db' = update_where (connected_on i) (closed_connection now ''device_revoked'') (device_connections db)"
      "commands db' = commands db"
      using core close(2,4) deny(2) by (simp_all add: approval_effect_def add_audit_def put_device_def)
    moreover have "approvals db' = update_where (undispatched ?d None) (denied_form now ''device_revoked_default_deny'') (approvals db)"
      using core close(3) deny(1) by (simp add: add_audit_def put_device_def)
    moreover have "\<forall>b \<in> set (thread_bindings db'). thr_device_id b = i \<longrightarrow> thr_status b = CLOSED"
    proof (intro ballI impI)
      fix b assume b: "b \<in> set (thread_bindings db')" "thr_device_id b = i"
      have "b \<in> set (thread_bindings db4)" using b(1) core(5) by (simp add: add_audit_def)
      then have "(\<exists>c \<in> set (?bs db3). b = closed_binding now c) \<or> b \<in> set (thread_bindings db3) \<and> thr_id b \<notin> thr_id ` set (?bs db3)"
        using close(5) by blast
      then show "thr_status b = CLOSED"
      proof
        assume "b \<in> set (thread_bindings db3) \<and> thr_id b \<notin> thr_id ` set (?bs db3)"
        then have "b \<notin> set (?bs db3)" "b \<in> set (thread_bindings db3)" by blast+
        then show ?thesis using b(2) by simp
      qed (auto simp: closed_binding_def)
    qed
    ultimately show thesis using revoked [OF Some False ns] by blast
  qed
qed

lemma revoked_row:
  assumes "devices (core_of db') = devices (core_of (put_device d1 db))" "x \<in> set (devices db')" "dev_id x = dev_id d1"
  obtains n where "x = d1\<lparr>dev_last_event_sequence := n\<rparr>"
proof -
  let ?n = "\<lambda>d. d\<lparr>dev_last_event_sequence := 0\<rparr>"
  have "?n x \<in> set (devices (core_of (put_device d1 db)))" using assms(1,2) by (metis core_of_simps(3) image_eqI list.set_map)
  then obtain y where y: "y \<in> set (devices (put_device d1 db))" "?n x = ?n y" by (auto simp: core_of_def)
  have "dev_id x = dev_id y" using arg_cong [OF y(2), of dev_id] by simp
  then have "y = d1" using y(1) assms(3) by (auto simp: put_device_def in_set_update_where split: if_splits)
  then have "x = d1\<lparr>dev_last_event_sequence := dev_last_event_sequence x\<rparr>" by (insert y(2), cases x, cases d1) simp
  then show thesis by (rule that)
qed

lemma inactive_locked_out:
  assumes "scalar (\<lambda>x. dev_id x = i) (devices db) = Some x" "dev_status x \<noteq> ACTIVE"
  shows "tr_device_id rq = i \<Longrightarrow>
      fst (issue_token memory_device_store ae cfg t authorization rq md random db store) = Inl Device_Credential_Rejected"
    and "fst (authenticate_access_token memory_device_store ae t tok db store) = Some y \<Longrightarrow> dev_id y \<noteq> i"
proof -
  show "fst (issue_token memory_device_store ae cfg t authorization rq md random db store) = Inl Device_Credential_Rejected"
    if "tr_device_id rq = i"
    using assms that by (simp add: issue_token_def)
  show "dev_id y \<noteq> i" if y: "fst (authenticate_access_token memory_device_store ae t tok db store) = Some y"
  proof -
    obtain j where j: "scalar (\<lambda>d. dev_id d = j) (devices db) = Some y" "dev_status y = ACTIVE"
      using y by (auto simp: device_memory.authenticate_value split: option.splits if_splits prod.splits)
    then show ?thesis using assms scalar_SomeD(2) [OF j(1)] by auto
  qed
qed

lemma closed_none: "filter (connected_on i) (update_where (connected_on i) (closed_connection now reason) cs) = []"
  by (induction cs) auto

lemma others_kept:
  assumes "devices (core_of db') = devices (core_of (put_device d1 db))" "dev_id d1 = i"
  shows "filter (\<lambda>x. dev_id x \<noteq> i) (devices (core_of db')) = filter (\<lambda>x. dev_id x \<noteq> i) (devices (core_of db))"
proof -
  have "filter (\<lambda>x. dev_id x \<noteq> i) (update_where (\<lambda>x. dev_id x = i) (\<lambda>_. d1) ds) = filter (\<lambda>x. dev_id x \<noteq> i) ds" for ds
    using assms(2) by (induction ds) auto
  then show ?thesis unfolding assms(1) by (simp add: core_of_def put_device_def filter_map comp_def assms(2))
qed

lemma denied_all:
  assumes "a \<in> set (update_where (undispatched d None) (denied_form now ''device_revoked_default_deny'') as)"
  shows "\<not> undispatched d None a"
proof -
  obtain a0 where "a = (if undispatched d None a0 then denied_form now ''device_revoked_default_deny'' a0 else a0)"
    using assms unfolding in_set_update_where by blast
  then show ?thesis
    using undispatched_denied [of "''device_revoked_default_deny''"] by (simp add: NON_DISPATCHABLE_APPROVAL_REASONS_def)
qed

lemma kicked:
  "c \<in> set cs \<Longrightarrow> connected_on i c \<Longrightarrow> con_connection_nonce c \<in> set (revoke_nonces d (filter (connected_on i) cs))"
  by (simp add: revoke_nonces_def)

lemma revoked_again:
  assumes "x \<in> set (devices db)" "dev_id x = i" "dev_owner_user_id x = ses_sub2api_user_id s"
    and "\<And>y. y \<in> set (devices db) \<Longrightarrow> dev_id y = i \<Longrightarrow> dev_status y = REVOKED"
  shows "revoke_device pystr now s md i db = (Inr (), db, [])"
proof -
  have "scalar (\<lambda>d. dev_id d = i \<and> dev_owner_user_id d = ses_sub2api_user_id s) (devices db) \<noteq> None"
    using assms(1-3) by (auto simp: scalar_None_iff)
  then obtain y where y: "scalar (\<lambda>d. dev_id d = i \<and> dev_owner_user_id d = ses_sub2api_user_id s) (devices db) = Some y" by blast
  then have "dev_status y = REVOKED" using assms(4) scalar_SomeD [OF y] by blast
  then show ?thesis using y by (simp add: revoke_device_def)
qed


definition owner_session :: control_session where
  "owner_session = (sample_session (sample_session_env None))\<lparr>ses_sub2api_user_id := u ''user-1''\<rparr>"


end
