(* ===== verification/Spec2Isabelle.thy ===== *)
theory Spec2Isabelle
  imports Leases Snapshot Paths Bootstrap Revocation
begin

text \<open>
  Verification of the control API of \<open>sub2api-codex-control\<close>: the Python service under
  \<open>src/apps/control-api/src/control_api\<close> that lets the owner of a device steer an app-server on that device from a
  browser.  All file names below are relative to that directory.

  \<^bold>\<open>The program.\<close>  A browser signs in with an identity of an upstream service and gets a session.  A device is paired: it
  starts with a signed proof, the owner claims its code, the device polls and becomes a device of that owner.  With a
  connect token the device opens a socket; over it the server sends commands and decisions in a numbered, durable
  channel, and the device sends acknowledgements, events and approval requests, also numbered.  Every change that a
  browser must see is an event in a stream per owner, which a browser reads from its cursor.  Sweeps expire what is
  overdue, and retention deletes what is old.

  \<^bold>\<open>Conventions.\<close>  The database is a record of tables, a table a list of rows, a row a record with the columns of
  \<open>models.py\<close>.  An operation is a function from the database to its result, the new database and the notices that it
  tries to send after the commit; one transaction is one step, and an error before the commit leaves the database as
  it was.  Errors are values of sum types, one constructor per exception of the source.  The clock, fresh identifiers,
  random text, hashes, ciphers, signature checks, the rendering of times and what other services answer are arguments;
  where a property needs more of them than their type, this is a hypothesis of the property.  Text is a list of code
  points, time an integer number of microseconds, an identifier a 128 bit word.

  \<^bold>\<open>Foundations.\<close>  \<open>Prelude\<close> has the text, the queries over rows and their lemmas.  \<open>Json\<close> and \<open>Json_Parse\<close> are the
  serializer and the parser of the standard library with their round trip; the fuel of the parser is twice the length
  of the text plus two, and more fuel gives the same result (\<open>loads_fuel\<close>).  \<open>Config\<close> has the limits of \<open>config.py\<close>
  with their ranges, \<open>Models\<close> the tables of \<open>models.py\<close> and the views.  \<open>Storage\<close> models the in-process key-value store of
  \<open>storage.py\<close>; the locales \<open>kv_contract\<close> and \<open>kv_store\<close> state what the other components may rely on.  \<open>Effects\<close> has the
  notices and the locale \<open>event_sink\<close>, the contract of \<open>EventService\<close>; \<open>Sweep\<close> has the common shape of the sweeps.

  \<^bold>\<open>The event stream.\<close>  \<open>Events\<close> (\<open>events.py\<close> and the browser loops of \<open>realtime.py\<close>): append, catch-up pages, pruning and
  forwarding.  Under every interleaving a browser receives the events of its owner in order and exactly once, or is
  told to start again; the catch-up loop ends and delivers everything.

  \<^bold>\<open>Commands and approvals.\<close>  \<open>Budget\<close> (\<open>command_budget.py\<close>), \<open>Paths\<close> (workspace roots), \<open>Commands\<close> (\<open>commands.py\<close>) and
  \<open>Approvals\<close> (\<open>approvals.py\<close>): byte budgets of frames, idempotent creation within the quotas, decisions only by the
  owner of a pending approval in the current epoch, default denial in every other case, and the expiry sweeps.

  \<^bold>\<open>What a browser is shown.\<close>  \<open>Snapshot\<close> (\<open>thread_snapshot.py\<close>), \<open>Capacity\<close> (\<open>capacity.py\<close>, \<open>views.py\<close>) and \<open>Bootstrap\<close>
  (the bootstrap route of \<open>control_routes.py\<close>): compaction to the limits, size checks of the parts, and that the whole
  answer fits when the parts do.

  \<^bold>\<open>The connection of a device\<close> (\<open>realtime.py\<close>, \<open>protocol.py\<close>).  \<open>Outbox\<close> refines a reliable channel; \<open>Dispatch\<close> sends a
  command or a decision in one transaction with the row it belongs to; \<open>Wire\<close> validates every frame type; \<open>Projection\<close>
  reads what an app-server reports into threads; \<open>Frames\<close> applies each frame type; \<open>Intake\<close> orders the frames; \<open>Connection\<close>
  opens, replaces, activates and ends connections.  The lemmas show that frames are sent and applied exactly once and
  in order, that a replaced connection is fenced, and that the shared invariant is kept by every step.

  \<^bold>\<open>Identity.\<close>  \<open>Security\<close> (\<open>security.py\<close>) has base64url, UTF-8, the sealed session cookie and the signed start proof;
  \<open>Sessions\<close> (\<open>sub2api.py\<close>, the session service of \<open>services.py\<close>, \<open>dependencies.py\<close>) the sessions and the guards of a
  request; \<open>Pairing\<close> the pairing service of \<open>services.py\<close>; \<open>Device_Auth\<close> (\<open>device_auth.py\<close>) the connect tokens; \<open>Revocation\<close>
  the revocation route of \<open>control_routes.py\<close>; \<open>Leases\<close> the rate limiter and the browser leases.  The lemmas show that a
  request passes its guard only with a live and verified session, that the quotas hold through the handshake, that a
  device is created only for the holder of its secrets and the user who claimed it, that a proof gives one token, and
  that rejection, revocation and replacement are final.  The property of this theory joins pairing and tokens.

  \<^bold>\<open>Retention\<close> (\<open>retention.py\<close>): a sweep, which deletes at most one batch per table, keeps the invariants, every
  reference between tables and everything that is still live.

  \<^bold>\<open>Loops.\<close>  Recursion over the rows or the text is structural; the bisection of \<open>Snapshot\<close> and the scanner of strings
  have termination proofs.  The only fuel besides that of the parser counts the pages of the catch-up loop; more fuel
  than there are events after the cursor is enough for it to end.

  \<^bold>\<open>Not modelled.\<close>  The HTTP layer (routes other than bootstrap and revocation, cookies, origin and client address), the
  application wiring with its background tasks, metrics, logging, the database driver and the Redis client, of which
  only the contract of the store is used; the migrations; the connector (Go), the browser application (TypeScript) and
  the scripts for deployment and release.  Row locks are the atomicity of the steps; deadlocks and failing commits
  other than the modelled unique columns are left out, and so is the \<open>updated_at\<close> column of devices.
\<close>

section \<open>From the pairing to the connection\<close>

text \<open>C11: Pairing gives a usable credential.  After the poll that turned a claimed pairing into a device, a token request
  of that device with the credential it committed to when it started, the key of the pairing, an accepted time stamp,
  a valid signature and an unused nonce gets an access token, and with it the device is authenticated until the token
  ends, as the device of that pairing and of the user who claimed it.\<close>

theorem paired_device_connects:
  assumes poll: "poll_pairing pv now md i poll_token db = (Inr (q, Some d), db', ns)"
    and claimed: "pairing_at i db = Some p" "pair_status p = PAIRING_CLAIMED"
    and secret: "pair_refresh_credential_hash p =
      Some (token_digest (pv_hmac pv) ''device-refresh-v2'' (pairing_secret_commitment pv credential))"
    and env: "da_hmac ae = pv_hmac pv" "da_sha ae = pv_sha pv" "reads_tokens ae"
    and request: "tr_device_id rq = i" "device_authorization authorization = Some credential"
      "canonicalize_ed25519_public_key (tr_public_key rq) = Some (pair_public_key p)"
      "parse_rfc3339 ae (tr_timestamp rq) = Some proof_time" "\<bar>t - proof_time\<bar> \<le> seconds (int (device_proof_max_skew_seconds cfg))"
      "decode_base64url (tr_nonce rq) 24 = Some nonce" "decode_base64url (tr_signature rq) 64 = Some signature"
      "decode_base64url (pair_public_key p) 32 = Some public_key" "da_verify ae public_key signature (proof_text rq)"
    and unused: "memory_live s t (nonce_key ae i nonce) = None"
    and time: "t \<le> t2" "t2 < t + seconds (int (device_access_token_ttl_seconds cfg))"
  shows "\<exists>tok deadline db1 s1 x.
      issue_token memory_device_store ae cfg t authorization rq md2 random db' s = (Inr (tok, deadline), db1, s1)
    \<and> fst (authenticate_access_token memory_device_store ae t2 tok db' s1) = Some x
    \<and> dev_id x = i \<and> Some (dev_owner_user_id x) = pair_claimed_by_user_id p"
proof -
  obtain x owner where x: "scalar (\<lambda>x. dev_id x = i) (devices db') = Some x" "dev_id x = i" "dev_status x = ACTIVE"
    "dev_credential_scheme x = 2" "dev_public_key x = pair_public_key p" "dev_refresh_credential_hash x = pair_refresh_credential_hash p"
    "pair_claimed_by_user_id p = Some owner" "dev_owner_user_id x = owner"
    by (rule polled_device [OF poll claimed])
  have "credential_matches ae credential x"
    using x(4,6) secret env(1,2) by (simp add: credential_matches_def pairing_secret_commitment_def)
  then have "check_proof ae cfg t authorization rq x = Inr nonce"
    using request x(5) by (intro check_proof_InrI) simp_all
  then obtain db1 s1 where issue: "issue_token memory_device_store ae cfg t authorization rq md2 random db' s =
      (Inr (u ''dca_'' @ random, t + seconds (int (device_access_token_ttl_seconds cfg))), db1, s1)"
    using device_memory.issue_succeeds [of rq db' x ae cfg t authorization nonce s md2 random] x(1-3) request(1) unused by auto
  have "fst (authenticate_access_token memory_device_store ae t2 (u ''dca_'' @ random) db' s1) = Some x"
    using device_memory.issued_token_authenticates [OF issue time(1) token_fields_data [OF env(3)], of db'] x(1-3) request(1) time(2)
    by auto
  moreover have "Some (dev_owner_user_id x) = pair_claimed_by_user_id p" using x(7,8) by simp
  ultimately show ?thesis using issue x(2) by blast
qed

definition connect_pairing :: device_pairing where
  "connect_pairing = sample_claimed_pairing\<lparr>pair_public_key := base64url_encode (replicate 32 0),
     pair_refresh_credential_hash := Some (token_digest id ''device-refresh-v2'' (pairing_secret_commitment sample_pairing_env (u ''c'')))\<rparr>"

definition connect_database :: database where
  "connect_database = empty_database\<lparr>device_pairings := [connect_pairing]\<rparr>"

theorem paired_device_connects_witness:
  "\<exists>q d db' ns tok deadline db1 s1 x.
     poll_pairing sample_pairing_env 2 no_metadata 9 (u ''secret'') connect_database = (Inr (q, Some d), db', ns)
   \<and> issue_token memory_device_store (sample_auth_env\<lparr>da_hmac := id\<rparr>) default_settings 3 (Some (u ''Device c''))
       (sample_token_request\<lparr>tr_device_id := 9\<rparr>) no_metadata [1] db' empty_store = (Inr (tok, deadline), db1, s1)
   \<and> fst (authenticate_access_token memory_device_store (sample_auth_env\<lparr>da_hmac := id\<rparr>) 4 tok db' s1) = Some x
   \<and> dev_id x = 9"
proof -
  have wf: "events_wf connect_database" using events_wf_cong [of connect_database empty_database] empty_events_wf by (simp add: connect_database_def)
  have "\<exists>e db'. poll_pairing sample_pairing_env 2 no_metadata 9 (u ''secret'') connect_database =
      (Inr (completed_pairing 2 connect_pairing, Some (activated_device 2 connect_pairing)), db', [Publish_Event (su_user_id sample_user) e])
      \<and> device_sigs db' = device_sigs connect_database @ [device_sig (activated_device 2 connect_pairing)]"
    by (rule poll_succeeds [OF _ _ _ _ _ _ _ _ _ _ wf])
      (simp_all add: pairing_at_def connect_database_def connect_pairing_def sample_pairing_env_def empty_database_def stream_last_def
        cursor_row_def MAX_EVENT_CURSOR_def fits_activated [of _ _ _ _ 0 "[]" "[]"] sample_fits)
  then obtain q d db' ns where poll: "poll_pairing sample_pairing_env 2 no_metadata 9 (u ''secret'') connect_database = (Inr (q, Some d), db', ns)"
    by blast
  have dec: "decode_base64url (base64url_encode (replicate n 0)) n = Some (replicate n 0)" for n
    using decode_encoded [of "replicate n 0"] by (simp add: byte_list_def list_all_iff)
  have key: "canonicalize_ed25519_public_key (base64url_encode (replicate 32 0)) = Some (base64url_encode (replicate 32 0))"
    by (rule canonical_key_encode) (simp_all add: byte_list_def list_all_iff)
  have auth: "device_authorization (Some (u ''Device c'')) = Some (u ''c'')"
    by (simp add: device_authorization_def strip_prefix_def u_def py_strip_def py_space_def)
  have "\<exists>tok deadline db1 s1 x.
      issue_token memory_device_store (sample_auth_env\<lparr>da_hmac := id\<rparr>) default_settings 3 (Some (u ''Device c''))
       (sample_token_request\<lparr>tr_device_id := 9\<rparr>) no_metadata [1] db' empty_store = (Inr (tok, deadline), db1, s1)
    \<and> fst (authenticate_access_token memory_device_store (sample_auth_env\<lparr>da_hmac := id\<rparr>) 4 tok db' s1) = Some x
    \<and> dev_id x = 9 \<and> Some (dev_owner_user_id x) = pair_claimed_by_user_id connect_pairing"
    by (rule paired_device_connects [OF poll, where proof_time = 0 and nonce = "replicate 24 0" and signature = "replicate 64 0"
          and public_key = "replicate 32 0" and credential = "u ''c''"])
      (use sample_reads in \<open>simp_all add: auth key dec pairing_at_def connect_database_def connect_pairing_def sample_token_request_def
        sample_auth_env_def sample_pairing_env_def parse_rfc3339_def default_settings_def seconds_def memory_live_def empty_store_def
        reads_tokens_def\<close>)
  then show ?thesis using poll by blast
qed

end
